(* ===== verification/Prelude.thy ===== *)
theory Prelude
  imports Main "HOL-Library.Word"
begin

text \<open>
  Shared vocabulary of the development: machine-word types of the C++ sources, the
  collections of rewrite rules that the component proofs draw on, and generic lemmas on
  words, lists and bits.
\<close>

unbundle bit_operations_syntax

type_synonym u8 = "8 word"
type_synonym u16 = "16 word"
type_synonym u32 = "32 word"
type_synonym u64 = "64 word"
type_synonym bytes = "8 word list"

named_theorems limb_simps \<open>value and length of limb-array operations\<close>

subsection \<open>Carry arithmetic on 64-bit words\<close>

text \<open>A 64-bit sum that fits is the sum of the values; its low and high halves are the
  remainder and the quotient by \<open>2 ^ 32\<close>.\<close>

lemma unat_less_32: "unat (x :: u32) < 4294967296"
  using unsigned_less [of x, where ?'a = nat] by simp

lemma unat_ucast_32_64 [simp]: "unat (ucast (x :: u32) :: u64) = unat x"
proof -
  have "unat x < 2 ^ 64"
    by (rule less_trans [OF unat_less_32]) simp
  then show ?thesis by (simp add: unsigned_ucast_eq take_bit_nat_eq_self)
qed

lemma unat_minus_1_32: "unat (- 1 :: u32) = 4294967295"
  by (simp add: unsigned_minus_1_eq_mask mask_eq_exp_minus_1)

lemma unat_not_32: "unat (NOT x :: u32) = 4294967295 - unat x"
proof -
  have "NOT x = - 1 - x" by (simp add: not_eq_complement)
  then show ?thesis by (simp add: unat_sub unat_minus_1_32)
qed

lemma low_half: "unat (ucast (n AND 0xffffffff :: u64) :: u32) = unat n mod 2 ^ 32"
proof -
  have "n AND 0xffffffff = take_bit 32 n"
    by (simp add: take_bit_eq_mask mask_eq_exp_minus_1)
  then have "ucast (n AND 0xffffffff) = (ucast n :: u32)"
    by (simp only:) (rule bit_word_eqI, simp add: bit_simps)
  then show ?thesis
    by (simp add: unsigned_ucast_eq take_bit_eq_mod)
qed

lemma high_half: "unat (drop_bit 32 (n :: u64)) = unat n div 2 ^ 32"
  unfolding unat_drop_bit_eq by (rule drop_bit_eq_div)


subsection \<open>Positional arithmetic\<close>

lemma digit_eq_iff:
  fixes a b c d m :: nat
  assumes "a < m" and "c < m"
  shows "a + m * b = c + m * d \<longleftrightarrow> a = c \<and> b = d"
proof
  assume eq: "a + m * b = c + m * d"
  from eq have "(a + m * b) mod m = (c + m * d) mod m" by simp
  with assms have "a = c" by simp
  moreover from eq have "(a + m * b) div m = (c + m * d) div m" by simp
  ultimately show "a = c \<and> b = d" using assms by auto
qed simp

lemma digit_less:
  fixes a b m n :: nat
  assumes "a < m" and "b < n"
  shows "a + m * b < m * n"
proof -
  have "a + m * b < m * Suc b" using assms(1) by simp
  also have "\<dots> \<le> m * n" using assms(2) by (intro mult_le_mono2) simp
  finally show ?thesis .
qed

lemma digit_mod:
  fixes a m r p :: nat
  assumes "a < m"
  shows "(a + m * r) mod (m * p) = a + m * (r mod p)"
  using assms by (simp add: mod_mult2_eq)

lemma carry_step:
  fixes n m r p :: nat
  shows "n mod m + m * ((n div m + r) mod p) = (n + m * r) mod (m * p)"
proof (cases "m = 0")
  case False
  then have "(n mod m + m * (n div m + r)) mod (m * p) = n mod m + m * ((n div m + r) mod p)"
    by (intro digit_mod) simp
  moreover have "n mod m + m * (n div m + r) = n + m * r"
    by (simp add: add_mult_distrib2 flip: add.assoc)
  ultimately show ?thesis by simp
qed simp

lemma euclid_div_mod:
  fixes x q r m :: nat
  assumes "x = m * q + r" and "r < m"
  shows "x div m = q \<and> x mod m = r"
  using assms by simp

end
