(* ===== verification/Arith_Uint256.thy ===== *)
theory Arith_Uint256
  imports Prelude
begin

text \<open>
  The unsigned big integers of \<^verbatim>\<open>arith_uint256.h\<close> and \<^verbatim>\<open>arith_uint256.cpp\<close>
  (template class \<^verbatim>\<open>base_uint<BITS>\<close>). A value is its array \<^verbatim>\<open>pn\<close> of 32-bit limbs,
  least significant first; \<open>length pn\<close> is the template's \<^verbatim>\<open>WIDTH\<close>. Loops over the limbs
  that read and write position \<open>i\<close> only are recursions over the arrays with the
  64-bit carry as a parameter; loops that write elsewhere keep their index.
\<close>

unbundle bit_operations_syntax

type_synonym base_uint = "u32 list"

datatype uint_error = Division_by_zero

subsection \<open>Construction, logic and increments\<close>

definition base_uint_zero :: "nat \<Rightarrow> base_uint" where
  "base_uint_zero w = replicate w 0"

definition base_uint_u64 :: "nat \<Rightarrow> u64 \<Rightarrow> base_uint" where
  "base_uint_u64 w b = ucast b # ucast (drop_bit 32 b) # replicate (w - 2) 0"

definition bu_is_zero :: "base_uint \<Rightarrow> bool" where
  "bu_is_zero pn = list_all (\<lambda>x. x = 0) pn"

definition bu_not :: "base_uint \<Rightarrow> base_uint" where
  "bu_not pn = map NOT pn"

fun bu_incr :: "base_uint \<Rightarrow> base_uint" where
  "bu_incr [] = []"
| "bu_incr (x # xs) = (let y = x + 1 in if y = 0 then y # bu_incr xs else y # xs)"

fun bu_decr :: "base_uint \<Rightarrow> base_uint" where
  "bu_decr [] = []"
| "bu_decr (x # xs) = (let y = x - 1 in if y = -1 then y # bu_decr xs else y # xs)"

definition bu_neg :: "base_uint \<Rightarrow> base_uint" where
  "bu_neg pn = bu_incr (map NOT pn)"

definition bu_xor :: "base_uint \<Rightarrow> base_uint \<Rightarrow> base_uint" where
  "bu_xor a b = map2 (XOR) a b"

definition bu_and :: "base_uint \<Rightarrow> base_uint \<Rightarrow> base_uint" where
  "bu_and a b = map2 (AND) a b"

definition bu_or :: "base_uint \<Rightarrow> base_uint \<Rightarrow> base_uint" where
  "bu_or a b = map2 (OR) a b"

subsection \<open>Addition, subtraction, multiplication\<close>

fun bu_add_loop :: "u64 \<Rightarrow> base_uint \<Rightarrow> base_uint \<Rightarrow> base_uint" where
  "bu_add_loop carry (x # xs) (y # ys) =
     (let n = carry + ucast x + ucast y
      in ucast (n AND 0xffffffff) # bu_add_loop (drop_bit 32 n) xs ys)"
| "bu_add_loop carry xs ys = []"

definition bu_add :: "base_uint \<Rightarrow> base_uint \<Rightarrow> base_uint" where
  "bu_add a b = bu_add_loop 0 a b"

definition bu_sub :: "base_uint \<Rightarrow> base_uint \<Rightarrow> base_uint" where
  "bu_sub a b = bu_add a (bu_neg b)"

fun bu_mul32_loop :: "u64 \<Rightarrow> u32 \<Rightarrow> base_uint \<Rightarrow> base_uint" where
  "bu_mul32_loop carry b32 (x # xs) =
     (let n = carry + ucast b32 * ucast x
      in ucast (n AND 0xffffffff) # bu_mul32_loop (drop_bit 32 n) b32 xs)"
| "bu_mul32_loop carry b32 [] = []"

definition bu_mul32 :: "base_uint \<Rightarrow> u32 \<Rightarrow> base_uint" where
  "bu_mul32 a b32 = bu_mul32_loop 0 b32 a"

text \<open>The inner loop runs over the limbs \<^verbatim>\<open>pn[j..]\<close> and stops at the end of the shorter of
  \<^verbatim>\<open>pn[j..]\<close> and \<^verbatim>\<open>b\<close>, which is the test \<^verbatim>\<open>i + j < WIDTH\<close>.\<close>

fun bu_mul_inner :: "u32 \<Rightarrow> u64 \<Rightarrow> base_uint \<Rightarrow> base_uint \<Rightarrow> base_uint" where
  "bu_mul_inner aj carry (p # ps) (b # bs) =
     (let n = carry + ucast p + ucast aj * ucast b
      in ucast (n AND 0xffffffff) # bu_mul_inner aj (drop_bit 32 n) ps bs)"
| "bu_mul_inner aj carry ps bs = ps"

fun bu_mul_outer :: "nat \<Rightarrow> base_uint \<Rightarrow> base_uint \<Rightarrow> base_uint \<Rightarrow> base_uint" where
  "bu_mul_outer j [] b pn = pn"
| "bu_mul_outer j (aj # as) b pn =
     bu_mul_outer (Suc j) as b (take j pn @ bu_mul_inner aj 0 (drop j pn) b)"

definition bu_mul :: "base_uint \<Rightarrow> base_uint \<Rightarrow> base_uint" where
  "bu_mul a b = bu_mul_outer 0 a b (base_uint_zero (length a))"

subsection \<open>Shifts\<close>

definition bu_shl_step :: "base_uint \<Rightarrow> nat \<Rightarrow> nat \<Rightarrow> base_uint \<Rightarrow> nat \<Rightarrow> base_uint" where
  "bu_shl_step a k shift pn i =
     (let w = length pn;
          pn = (if i + k + 1 < w \<and> shift \<noteq> 0
                then pn[i + k + 1 := pn ! (i + k + 1) OR drop_bit (32 - shift) (a ! i)] else pn)
      in if i + k < w then pn[i + k := pn ! (i + k) OR push_bit shift (a ! i)] else pn)"

definition bu_shl :: "base_uint \<Rightarrow> nat \<Rightarrow> base_uint" where
  "bu_shl a shift =
     foldl (bu_shl_step a (shift div 32) (shift mod 32)) (base_uint_zero (length a)) [0..<length a]"

definition bu_shr_step :: "base_uint \<Rightarrow> nat \<Rightarrow> nat \<Rightarrow> base_uint \<Rightarrow> nat \<Rightarrow> base_uint" where
  "bu_shr_step a k shift pn i =
     (let pn = (if k + 1 \<le> i \<and> shift \<noteq> 0
                then pn[i - k - 1 := pn ! (i - k - 1) OR push_bit (32 - shift) (a ! i)] else pn)
      in if k \<le> i then pn[i - k := pn ! (i - k) OR drop_bit shift (a ! i)] else pn)"

definition bu_shr :: "base_uint \<Rightarrow> nat \<Rightarrow> base_uint" where
  "bu_shr a shift =
     foldl (bu_shr_step a (shift div 32) (shift mod 32)) (base_uint_zero (length a)) [0..<length a]"

subsection \<open>Comparison and bit length\<close>

fun bu_compare_loop :: "base_uint \<Rightarrow> base_uint \<Rightarrow> nat \<Rightarrow> int" where
  "bu_compare_loop pn b 0 = 0"
| "bu_compare_loop pn b (Suc i) =
     (if pn ! i < b ! i then -1 else if pn ! i > b ! i then 1 else bu_compare_loop pn b i)"

definition CompareTo :: "base_uint \<Rightarrow> base_uint \<Rightarrow> int" where
  "CompareTo pn b = bu_compare_loop pn b (length pn)"

definition EqualTo :: "base_uint \<Rightarrow> u64 \<Rightarrow> bool" where
  "EqualTo pn b =
     (if \<not> list_all (\<lambda>x. x = 0) (drop 2 pn) then False
      else if ucast (pn ! 1) \<noteq> drop_bit 32 b then False
      else if ucast (pn ! 0) \<noteq> b AND 0xffffffff then False
      else True)"

fun bu_top_bit :: "u32 \<Rightarrow> nat \<Rightarrow> nat" where
  "bu_top_bit x 0 = 1"
| "bu_top_bit x (Suc b) = (if x AND push_bit (Suc b) 1 \<noteq> 0 then Suc b + 1 else bu_top_bit x b)"

fun bu_bits_loop :: "base_uint \<Rightarrow> nat \<Rightarrow> nat" where
  "bu_bits_loop pn 0 = 0"
| "bu_bits_loop pn (Suc pos) =
     (if pn ! pos \<noteq> 0 then 32 * pos + bu_top_bit (pn ! pos) 31 else bu_bits_loop pn pos)"

definition bu_bits :: "base_uint \<Rightarrow> nat" where
  "bu_bits pn = bu_bits_loop pn (length pn)"

definition GetLow64 :: "base_uint \<Rightarrow> u64" where
  "GetLow64 pn = ucast (pn ! 0) OR push_bit 32 (ucast (pn ! 1))"

subsection \<open>Division\<close>

text \<open>One iteration of the long division for the current \<^verbatim>\<open>shift\<close>; the loop runs from
  \<^verbatim>\<open>num_bits - div_bits\<close> down to 0.\<close>

fun bu_div_loop :: "nat \<Rightarrow> base_uint \<Rightarrow> base_uint \<Rightarrow> base_uint \<Rightarrow> base_uint" where
  "bu_div_loop 0 num dv pn = pn"
| "bu_div_loop (Suc shift) num dv pn =
     (if CompareTo num dv \<ge> 0
      then bu_div_loop shift (bu_sub num dv) (bu_shr dv 1)
             (pn[shift div 32 := pn ! (shift div 32) OR push_bit (shift mod 32) 1])
      else bu_div_loop shift num (bu_shr dv 1) pn)"

definition bu_divide :: "base_uint \<Rightarrow> base_uint \<Rightarrow> uint_error + base_uint" where
  "bu_divide a b =
     (let pn = base_uint_u64 (length a) 0;
          num_bits = bu_bits a; div_bits = bu_bits b
      in if div_bits = 0 then Inl Division_by_zero
         else if div_bits > num_bits then Inr pn
         else let shift = num_bits - div_bits
              in Inr (bu_div_loop (Suc shift) a (bu_shl b shift) pn))"


subsection \<open>The value of a limb array\<close>

fun uval :: "base_uint \<Rightarrow> nat" where
  "uval [] = 0"
| "uval (x # xs) = unat x + 2 ^ 32 * uval xs"

lemma uval_bound: "uval xs < 2 ^ (32 * length xs)"
proof (induction xs)
  case (Cons x xs)
  with unat_less_32 [of x] have "unat x + 4294967296 * uval xs < 4294967296 * 2 ^ (32 * length xs)"
    by (rule digit_less)
  then show ?case by (simp add: power_add)
qed simp

lemma uval_append: "uval (xs @ ys) = uval xs + 2 ^ (32 * length xs) * uval ys"
  by (induction xs) (simp_all add: power_add algebra_simps)

lemma uval_replicate_0 [simp]: "uval (replicate n 0) = 0"
  by (induction n) simp_all

lemma length_zero [simp]: "length (base_uint_zero w) = w"
  and uval_zero [simp]: "uval (base_uint_zero w) = 0"
  by (simp_all add: base_uint_zero_def)

lemma uval_inject: "length xs = length ys \<Longrightarrow> uval xs = uval ys \<longleftrightarrow> xs = ys"
proof (induction xs ys rule: list_induct2)
  case (Cons x xs y ys)
  have "unat x + 2 ^ 32 * uval xs = unat y + 2 ^ 32 * uval ys \<longleftrightarrow>
      unat x = unat y \<and> uval xs = uval ys"
    by (rule digit_eq_iff) (simp_all add: unat_less_32)
  with Cons show ?case by (simp add: word_unat_eq_iff)
qed simp

lemma length_u64 [simp]: "2 \<le> w \<Longrightarrow> length (base_uint_u64 w b) = w"
  by (simp add: base_uint_u64_def)

lemma uval_u64 [simp]: "uval (base_uint_u64 w b) = unat b"
proof -
  have "unat (drop_bit 32 b) < 2 ^ 32"
    unfolding high_half using unsigned_less [of b, where ?'a = nat] by simp
  moreover have "unat (ucast b :: u32) = unat b mod 2 ^ 32"
    by (simp add: unsigned_ucast_eq take_bit_eq_mod)
  moreover have "unat (ucast (drop_bit 32 b) :: u32) = unat (drop_bit 32 b) mod 2 ^ 32"
    by (simp add: unsigned_ucast_eq take_bit_eq_mod del: drop_bit_eq_div)
  ultimately show ?thesis
    by (simp add: base_uint_u64_def high_half)
qed

lemma is_zero_iff: "bu_is_zero pn \<longleftrightarrow> uval pn = 0"
  by (induction pn) (auto simp: bu_is_zero_def unat_eq_0)


subsection \<open>Arithmetic is arithmetic modulo the width\<close>

lemma pow32_Suc: "2 ^ (32 * Suc n) = (4294967296 :: nat) * 2 ^ (32 * n)"
  by (simp add: power_add)

lemma length_incr [simp, limb_simps]: "length (bu_incr xs) = length xs"
  by (induction xs) (simp_all add: Let_def)

lemma uval_incr: "uval (bu_incr xs) = (uval xs + 1) mod 2 ^ (32 * length xs)"
proof (induction xs)
  case (Cons x xs)
  show ?case
  proof (cases "x + 1 = 0")
    case True
    then have "x = - 1" by (simp add: eq_neg_iff_add_eq_0)
    then have "unat x = 4294967295" by (simp add: unat_minus_1_32)
    then have "uval (x # xs) + 1 = 4294967296 * (uval xs + 1)" by simp
    moreover have "uval (bu_incr (x # xs)) = 4294967296 * uval (bu_incr xs)"
      using True by simp
    ultimately show ?thesis
      by (simp only: Cons.IH length_Cons pow32_Suc mult_mod_right)
  next
    case False
    then have "unat (x + 1) = unat x + 1"
      by (metis add.commute Suc_eq_plus1 unatSuc)
    with False have *: "uval (bu_incr (x # xs)) = uval (x # xs) + 1"
      by simp
    moreover have "uval (bu_incr (x # xs)) < 2 ^ (32 * length (x # xs))"
      by (metis length_incr uval_bound)
    ultimately show ?thesis by simp
  qed
qed simp

lemma uval_map_not: "uval (map NOT xs) + uval xs + 1 = 2 ^ (32 * length xs)"
proof (induction xs)
  case (Cons x xs)
  have "unat (NOT x) + unat x = 4294967295"
    using unat_less_32 [of x] by (simp add: unat_not_32)
  then have "uval (map NOT (x # xs)) + uval (x # xs) + 1
      = 4294967296 * (uval (map NOT xs) + uval xs + 1)" by simp
  then show ?case by (simp only: Cons.IH length_Cons pow32_Suc)
qed simp

lemma length_neg [simp, limb_simps]: "length (bu_neg xs) = length xs"
  by (simp add: bu_neg_def)

lemma uval_neg: "uval (bu_neg xs) = (2 ^ (32 * length xs) - uval xs) mod 2 ^ (32 * length xs)"
proof -
  have "uval (map NOT xs) + 1 = 2 ^ (32 * length xs) - uval xs"
    using uval_map_not [of xs] by linarith
  then show ?thesis by (simp only: bu_neg_def uval_incr length_map)
qed

lemma length_add_loop [simp, limb_simps]: "length (bu_add_loop c xs ys) = min (length xs) (length ys)"
  by (induction c xs ys rule: bu_add_loop.induct) (simp_all add: Let_def)

lemma uval_add_loop:
  assumes "length xs = length ys" and "unat c < 4294967296"
  shows "uval (bu_add_loop c xs ys) = (unat c + uval xs + uval ys) mod 2 ^ (32 * length xs)"
  using assms
proof (induction xs ys arbitrary: c rule: list_induct2)
  case (Cons x xs y ys)
  let ?n = "c + ucast x + ucast y :: u64"
  have n: "unat ?n = unat c + unat x + unat y"
    using Cons.prems unat_less_32 [of x] unat_less_32 [of y]
    by (simp add: unat_word_ariths)
  have "unat (drop_bit 32 ?n) < 4294967296"
    unfolding high_half n using Cons.prems unat_less_32 [of x] unat_less_32 [of y] by simp
  then have IH: "uval (bu_add_loop (drop_bit 32 ?n) xs ys)
      = (unat ?n div 4294967296 + (uval xs + uval ys)) mod 2 ^ (32 * length xs)"
    using Cons.IH high_half [of ?n] by (simp add: add.assoc)
  have "uval (bu_add_loop c (x # xs) (y # ys))
      = unat ?n mod 4294967296 + 4294967296 * uval (bu_add_loop (drop_bit 32 ?n) xs ys)"
    using low_half [of ?n] by (simp add: Let_def)
  also have "\<dots> = (unat ?n + 4294967296 * (uval xs + uval ys)) mod 2 ^ (32 * length (x # xs))"
    unfolding IH length_Cons pow32_Suc by (rule carry_step)
  also have "unat ?n + 4294967296 * (uval xs + uval ys) = unat c + uval (x # xs) + uval (y # ys)"
    unfolding n by simp
  finally show ?case .
qed simp


lemma length_add [simp, limb_simps]: "length (bu_add a b) = min (length a) (length b)"
  by (simp add: bu_add_def)

lemma uval_add: "length a = length b \<Longrightarrow> uval (bu_add a b) = (uval a + uval b) mod 2 ^ (32 * length a)"
  by (simp add: bu_add_def uval_add_loop)

lemma length_sub [simp, limb_simps]: "length (bu_sub a b) = min (length a) (length b)"
  by (simp add: bu_sub_def)

lemma uval_sub:
  assumes "length a = length b"
  shows "uval (bu_sub a b) = (uval a + (2 ^ (32 * length a) - uval b)) mod 2 ^ (32 * length a)"
  using assms by (simp add: bu_sub_def uval_add uval_neg mod_add_right_eq)

lemma uval_sub_le:
  assumes "length a = length b" and "uval b \<le> uval a"
  shows "uval (bu_sub a b) = uval a - uval b"
proof -
  have "uval a + (2 ^ (32 * length a) - uval b) = (uval a - uval b) + 2 ^ (32 * length a)"
    using assms uval_bound [of b] by simp
  moreover have "uval a - uval b < 2 ^ (32 * length a)"
    using uval_bound [of a] by simp
  ultimately show ?thesis by (simp add: uval_sub assms(1))
qed

lemma length_mul32_loop [simp, limb_simps]: "length (bu_mul32_loop c b xs) = length xs"
  by (induction xs arbitrary: c) (simp_all add: Let_def)

text \<open>A limb product plus two limbs still fits 64 bits.\<close>

lemma limb_product_bound:
  assumes "a \<le> (4294967295 :: nat)" and "b \<le> 4294967295" and "c \<le> 4294967295" and "p \<le> 4294967295"
  shows "c + p + a * b < 18446744073709551616"
proof -
  have "a * b \<le> 4294967295 * 4294967295" by (rule mult_le_mono) (use assms in simp_all)
  with assms show ?thesis by simp
qed

lemma unat_mul_acc:
  fixes c :: u64
  assumes "unat c < 4294967296"
  shows "unat (c + ucast (p :: u32) + ucast (a :: u32) * ucast (b :: u32)) = unat c + unat p + unat a * unat b"
    and "unat (drop_bit 32 (c + ucast p + ucast a * ucast b)) < 4294967296"
proof -
  have "unat c + unat p + unat a * unat b < 18446744073709551616"
    using limb_product_bound [of "unat a" "unat b" "unat c" "unat p"] assms
      unat_less_32 [of a] unat_less_32 [of b] unat_less_32 [of p] by simp
  then show *: "unat (c + ucast p + ucast a * ucast b) = unat c + unat p + unat a * unat b"
    by (simp add: unat_word_ariths mod_simps)
  show "unat (drop_bit 32 (c + ucast p + ucast a * ucast b)) < 4294967296"
    unfolding high_half using unsigned_less [of "c + ucast p + ucast a * ucast b", where ?'a = nat]
    by simp
qed

lemma uval_mul32_loop:
  "unat c < 4294967296 \<Longrightarrow>
     uval (bu_mul32_loop c b xs) = (unat c + unat b * uval xs) mod 2 ^ (32 * length xs)"
proof (induction xs arbitrary: c)
  case (Cons x xs)
  let ?n = "c + ucast b * ucast x :: u64"
  have n: "unat ?n = unat c + unat b * unat x" and carry: "unat (drop_bit 32 ?n) < 4294967296"
    using unat_mul_acc [of c 0 b x] Cons.prems by simp_all
  have "uval (bu_mul32_loop c b (x # xs))
      = unat ?n mod 4294967296 + 4294967296 * uval (bu_mul32_loop (drop_bit 32 ?n) b xs)"
    using low_half [of ?n] by (simp add: Let_def)
  also have "\<dots> = (unat ?n + 4294967296 * (unat b * uval xs)) mod 2 ^ (32 * length (x # xs))"
    unfolding Cons.IH [OF carry] length_Cons pow32_Suc high_half
    using carry_step [of "unat ?n" 4294967296] by simp
  also have "unat ?n + 4294967296 * (unat b * uval xs) = unat c + unat b * uval (x # xs)"
    unfolding n by (simp add: algebra_simps)
  finally show ?case .
qed simp

lemma length_mul32 [simp, limb_simps]: "length (bu_mul32 a b) = length a"
  by (simp add: bu_mul32_def)

lemma uval_mul32: "uval (bu_mul32 a b) = (uval a * unat b) mod 2 ^ (32 * length a)"
  by (simp add: bu_mul32_def uval_mul32_loop mult.commute)

lemma length_mul_inner [simp, limb_simps]: "length (bu_mul_inner aj c ps bs) = length ps"
  by (induction aj c ps bs rule: bu_mul_inner.induct) (simp_all add: Let_def)

lemma uval_mul_inner:
  "length ps \<le> length bs \<Longrightarrow> unat c < 4294967296 \<Longrightarrow>
     uval (bu_mul_inner aj c ps bs) = (unat c + uval ps + unat aj * uval bs) mod 2 ^ (32 * length ps)"
proof (induction aj c ps bs rule: bu_mul_inner.induct)
  case (1 aj c p ps b bs)
  let ?n = "c + ucast p + ucast aj * ucast b :: u64"
  note n = unat_mul_acc [OF "1.prems"(2), of p aj b]
  have "length ps \<le> length bs" using "1.prems" by simp
  then have IH: "uval (bu_mul_inner aj (drop_bit 32 ?n) ps bs)
      = (unat ?n div 4294967296 + (uval ps + unat aj * uval bs)) mod 2 ^ (32 * length ps)"
    using "1.IH" [OF refl _ n(2)] high_half [of ?n] by (simp add: add.assoc)
  have "uval (bu_mul_inner aj c (p # ps) (b # bs))
      = unat ?n mod 4294967296 + 4294967296 * uval (bu_mul_inner aj (drop_bit 32 ?n) ps bs)"
    using low_half [of ?n] by (simp add: Let_def)
  also have "\<dots> = (unat ?n + 4294967296 * (uval ps + unat aj * uval bs)) mod 2 ^ (32 * length (p # ps))"
    unfolding IH length_Cons pow32_Suc by (rule carry_step)
  also have "unat ?n + 4294967296 * (uval ps + unat aj * uval bs)
      = unat c + uval (p # ps) + unat aj * uval (b # bs)"
    unfolding n(1) by (simp add: algebra_simps)
  finally show ?case .
qed simp_all


lemma uval_take_drop: "uval xs = uval (take j xs) + 2 ^ (32 * length (take j xs)) * uval (drop j xs)"
  by (metis append_take_drop_id uval_append)

lemma length_mul_outer [simp, limb_simps]:
  "j + length as = length pn \<Longrightarrow> length (bu_mul_outer j as b pn) = length pn"
  by (induction as arbitrary: j pn) simp_all

lemma uval_mul_outer:
  "j + length as = length pn \<Longrightarrow> length b = length pn \<Longrightarrow>
     uval (bu_mul_outer j as b pn) = (uval pn + 2 ^ (32 * j) * (uval as * uval b)) mod 2 ^ (32 * length pn)"
proof (induction as arbitrary: j pn)
  case Nil
  then show ?case using uval_bound [of pn] by simp
next
  case (Cons aj as)
  let ?pn = "take j pn @ bu_mul_inner aj 0 (drop j pn) b"
  let ?M = "2 ^ (32 * length pn) :: nat"
  have j: "j \<le> length pn" and lb: "length (drop j pn) \<le> length b" using Cons.prems by simp_all
  have split: "?M = 2 ^ (32 * j) * 2 ^ (32 * length (drop j pn))"
    using j by (simp flip: power_add distrib_left)
  have "uval ?pn = uval (take j pn) + 2 ^ (32 * j) * ((uval (drop j pn) + unat aj * uval b) mod 2 ^ (32 * length (drop j pn)))"
    using j by (simp add: uval_append uval_mul_inner [OF lb])
  also have "\<dots> = (uval (take j pn) + 2 ^ (32 * j) * (uval (drop j pn) + unat aj * uval b)) mod ?M"
    unfolding split using uval_bound [of "take j pn"] j by (subst digit_mod) simp_all
  also have "uval (take j pn) + 2 ^ (32 * j) * (uval (drop j pn) + unat aj * uval b)
      = uval pn + 2 ^ (32 * j) * (unat aj * uval b)"
    using uval_take_drop [of pn j] j by (simp add: distrib_left)
  finally have pn': "uval ?pn = (uval pn + 2 ^ (32 * j) * (unat aj * uval b)) mod ?M" .
  have "uval (bu_mul_outer j (aj # as) b pn)
      = (uval ?pn + 2 ^ (32 * Suc j) * (uval as * uval b)) mod 2 ^ (32 * length ?pn)"
    using Cons.IH [of "Suc j" ?pn] Cons.prems by simp
  also have "\<dots> = (uval pn + 2 ^ (32 * j) * (unat aj * uval b) + 2 ^ (32 * Suc j) * (uval as * uval b)) mod ?M"
    using j by (simp add: pn' mod_add_left_eq)
  also have "uval pn + 2 ^ (32 * j) * (unat aj * uval b) + 2 ^ (32 * Suc j) * (uval as * uval b)
      = uval pn + 2 ^ (32 * j) * (uval (aj # as) * uval b)"
    by (simp add: power_add algebra_simps)
  finally show ?case .
qed

lemma length_mul [simp, limb_simps]: "length (bu_mul a b) = length a"
  by (simp add: bu_mul_def)

lemma uval_mul: "length a = length b \<Longrightarrow> uval (bu_mul a b) = (uval a * uval b) mod 2 ^ (32 * length a)"
  by (simp add: bu_mul_def uval_mul_outer)

subsection \<open>Bits and shifts\<close>

lemma bit_uval:
  "bit (uval xs) n \<longleftrightarrow> n div 32 < length xs \<and> bit (xs ! (n div 32)) (n mod 32)"
proof (induction xs arbitrary: n)
  case (Cons x xs)
  have disj: "unat x AND push_bit 32 (uval xs) = 0"
    by (rule bit_eqI) (auto simp: bit_simps dest: bit_imp_le_length)
  have "uval (x # xs) = unat x + push_bit 32 (uval xs)"
    by (simp add: push_bit_eq_mult)
  also have "\<dots> = unat x OR push_bit 32 (uval xs)"
    using disj by (rule disjunctive_add_eq_or)
  finally have eq: "bit (uval (x # xs)) n \<longleftrightarrow> bit x n \<or> 32 \<le> n \<and> bit (uval xs) (n - 32)"
    by (simp add: bit_simps)
  show ?case
  proof (cases "n < 32")
    case True
    then show ?thesis by (simp add: eq del: uval.simps)
  next
    case False
    then have "n div 32 = Suc ((n - 32) div 32)" and "n mod 32 = (n - 32) mod 32"
      by (simp_all add: le_div_geq le_mod_geq)
    with False show ?thesis
      by (auto simp: eq Cons.IH simp del: uval.simps dest: bit_imp_le_length)
  qed
qed simp

lemma length_shl_step [simp]: "length (bu_shl_step a k s pn i) = length pn"
  by (simp add: bu_shl_step_def Let_def)

lemma nth_shl_step:
  assumes "j < length pn"
  shows "bu_shl_step a k s pn i ! j = pn ! j
      OR (if j = i + k then push_bit s (a ! i) else 0)
      OR (if j = i + k + 1 \<and> s \<noteq> 0 then drop_bit (32 - s) (a ! i) else 0)"
  using assms by (auto simp: bu_shl_step_def Let_def nth_list_update)

lemma shl_loop:
  assumes "length pn = w" and "\<forall>j < w. pn ! j = 0"
  shows "length (foldl (bu_shl_step a k s) pn [0..<t]) = w \<and>
    (\<forall>j < w. foldl (bu_shl_step a k s) pn [0..<t] ! j =
      (if k \<le> j \<and> j - k < t then push_bit s (a ! (j - k)) else 0)
      OR (if k + 1 \<le> j \<and> j - k - 1 < t \<and> s \<noteq> 0 then drop_bit (32 - s) (a ! (j - k - 1)) else 0))"
proof (induction t)
  case 0
  then show ?case using assms by simp
next
  case (Suc t)
  then have len: "length (foldl (bu_shl_step a k s) pn [0..<t]) = w" by simp
  show ?case
  proof (intro conjI allI impI)
    show "length (foldl (bu_shl_step a k s) pn [0..<Suc t]) = w" using len by simp
    fix j assume j: "j < w"
    consider "j = t + k" | "j = t + k + 1" | "j \<noteq> t + k" "j \<noteq> t + k + 1" by blast
    then show "foldl (bu_shl_step a k s) pn [0..<Suc t] ! j =
      (if k \<le> j \<and> j - k < Suc t then push_bit s (a ! (j - k)) else 0)
      OR (if k + 1 \<le> j \<and> j - k - 1 < Suc t \<and> s \<noteq> 0 then drop_bit (32 - s) (a ! (j - k - 1)) else 0)"
      using Suc.IH j len by cases (auto simp: nth_shl_step less_Suc_eq or.assoc or.commute or.left_commute)
  qed
qed


lemma length_shl [simp, limb_simps]: "length (bu_shl a n) = length a"
  using shl_loop [of "base_uint_zero (length a)"] by (simp add: bu_shl_def base_uint_zero_def)

lemma nth_shl:
  assumes "j < length a"
  shows "bu_shl a n ! j =
      (if n div 32 \<le> j then push_bit (n mod 32) (a ! (j - n div 32)) else 0)
      OR (if n div 32 + 1 \<le> j \<and> n mod 32 \<noteq> 0 then drop_bit (32 - n mod 32) (a ! (j - n div 32 - 1)) else 0)"
  using shl_loop [of "base_uint_zero (length a)" "length a" a "n div 32" "n mod 32" "length a"] assms
  by (auto simp: bu_shl_def base_uint_zero_def)

lemma bit_uval_shl:
  "bit (uval (bu_shl a n)) m \<longleftrightarrow> m < 32 * length a \<and> n \<le> m \<and> bit (uval a) (m - n)"
proof (cases "m < 32 * length a")
  case False
  then have "\<not> m div 32 < length a" by (simp add: div_less_iff_less_mult mult.commute)
  with False show ?thesis by (simp add: bit_uval)
next
  case True
  define k s j r where "k = n div 32" "s = n mod 32" "j = m div 32" "r = m mod 32"
  have n: "n = 32 * k + s" and m: "m = 32 * j + r" and s: "s < 32" and r: "r < 32"
    by (simp_all add: k_s_j_r_def)
  have j: "j < length a" using True m by simp
  have "bit (uval (bu_shl a n)) m \<longleftrightarrow> bit (bu_shl a n ! j) r"
    using j by (simp add: bit_uval k_s_j_r_def)
  also have "\<dots> \<longleftrightarrow> (k \<le> j \<and> s \<le> r \<and> bit (a ! (j - k)) (r - s)) \<or>
      (k + 1 \<le> j \<and> s \<noteq> 0 \<and> bit (a ! (j - k - 1)) (32 - s + r))"
    using nth_shl [OF j, of n] r by (auto simp: bit_simps k_s_j_r_def)
  also have "\<dots> \<longleftrightarrow> n \<le> m \<and> bit (uval a) (m - n)"
  proof (cases "s \<le> r")
    case True
    have le: "n \<le> m \<longleftrightarrow> k \<le> j" using n m True r by presburger
    have big: "\<not> bit (a ! (j - k - 1)) (32 - s + r)" using True by (auto dest: bit_imp_le_length)
    show ?thesis
    proof (cases "k \<le> j")
      case True': True
      have "m - n = 32 * (j - k) + (r - s)" using n m True True' by (simp add: diff_mult_distrib2)
      then have "(m - n) div 32 = j - k \<and> (m - n) mod 32 = r - s"
        by (rule euclid_div_mod) (use r in simp)
      with j True True' big show ?thesis by (auto simp: le bit_uval)
    qed (use le big in simp)
  next
    case False
    have le: "n \<le> m \<longleftrightarrow> k + 1 \<le> j" using n m False s r by presburger
    show ?thesis
    proof (cases "k + 1 \<le> j")
      case True
      have "m - n = 32 * (j - k - 1) + (32 - s + r)" using n m False True s by (simp add: diff_mult_distrib2)
      then have "(m - n) div 32 = j - k - 1 \<and> (m - n) mod 32 = 32 - s + r"
        by (rule euclid_div_mod) (use False s in simp)
      with j True False show ?thesis by (auto simp: le bit_uval)
    qed (use le False in simp)
  qed
  finally show ?thesis using True by simp
qed

lemma uval_shl: "uval (bu_shl a n) = (uval a * 2 ^ n) mod 2 ^ (32 * length a)"
proof -
  have "uval (bu_shl a n) = take_bit (32 * length a) (push_bit n (uval a))"
    by (rule bit_eqI) (auto simp: bit_uval_shl bit_simps)
  then show ?thesis by (simp only: take_bit_eq_mod push_bit_eq_mult)
qed

lemma length_shr_step [simp]: "length (bu_shr_step a k s pn i) = length pn"
  by (simp add: bu_shr_step_def Let_def)

lemma nth_shr_step:
  assumes "j < length pn"
  shows "bu_shr_step a k s pn i ! j = pn ! j
      OR (if i = j + k then drop_bit s (a ! i) else 0)
      OR (if i = j + k + 1 \<and> s \<noteq> 0 then push_bit (32 - s) (a ! i) else 0)"
  using assms by (auto simp: bu_shr_step_def Let_def nth_list_update)

lemma shr_loop:
  assumes "length pn = w" and "\<forall>j < w. pn ! j = 0"
  shows "length (foldl (bu_shr_step a k s) pn [0..<t]) = w \<and>
    (\<forall>j < w. foldl (bu_shr_step a k s) pn [0..<t] ! j =
      (if j + k < t then drop_bit s (a ! (j + k)) else 0)
      OR (if j + k + 1 < t \<and> s \<noteq> 0 then push_bit (32 - s) (a ! (j + k + 1)) else 0))"
proof (induction t)
  case 0
  then show ?case using assms by simp
next
  case (Suc t)
  then have len: "length (foldl (bu_shr_step a k s) pn [0..<t]) = w" by simp
  show ?case
  proof (intro conjI allI impI)
    show "length (foldl (bu_shr_step a k s) pn [0..<Suc t]) = w" using len by simp
    fix j assume j: "j < w"
    define F where "F = foldl (bu_shr_step a k s) pn [0..<t]"
    have step: "foldl (bu_shr_step a k s) pn [0..<Suc t] = bu_shr_step a k s F t"
      by (simp add: F_def)
    have F: "length F = w" "F ! j = (if j + k < t then drop_bit s (a ! (j + k)) else 0)
      OR (if j + k + 1 < t \<and> s \<noteq> 0 then push_bit (32 - s) (a ! (j + k + 1)) else 0)"
      using Suc.IH j by (simp_all add: F_def)
    show "foldl (bu_shr_step a k s) pn [0..<Suc t] ! j =
      (if j + k < Suc t then drop_bit s (a ! (j + k)) else 0)
      OR (if j + k + 1 < Suc t \<and> s \<noteq> 0 then push_bit (32 - s) (a ! (j + k + 1)) else 0)"
      unfolding step using j F by (auto simp: nth_shr_step less_Suc_eq)
  qed
qed


lemma length_shr [simp, limb_simps]: "length (bu_shr a n) = length a"
  using shr_loop [of "base_uint_zero (length a)"] by (simp add: bu_shr_def base_uint_zero_def)

lemma nth_shr:
  assumes "j < length a"
  shows "bu_shr a n ! j =
      (if j + n div 32 < length a then drop_bit (n mod 32) (a ! (j + n div 32)) else 0)
      OR (if j + n div 32 + 1 < length a \<and> n mod 32 \<noteq> 0
          then push_bit (32 - n mod 32) (a ! (j + n div 32 + 1)) else 0)"
  using shr_loop [of "base_uint_zero (length a)" "length a" a "n div 32" "n mod 32" "length a"] assms
  by (auto simp: bu_shr_def base_uint_zero_def)

lemma bit_uval_shr: "bit (uval (bu_shr a n)) m \<longleftrightarrow> bit (uval a) (m + n)"
proof (cases "m div 32 < length a")
  case False
  then have "\<not> (m + n) div 32 < length a"
    by (meson div_le_mono le_add1 le_less_trans)
  with False show ?thesis by (simp add: bit_uval)
next
  case True
  define k s j r where "k = n div 32" "s = n mod 32" "j = m div 32" "r = m mod 32"
  have n: "n = 32 * k + s" and m: "m = 32 * j + r" and s: "s < 32" and r: "r < 32"
    by (simp_all add: k_s_j_r_def)
  have j: "j < length a" using True by (simp add: k_s_j_r_def)
  have "bit (uval (bu_shr a n)) m \<longleftrightarrow> bit (bu_shr a n ! j) r"
    using j by (simp add: bit_uval k_s_j_r_def)
  also have "\<dots> \<longleftrightarrow> (j + k < length a \<and> bit (a ! (j + k)) (r + s)) \<or>
      (j + k + 1 < length a \<and> s \<noteq> 0 \<and> 32 - s \<le> r \<and> bit (a ! (j + k + 1)) (r - (32 - s)))"
    using nth_shr [OF j, of n] r by (auto simp: bit_simps k_s_j_r_def add.commute)
  also have "\<dots> \<longleftrightarrow> bit (uval a) (m + n)"
  proof (cases "r + s < 32")
    case True
    have "m + n = 32 * (j + k) + (r + s)" using n m by simp
    then have "(m + n) div 32 = j + k \<and> (m + n) mod 32 = r + s"
      by (rule euclid_div_mod) (use True in simp)
    with True show ?thesis by (auto simp: bit_uval)
  next
    case False
    have "m + n = 32 * (j + k + 1) + (r - (32 - s))" using n m False s by simp
    then have "(m + n) div 32 = j + k + 1 \<and> (m + n) mod 32 = r - (32 - s)"
      by (rule euclid_div_mod) (use False r s in simp)
    with False s r show ?thesis by (auto simp: bit_uval dest: bit_imp_le_length)
  qed
  finally show ?thesis .
qed

lemma uval_shr: "uval (bu_shr a n) = uval a div 2 ^ n"
proof -
  have "uval (bu_shr a n) = drop_bit n (uval a)"
    by (rule bit_eqI) (simp add: bit_uval_shr bit_simps add.commute)
  then show ?thesis by (simp only: drop_bit_eq_div)
qed

subsection \<open>Comparison and bit length\<close>

lemma uval_take_Suc:
  "i < length xs \<Longrightarrow> uval (take (Suc i) xs) = uval (take i xs) + 2 ^ (32 * i) * unat (xs ! i)"
  by (simp add: take_Suc_conv_app_nth uval_append)

lemma compare_loop_sgn:
  "i \<le> length a \<Longrightarrow> i \<le> length b \<Longrightarrow>
     bu_compare_loop a b i = sgn (int (uval (take i a)) - int (uval (take i b)))"
proof (induction i)
  case (Suc i)
  have bounds: "uval (take i a) < 2 ^ (32 * i)" "uval (take i b) < 2 ^ (32 * i)"
    using uval_bound [of "take i a"] uval_bound [of "take i b"] Suc.prems by (simp_all add: min_def)
  have lt: "uval (take i x) + 2 ^ (32 * i) * unat p < uval (take i y) + 2 ^ (32 * i) * unat q"
    if "p < q" "uval (take i x) < 2 ^ (32 * i)" for x y :: base_uint and p q :: u32
  proof -
    have "uval (take i x) + 2 ^ (32 * i) * unat p < 2 ^ (32 * i) * unat q"
      using that by (intro digit_less) (simp_all add: word_less_nat_alt)
    then show ?thesis by simp
  qed
  consider "a ! i < b ! i" | "b ! i < a ! i" | "a ! i = b ! i" by (metis linorder_neqE)
  then show ?case
  proof cases
    case 1
    with lt [OF 1 bounds(1), of b] Suc.prems show ?thesis
      by (simp add: uval_take_Suc sgn_if del: of_nat_add)
  next
    case 2
    with lt [OF 2 bounds(2), of a] Suc.prems show ?thesis
      by (simp add: uval_take_Suc sgn_if del: of_nat_add)
  next
    case 3
    with Suc show ?thesis by (simp add: uval_take_Suc)
  qed
qed simp

lemma CompareTo_sgn: "length a = length b \<Longrightarrow> CompareTo a b = sgn (int (uval a) - int (uval b))"
  by (simp add: CompareTo_def compare_loop_sgn)

lemma CompareTo_ge: "length a = length b \<Longrightarrow> 0 \<le> CompareTo a b \<longleftrightarrow> uval b \<le> uval a"
  and CompareTo_gt: "length a = length b \<Longrightarrow> 0 < CompareTo a b \<longleftrightarrow> uval b < uval a"
  by (auto simp: CompareTo_sgn sgn_if)

lemma top_bit_bounds:
  "x \<noteq> 0 \<Longrightarrow> unat x < 2 ^ Suc b \<Longrightarrow>
     0 < bu_top_bit x b \<and> 2 ^ (bu_top_bit x b - 1) \<le> unat x \<and> unat x < 2 ^ bu_top_bit x b"
proof (induction b)
  case 0
  then show ?case by (simp add: unat_gt_0 Suc_le_eq)
next
  case (Suc b)
  have iff: "x AND push_bit (Suc b) 1 = 0 \<longleftrightarrow> \<not> bit x (Suc b)"
    unfolding push_bit_of_1 by (rule and_exp_eq_0_iff_not_bit)
  have step: "bu_top_bit x (Suc b) = (if bit x (Suc b) then Suc b + 1 else bu_top_bit x b)"
    unfolding bu_top_bit.simps iff by simp
  have val: "bit x (Suc b) \<longleftrightarrow> odd (unat x div 2 ^ Suc b)"
    by (simp add: bit_iff_odd [symmetric] bit_unsigned_iff del: power_Suc)
  show ?case
  proof (cases "bit x (Suc b)")
    case True
    then have "unat x div 2 ^ Suc b \<noteq> 0" unfolding val by (intro notI) simp
    then have "2 ^ Suc b \<le> unat x" by (simp add: div_eq_0_iff)
    with True Suc.prems show ?thesis by (simp add: step del: bu_top_bit.simps)
  next
    case False
    have "unat x div 2 ^ Suc b < 2" using Suc.prems by (simp add: div_less_iff_less_mult)
    with False have "unat x div 2 ^ Suc b = 0" unfolding val
      by (metis One_nat_def less_2_cases odd_one)
    then have "unat x < 2 ^ Suc b" by (simp add: div_eq_0_iff)
    with False Suc show ?thesis by (simp add: step del: bu_top_bit.simps)
  qed
qed


lemma bits_loop_bounds:
  "i \<le> length xs \<Longrightarrow>
     uval (take i xs) < 2 ^ bu_bits_loop xs i \<and>
     (uval (take i xs) \<noteq> 0 \<longrightarrow> 0 < bu_bits_loop xs i \<and> 2 ^ (bu_bits_loop xs i - 1) \<le> uval (take i xs))"
proof (induction i)
  case (Suc i)
  show ?case
  proof (cases "xs ! i = 0")
    case True
    with Suc show ?thesis by (simp add: uval_take_Suc)
  next
    case False
    define t where "t = bu_top_bit (xs ! i) 31"
    have t: "0 < t" "2 ^ (t - 1) \<le> unat (xs ! i)" "unat (xs ! i) < 2 ^ t"
      using top_bit_bounds [OF False, of 31] unat_less_32 [of "xs ! i"] by (simp_all add: t_def)
    have low: "uval (take i xs) < 2 ^ (32 * i)"
      using uval_bound [of "take i xs"] Suc.prems by (simp add: min_def)
    have val: "uval (take (Suc i) xs) = uval (take i xs) + 2 ^ (32 * i) * unat (xs ! i)"
      using Suc.prems by (simp add: uval_take_Suc)
    have bits: "bu_bits_loop xs (Suc i) = 32 * i + t"
      using False by (simp add: t_def)
    have "uval (take (Suc i) xs) < 2 ^ (32 * i) * 2 ^ t"
      unfolding val using low t(3) by (rule digit_less)
    moreover have "(2 :: nat) ^ (32 * i) * 2 ^ (t - 1) \<le> uval (take (Suc i) xs)"
      unfolding val using t(2) by (simp add: trans_le_add2)
    ultimately show ?thesis
      unfolding bits using t(1) by (simp add: power_add [symmetric])
  qed
qed simp

lemma bits_upper: "uval xs < 2 ^ bu_bits xs"
  and bits_lower: "uval xs \<noteq> 0 \<Longrightarrow> 0 < bu_bits xs \<and> 2 ^ (bu_bits xs - 1) \<le> uval xs"
  using bits_loop_bounds [of "length xs" xs] by (simp_all add: bu_bits_def)

lemma bits_eq_0: "bu_bits xs = 0 \<longleftrightarrow> uval xs = 0"
proof
  show "bu_bits xs = 0 \<Longrightarrow> uval xs = 0"
    using bits_upper [of xs] by simp
  have "uval (take i xs) = 0 \<Longrightarrow> i \<le> length xs \<Longrightarrow> bu_bits_loop xs i = 0" for i
    by (induction i) (auto simp: uval_take_Suc unat_eq_0)
  then show "uval xs = 0 \<Longrightarrow> bu_bits xs = 0"
    by (simp add: bu_bits_def)
qed

lemma bits_le: "bu_bits xs \<le> n \<longleftrightarrow> uval xs < 2 ^ n"
proof
  assume "bu_bits xs \<le> n"
  then have "(2 :: nat) ^ bu_bits xs \<le> 2 ^ n" by simp
  with bits_upper [of xs] show "uval xs < 2 ^ n" by (rule less_le_trans)
next
  assume less: "uval xs < 2 ^ n"
  show "bu_bits xs \<le> n"
  proof (cases "uval xs = 0")
    case False
    with bits_lower [OF False] less have "(2 :: nat) ^ (bu_bits xs - 1) < 2 ^ n" by linarith
    then show ?thesis by simp
  next
    case True
    with bits_eq_0 [of xs] show ?thesis by simp
  qed
qed

subsection \<open>Long division\<close>

lemma set_quotient_bit:
  assumes "sh < 32 * length q" and "2 ^ Suc sh dvd uval q"
  shows "uval (q[sh div 32 := q ! (sh div 32) OR push_bit (sh mod 32) 1]) = uval q + 2 ^ sh"
proof -
  let ?q = "q[sh div 32 := q ! (sh div 32) OR push_bit (sh mod 32) 1]"
  have i: "sh div 32 < length q" using assms(1) by (simp add: div_less_iff_less_mult mult.commute)
  have eq: "n = sh \<longleftrightarrow> n div 32 = sh div 32 \<and> n mod 32 = sh mod 32" for n
    by (metis div_mult_mod_eq)
  have "uval ?q = uval q OR 2 ^ sh"
  proof (rule bit_eqI)
    fix n
    show "bit (uval ?q) n \<longleftrightarrow> bit (uval q OR 2 ^ sh) n"
      using i eq [of n]
      by (cases "n div 32 = sh div 32") (auto simp: bit_uval bit_simps nth_list_update)
  qed
  moreover have "uval q AND 2 ^ sh = 0"
    unfolding and_exp_eq_0_iff_not_bit
    using assms(2) by (auto simp: bit_iff_odd elim!: dvdE)
  ultimately show ?thesis by (simp add: disjunctive_add_eq_or)
qed


lemma length_div_loop [simp, limb_simps]: "length (bu_div_loop n num dv q) = length q"
  by (induction n arbitrary: num dv q) simp_all

lemma uval_div_loop:
  assumes "length num = length q" and "length dv = length q" and "n \<le> 32 * length q" and "0 < d"
    and "uval num < d * 2 ^ n" and "2 ^ n dvd uval q" and "n \<noteq> 0 \<Longrightarrow> uval dv = d * 2 ^ (n - 1)"
  shows "uval (bu_div_loop n num dv q) = uval q + uval num div d"
  using assms
proof (induction n arbitrary: num dv q)
  case 0
  then show ?case by simp
next
  case (Suc sh)
  define q' where "q' = q[sh div 32 := q ! (sh div 32) OR push_bit (sh mod 32) 1]"
  have dv: "uval dv = d * 2 ^ sh" using Suc.prems by simp
  have next_dv: "sh \<noteq> 0 \<Longrightarrow> uval (bu_shr dv 1) = d * 2 ^ (sh - 1)"
    by (cases sh) (simp_all add: uval_shr dv)
  have dvd: "2 ^ sh dvd uval q" using Suc.prems(6) by (rule power_le_dvd) simp
  show ?case
  proof (cases "uval dv \<le> uval num")
    case True
    have q': "uval q' = uval q + 2 ^ sh" "length q' = length q"
      unfolding q'_def using Suc.prems by (intro set_quotient_bit) simp_all
    have num': "uval (bu_sub num dv) = uval num - d * 2 ^ sh"
      using True Suc.prems by (simp add: uval_sub_le dv)
    have "uval (bu_div_loop sh (bu_sub num dv) (bu_shr dv 1) q') = uval q' + uval (bu_sub num dv) div d"
      using Suc.prems(1-5) dvd next_dv by (intro Suc.IH) (simp_all add: num' q')
    moreover have "uval num div d = 2 ^ sh + (uval num - d * 2 ^ sh) div d"
      using True Suc.prems(4) by (metis dv div_mult_self2 le_add_diff_inverse mult.commute
          add.commute not_gr_zero)
    moreover have "bu_div_loop (Suc sh) num dv q = bu_div_loop sh (bu_sub num dv) (bu_shr dv 1) q'"
      using True Suc.prems(1,2) by (simp add: CompareTo_ge q'_def)
    ultimately show ?thesis by (simp only: num' q' add.assoc)
  next
    case False
    have "uval (bu_div_loop sh num (bu_shr dv 1) q) = uval q + uval num div d"
      using Suc.prems(1-4) False dvd next_dv by (intro Suc.IH) (simp_all add: dv)
    then show ?thesis
      using False Suc.prems(1,2) by (simp add: CompareTo_ge)
  qed
qed

lemma bits_width: "bu_bits a \<le> 32 * length a"
  using bits_le uval_bound by blast

theorem divide_cases:
  assumes "length a = length b" and "2 \<le> length a"
  shows "bu_divide a b = Inl Division_by_zero \<and> uval b = 0 \<or>
    (\<exists>q. bu_divide a b = Inr q \<and> length q = length a \<and> uval b \<noteq> 0 \<and> uval q = uval a div uval b)"
proof (cases "uval b = 0")
  case True
  then show ?thesis by (simp add: bu_divide_def bits_eq_0)
next
  case b: False
  define q0 where "q0 = base_uint_u64 (length a) 0"
  have q0: "length q0 = length a" "uval q0 = 0" using assms(2) by (simp_all add: q0_def)
  show ?thesis
  proof (cases "bu_bits a < bu_bits b")
    case True
    then have "bu_bits a \<le> bu_bits b - 1" by simp
    then have "uval a < 2 ^ (bu_bits b - 1)" by (simp only: bits_le)
    with bits_lower [OF b] have "uval a div uval b = 0" by (simp add: div_eq_0_iff)
    with True b q0 show ?thesis by (simp add: bu_divide_def bits_eq_0 q0_def)
  next
    case False
    define shift where "shift = bu_bits a - bu_bits b"
    let ?q = "bu_div_loop (Suc shift) a (bu_shl b shift) q0"
    have sum: "bu_bits b + shift = bu_bits a" using False by (simp add: shift_def)
    have pos: "0 < bu_bits b" and lower: "2 ^ (bu_bits b - 1) \<le> uval b" using bits_lower [OF b] by simp_all
    have "uval b * 2 ^ shift < 2 ^ bu_bits b * 2 ^ shift" using bits_upper [of b] by simp
    also have "\<dots> = 2 ^ bu_bits a" by (simp add: sum flip: power_add)
    also have "\<dots> \<le> (2 :: nat) ^ (32 * length a)" using bits_width [of a] by simp
    finally have dv: "uval (bu_shl b shift) = uval b * 2 ^ shift" using assms(1) by (simp add: uval_shl)
    have "uval a < 2 ^ (bu_bits b - 1 + Suc shift)" using bits_upper [of a] sum pos by simp
    also have "\<dots> = 2 ^ (bu_bits b - 1) * 2 ^ Suc shift" by (rule power_add)
    also have "\<dots> \<le> uval b * 2 ^ Suc shift" using lower by simp
    finally have num: "uval a < uval b * 2 ^ Suc shift" .
    have "uval ?q = uval q0 + uval a div uval b"
      using assms q0 b num dv sum pos bits_width [of a]
      by (intro uval_div_loop) (simp_all del: power_Suc)
    then have "uval ?q = uval a div uval b" and "length ?q = length a"
      by (simp_all add: q0 del: bu_div_loop.simps)
    moreover have "bu_divide a b = Inr ?q"
      using False b by (simp add: bu_divide_def bits_eq_0 q0_def shift_def Let_def del: bu_div_loop.simps)
    ultimately show ?thesis using b by blast
  qed
qed

lemma digit_split: "u < B \<Longrightarrow> u + B * v = n \<longleftrightarrow> u = n mod B \<and> v = n div B" for u v n B :: nat
  by auto

lemma EqualTo_iff:
  assumes "2 \<le> length pn"
  shows "EqualTo pn b \<longleftrightarrow> uval pn = unat b"
proof -
  obtain x y r where pn: "pn = x # y # r"
    using assms by (metis One_nat_def Suc_1 Suc_le_length_iff)
  define B :: nat where "B = 2 ^ 32"
  have xB: "unat x < B" and yB: "unat y < B" using unat_less_32 by (simp_all add: B_def)
  have mask: "b AND 0xffffffff = take_bit 32 b" by (simp add: take_bit_eq_mask mask_eq_exp_minus_1)
  have lo: "ucast x = b AND 0xffffffff \<longleftrightarrow> unat x = unat b mod B"
    unfolding mask word_unat_eq_iff unsigned_take_bit_eq unat_ucast_32_64
    by (simp only: take_bit_eq_mod B_def)
  have hi: "ucast y = drop_bit 32 b \<longleftrightarrow> unat y = unat b div B"
    by (simp only: word_unat_eq_iff high_half unat_ucast_32_64 B_def)
  have bB: "unat b div B < B"
    using unsigned_less [of b, where ?'a = nat] by (simp add: B_def div_less_iff_less_mult)
  have "uval pn = unat x + B * (unat y + B * uval r)" by (simp add: pn B_def)
  then have "uval pn = unat b \<longleftrightarrow> unat x = unat b mod B \<and> unat y = unat b div B \<and> uval r = 0"
    using bB by (auto simp: digit_split xB yB)
  moreover have "EqualTo pn b \<longleftrightarrow> uval r = 0 \<and> unat y = unat b div B \<and> unat x = unat b mod B"
    unfolding EqualTo_def pn using lo hi is_zero_iff [of r, unfolded bu_is_zero_def]
    by (simp add: numeral_2_eq_2 del: drop_bit_eq_div)
  ultimately show ?thesis by blast
qed


subsection \<open>Properties\<close>

text \<open>
  C27. The operators of \<^verbatim>\<open>base_uint\<close> are the operators of arithmetic modulo \<open>2\<^sup>3\<^sup>2\<^sup>w\<close>: addition,
  subtraction, negation, multiplication (by a limb and by a number), both shifts and the comparison,
  on any two numbers of the same width.
\<close>

theorem base_uint_arithmetic:
  assumes "length a = length b"
  defines "N \<equiv> 2 ^ (32 * length a)"
  shows "uval (bu_add a b) = (uval a + uval b) mod N
    \<and> uval (bu_sub a b) = (uval a + (N - uval b)) mod N
    \<and> uval (bu_neg a) = (N - uval a) mod N
    \<and> uval (bu_mul a b) = (uval a * uval b) mod N
    \<and> uval (bu_mul32 a x) = (uval a * unat x) mod N
    \<and> uval (bu_shl a n) = (uval a * 2 ^ n) mod N
    \<and> uval (bu_shr a n) = uval a div 2 ^ n
    \<and> CompareTo a b = sgn (int (uval a) - int (uval b))"
  using assms by (simp add: uval_add uval_sub uval_neg uval_mul uval_mul32 uval_shl uval_shr CompareTo_sgn)

theorem base_uint_arithmetic_witness:
  "uval (bu_mul [0xffffffff, 1] [3, 0]) = (uval [0xffffffff, 1] * uval [3, 0]) mod 2 ^ (32 * length ([0xffffffff, 1] :: base_uint))
    \<and> bu_mul [0xffffffff, 1] [3, 0] = [0xfffffffd, 5]"
proof
  show "uval (bu_mul [0xffffffff, 1] [3, 0]) = (uval [0xffffffff, 1] * uval [3, 0]) mod 2 ^ (32 * length ([0xffffffff, 1] :: base_uint))"
    using base_uint_arithmetic [of "[0xffffffff, 1]" "[3, 0]"] by simp
  show "bu_mul [0xffffffff, 1] [3, 0] = [0xfffffffd, 5]" by code_simp
qed

text \<open>
  The shift-and-subtract long division computes the quotient: it fails exactly on a zero divisor,
  and otherwise returns the number of the same width whose value is the quotient of the values.
\<close>

theorem bu_divide_correct:
  assumes "length a = length b" and "2 \<le> length a"
  shows "bu_divide a b = Inl Division_by_zero \<and> uval b = 0 \<or>
    (\<exists>q. bu_divide a b = Inr q \<and> length q = length a \<and> uval b \<noteq> 0 \<and> uval q = uval a div uval b)"
  using assms by (rule divide_cases)

theorem bu_divide_correct_witness:
  "\<exists>q. bu_divide [100, 7, 0] [9, 0, 0] = Inr q \<and> uval q = uval [100, 7, 0] div uval [9, 0, 0]"
  using bu_divide_correct [of "[100, 7, 0]" "[9, 0, 0]"] by auto

end
