(* ===== verification/Compact_Target.thy ===== *)
theory Compact_Target
  imports Arith_Uint256
begin

text \<open>
  The compact 32-bit encoding of difficulty targets: \<^verbatim>\<open>arith_uint256::SetCompact\<close> and
  \<^verbatim>\<open>arith_uint256::GetCompact\<close> of \<^verbatim>\<open>arith_uint256.cpp\<close>, and the conversions between
  \<^verbatim>\<open>uint256\<close> byte blobs and limb arrays. \<open>SetCompact\<close> returns the value and the two flags that
  the C++ writes through its pointer arguments; \<open>GetCompact\<close> returns \<open>None\<close> where one of its
  assertions would fail.
\<close>

unbundle bit_operations_syntax

subsection \<open>Definitions\<close>

definition SetCompact :: "u32 \<Rightarrow> base_uint \<times> bool \<times> bool" where
  "SetCompact nCompact =
     (let nSize = unat (drop_bit 24 nCompact);
          nWord = nCompact AND 0x007fffff;
          nWord = (if nSize \<le> 3 then drop_bit (8 * (3 - nSize)) nWord else nWord);
          value = (if nSize \<le> 3 then base_uint_u64 8 (ucast nWord)
                   else bu_shl (base_uint_u64 8 (ucast nWord)) (8 * (nSize - 3)));
          fNegative = (nWord \<noteq> 0 \<and> nCompact AND 0x00800000 \<noteq> 0);
          fOverflow = (nWord \<noteq> 0 \<and> (nSize > 34 \<or> (nWord > 0xff \<and> nSize > 33) \<or> (nWord > 0xffff \<and> nSize > 32)))
      in (value, fNegative, fOverflow))"

definition GetCompact :: "bool \<Rightarrow> base_uint \<Rightarrow> u32 option" where
  "GetCompact fNegative a =
     (let nSize = (bu_bits a + 7) div 8;
          nCompact = (if nSize \<le> 3 then ucast (push_bit (8 * (3 - nSize)) (GetLow64 a))
                      else ucast (GetLow64 (bu_shr a (8 * (nSize - 3)))) :: u32);
          hi = (nCompact AND 0x00800000 \<noteq> 0);
          nCompact = (if hi then drop_bit 8 nCompact else nCompact);
          nSize = (if hi then nSize + 1 else nSize)
      in if nCompact AND NOT 0x007fffff \<noteq> 0 then None
         else if \<not> nSize < 256 then None
         else let nCompact = nCompact OR push_bit 24 (of_nat nSize)
              in Some (nCompact OR (if fNegative \<and> nCompact AND 0x007fffff \<noteq> 0 then 0x00800000 else 0)))"

fun read_le32 :: "bytes \<Rightarrow> u32" where
  "read_le32 (b0 # b1 # b2 # b3 # _) =
     ucast b0 OR push_bit 8 (ucast b1) OR push_bit 16 (ucast b2) OR push_bit 24 (ucast b3)"
| "read_le32 _ = 0"

definition write_le32 :: "u32 \<Rightarrow> bytes" where
  "write_le32 x = [ucast x, ucast (drop_bit 8 x), ucast (drop_bit 16 x), ucast (drop_bit 24 x)]"

definition ArithToUint256 :: "base_uint \<Rightarrow> bytes" where
  "ArithToUint256 a = concat (map write_le32 a)"

definition UintToArith256 :: "bytes \<Rightarrow> base_uint" where
  "UintToArith256 b = map (\<lambda>x. read_le32 (drop (4 * x) b)) [0..<8]"

subsection \<open>The encoding on natural numbers\<close>

text \<open>Reference definitions: exponent and mantissa of a number, and the number of a pair.\<close>

definition nbytes :: "base_uint \<Rightarrow> nat" where
  "nbytes a = (bu_bits a + 7) div 8"

lemma nbytes_le: "nbytes a \<le> k \<longleftrightarrow> uval a < 256 ^ k"
proof -
  have "nbytes a \<le> k \<longleftrightarrow> bu_bits a \<le> 8 * k" by (auto simp: nbytes_def)
  also have "\<dots> \<longleftrightarrow> uval a < 2 ^ (8 * k)" by (rule bits_le)
  finally show ?thesis by (simp add: power_mult)
qed

definition mant_raw :: "nat \<Rightarrow> nat \<Rightarrow> nat" where
  "mant_raw nb x = (if nb \<le> 3 then x * 256 ^ (3 - nb) else x div 256 ^ (nb - 3))"

definition compact_exp :: "nat \<Rightarrow> nat \<Rightarrow> nat" where
  "compact_exp nb x = (if mant_raw nb x \<ge> 0x800000 then nb + 1 else nb)"

definition compact_mant :: "nat \<Rightarrow> nat \<Rightarrow> nat" where
  "compact_mant nb x = (if mant_raw nb x \<ge> 0x800000 then mant_raw nb x div 256 else mant_raw nb x)"

definition compact_dec :: "nat \<Rightarrow> nat \<Rightarrow> nat" where
  "compact_dec e m = (if e \<le> 3 then m div 256 ^ (3 - e) else m * 256 ^ (e - 3))"

lemma mant_raw_bound: "x < 256 ^ nb \<Longrightarrow> mant_raw nb x < 0x1000000"
proof (cases "nb \<le> 3")
  case True
  assume x: "x < 256 ^ nb"
  have "x * 256 ^ (3 - nb) < 256 ^ nb * 256 ^ (3 - nb)" using x by simp
  also have "\<dots> = (256 :: nat) ^ (nb + (3 - nb))" by (simp only: power_add)
  finally show ?thesis using True by (simp add: mant_raw_def)
next
  case False
  assume "x < 256 ^ nb"
  then have "x < 256 ^ (3 + (nb - 3))" using False by simp
  then have "x < 256 ^ 3 * 256 ^ (nb - 3)" by (simp only: power_add)
  then have "x div 256 ^ (nb - 3) < 256 ^ 3" by (simp add: div_less_iff_less_mult)
  with False show ?thesis by (simp add: mant_raw_def)
qed

lemma compact_mant_bound: "x < 256 ^ nb \<Longrightarrow> compact_mant nb x < 0x800000"
  using mant_raw_bound [of x nb] by (auto simp: compact_mant_def div_less_iff_less_mult)


lemma compact_dec_enc:
  "compact_dec (compact_exp nb x) (compact_mant nb x) =
     (x div 256 ^ (compact_exp nb x - 3)) * 256 ^ (compact_exp nb x - 3)"
proof -
  define M where "M = mant_raw nb x"
  consider (low) "nb \<le> 3" "M < 0x800000" | (low_hi) "nb < 3" "0x800000 \<le> M"
    | (three_hi) "nb = 3" "0x800000 \<le> M" | (big) "3 < nb" "M < 0x800000" | (big_hi) "3 < nb" "0x800000 \<le> M"
    by linarith
  then show ?thesis
  proof cases
    case low
    then show ?thesis by (simp add: compact_exp_def compact_mant_def compact_dec_def mant_raw_def M_def)
  next
    case low_hi
    have "3 - nb = Suc (2 - nb)" using low_hi(1) by simp
    then have "M = 256 * (x * 256 ^ (2 - nb))" using low_hi(1) by (simp add: M_def mant_raw_def)
    then have "M div 256 = x * 256 ^ (2 - nb)" by simp
    moreover have "compact_exp nb x = nb + 1" "compact_mant nb x = M div 256"
      using low_hi(2) by (simp_all add: compact_exp_def compact_mant_def M_def)
    moreover have "3 - (nb + 1) = 2 - nb" by simp
    ultimately show ?thesis using low_hi(1) by (simp add: compact_dec_def)
  next
    case three_hi
    then show ?thesis by (simp add: compact_exp_def compact_mant_def compact_dec_def mant_raw_def M_def)
  next
    case big
    then show ?thesis by (simp add: compact_exp_def compact_mant_def compact_dec_def mant_raw_def M_def)
  next
    case big_hi
    have "nb + 1 - 3 = Suc (nb - 3)" using big_hi(1) by simp
    moreover have "M div 256 = x div 256 ^ Suc (nb - 3)"
      using big_hi(1) by (simp add: M_def mant_raw_def mult.commute flip: div_mult2_eq)
    moreover have "compact_exp nb x = nb + 1" "compact_mant nb x = M div 256"
      using big_hi(2) by (simp_all add: compact_exp_def compact_mant_def M_def)
    ultimately show ?thesis using big_hi(1) by (simp add: compact_dec_def)
  qed
qed

text \<open>Truncating a number to its encoded bytes changes neither its length nor its encoding.\<close>

lemma compact_exp_shift: "x < 256 ^ nb \<Longrightarrow> compact_exp nb x - 3 \<le> nb - 2 \<and> compact_exp nb x \<le> nb + 1"
  by (auto simp: compact_exp_def)

lemma trunc_bounds:
  assumes "256 ^ (nb - 1) \<le> x" and "x < 256 ^ nb" and "k \<le> nb - 1"
  shows "256 ^ (nb - 1) \<le> (x div 256 ^ k) * 256 ^ k" and "(x div 256 ^ k) * 256 ^ k < (256 :: nat) ^ nb"
proof -
  have "(256 :: nat) ^ (nb - 1) = 256 ^ (nb - 1 - k) * 256 ^ k"
    using assms(3) by (simp flip: power_add)
  moreover have "256 ^ (nb - 1 - k) \<le> x div 256 ^ k"
    using assms(1) calculation by (metis div_le_mono nonzero_mult_div_cancel_right power_not_zero zero_neq_numeral)
  ultimately show "256 ^ (nb - 1) \<le> (x div 256 ^ k) * 256 ^ k" by simp
  have "(x div 256 ^ k) * 256 ^ k \<le> x" by simp
  then show "(x div 256 ^ k) * 256 ^ k < 256 ^ nb" using assms(2) by (rule le_less_trans)
qed

lemma compact_enc_trunc:
  fixes x nb :: nat
  defines "y \<equiv> (x div 256 ^ (compact_exp nb x - 3)) * 256 ^ (compact_exp nb x - 3)"
  shows "compact_exp nb y = compact_exp nb x \<and> compact_mant nb y = compact_mant nb x"
proof (cases "compact_exp nb x \<le> 3")
  case True
  then show ?thesis by (simp add: y_def)
next
  case False
  define M where "M = mant_raw nb x"
  show ?thesis
  proof (cases "0x800000 \<le> M")
    case lo: False
    then have e: "compact_exp nb x = nb" by (simp add: compact_exp_def M_def)
    then have "mant_raw nb y = M" using False by (simp add: mant_raw_def M_def y_def)
    then show ?thesis by (simp add: compact_exp_def compact_mant_def M_def)
  next
    case hi: True
    then have e: "compact_exp nb x = nb + 1" by (simp add: compact_exp_def M_def)
    with False have nb: "3 \<le> nb" by simp
    have k: "compact_exp nb x - 3 = Suc (nb - 3)" using e nb by simp
    have M: "M = x div 256 ^ (nb - 3)" using nb by (auto simp: M_def mant_raw_def le_less)
    have y: "y = (M div 256) * 256 * 256 ^ (nb - 3)"
      by (simp add: y_def k M mult.commute mult.left_commute flip: div_mult2_eq)
    then have "y div 256 ^ (nb - 3) = (M div 256) * 256" by simp
    then have M': "mant_raw nb y = (M div 256) * 256"
      using nb y by (auto simp: mant_raw_def le_less)
    have "0x800000 \<le> (M div 256) * 256" using div_le_mono [OF hi, of 256] by simp
    with M' hi show ?thesis by (simp add: compact_exp_def compact_mant_def M_def)
  qed
qed


subsection \<open>The code computes the encoding\<close>

lemma unat_GetLow64: "2 \<le> length a \<Longrightarrow> unat (GetLow64 a) = uval a mod 2 ^ 64"
proof -
  assume "2 \<le> length a"
  then obtain x y r where a: "a = x # y # r"
    by (metis One_nat_def Suc_1 Suc_le_length_iff)
  have "unat (GetLow64 a) = take_bit 64 (uval a)"
  proof (rule bit_eqI)
    fix n
    show "bit (unat (GetLow64 a)) n \<longleftrightarrow> bit (take_bit 64 (uval a)) n"
    proof (cases "n < 32")
      case True
      then show ?thesis by (simp add: a GetLow64_def bit_simps bit_uval del: uval.simps)
    next
      case False
      then have "n < 64 \<Longrightarrow> n div 32 = 1 \<and> n mod 32 = n - 32"
        by (intro euclid_div_mod) simp_all
      with False show ?thesis
        by (auto simp: a GetLow64_def bit_simps bit_uval simp del: uval.simps dest: bit_imp_le_length)
    qed
  qed
  then show ?thesis by (simp only: take_bit_eq_mod)
qed

lemma unat_ucast_64_32: "unat (ucast (x :: u64) :: u32) = unat x mod 2 ^ 32"
  by (simp add: unsigned_ucast_eq take_bit_eq_mod)

lemma unat_push_bit_64: "unat (push_bit n (x :: u64)) = (unat x * 2 ^ n) mod 2 ^ 64"
  by (simp only: unsigned_push_bit_eq) (simp add: take_bit_eq_mod push_bit_eq_mult)

text \<open>The mantissa that \<open>GetCompact\<close> extracts before its sign-bit correction.\<close>

lemma unat_mant_word:
  assumes "2 \<le> length a"
  shows "unat (if nbytes a \<le> 3 then ucast (push_bit (8 * (3 - nbytes a)) (GetLow64 a))
               else ucast (GetLow64 (bu_shr a (8 * (nbytes a - 3)))) :: u32)
    = mant_raw (nbytes a) (uval a)"
proof -
  have x: "uval a < 256 ^ nbytes a" using nbytes_le by blast
  note bound = mant_raw_bound [OF x]
  have pow: "(2 :: nat) ^ (8 * n) = 256 ^ n" for n by (simp add: power_mult)
  show ?thesis
  proof (cases "nbytes a \<le> 3")
    case True
    then have "(256 :: nat) ^ nbytes a \<le> 256 ^ 3" by (intro power_increasing) simp_all
    with x have "uval a < 2 ^ 64" by simp
    then have "unat (push_bit (8 * (3 - nbytes a)) (GetLow64 a)) = (uval a * 256 ^ (3 - nbytes a)) mod 2 ^ 64"
      using assms by (simp only: unat_push_bit_64 unat_GetLow64 mod_less pow)
    with True bound show ?thesis by (simp add: unat_ucast_64_32 mant_raw_def)
  next
    case False
    with assms bound show ?thesis
      by (simp add: unat_ucast_64_32 unat_GetLow64 uval_shr pow mant_raw_def)
  qed
qed

lemma and_bit_word: "(w :: u32) AND 0x00800000 \<noteq> 0 \<longleftrightarrow> odd (unat w div 0x800000)"
proof -
  have "w AND 2 ^ 23 = 0 \<longleftrightarrow> \<not> bit w 23" by (rule and_exp_eq_0_iff_not_bit)
  moreover have "bit w 23 \<longleftrightarrow> bit (unat w) 23" by (simp add: bit_unsigned_iff)
  ultimately show ?thesis by (simp add: bit_iff_odd)
qed

lemma bit_nat_less: "(x :: nat) < 2 ^ m \<Longrightarrow> bit x n \<Longrightarrow> n < m"
  by (metis bit_take_bit_iff take_bit_nat_eq_self)

lemma and_not_mant:
  assumes "unat (w :: u32) < 0x800000"
  shows "w AND NOT 0x007fffff = 0"
proof -
  have m: "(0x007fffff :: u32) = mask 23" by (simp add: mask_eq_exp_minus_1)
  have lt: "unat w < 2 ^ 23" using assms by simp
  have "n < 23" if "bit w n" for n
    using that bit_nat_less [OF lt, of n] by (auto simp: bit_unsigned_iff dest: bit_imp_le_length)
  then show ?thesis
    unfolding m by (intro bit_word_eqI) (auto simp: bit_simps)
qed

lemma unat_or_size:
  assumes "unat (w :: u32) < 0x800000" "n < 256"
  shows "unat (w OR push_bit 24 (of_nat n)) = unat w + n * 2 ^ 24"
proof -
  have lt: "unat w < 2 ^ 24" using assms by simp
  have "unat (w OR push_bit 24 (of_nat n)) = (unat w OR push_bit 24 n)"
    using bit_nat_less [OF lt] bit_nat_less [of n 8] assms(2)
    by (intro bit_eqI) (fastforce simp: bit_simps bit_unsigned_iff dest: bit_imp_le_length)
  also have "\<dots> = unat w + push_bit 24 n"
    by (rule disjunctive_add_eq_or [symmetric])
      (use bit_nat_less [OF lt] in \<open>fastforce simp: bit_eq_iff bit_simps\<close>)
  finally show ?thesis by (simp add: push_bit_eq_mult)
qed

lemma unat_drop_8: "unat (drop_bit 8 (w :: u32)) = unat w div 256"
  by (simp only: unat_drop_bit_eq) (simp add: drop_bit_eq_div)

lemma GetCompact_value:
  assumes len: "length a = 8"
  obtains w where "GetCompact False a = Some w"
    "unat w = compact_mant (nbytes a) (uval a) + compact_exp (nbytes a) (uval a) * 2 ^ 24"
proof -
  define nb where "nb = nbytes a"
  define w0 :: u32 where "w0 = (if nb \<le> 3 then ucast (push_bit (8 * (3 - nb)) (GetLow64 a))
               else ucast (GetLow64 (bu_shr a (8 * (nb - 3)))))"
  have w0: "unat w0 = mant_raw nb (uval a)"
    unfolding w0_def nb_def by (rule unat_mant_word) (simp add: len)
  have x: "uval a < 256 ^ nb" using nbytes_le nb_def by blast
  note bound = mant_raw_bound [OF x]
  have hi: "w0 AND 0x00800000 \<noteq> 0 \<longleftrightarrow> mant_raw nb (uval a) \<ge> 0x800000"
  proof -
    have "mant_raw nb (uval a) div 0x800000 = (if mant_raw nb (uval a) \<ge> 0x800000 then 1 else 0)"
      using bound by (auto intro: div_nat_eqI)
    then show ?thesis by (simp add: and_bit_word w0)
  qed
  define w1 where "w1 = (if w0 AND 0x00800000 \<noteq> 0 then drop_bit 8 w0 else w0)"
  have w1: "unat w1 = compact_mant nb (uval a)"
    using w0 hi unat_drop_8 [of w0] by (simp add: w1_def compact_mant_def del: drop_bit_eq_div)
  have nb: "nb \<le> 32"
    using uval_bound [of a] len by (simp add: nb_def nbytes_le)
  have m: "unat w1 < 0x800000" using compact_mant_bound [OF x] w1 by simp
  have e: "compact_exp nb (uval a) < 256" using nb by (simp add: compact_exp_def)
  have "GetCompact False a = Some (w1 OR push_bit 24 (of_nat (compact_exp nb (uval a))))"
    using and_not_mant [OF m] nb hi
    unfolding GetCompact_def Let_def nbytes_def [symmetric] nb_def [symmetric] w0_def [symmetric]
      w1_def [symmetric] compact_exp_def by simp
  then show thesis
    using unat_or_size [OF m e] w1 that nb_def by simp
qed

lemma unat_mant_mask: "unat ((w :: u32) AND 0x007fffff) = unat w mod 0x800000"
proof -
  have "(0x007fffff :: u32) = mask 23" by (simp add: mask_eq_exp_minus_1)
  then have "unat (w AND 0x007fffff) = take_bit 23 (unat w)"
    by (simp only: take_bit_eq_mask [symmetric] unsigned_take_bit_eq)
  then show ?thesis by (simp add: take_bit_eq_mod)
qed

text \<open>Size byte, mantissa and sign bit of an encoded target.\<close>

definition nb_size :: "u32 \<Rightarrow> nat" where
  "nb_size w = unat w div 2 ^ 24"

definition nb_mant :: "u32 \<Rightarrow> nat" where
  "nb_mant w = unat w mod 2 ^ 23"

definition nb_sign :: "u32 \<Rightarrow> bool" where
  "nb_sign w = odd (unat w div 2 ^ 23)"

lemma nb_encode:
  assumes "unat w = m + e * 2 ^ 24" "m < 2 ^ 23"
  shows "nb_size w = e" "nb_mant w = m" "\<not> nb_sign w"
proof -
  have w: "unat w = m + (2 * e) * 2 ^ 23" using assms(1) by simp
  show "nb_size w = e" using assms by (simp add: nb_size_def)
  show "nb_mant w = m" using assms(2) unfolding nb_mant_def w by (simp only: mod_mult_self1 mod_less)
  have "unat w div 2 ^ 23 = 2 * e" using assms(2) unfolding w by simp
  then show "\<not> nb_sign w" by (simp add: nb_sign_def)
qed

lemma mant_div_less: "(m :: nat) < 2 ^ 23 \<Longrightarrow> m div d < 2 ^ 256"
  by (rule le_less_trans [OF div_le_dividend]) simp

lemma compact_dec_overflow:
  assumes m: "m < 2 ^ 23"
  shows "2 ^ 256 \<le> compact_dec e m \<longleftrightarrow>
    m \<noteq> 0 \<and> 3 < e \<and> (e > 34 \<or> (m > 0xff \<and> e > 33) \<or> (m > 0xffff \<and> e > 32))"
proof -
  have no: "compact_dec e m < 2 ^ 256" if "e \<le> k + 3" "m < 256 ^ j" "j + k \<le> 32" for j k
  proof (cases "e \<le> 3")
    case True
    then show ?thesis using mant_div_less [OF m] by (simp add: compact_dec_def)
  next
    case False
    have "m * 256 ^ (e - 3) < 256 ^ j * 256 ^ (e - 3)" using that(2) by simp
    also have "\<dots> = 256 ^ (j + (e - 3))" by (simp only: power_add)
    also have "\<dots> \<le> (256 :: nat) ^ 32" using that by (intro power_increasing) simp_all
    finally show ?thesis using False by (simp add: compact_dec_def)
  qed
  have yes: "2 ^ 256 \<le> compact_dec e m" if "3 < e" "256 ^ j \<le> m" "32 \<le> j + (e - 3)" for j
  proof -
    have "(256 :: nat) ^ 32 \<le> 256 ^ (j + (e - 3))" using that by (intro power_increasing) simp_all
    also have "\<dots> = 256 ^ j * 256 ^ (e - 3)" by (simp only: power_add)
    also have "\<dots> \<le> m * 256 ^ (e - 3)" using that(2) by simp
    finally show ?thesis using that(1) by (simp add: compact_dec_def)
  qed
  define r where "r \<longleftrightarrow> m \<noteq> 0 \<and> 3 < e \<and> (e > 34 \<or> (m > 0xff \<and> e > 33) \<or> (m > 0xffff \<and> e > 32))"
  consider "m = 0" | "e \<le> 32" | "e = 33" "m < 256 ^ 2" | "e = 34" "m < 256 ^ 1"
    | "e = 33" "256 ^ 2 \<le> m" | "e = 34" "256 ^ 1 \<le> m" | "34 < e" "256 ^ 0 \<le> m"
    by fastforce
  then have "2 ^ 256 \<le> compact_dec e m \<longleftrightarrow> r"
  proof cases
    case 1
    then have "compact_dec e m = 0" by (simp add: compact_dec_def)
    with 1 show ?thesis by (simp add: r_def)
  next
    case 2
    moreover have "m < 256 ^ 3" using m by simp
    ultimately have "compact_dec e m < 2 ^ 256" using no [of 29 3] by simp
    moreover have "\<not> r" using 2 by (simp add: r_def)
    ultimately show ?thesis by simp
  next
    case 3
    then have "compact_dec e m < 2 ^ 256" using no [of 30 2] by simp
    moreover have "\<not> r" using 3 by (simp add: r_def)
    ultimately show ?thesis by simp
  next
    case 4
    then have "compact_dec e m < 2 ^ 256" using no [of 31 1] by simp
    moreover have "\<not> r" using 4 by (simp add: r_def)
    ultimately show ?thesis by simp
  next
    case 5
    then have "2 ^ 256 \<le> compact_dec e m" using yes [of 2] by simp
    then show ?thesis using 5 by (simp add: r_def)
  next
    case 6
    then have "2 ^ 256 \<le> compact_dec e m" using yes [of 1] by simp
    then show ?thesis using 6 by (simp add: r_def)
  next
    case 7
    then have "2 ^ 256 \<le> compact_dec e m" using yes [of 0] by simp
    then show ?thesis using 7 by (simp add: r_def)
  qed
  then show ?thesis by (simp only: r_def)
qed

lemma SetCompact_parts:
  "length (fst (SetCompact w)) = 8"
  "uval (fst (SetCompact w)) = compact_dec (nb_size w) (nb_mant w) mod 2 ^ 256"
  "fst (snd (SetCompact w)) \<longleftrightarrow>
     nb_sign w \<and> (if nb_size w \<le> 3 then nb_mant w div 256 ^ (3 - nb_size w) else nb_mant w) \<noteq> 0"
  "snd (snd (SetCompact w)) \<longleftrightarrow> 2 ^ 256 \<le> compact_dec (nb_size w) (nb_mant w)"
proof -
  define e m where "e = nb_size w" and "m = nb_mant w"
  have e: "unat (drop_bit 24 w) = e"
    by (simp only: unat_drop_bit_eq) (simp add: drop_bit_eq_div e_def nb_size_def)
  have m: "m < 2 ^ 23" by (simp add: m_def nb_mant_def)
  have mw: "unat (w AND 0x007fffff) = m" by (simp add: unat_mant_mask m_def nb_mant_def)
  have pow: "(2 :: nat) ^ (8 * n) = 256 ^ n" for n by (simp add: power_mult)
  define nw where "nw = (if e \<le> 3 then drop_bit (8 * (3 - e)) (w AND 0x007fffff) else w AND 0x007fffff)"
  have nw: "unat nw = (if e \<le> 3 then m div 256 ^ (3 - e) else m)"
  proof (cases "e \<le> 3")
    case True
    then show ?thesis
      by (simp only: nw_def if_True unat_drop_bit_eq mw) (simp only: drop_bit_eq_div pow)
  qed (simp only: nw_def if_False mw)
  have sc: "SetCompact w = (if e \<le> 3 then base_uint_u64 8 (ucast nw)
      else bu_shl (base_uint_u64 8 (ucast nw)) (8 * (e - 3)), unat nw \<noteq> 0 \<and> nb_sign w,
      unat nw \<noteq> 0 \<and> (e > 34 \<or> (unat nw > 0xff \<and> e > 33) \<or> (unat nw > 0xffff \<and> e > 32)))"
    unfolding SetCompact_def Let_def e nw_def [symmetric] and_bit_word nb_sign_def
    by (simp add: word_less_nat_alt unat_eq_0)
  show "length (fst (SetCompact w)) = 8" by (simp add: sc)
  show "uval (fst (SetCompact w)) = compact_dec (nb_size w) (nb_mant w) mod 2 ^ 256"
    unfolding e_def [symmetric] m_def [symmetric] sc
    using mant_div_less [OF m] by (simp add: compact_dec_def uval_shl pow nw)
  show "fst (snd (SetCompact w)) \<longleftrightarrow> nb_sign w \<and>
      (if nb_size w \<le> 3 then nb_mant w div 256 ^ (3 - nb_size w) else nb_mant w) \<noteq> 0"
    unfolding e_def [symmetric] m_def [symmetric] sc nw by auto
  show "snd (snd (SetCompact w)) \<longleftrightarrow> 2 ^ 256 \<le> compact_dec (nb_size w) (nb_mant w)"
    unfolding compact_dec_overflow [OF m [unfolded m_def]]
    unfolding e_def [symmetric] m_def [symmetric] sc nw by auto
qed

lemma SetCompact_target:
  assumes "\<not> snd (snd (SetCompact w))"
  shows "uval (fst (SetCompact w)) = compact_dec (nb_size w) (nb_mant w)"
    and "uval (fst (SetCompact w)) + 1 < 2 ^ 256"
proof -
  have lt: "compact_dec (nb_size w) (nb_mant w) < 2 ^ 256"
    using assms by (simp add: SetCompact_parts(4) not_le)
  then show eq: "uval (fst (SetCompact w)) = compact_dec (nb_size w) (nb_mant w)"
    by (simp add: SetCompact_parts(2))
  show "uval (fst (SetCompact w)) + 1 < 2 ^ 256"
  proof (cases "nb_size w \<le> 3")
    case True
    have "nb_mant w div 256 ^ (3 - nb_size w) < 2 ^ 23"
      by (rule le_less_trans [OF div_le_dividend]) (simp add: nb_mant_def)
    with True show ?thesis by (simp add: eq compact_dec_def)
  next
    case False
    then obtain j where "compact_dec (nb_size w) (nb_mant w) = 256 * j"
      by (cases "nb_size w - 3") (auto simp: compact_dec_def)
    with lt show ?thesis by (simp add: eq)
  qed
qed

lemma SetCompact_encoded:
  assumes "unat w = m + e * 2 ^ 24" "m < 2 ^ 23" "compact_dec e m < 2 ^ 256"
  shows "length (fst (SetCompact w)) = 8" "uval (fst (SetCompact w)) = compact_dec e m"
    "snd (SetCompact w) = (False, False)"
  using SetCompact_parts [of w] nb_encode [OF assms(1,2)] assms(3)
  by (auto simp: not_le prod_eq_iff)

lemma nbytes_eqI:
  assumes "uval a < 256 ^ k" and "k = 0 \<or> 256 ^ (k - 1) \<le> uval a"
  shows "nbytes a = k"
proof (rule antisym)
  show "nbytes a \<le> k" using assms(1) by (simp add: nbytes_le)
  show "k \<le> nbytes a"
  proof (cases k)
    case (Suc n)
    with assms(2) have "\<not> nbytes a \<le> n" by (simp add: nbytes_le)
    with Suc show ?thesis by simp
  qed simp
qed

lemma nbytes_lower: "nbytes a = 0 \<or> 256 ^ (nbytes a - 1) \<le> uval a"
  using nbytes_le [of a "nbytes a - 1"] by (cases "nbytes a = 0") auto

lemma Compact_roundtrip:
  assumes len: "length a = 8"
  obtains w v where "GetCompact False a = Some w" "SetCompact w = (v, False, False)" "length v = 8"
    "uval v = uval a div 256 ^ (nb_size w - 3) * 256 ^ (nb_size w - 3)" "GetCompact False v = Some w"
proof -
  define nb x where "nb = nbytes a" and "x = uval a"
  have x: "x < 256 ^ nb" using nbytes_le nb_def x_def by blast
  obtain w where w: "GetCompact False a = Some w"
    and uw: "unat w = compact_mant nb x + compact_exp nb x * 2 ^ 24"
    using GetCompact_value [OF len] by (auto simp: nb_def x_def)
  define e m k y where "e = compact_exp nb x" and "m = compact_mant nb x" and "k = e - 3"
    and "y = x div 256 ^ k * 256 ^ k"
  have uw': "unat w = m + e * 2 ^ 24" by (simp add: uw e_def m_def)
  have m: "m < 2 ^ 23" using compact_mant_bound [OF x] by (simp add: m_def)
  have dec: "compact_dec e m = y" unfolding e_def m_def y_def k_def by (rule compact_dec_enc)
  have "y \<le> x" by (simp add: y_def)
  moreover have "x < 2 ^ 256" using uval_bound [of a] len by (simp add: x_def)
  ultimately have "compact_dec e m < 2 ^ 256" unfolding dec by (rule le_less_trans)
  note sc = SetCompact_encoded [OF uw' m this, unfolded dec]
  obtain v where v: "SetCompact w = (v, False, False)" "length v = 8" "uval v = y"
    using sc by (cases "SetCompact w") auto
  have e: "nb_size w = e" using nb_encode [OF uw' m] by simp
  have nbv: "nbytes v = nb"
  proof (rule nbytes_eqI)
    show "uval v < 256 ^ nb" using \<open>y \<le> x\<close> x v(3) by simp
    show "nb = 0 \<or> 256 ^ (nb - 1) \<le> uval v"
    proof (cases "nb = 0")
      case False
      then have "256 ^ (nb - 1) \<le> x" using nbytes_lower [of a] by (simp add: nb_def x_def)
      moreover have "k \<le> nb - 1" using compact_exp_shift [OF x] by (auto simp: k_def e_def)
      ultimately show ?thesis using trunc_bounds(1) x v(3) by (simp add: y_def)
    qed simp
  qed
  obtain w' where w': "GetCompact False v = Some w'"
    "unat w' = compact_mant nb y + compact_exp nb y * 2 ^ 24"
    using GetCompact_value [OF v(2)] by (auto simp: nbv v(3))
  moreover have "compact_mant nb y = m" "compact_exp nb y = e"
    using compact_enc_trunc [of nb x] by (simp_all add: y_def k_def e_def m_def)
  ultimately have "w' = w" by (simp add: uw' word_unat_eq_iff)
  with w v w'(1) show thesis by (intro that [of w v]) (auto simp: e k_def [symmetric] y_def x_def)
qed

lemma bit_u8_ge [simp]: "8 \<le> n \<Longrightarrow> \<not> bit (b :: u8) n"
  using bit_imp_le_length [of b n] by auto

lemma length_write_le32 [simp]: "length (write_le32 x) = 4"
  by (simp add: write_le32_def)

lemma write_read_le32: "read_le32 (write_le32 x @ r) = x"
proof (rule bit_word_eqI)
  fix n
  assume "n < LENGTH(32)"
  then consider "n < 8" | "8 \<le> n" "n < 16" | "16 \<le> n" "n < 24" | "24 \<le> n" "n < 32" by fastforce
  then show "bit (read_le32 (write_le32 x @ r)) n = bit x n"
    by cases (auto simp: write_le32_def bit_simps)
qed

lemma read_write_le32: "write_le32 (read_le32 (b0 # b1 # b2 # b3 # r)) = [b0, b1, b2, b3]"
  by (auto simp: write_le32_def bit_simps intro!: bit_word_eqI)

lemma read_le32_append: "length a = 4 \<Longrightarrow> read_le32 (a @ r) = read_le32 a"
  by (auto simp: numeral_eq_Suc length_Suc_conv)

lemma drop_blob: "i < length a \<Longrightarrow> drop (4 * i) (ArithToUint256 a) = write_le32 (a ! i) @ ArithToUint256 (drop (Suc i) a)"
proof (induction a arbitrary: i)
  case (Cons x a)
  have "drop (4 + 4 * n) (write_le32 y @ r) = drop (4 * n) r" for n y r by simp
  with Cons show ?case by (cases i) (simp_all add: ArithToUint256_def)
qed simp

lemma UintToArith256_inverse: "length a = 8 \<Longrightarrow> UintToArith256 (ArithToUint256 a) = a"
  by (rule nth_equalityI) (simp_all add: UintToArith256_def drop_blob write_read_le32)

lemma write_read_drop: "4 \<le> length b \<Longrightarrow> write_le32 (read_le32 b) = take 4 b"
  by (auto simp: numeral_eq_Suc Suc_le_length_iff read_write_le32 simp del: read_le32.simps)

lemma ArithToUint256_inverse:
  assumes "length b = 32"
  shows "ArithToUint256 (UintToArith256 b) = b"
proof -
  have "concat (map (\<lambda>x. write_le32 (read_le32 (drop (4 * x) b))) [0..<n]) = take (4 * n) b" if "n \<le> 8" for n
    using that
  proof (induction n)
    case (Suc n)
    then have "4 \<le> length (drop (4 * n) b)" using assms by simp
    with Suc show ?case by (simp add: write_read_drop add.commute [of 4] take_add)
  qed simp
  from this [of 8] assms show ?thesis by (simp add: ArithToUint256_def UintToArith256_def comp_def)
qed


subsection \<open>Properties\<close>

text \<open>
  C28. Encoding a 256-bit target never fails an assertion, decoding the result raises neither flag and
  gives the target with its low-order bytes below the mantissa cleared, which is never more than the
  target; and encoding that value again gives the same 32 bits.
\<close>

theorem GetCompact_SetCompact:
  assumes "length a = 8"
  shows "\<exists>w v. GetCompact False a = Some w \<and> SetCompact w = (v, False, False) \<and> GetCompact False v = Some w
    \<and> uval v = uval a div 256 ^ (unat w div 2 ^ 24 - 3) * 256 ^ (unat w div 2 ^ 24 - 3) \<and> uval v \<le> uval a"
proof -
  obtain w v where "GetCompact False a = Some w" "SetCompact w = (v, False, False)" "GetCompact False v = Some w"
    "uval v = uval a div 256 ^ (nb_size w - 3) * 256 ^ (nb_size w - 3)"
    using Compact_roundtrip [OF assms] by metis
  then show ?thesis by (auto simp: nb_size_def)
qed

theorem GetCompact_SetCompact_witness:
  "\<exists>w v. GetCompact False [0xdeadbeef, 0x00c0ffee, 0, 0, 0, 0, 0, 0] = Some w \<and> SetCompact w = (v, False, False)
    \<and> uval v \<le> uval [0xdeadbeef, 0x00c0ffee, 0, 0, 0, 0, 0, 0]"
  using GetCompact_SetCompact [of "[0xdeadbeef, 0x00c0ffee, 0, 0, 0, 0, 0, 0]"] by fastforce

text \<open>
  Decoding any 32 bits: the value is mantissa times \<open>256 ^ (size - 3)\<close> modulo \<open>2\<^sup>2\<^sup>5\<^sup>6\<close>, the overflow flag
  is raised exactly when that number does not fit 256 bits, and the negative flag exactly when the sign
  bit is set and the mantissa left after the shift is not zero.
\<close>

theorem SetCompact_exact:
  "uval (fst (SetCompact w)) = compact_dec (nb_size w) (nb_mant w) mod 2 ^ 256
   \<and> (snd (snd (SetCompact w)) \<longleftrightarrow> 2 ^ 256 \<le> compact_dec (nb_size w) (nb_mant w))
   \<and> (fst (snd (SetCompact w)) \<longleftrightarrow>
        nb_sign w \<and> (if nb_size w \<le> 3 then nb_mant w div 256 ^ (3 - nb_size w) else nb_mant w) \<noteq> 0)"
  by (simp only: SetCompact_parts)

end
