(* ===== verification/Chain_Index.thy ===== *)
theory Chain_Index
  imports Compact_Target "HOL-Library.Monad_Syntax"
begin

text \<open>
  The block tree of \<^verbatim>\<open>chain.h\<close> and \<^verbatim>\<open>chain.cpp\<close>: block headers, \<^verbatim>\<open>CBlockIndex\<close> entries linked by
  \<open>pprev\<close> and skip-list pointers, the active chain \<^verbatim>\<open>CChain\<close>, and \<^verbatim>\<open>AddToBlockIndex\<close> of
  \<^verbatim>\<open>validation.cpp\<close>, which grows the tree. Entries live in a heap, a partial map from addresses;
  a pointer is an address or \<open>None\<close> for \<^verbatim>\<open>NULL\<close>. Operations that follow pointers return \<open>None\<close>
  where the C++ would dereference \<^verbatim>\<open>NULL\<close> (or never return), and \<open>Some r\<close> where it returns \<open>r\<close>.

  The zerocoin and sigma containers of an entry are not part of the record: no function
  modelled here reads them.
\<close>

unbundle bit_operations_syntax

subsection \<open>Block headers\<close>

record CBlockHeader =
  bh_nVersion :: u32
  bh_hashPrevBlock :: bytes
  bh_hashMerkleRoot :: bytes
  bh_nTime :: u32
  bh_nBits :: u32
  bh_nNonce :: u32
  bh_nVersionMTP :: u32
  bh_mtpHashValue :: bytes
  bh_reserved0 :: bytes
  bh_reserved1 :: bytes
  bh_mtpHashData :: "bytes option"

definition ZC_GENESIS_BLOCK_TIME :: u32 where
  "ZC_GENESIS_BLOCK_TIME = 1539907200"

text \<open>\<open>nMTPSwitchTime\<close> is the consensus parameter of that name.\<close>

definition IsMTP :: "u32 \<Rightarrow> CBlockHeader \<Rightarrow> bool" where
  "IsMTP nMTPSwitchTime h \<longleftrightarrow> bh_nTime h > ZC_GENESIS_BLOCK_TIME \<and> bh_nTime h \<ge> nMTPSwitchTime"

definition uint256_null :: bytes where
  "uint256_null = replicate 32 0"

subsection \<open>Index entries\<close>

type_synonym ptr = nat

definition BLOCK_VALID_TREE :: u32 where "BLOCK_VALID_TREE = 2"
definition BLOCK_VALID_TRANSACTIONS :: u32 where "BLOCK_VALID_TRANSACTIONS = 3"
definition BLOCK_VALID_SCRIPTS :: u32 where "BLOCK_VALID_SCRIPTS = 5"
definition BLOCK_VALID_MASK :: u32 where "BLOCK_VALID_MASK = 1 OR 2 OR 3 OR 4 OR 5"
definition BLOCK_HAVE_DATA :: u32 where "BLOCK_HAVE_DATA = 8"
definition BLOCK_HAVE_UNDO :: u32 where "BLOCK_HAVE_UNDO = 16"
definition BLOCK_FAILED_MASK :: u32 where "BLOCK_FAILED_MASK = 32 OR 64"

record CBlockIndex =
  phashBlock :: "bytes option"
  pprev :: "ptr option"
  pskip :: "ptr option"
  nHeight :: int
  nFile :: int
  nDataPos :: u32
  nUndoPos :: u32
  nChainWork :: base_uint
  nTx :: u32
  nChainTx :: u32
  nStatus :: u32
  nVersion :: u32
  hashMerkleRoot :: bytes
  nTime :: u32
  nBits :: u32
  nNonce :: u32
  nVersionMTP :: u32
  mtpHashValue :: bytes
  reserved0 :: bytes
  reserved1 :: bytes
  nSequenceId :: int
  nTimeMax :: u32

type_synonym index_heap = "ptr \<rightharpoonup> CBlockIndex"

definition CBlockIndex_SetNull :: CBlockIndex where
  "CBlockIndex_SetNull = \<lparr>phashBlock = None, pprev = None, pskip = None, nHeight = 0, nFile = 0,
     nDataPos = 0, nUndoPos = 0, nChainWork = base_uint_zero 8, nTx = 0, nChainTx = 0, nStatus = 0,
     nVersion = 0, hashMerkleRoot = uint256_null, nTime = 0, nBits = 0, nNonce = 0, nVersionMTP = 0,
     mtpHashValue = uint256_null, reserved0 = uint256_null, reserved1 = uint256_null,
     nSequenceId = 0, nTimeMax = 0\<rparr>"

definition CBlockIndex_of_header :: "u32 \<Rightarrow> CBlockHeader \<Rightarrow> CBlockIndex" where
  "CBlockIndex_of_header nMTPSwitchTime block =
     (let b = CBlockIndex_SetNull
        \<lparr>nVersion := bh_nVersion block, hashMerkleRoot := bh_hashMerkleRoot block,
         nTime := bh_nTime block, nBits := bh_nBits block, nNonce := bh_nNonce block\<rparr>
      in if IsMTP nMTPSwitchTime block
         then b\<lparr>nVersionMTP := bh_nVersionMTP block, mtpHashValue := bh_mtpHashValue block,
                reserved0 := bh_reserved0 block, reserved1 := bh_reserved1 block\<rparr>
         else b)"

definition GetBlockTime :: "CBlockIndex \<Rightarrow> int" where
  "GetBlockTime b = uint (nTime b)"

definition GetBlockTimeMax :: "CBlockIndex \<Rightarrow> int" where
  "GetBlockTimeMax b = uint (nTimeMax b)"

text \<open>\<open>None\<close> is the failed assertion on \<open>nUpTo\<close>.\<close>

definition IsValid :: "u32 \<Rightarrow> CBlockIndex \<Rightarrow> bool option" where
  "IsValid nUpTo b =
     (if nUpTo AND NOT BLOCK_VALID_MASK \<noteq> 0 then None
      else if nStatus b AND BLOCK_FAILED_MASK \<noteq> 0 then Some False
      else Some (nStatus b AND BLOCK_VALID_MASK \<ge> nUpTo))"

definition RaiseValidity :: "u32 \<Rightarrow> CBlockIndex \<Rightarrow> (bool \<times> CBlockIndex) option" where
  "RaiseValidity nUpTo b =
     (if nUpTo AND NOT BLOCK_VALID_MASK \<noteq> 0 then None
      else if nStatus b AND BLOCK_FAILED_MASK \<noteq> 0 then Some (False, b)
      else if nStatus b AND BLOCK_VALID_MASK < nUpTo
      then Some (True, b\<lparr>nStatus := (nStatus b AND NOT BLOCK_VALID_MASK) OR nUpTo\<rparr>)
      else Some (False, b))"

subsection \<open>Skip-list ancestors\<close>

definition InvertLowestOne :: "int \<Rightarrow> int" where
  "InvertLowestOne n = n AND (n - 1)"

definition GetSkipHeight :: "int \<Rightarrow> int" where
  "GetSkipHeight height =
     (if height < 2 then 0
      else if height AND 1 \<noteq> 0 then InvertLowestOne (InvertLowestOne (height - 1)) + 1
      else InvertLowestOne height)"

partial_function (option) GetAncestor_loop ::
  "index_heap \<Rightarrow> int \<Rightarrow> ptr option \<Rightarrow> int \<Rightarrow> ptr option option" where
  "GetAncestor_loop H height pindexWalk heightWalk =
     (if heightWalk > height
      then do {
        p \<leftarrow> pindexWalk;
        b \<leftarrow> H p;
        let heightSkip = GetSkipHeight heightWalk;
            heightSkipPrev = GetSkipHeight (heightWalk - 1)
        in if pskip b \<noteq> None \<and>
              (heightSkip = height \<or>
               (heightSkip > height \<and> \<not> (heightSkipPrev < heightSkip - 2 \<and> heightSkipPrev \<ge> height)))
           then GetAncestor_loop H height (pskip b) heightSkip
           else GetAncestor_loop H height (pprev b) (heightWalk - 1)
      }
      else Some pindexWalk)"

definition GetAncestor :: "index_heap \<Rightarrow> ptr \<Rightarrow> int \<Rightarrow> ptr option option" where
  "GetAncestor H p height = do {
     b \<leftarrow> H p;
     if height > nHeight b \<or> height < 0 then Some None
     else GetAncestor_loop H height (Some p) (nHeight b)
   }"

text \<open>\<open>BuildSkip\<close> of the entry at \<open>p\<close>.\<close>

definition BuildSkip :: "index_heap \<Rightarrow> ptr \<Rightarrow> index_heap option" where
  "BuildSkip H p = do {
     b \<leftarrow> H p;
     case pprev b of
       None \<Rightarrow> Some H
     | Some q \<Rightarrow> do {
         s \<leftarrow> GetAncestor H q (GetSkipHeight (nHeight b));
         Some (H(p \<mapsto> b\<lparr>pskip := s\<rparr>))
       }
   }"

subsection \<open>The skip list finds the ancestor that \<open>pprev\<close> iteration finds\<close>

text \<open>Reference definition: follow \<open>n\<close> \<open>pprev\<close> pointers.\<close>

fun walk :: "index_heap \<Rightarrow> nat \<Rightarrow> ptr \<Rightarrow> ptr option" where
  "walk H 0 p = Some p"
| "walk H (Suc n) p = do { b \<leftarrow> H p; q \<leftarrow> pprev b; walk H n q }"

text \<open>
  Well-formed trees: heights count \<open>pprev\<close> steps down to a root of height 0, and a skip pointer
  leads to the ancestor at the height \<open>GetSkipHeight\<close> chooses.
\<close>

definition wf_entry :: "index_heap \<Rightarrow> ptr \<Rightarrow> CBlockIndex \<Rightarrow> bool" where
  "wf_entry H p b \<longleftrightarrow> 0 \<le> nHeight b
     \<and> (case pprev b of None \<Rightarrow> nHeight b = 0 | Some q \<Rightarrow> \<exists>c. H q = Some c \<and> nHeight b = nHeight c + 1)
     \<and> (case pskip b of None \<Rightarrow> True
        | Some s \<Rightarrow> walk H (nat (nHeight b - GetSkipHeight (nHeight b))) p = Some s)"

definition wf_index :: "index_heap \<Rightarrow> bool" where
  "wf_index H \<longleftrightarrow> (\<forall>p b. H p = Some b \<longrightarrow> wf_entry H p b)"

lemma wf_indexD: "wf_index H \<Longrightarrow> H p = Some b \<Longrightarrow> wf_entry H p b"
  by (simp add: wf_index_def)

lemma InvertLowestOne_bounds: "0 < n \<Longrightarrow> 0 \<le> InvertLowestOne n \<and> InvertLowestOne n < n"
proof -
  assume "0 < n"
  then have "n AND (n - 1) \<le> n - 1" by (intro AND_upper2') simp_all
  with \<open>0 < n\<close> show ?thesis by (simp add: InvertLowestOne_def)
qed

lemma InvertLowestOne_0 [simp]: "InvertLowestOne 0 = 0"
  by (simp add: InvertLowestOne_def)

lemma GetSkipHeight_nonneg: "0 \<le> GetSkipHeight h"
proof -
  have "0 \<le> n \<Longrightarrow> 0 \<le> InvertLowestOne n" for n
    using InvertLowestOne_bounds [of n] by (cases "n = 0") auto
  then show ?thesis by (simp add: GetSkipHeight_def)
qed

lemma GetSkipHeight_less: "0 < h \<Longrightarrow> GetSkipHeight h < h"
proof -
  assume "0 < h"
  have le: "0 \<le> n \<Longrightarrow> 0 \<le> InvertLowestOne n \<and> InvertLowestOne n \<le> n" for n
    using InvertLowestOne_bounds [of n] by (cases "n = 0") auto
  have "InvertLowestOne (InvertLowestOne (h - 1)) + 1 < h" if "2 \<le> h"
    using InvertLowestOne_bounds [of "h - 1"] le [of "InvertLowestOne (h - 1)"] that by simp
  with \<open>0 < h\<close> InvertLowestOne_bounds [of h] show ?thesis
    by (auto simp: GetSkipHeight_def not_less)
qed

lemma walk_add: "walk H (m + n) p = walk H m p \<bind> walk H n"
  by (induction m arbitrary: p) (auto split: bind_splits)

lemma walk_height:
  assumes "wf_index H" "H p = Some b" "int n \<le> nHeight b"
  obtains q c where "walk H n p = Some q" "H q = Some c" "nHeight c = nHeight b - int n"
proof -
  have "\<exists>q c. walk H n p = Some q \<and> H q = Some c \<and> nHeight c = nHeight b - int n"
    using assms(2,3)
  proof (induction n arbitrary: p b)
    case (Suc n)
    then obtain q c where "pprev b = Some q" "H q = Some c" "nHeight b = nHeight c + 1"
      using wf_indexD [OF assms(1) Suc.prems(1)] by (auto simp: wf_entry_def split: option.splits)
    with Suc.IH [of q c] Suc.prems show ?case by simp
  qed simp
  then show thesis using that by blast
qed

lemma GetAncestor_loop_walk:
  assumes wf: "wf_index H" and "H p = Some b" and "0 \<le> h" and "h \<le> nHeight b"
  shows "GetAncestor_loop H h (Some p) (nHeight b) = Some (walk H (nat (nHeight b - h)) p)"
  using assms(2-4)
proof (induction "nat (nHeight b - h)" arbitrary: p b rule: less_induct)
  case less
  note step = GetAncestor_loop.simps [of H h "Some p" "nHeight b"]
  show ?case
  proof (cases "nHeight b = h")
    case True
    then show ?thesis using step by simp
  next
    case False
    with less.prems have gt: "h < nHeight b" by simp
    obtain q c where prev: "pprev b = Some q" "H q = Some c" "nHeight b = nHeight c + 1"
      using wf_indexD [OF wf less.prems(1)] gt less.prems(2)
      by (auto simp: wf_entry_def split: option.splits)
    have via_prev: "GetAncestor_loop H h (pprev b) (nHeight b - 1) = Some (walk H (nat (nHeight b - h)) p)"
    proof -
      have "nat (nHeight b - h) = Suc (nat (nHeight c - h))" using prev(3) gt by simp
      then show ?thesis using less.hyps [of c q] prev less.prems gt by simp
    qed
    have via_skip: "GetAncestor_loop H h (pskip b) (GetSkipHeight (nHeight b)) = Some (walk H (nat (nHeight b - h)) p)"
      if s: "pskip b = Some s" and hs: "h \<le> GetSkipHeight (nHeight b)" for s
    proof -
      define k where "k = nat (nHeight b - GetSkipHeight (nHeight b))"
      have lt: "GetSkipHeight (nHeight b) < nHeight b"
        using gt less.prems(2) by (intro GetSkipHeight_less) simp
      have ws: "walk H k p = Some s"
        using wf_indexD [OF wf less.prems(1)] s by (simp add: wf_entry_def k_def)
      have "int k \<le> nHeight b" using GetSkipHeight_nonneg [of "nHeight b"] lt by (simp add: k_def)
      then obtain d where d: "H s = Some d" "nHeight d = GetSkipHeight (nHeight b)"
        using walk_height [OF wf less.prems(1), of k] ws lt by (auto simp: k_def)
      have "nat (nHeight b - h) = k + nat (nHeight d - h)" using d lt hs by (simp add: k_def)
      then have "walk H (nat (nHeight b - h)) p = walk H (nat (nHeight d - h)) s"
        by (simp only: walk_add ws) simp
      then show ?thesis using less.hyps [of d s] d hs lt less.prems s by simp
    qed
    show ?thesis
      using step gt less.prems(1) via_prev via_skip by (auto simp: Let_def)
  qed
qed

text \<open>\<open>GetAncestor\<close> always returns on a well-formed tree, and returns the ancestor at that height.\<close>

lemma GetAncestor_walk:
  assumes "wf_index H" and "H p = Some b" and "0 \<le> h" and "h \<le> nHeight b"
  shows "GetAncestor H p h = Some (walk H (nat (nHeight b - h)) p)"
  using assms GetAncestor_loop_walk [OF assms] by (simp add: GetAncestor_def)

lemma GetAncestor_out_of_range:
  "H p = Some b \<Longrightarrow> h < 0 \<or> nHeight b < h \<Longrightarrow> GetAncestor H p h = Some None"
  by (auto simp: GetAncestor_def)

lemma GetAncestor_Some:
  assumes "wf_index H" and "H p = Some b" and "0 \<le> h" and "h \<le> nHeight b"
  obtains q c where "GetAncestor H p h = Some (Some q)" "walk H (nat (nHeight b - h)) p = Some q"
    "H q = Some c" "nHeight c = h"
proof -
  have "int (nat (nHeight b - h)) \<le> nHeight b" using assms by simp
  then obtain q c where "walk H (nat (nHeight b - h)) p = Some q" "H q = Some c" "nHeight c = h"
    using walk_height [OF assms(1,2)] assms(4) by (metis add_diff_cancel_left' diff_add_cancel int_nat_eq diff_ge_0_iff_ge)
  with GetAncestor_walk [OF assms] show thesis using that by simp
qed

subsection \<open>The ancestor interface\<close>

text \<open>
  What clients of the tree rely on: \<open>anc\<close> finds ancestors by height, \<open>up\<close> counts steps towards the
  root, and heights count those steps.
\<close>

locale ancestor_tree =
  fixes wf :: "'h \<Rightarrow> bool"
    and height :: "'h \<Rightarrow> 'p \<Rightarrow> int option"
    and anc :: "'h \<Rightarrow> 'p \<Rightarrow> int \<Rightarrow> 'p option option"
    and up :: "'h \<Rightarrow> nat \<Rightarrow> 'p \<Rightarrow> 'p option"
  assumes anc_up: "wf H \<Longrightarrow> height H p = Some n \<Longrightarrow> h \<le> n \<Longrightarrow> anc H p h = Some (up H (nat (n - h)) p)"
    and up_height: "wf H \<Longrightarrow> height H p = Some n \<Longrightarrow> int k \<le> n \<Longrightarrow> \<exists>q. up H k p = Some q \<and> height H q = Some (n - int k)"
    and up_beyond: "wf H \<Longrightarrow> height H p = Some n \<Longrightarrow> n < int k \<Longrightarrow> up H k p = None"
    and up_compose: "up H (j + k) p = up H j p \<bind> up H k"
    and height_nonneg: "wf H \<Longrightarrow> height H p = Some n \<Longrightarrow> 0 \<le> n"
begin

text \<open>The ancestor one period back, \<open>None\<close> when there is no whole period below.\<close>

lemma anc_period:
  assumes "wf H" "height H p = Some n" "0 \<le> P"
  shows "anc H p (n - P) = Some (up H (nat P) p)"
  using anc_up [OF assms(1,2), of "n - P"] assms(3) by simp

text \<open>The last block of the period before the one that the next block belongs to.\<close>

lemma anc_aligned:
  assumes "wf H" "height H p = Some n" "0 < P"
  shows "anc H p (n - (n + 1) mod P) = Some (up H (nat ((n + 1) mod P)) p)"
    and "up H (nat ((n + 1) mod P)) p = Some q \<Longrightarrow> \<exists>m. height H q = Some m \<and> (m + 1) mod P = 0"
proof -
  have m: "0 \<le> (n + 1) mod P" using assms(3) by simp
  then show "anc H p (n - (n + 1) mod P) = Some (up H (nat ((n + 1) mod P)) p)"
    using anc_up [OF assms(1,2), of "n - (n + 1) mod P"] by simp
  assume q: "up H (nat ((n + 1) mod P)) p = Some q"
  then have "\<not> n < int (nat ((n + 1) mod P))" using up_beyond [OF assms(1,2)] by force
  then have "height H q = Some (n - (n + 1) mod P)"
    using up_height [OF assms(1,2), of "nat ((n + 1) mod P)"] q m by auto
  moreover have "(n - (n + 1) mod P + 1) mod P = 0"
    using minus_mod_eq_mult_div [of "n + 1" P] by (simp add: algebra_simps)
  ultimately show "\<exists>m. height H q = Some m \<and> (m + 1) mod P = 0" by simp
qed

text \<open>Stepping back one period keeps the alignment.\<close>

lemma period_aligned:
  assumes "wf H" "height H p = Some n" "0 < P" "(n + 1) mod P = 0" "up H (nat P) p = Some q"
  shows "\<exists>m. height H q = Some m \<and> m = n - P \<and> (m + 1) mod P = 0"
proof -
  have "\<not> n < int (nat P)" using up_beyond [OF assms(1,2)] assms(5) by force
  then have "height H q = Some (n - P)"
    using up_height [OF assms(1,2), of "nat P"] assms(3,5) by auto
  moreover have "n - P + 1 = (n + 1) - P" by simp
  then have "(n - P + 1) mod P = 0" using assms(4) by (simp only: minus_mod_self2)
  ultimately show ?thesis by simp
qed

end

definition height_of :: "index_heap \<Rightarrow> ptr \<Rightarrow> int option" where
  "height_of H p = map_option nHeight (H p)"

lemma walk_beyond:
  assumes "wf_index H" "H p = Some b" "nHeight b < int k"
  shows "walk H k p = None"
  using assms(2,3)
proof (induction k arbitrary: p b)
  case 0
  then show ?case using wf_indexD [OF assms(1)] by (fastforce simp: wf_entry_def)
next
  case (Suc k)
  show ?case
  proof (cases "pprev b")
    case (Some q)
    then obtain c where "H q = Some c" "nHeight b = nHeight c + 1"
      using wf_indexD [OF assms(1) Suc.prems(1)] by (auto simp: wf_entry_def)
    then show ?thesis using Suc Some by simp
  qed (use Suc.prems in simp)
qed

interpretation tree: ancestor_tree wf_index height_of GetAncestor walk
proof
  fix H p n h
  assume wf: "wf_index H" and n: "height_of H p = Some n" and h: "h \<le> n"
  from n obtain b where b: "H p = Some b" "nHeight b = n" by (auto simp: height_of_def)
  show "GetAncestor H p h = Some (walk H (nat (n - h)) p)"
  proof (cases "0 \<le> h")
    case True
    then show ?thesis using GetAncestor_walk [OF wf b(1)] h b(2) by simp
  next
    case False
    then show ?thesis
      using GetAncestor_out_of_range [of H p b h] walk_beyond [OF wf b(1), of "nat (n - h)"] b h by simp
  qed
next
  fix H p n k
  assume "wf_index H" "height_of H p = Some n" "int k \<le> n"
  then show "\<exists>q. walk H k p = Some q \<and> height_of H q = Some (n - int k)"
    using walk_height by (fastforce simp: height_of_def)
next
  fix H p n k
  assume "wf_index H" "height_of H p = Some n" "n < int k"
  then show "walk H k p = None" using walk_beyond by (auto simp: height_of_def)
next
  fix H p n
  assume "wf_index H" "height_of H p = Some n"
  then show "0 \<le> n" using wf_indexD by (fastforce simp: height_of_def wf_entry_def)
qed (rule walk_add)

subsection \<open>Work of a block\<close>

definition GetBlockProof :: "CBlockIndex \<Rightarrow> uint_error + base_uint" where
  "GetBlockProof block =
     (let (bnTarget, fNegative, fOverflow) = SetCompact (nBits block)
      in if fNegative \<or> fOverflow \<or> EqualTo bnTarget 0 then Inr (base_uint_zero 8)
         else case bu_divide (bu_not bnTarget) (bu_add bnTarget (base_uint_u64 8 1)) of
             Inl e \<Rightarrow> Inl e
           | Inr q \<Rightarrow> Inr (bu_add q (base_uint_u64 8 1)))"

lemma double_complement_div: "0 < d \<Longrightarrow> d \<le> n \<Longrightarrow> (n - d) div d + 1 = n div d" for n d :: nat
  by (simp add: le_div_geq)

text \<open>The work of a block is the expected number of hashes \<open>2\<^sup>2\<^sup>5\<^sup>6 / (target + 1)\<close>; the division never fails.\<close>

lemma uval_add_one: "length v = 8 \<Longrightarrow> uval (bu_add v (base_uint_u64 8 1)) = (uval v + 1) mod 2 ^ (32 * 8)"
  using uval_add [of v "base_uint_u64 8 1"] by simp

lemma GetBlockProof_value:
  defines "t \<equiv> (\<lambda>w. uval (fst (SetCompact w)))"
  obtains q where "GetBlockProof b = Inr q" "length q = 8"
    "uval q = (if fst (snd (SetCompact (nBits b))) \<or> snd (snd (SetCompact (nBits b))) \<or> t (nBits b) = 0
       then 0 else 2 ^ 256 div (t (nBits b) + 1))"
proof -
  obtain v neg ov where sc: "SetCompact (nBits b) = (v, neg, ov)" by (cases "SetCompact (nBits b)")
  have len: "length v = 8" using SetCompact_parts(1) [of "nBits b"] sc by simp
  show thesis
  proof (cases "neg \<or> ov \<or> uval v = 0")
    case True
    then show ?thesis
      using that [of "base_uint_zero 8"] len by (simp add: GetBlockProof_def sc EqualTo_iff t_def)
  next
    case False
    define d N :: nat where "d = uval v + 1" and "N = 2 ^ (32 * 8)"
    have N: "N = 2 ^ 256" by (simp add: N_def)
    have d: "d < N" "2 \<le> d"
      using SetCompact_target(2) [of "nBits b"] False sc by (simp_all add: d_def N_def)
    have ln: "length (bu_not v) = 8" using len by (simp add: bu_not_def)
    have ud: "uval (bu_add v (base_uint_u64 8 1)) = d"
      using d(1) uval_add_one [OF len, folded N_def] by (simp add: d_def)
    have un: "uval (bu_not v) = N - d"
      using uval_map_not [of v, unfolded len, folded N_def] unfolding bu_not_def d_def by simp
    obtain q where q: "bu_divide (bu_not v) (bu_add v (base_uint_u64 8 1)) = Inr q" "length q = 8"
      "uval q = (N - d) div d"
      using divide_cases [of "bu_not v" "bu_add v (base_uint_u64 8 1)"] len ln d(2)
      by (auto simp: ud un)
    have q1: "uval q + 1 = N div d" unfolding q(3) using d by (intro double_complement_div) simp_all
    have "N div d < N" using d by (intro div_less_dividend) simp_all
    with q1 have "uval (bu_add q (base_uint_u64 8 1)) = N div d"
      using uval_add_one [OF q(2), folded N_def] by simp
    then show ?thesis
      using that [of "bu_add q (base_uint_u64 8 1)"] False q len
      by (simp add: GetBlockProof_def sc EqualTo_iff t_def d_def N)
  qed
qed

subsection \<open>Growing the tree\<close>

text \<open>
  The globals of \<^verbatim>\<open>validation.cpp\<close> that hold the block tree. \<open>setDirtyBlockIndex\<close> is the set of
  entries to be flushed; \<open>mapPrevBlockIndex\<close> is a multimap, kept as an association list.
\<close>

record BlockTree =
  bt_heap :: index_heap
  mapBlockIndex :: "bytes \<rightharpoonup> ptr"
  pindexBestHeader :: "ptr option"
  setDirtyBlockIndex :: "ptr set"
  mapPrevBlockIndex :: "(bytes \<times> ptr) list"

text \<open>
  \<open>AddToBlockIndex\<close>: \<open>GetHash\<close> is the header hash (lyra2z) and \<open>p\<close> the address that \<^verbatim>\<open>new\<close>
  returns. \<open>None\<close> stands for a \<^verbatim>\<open>NULL\<close> dereference, a failed assertion or an exception.
\<close>

definition link_prev :: "index_heap \<Rightarrow> ptr option \<Rightarrow> ptr \<Rightarrow> index_heap option" where
  "link_prev H miPrev p =
     (case miPrev of
        None \<Rightarrow> Some H
      | Some q \<Rightarrow> do {
          b \<leftarrow> H p;
          c \<leftarrow> H q;
          BuildSkip (H(p \<mapsto> b\<lparr>pprev := Some q, nHeight := nHeight c + 1\<rparr>)) p
        })"

definition finish_entry :: "index_heap \<Rightarrow> CBlockIndex \<Rightarrow> CBlockIndex option" where
  "finish_entry H b = do {
     (tmax, work) \<leftarrow> (case pprev b of
         None \<Rightarrow> Some (nTime b, base_uint_u64 8 0)
       | Some q \<Rightarrow> do { c \<leftarrow> H q; Some (max (nTimeMax c) (nTime b), nChainWork c) });
     proof \<leftarrow> (case GetBlockProof b of Inl _ \<Rightarrow> None | Inr w \<Rightarrow> Some w);
     (_, b') \<leftarrow> RaiseValidity BLOCK_VALID_TREE (b\<lparr>nTimeMax := tmax, nChainWork := bu_add work proof\<rparr>);
     Some b'
   }"

definition AddToBlockIndex ::
  "(CBlockHeader \<Rightarrow> bytes) \<Rightarrow> u32 \<Rightarrow> ptr \<Rightarrow> CBlockHeader \<Rightarrow> BlockTree \<Rightarrow> (ptr \<times> BlockTree) option" where
  "AddToBlockIndex GetHash nMTPSwitchTime p block st =
     (let hash = GetHash block
      in case mapBlockIndex st hash of
        Some q \<Rightarrow> Some (q, st)
      | None \<Rightarrow>
          let b0 = (CBlockIndex_of_header nMTPSwitchTime block)\<lparr>nSequenceId := 0, phashBlock := Some hash\<rparr>;
              m = (mapBlockIndex st)(hash \<mapsto> p);
              H0 = (bt_heap st)(p \<mapsto> b0)
          in do {
            H1 \<leftarrow> link_prev H0 (m (bh_hashPrevBlock block)) p;
            b1 \<leftarrow> H1 p;
            b \<leftarrow> finish_entry H1 b1;
            let H = H1(p \<mapsto> b);
            best \<leftarrow> (case pindexBestHeader st of
                None \<Rightarrow> Some (Some p)
              | Some r \<Rightarrow> do { c \<leftarrow> H r; Some (Some (if CompareTo (nChainWork c) (nChainWork b) < 0 then p else r)) });
            prevs \<leftarrow> (case pprev b of
                None \<Rightarrow> Some (mapPrevBlockIndex st)
              | Some q \<Rightarrow> do { c \<leftarrow> H q; h \<leftarrow> phashBlock c; Some ((h, p) # mapPrevBlockIndex st) });
            Some (p, st\<lparr>bt_heap := H, mapBlockIndex := m, pindexBestHeader := best,
                        setDirtyBlockIndex := insert p (setDirtyBlockIndex st),
                        mapPrevBlockIndex := prevs\<rparr>)
          })"

text \<open>
  The invariant of the tree. Every entry agrees with its parent: a root has no skip pointer, every other entry has one
  (leading, by \<open>wf_index\<close>, to the ancestor at the height \<open>GetSkipHeight\<close> chooses), \<open>nTimeMax\<close> is the largest time on the
  branch and \<open>nChainWork\<close> the sum of the work on it, modulo \<open>2\<^sup>2\<^sup>5\<^sup>6\<close>. The hash map and the heap agree,
  \<open>mapPrevBlockIndex\<close> lists every entry once under the hash of its parent, and the best header has the most work.
\<close>

definition block_work :: "CBlockIndex \<Rightarrow> nat" where
  "block_work b = (let (v, neg, ov) = SetCompact (nBits b) in if neg \<or> ov \<or> uval v = 0 then 0 else 2 ^ 256 div (uval v + 1))"

definition entry_ok :: "index_heap \<Rightarrow> CBlockIndex \<Rightarrow> bool" where
  "entry_ok H b \<longleftrightarrow> phashBlock b \<noteq> None \<and> length (nChainWork b) = 8 \<and>
     (case pprev b of
        None \<Rightarrow> pskip b = None \<and> nTimeMax b = nTime b \<and> uval (nChainWork b) = block_work b
      | Some q \<Rightarrow> pskip b \<noteq> None \<and> (\<exists>c. H q = Some c \<and> nTimeMax b = max (nTimeMax c) (nTime b) \<and>
          uval (nChainWork b) = (uval (nChainWork c) + block_work b) mod 2 ^ 256))"

definition child_links :: "index_heap \<Rightarrow> (bytes \<times> ptr) set" where
  "child_links H = {(h, p). \<exists>b q c. H p = Some b \<and> pprev b = Some q \<and> H q = Some c \<and> phashBlock c = Some h}"

definition tree_inv :: "BlockTree \<Rightarrow> bool" where
  "tree_inv st \<longleftrightarrow> wf_index (bt_heap st)
     \<and> (\<forall>h p. mapBlockIndex st h = Some p \<longleftrightarrow> (\<exists>b. bt_heap st p = Some b \<and> phashBlock b = Some h))
     \<and> (\<forall>p b. bt_heap st p = Some b \<longrightarrow> entry_ok (bt_heap st) b)
     \<and> distinct (mapPrevBlockIndex st) \<and> set (mapPrevBlockIndex st) = child_links (bt_heap st)
     \<and> (case pindexBestHeader st of None \<Rightarrow> bt_heap st = Map.empty
        | Some r \<Rightarrow> \<exists>c. bt_heap st r = Some c \<and>
            (\<forall>p b. bt_heap st p = Some b \<longrightarrow> uval (nChainWork b) \<le> uval (nChainWork c)))"

definition empty_tree :: BlockTree where
  "empty_tree = \<lparr>bt_heap = Map.empty, mapBlockIndex = Map.empty, pindexBestHeader = None,
     setDirtyBlockIndex = {}, mapPrevBlockIndex = []\<rparr>"

lemma walk_extend:
  assumes "wf_index H" "H p = None" "H q = Some c"
  shows "walk (H(p \<mapsto> b)) n q = walk H n q"
  using assms(3)
proof (induction n arbitrary: q c)
  case (Suc n)
  have "q \<noteq> p" using Suc.prems assms(2) by auto
  moreover have "walk (H(p \<mapsto> b)) n r = walk H n r" if r: "pprev c = Some r" for r
  proof -
    obtain d where "H r = Some d" using r wf_indexD [OF assms(1) Suc.prems] by (auto simp: wf_entry_def)
    then show ?thesis by (rule Suc.IH)
  qed
  moreover define G where "G = H(p \<mapsto> b)"
  ultimately have "G q = Some c" "pprev c = Some r \<Longrightarrow> walk G n r = walk H n r" for r
    using Suc.prems by simp_all
  then show ?case using Suc.prems unfolding G_def [symmetric] by (cases "pprev c") simp_all
qed simp

lemma wf_extend:
  assumes wf: "wf_index H" and fresh: "H p = None" and "pskip b = None"
    and prev: "pprev b = None \<and> nHeight b = 0 \<or>
      (\<exists>q c. pprev b = Some q \<and> H q = Some c \<and> nHeight b = nHeight c + 1)"
  shows "wf_index (H(p \<mapsto> b))"
proof -
  define G where "G = H(p \<mapsto> b)"
  have G: "G q = Some c" if "H q = Some c" for q c using that fresh by (auto simp: G_def)
  have walk: "walk G n q = walk H n q" if "H q = Some c" for n q c
    unfolding G_def by (rule walk_extend [OF wf fresh that])
  have "wf_entry G q c" if q: "H q = Some c" for q c
    using wf_indexD [OF wf q] G walk [OF q] by (auto simp: wf_entry_def split: option.splits)
  moreover have "wf_entry G p b"
    using assms(3) prev G wf_indexD [OF wf] by (auto simp: wf_entry_def)
  ultimately have "wf_index G"
    using fresh unfolding wf_index_def by (metis G_def fun_upd_apply option.inject)
  then show ?thesis by (simp only: G_def)
qed

lemma walk_cong:
  assumes "\<And>q. map_option pprev (G q) = map_option pprev (H q)"
  shows "walk G n q = walk H n q"
proof (induction n arbitrary: q)
  case (Suc n)
  then have "walk G n = walk H n" by (intro ext)
  then show ?case using assms [of q] by (cases "G q"; cases "H q") auto
qed simp

lemma walk_update:
  assumes "H p = Some b" and "pprev b' = pprev b"
  shows "walk (H(p \<mapsto> b')) n q = walk H n q"
  by (rule walk_cong) (simp add: assms)

lemma wf_update:
  assumes wf: "wf_index H" and b: "H p = Some b" and same: "pprev b' = pprev b" "nHeight b' = nHeight b"
    and skip: "pskip b' = pskip b \<or> pskip b' = walk H (nat (nHeight b - GetSkipHeight (nHeight b))) p"
  shows "wf_index (H(p \<mapsto> b'))"
proof -
  define G where "G = H(p \<mapsto> b')"
  have walk: "walk G n q = walk H n q" for n q
    unfolding G_def by (rule walk_update [where H = H and p = p and b = b, OF b same(1)])
  have G: "\<exists>c'. G q = Some c' \<and> nHeight c' = nHeight c" if "H q = Some c" for q c
    using that b same(2) by (auto simp: G_def)
  have entry: "wf_entry G q c'"
    if q: "H q = Some c" and c': "pprev c' = pprev c" "nHeight c' = nHeight c"
      and s: "pskip c' = pskip c \<or> pskip c' = walk H (nat (nHeight c - GetSkipHeight (nHeight c))) q" for q c c'
    using wf_indexD [OF wf q] c' s G
    by (auto simp: wf_entry_def walk split: option.splits) (metis G)+
  have "wf_index G"
    unfolding wf_index_def
  proof (intro allI impI)
    fix q c
    assume "G q = Some c"
    then show "wf_entry G q c"
      using entry [OF b same skip] entry [of q c c] by (cases "q = p") (simp_all add: G_def)
  qed
  then show ?thesis by (simp only: G_def)
qed

lemma link_prev_ok:
  assumes wf: "wf_index H" and fresh: "H p = None"
    and b0: "pprev b0 = None" "pskip b0 = None" "nHeight b0 = 0"
    and prev: "mi = None \<or> (\<exists>q c. mi = Some q \<and> H q = Some c)"
  obtains ht sk where "link_prev (H(p \<mapsto> b0)) mi p = Some (H(p \<mapsto> b0\<lparr>pprev := mi, nHeight := ht, pskip := sk\<rparr>))"
    "wf_index (H(p \<mapsto> b0\<lparr>pprev := mi, nHeight := ht, pskip := sk\<rparr>))" "sk = None \<longleftrightarrow> mi = None"
proof (cases mi)
  case None
  have same: "b0\<lparr>pprev := mi, nHeight := 0, pskip := None\<rparr> = b0"
    by (rule CBlockIndex.equality) (simp_all add: None b0)
  show ?thesis
    by (rule that [of None 0, unfolded same]) (use wf_extend [OF wf fresh, of b0] b0 in \<open>simp_all add: None link_prev_def\<close>)
next
  case (Some q)
  then obtain c where c: "H q = Some c" using prev by auto
  then have "q \<noteq> p" using fresh by auto
  define b where "b = b0\<lparr>pprev := Some q, nHeight := nHeight c + 1\<rparr>"
  define H1 where "H1 = H(p \<mapsto> b)"
  have wf1: "wf_index H1"
    unfolding H1_def using wf_extend [OF wf fresh, of b] c b0 by (simp add: b_def)
  have p1: "H1 p = Some b" and q1: "H1 q = Some c" using c \<open>q \<noteq> p\<close> by (simp_all add: H1_def)
  have c0: "0 \<le> nHeight c" using wf_indexD [OF wf c] by (simp add: wf_entry_def)
  have range: "0 \<le> GetSkipHeight (nHeight b)" "GetSkipHeight (nHeight b) \<le> nHeight c"
    using GetSkipHeight_nonneg [of "nHeight b"] GetSkipHeight_less [of "nHeight b"] c0 by (simp_all add: b_def)
  define s where "s = walk H1 (nat (nHeight c - GetSkipHeight (nHeight b))) q"
  have anc: "GetAncestor H1 q (GetSkipHeight (nHeight b)) = Some s"
    unfolding s_def by (rule GetAncestor_walk [OF wf1 q1 range])
  have "nat (nHeight b - GetSkipHeight (nHeight b)) = Suc (nat (nHeight c - GetSkipHeight (nHeight b)))"
    using range(2) by (simp add: b_def)
  then have s: "s = walk H1 (nat (nHeight b - GetSkipHeight (nHeight b))) p"
    by (simp add: s_def p1 b_def)
  have "link_prev (H(p \<mapsto> b0)) mi p = BuildSkip H1 p"
    using \<open>q \<noteq> p\<close> c by (simp add: Some link_prev_def H1_def b_def)
  also have "\<dots> = Some (H1(p \<mapsto> b\<lparr>pskip := s\<rparr>))"
    using p1 anc by (simp add: BuildSkip_def b_def)
  also have up: "H1(p \<mapsto> b\<lparr>pskip := s\<rparr>) = H(p \<mapsto> b\<lparr>pskip := s\<rparr>)" by (simp add: H1_def)
  finally have link: "link_prev (H(p \<mapsto> b0)) mi p = Some (H(p \<mapsto> b\<lparr>pskip := s\<rparr>))" .
  have wf2: "wf_index (H(p \<mapsto> b\<lparr>pskip := s\<rparr>))"
    unfolding up [symmetric] by (rule wf_update [OF wf1 p1]) (simp_all add: s)
  have "s \<noteq> None" using walk_height [OF wf1 q1, of "nat (nHeight c - GetSkipHeight (nHeight b))"] range by (auto simp: s_def)
  then show ?thesis
    using that [of s "nHeight c + 1"] link wf2 by (simp add: b_def Some)
qed

lemma CompareTo_lt: "length a = length b \<Longrightarrow> CompareTo a b < 0 \<longleftrightarrow> uval a < uval b"
  by (auto simp: CompareTo_sgn sgn_if)

lemma RaiseValidity_new:
  "nStatus b = 0 \<Longrightarrow> RaiseValidity BLOCK_VALID_TREE b = Some (True, b\<lparr>nStatus := BLOCK_VALID_TREE\<rparr>)"
  by (simp add: RaiseValidity_def BLOCK_VALID_TREE_def BLOCK_VALID_MASK_def BLOCK_FAILED_MASK_def)

lemma GetBlockProof_work:
  obtains q where "GetBlockProof b = Inr q" "length q = 8" "uval q = block_work b"
  by (rule GetBlockProof_value [of b]) (simp add: block_work_def case_prod_beta)

lemma finish_entry_ok:
  assumes "pprev b = None \<or> (\<exists>q c. pprev b = Some q \<and> H q = Some c \<and> length (nChainWork c) = 8)"
    and "nStatus b = 0" and "phashBlock b \<noteq> None" and "pskip b = None \<longleftrightarrow> pprev b = None"
  obtains tmax work where
    "finish_entry H b = Some (b\<lparr>nTimeMax := tmax, nChainWork := work, nStatus := BLOCK_VALID_TREE\<rparr>)" "length work = 8"
    "entry_ok H (b\<lparr>nTimeMax := tmax, nChainWork := work, nStatus := BLOCK_VALID_TREE\<rparr>)"
proof -
  obtain pr where pr: "GetBlockProof b = Inr pr" "length pr = 8" "uval pr = block_work b" by (rule GetBlockProof_work)
  have small: "block_work b < 2 ^ 256" using pr uval_bound [of pr] by simp
  have work: "block_work (b\<lparr>nTimeMax := t, nChainWork := w, nStatus := n\<rparr>) = block_work b" for t w n by (simp add: block_work_def)
  show thesis
  proof (cases "pprev b")
    case None
    let ?b = "b\<lparr>nTimeMax := nTime b, nChainWork := bu_add (base_uint_u64 8 0) pr\<rparr>"
    have "finish_entry H b = Some (?b\<lparr>nStatus := BLOCK_VALID_TREE\<rparr>)"
      using RaiseValidity_new [of ?b] assms(2) by (simp add: finish_entry_def None pr(1))
    then show ?thesis
      by (rule that) (use pr small assms None in \<open>simp_all add: entry_ok_def work uval_add\<close>)
  next
    case (Some q)
    then obtain c where c: "H q = Some c" "length (nChainWork c) = 8" using assms(1) by auto
    let ?b = "b\<lparr>nTimeMax := max (nTimeMax c) (nTime b), nChainWork := bu_add (nChainWork c) pr\<rparr>"
    have "finish_entry H b = Some (?b\<lparr>nStatus := BLOCK_VALID_TREE\<rparr>)"
      using RaiseValidity_new [of ?b] assms(2) by (simp add: finish_entry_def Some c pr(1))
    then show ?thesis
      by (rule that) (use pr assms Some c in \<open>simp_all add: entry_ok_def work uval_add\<close>)
  qed
qed

lemma best_choice:
  assumes "\<And>r. best = Some r \<Longrightarrow> \<exists>c. H r = Some c" and "\<And>r c. H r = Some c \<Longrightarrow> G r = Some c"
    and "\<And>r c. H r = Some c \<Longrightarrow> length (nChainWork c) = length (nChainWork b)"
  obtains x where "(case best of None \<Rightarrow> Some (Some p)
      | Some r \<Rightarrow> G r \<bind> (\<lambda>c. Some (Some (if CompareTo (nChainWork c) (nChainWork b) < 0 then p else r)))) = Some (Some x)"
    "x = p \<and> (\<forall>r c. best = Some r \<longrightarrow> H r = Some c \<longrightarrow> uval (nChainWork c) \<le> uval (nChainWork b))
      \<or> (\<exists>c. best = Some x \<and> H x = Some c \<and> uval (nChainWork b) \<le> uval (nChainWork c))"
proof (cases best)
  case None
  then show ?thesis using that [of p] by simp
next
  case (Some r)
  then obtain c where c: "H r = Some c" using assms(1) by auto
  note lt = CompareTo_lt [OF assms(3) [OF c]]
  show ?thesis
    using that [of p] that [of r] Some c assms(2) [OF c]
    by (cases "uval (nChainWork c) < uval (nChainWork b)") (auto simp: lt)
qed

text \<open>What a new entry takes from its header.\<close>

definition made_from :: "u32 \<Rightarrow> bytes \<Rightarrow> CBlockHeader \<Rightarrow> CBlockIndex \<Rightarrow> bool" where
  "made_from sw hash block b \<longleftrightarrow> phashBlock b = Some hash \<and> nVersion b = bh_nVersion block
     \<and> hashMerkleRoot b = bh_hashMerkleRoot block \<and> nTime b = bh_nTime block \<and> nBits b = bh_nBits block
     \<and> nNonce b = bh_nNonce block \<and> nStatus b = BLOCK_VALID_TREE \<and> nSequenceId b = 0 \<and> nTx b = 0 \<and> nChainTx b = 0
     \<and> (if bh_nTime block > ZC_GENESIS_BLOCK_TIME \<and> bh_nTime block \<ge> sw
        then nVersionMTP b = bh_nVersionMTP block \<and> mtpHashValue b = bh_mtpHashValue block
          \<and> reserved0 b = bh_reserved0 block \<and> reserved1 b = bh_reserved1 block
        else nVersionMTP b = 0 \<and> mtpHashValue b = uint256_null \<and> reserved0 b = uint256_null \<and> reserved1 b = uint256_null)"

text \<open>How an existing tree is extended: everything \<open>AddToBlockIndex\<close> does to a header it does not know.\<close>

definition grown :: "BlockTree \<Rightarrow> ptr \<Rightarrow> bytes \<Rightarrow> CBlockIndex \<Rightarrow> ptr \<Rightarrow> BlockTree" where
  "grown st p hash b best = st\<lparr>bt_heap := (bt_heap st)(p \<mapsto> b), mapBlockIndex := (mapBlockIndex st)(hash \<mapsto> p),
     pindexBestHeader := Some best, setDirtyBlockIndex := insert p (setDirtyBlockIndex st),
     mapPrevBlockIndex := (case pprev b of None \<Rightarrow> mapPrevBlockIndex st
       | Some q \<Rightarrow> (the (phashBlock (the (bt_heap st q))), p) # mapPrevBlockIndex st)\<rparr>"

lemma AddToBlockIndex_new:
  assumes inv: "tree_inv st" and fresh: "bt_heap st p = None"
    and self: "GetHash block \<noteq> bh_hashPrevBlock block" and new: "mapBlockIndex st (GetHash block) = None"
  obtains b best where "AddToBlockIndex GetHash sw p block st = Some (p, grown st p (GetHash block) b best)"
    "wf_index ((bt_heap st)(p \<mapsto> b))" "entry_ok (bt_heap st) b" "made_from sw (GetHash block) block b"
    "pprev b = mapBlockIndex st (bh_hashPrevBlock block)"
    "best = p \<and> (\<forall>r c. pindexBestHeader st = Some r \<longrightarrow> bt_heap st r = Some c \<longrightarrow> uval (nChainWork c) \<le> uval (nChainWork b))
      \<or> (\<exists>c. pindexBestHeader st = Some best \<and> bt_heap st best = Some c \<and> uval (nChainWork b) \<le> uval (nChainWork c))"
proof -
  define H where "H = bt_heap st"
  define mi where "mi = mapBlockIndex st (bh_hashPrevBlock block)"
  define b0 where "b0 = (CBlockIndex_of_header sw block)\<lparr>nSequenceId := 0, phashBlock := Some (GetHash block)\<rparr>"
  note inv' = inv [unfolded tree_inv_def, folded H_def]
  have wf: "wf_index H" and fr: "H p = None" using inv' fresh by (simp_all add: H_def)
  have b0: "pprev b0 = None" "pskip b0 = None" "nHeight b0 = 0" "nStatus b0 = 0"
    by (simp_all add: b0_def CBlockIndex_of_header_def CBlockIndex_SetNull_def Let_def)
  have mi: "mi = None \<or> (\<exists>q c. mi = Some q \<and> H q = Some c)"
    using inv' by (cases mi) (auto simp: mi_def)
  obtain ht sk where link: "link_prev (H(p \<mapsto> b0)) mi p = Some (H(p \<mapsto> b0\<lparr>pprev := mi, nHeight := ht, pskip := sk\<rparr>))"
    and wf1: "wf_index (H(p \<mapsto> b0\<lparr>pprev := mi, nHeight := ht, pskip := sk\<rparr>))" and sk: "sk = None \<longleftrightarrow> mi = None"
    by (rule link_prev_ok [OF wf fr b0(1-3) mi])
  define b1 where "b1 = b0\<lparr>pprev := mi, nHeight := ht, pskip := sk\<rparr>"
  define H1 where "H1 = H(p \<mapsto> b1)"
  have H1: "H1 p = Some b1" "H q = Some c \<Longrightarrow> H1 q = Some c" for q c using fr by (auto simp: H1_def)
  have len: "length (nChainWork c) = 8" and hash: "\<exists>h. phashBlock c = Some h" if "H q = Some c" for q c
    using inv' that by (auto simp: entry_ok_def)
  have pre: "pprev b1 = None \<or> (\<exists>q c. pprev b1 = Some q \<and> H1 q = Some c \<and> length (nChainWork c) = 8)"
    "nStatus b1 = 0" "phashBlock b1 \<noteq> None" "pskip b1 = None \<longleftrightarrow> pprev b1 = None"
    using mi H1 len b0 sk by (auto simp: b1_def b0_def)
  obtain tmax work where
    fin: "finish_entry H1 b1 = Some (b1\<lparr>nTimeMax := tmax, nChainWork := work, nStatus := BLOCK_VALID_TREE\<rparr>)"
    and work: "length work = 8"
    and eok: "entry_ok H1 (b1\<lparr>nTimeMax := tmax, nChainWork := work, nStatus := BLOCK_VALID_TREE\<rparr>)"
    by (rule finish_entry_ok [OF pre])
  define b where "b = b1\<lparr>nTimeMax := tmax, nChainWork := work, nStatus := BLOCK_VALID_TREE\<rparr>"
  define H2 where "H2 = H(p \<mapsto> b)"
  have H2: "H2 p = Some b" "H q = Some c \<Longrightarrow> H2 q = Some c" for q c using fr by (auto simp: H2_def)
  have up: "H1(p \<mapsto> b) = H2" by (simp add: H1_def H2_def)
  have wf2: "wf_index H2"
    unfolding up [symmetric] by (rule wf_update [OF wf1 [folded b1_def, folded H1_def] H1(1)]) (simp_all add: b_def)
  have prevs: "(case pprev b of None \<Rightarrow> Some (mapPrevBlockIndex st)
      | Some q \<Rightarrow> H2 q \<bind> (\<lambda>c. phashBlock c \<bind> (\<lambda>h. Some ((h, p) # mapPrevBlockIndex st)))) =
      Some (mapPrevBlockIndex (grown st p (GetHash block) b best))" for best
    using mi H2(2) hash by (cases mi) (fastforce simp: b_def b1_def grown_def H_def [symmetric])+
  obtain best where best: "(case pindexBestHeader st of None \<Rightarrow> Some (Some p)
      | Some r \<Rightarrow> H2 r \<bind> (\<lambda>c. Some (Some (if CompareTo (nChainWork c) (nChainWork b) < 0 then p else r)))) = Some (Some best)"
    and best': "best = p \<and> (\<forall>r c. pindexBestHeader st = Some r \<longrightarrow> H r = Some c \<longrightarrow> uval (nChainWork c) \<le> uval (nChainWork b))
      \<or> (\<exists>c. pindexBestHeader st = Some best \<and> H best = Some c \<and> uval (nChainWork b) \<le> uval (nChainWork c))"
    by (rule best_choice [where H = H and G = H2 and best = "pindexBestHeader st" and b = b])
      (use inv' H2(2) len work in \<open>auto simp: b_def\<close>)
  have "AddToBlockIndex GetHash sw p block st = Some (p, grown st p (GetHash block) b best)"
    unfolding AddToBlockIndex_def Let_def new option.case b0_def [symmetric] H_def [symmetric]
      fun_upd_other [OF self [symmetric]] mi_def [symmetric] link [folded b1_def] H1_def [symmetric]
    by (simp only: H1(1) fin [folded b_def] Option.bind.simps Let_def up prevs [of best] best) (simp add: grown_def H2_def H_def)
  moreover have "mi \<noteq> Some p" using mi fr by auto
  then have "entry_ok H b"
    using eok by (auto simp: entry_ok_def b_def b1_def H1_def split: option.splits)
  moreover have "made_from sw (GetHash block) block b"
    by (simp add: made_from_def b_def b1_def b0_def CBlockIndex_of_header_def CBlockIndex_SetNull_def IsMTP_def Let_def)
  moreover have "pprev b = mapBlockIndex st (bh_hashPrevBlock block)" by (simp add: b_def b1_def mi_def)
  ultimately show thesis
    using wf2 best' unfolding H2_def H_def by (intro that)
qed

lemma entry_ok_mono: "entry_ok H c \<Longrightarrow> H p = None \<Longrightarrow> entry_ok (H(p \<mapsto> b)) c"
  by (auto simp: entry_ok_def split: option.splits)

lemma child_links_extend:
  assumes "wf_index H" and "H p = None" and "wf_index (H(p \<mapsto> b))" and "\<And>q c. H q = Some c \<Longrightarrow> phashBlock c \<noteq> None"
  shows "child_links (H(p \<mapsto> b)) =
    (case pprev b of None \<Rightarrow> child_links H | Some q \<Rightarrow> insert (the (phashBlock (the (H q))), p) (child_links H))"
proof -
  have old: "pprev c \<noteq> Some p" if "H q = Some c" for q c
    using wf_indexD [OF assms(1) that] assms(2) by (auto simp: wf_entry_def)
  have own: "\<exists>c. H q = Some c \<and> q \<noteq> p" if "pprev b = Some q" for q
    using wf_indexD [OF assms(3), of p b] that assms(2) by (cases "q = p") (auto simp: wf_entry_def)
  have "(h, q) \<in> child_links (H(p \<mapsto> b)) \<longleftrightarrow>
      (h, q) \<in> child_links H \<or> (q = p \<and> (\<exists>r c. pprev b = Some r \<and> H r = Some c \<and> phashBlock c = Some h))" for h q
    using old own assms(2) unfolding child_links_def by (auto split: if_splits) blast+
  then show ?thesis using own assms(4) by (cases "pprev b") fastforce+
qed

lemma tree_inv_grown:
  assumes inv: "tree_inv st" and fresh: "bt_heap st p = None" and new: "mapBlockIndex st h = None"
    and wf: "wf_index ((bt_heap st)(p \<mapsto> b))" and b: "phashBlock b = Some h" "entry_ok (bt_heap st) b"
    and best: "best = p \<and> (\<forall>r c. pindexBestHeader st = Some r \<longrightarrow> bt_heap st r = Some c \<longrightarrow> uval (nChainWork c) \<le> uval (nChainWork b))
      \<or> (\<exists>c. pindexBestHeader st = Some best \<and> bt_heap st best = Some c \<and> uval (nChainWork b) \<le> uval (nChainWork c))"
  shows "tree_inv (grown st p h b best)"
proof -
  define H where "H = bt_heap st"
  define G where "G = H(p \<mapsto> b)"
  note inv' = inv [unfolded tree_inv_def, folded H_def]
  have G: "G q = (if q = p then Some b else H q)" for q by (simp add: G_def)
  have nohash: "phashBlock c \<noteq> Some h" if "H q = Some c" for q c
    using inv' new that by (metis option.distinct(1))
  have map: "((mapBlockIndex st)(h \<mapsto> p)) h' = Some q \<longleftrightarrow> (\<exists>c. G q = Some c \<and> phashBlock c = Some h')" for h' q
    using inv' nohash fresh b(1) by (auto simp: G H_def)
  have entries: "entry_ok G c" if "G q = Some c" for q c
    using inv' that b(2) fresh entry_ok_mono [of H _ p b] by (auto simp: G_def H_def split: if_splits)
  have links: "distinct (mapPrevBlockIndex (grown st p h b best))"
    "set (mapPrevBlockIndex (grown st p h b best)) = child_links G"
  proof -
    have "(x, p) \<notin> child_links H" for x using fresh by (simp add: child_links_def H_def)
    then show "distinct (mapPrevBlockIndex (grown st p h b best))"
      using inv' by (auto simp: grown_def split: option.splits)
    have "child_links G = (case pprev b of None \<Rightarrow> child_links H
        | Some q \<Rightarrow> insert (the (phashBlock (the (H q))), p) (child_links H))"
      unfolding G_def by (rule child_links_extend) (use inv' fresh wf in \<open>auto simp: H_def entry_ok_def\<close>)
    then show "set (mapPrevBlockIndex (grown st p h b best)) = child_links G"
      using inv' by (auto simp: grown_def H_def split: option.splits)
  qed
  have best: "\<exists>c. G best = Some c \<and> (\<forall>q d. G q = Some d \<longrightarrow> uval (nChainWork d) \<le> uval (nChainWork c))"
  proof (cases "pindexBestHeader st")
    case None
    then have "H = Map.empty" using inv' by simp
    then show ?thesis using None best by (auto simp: G)
  next
    case (Some r)
    then obtain c where c: "H r = Some c" "\<And>q d. H q = Some d \<Longrightarrow> uval (nChainWork d) \<le> uval (nChainWork c)"
      using inv' by auto
    then show ?thesis using best Some fresh by (auto simp: G H_def intro: order.trans)
  qed
  have "bt_heap (grown st p h b best) = G" "mapBlockIndex (grown st p h b best) = (mapBlockIndex st)(h \<mapsto> p)"
    "pindexBestHeader (grown st p h b best) = Some best" by (simp_all add: grown_def G_def H_def)
  then show ?thesis
    using wf [folded H_def, folded G_def] map entries links best unfolding tree_inv_def by (simp del: fun_upd_apply)
qed

lemma empty_tree_inv: "tree_inv empty_tree"
  by (simp add: tree_inv_def empty_tree_def wf_index_def child_links_def)

subsection \<open>A straight chain\<close>

text \<open>
  A tree with a single branch of \<open>n\<close> blocks, with the skip pointers \<open>BuildSkip\<close> gives it, on which the
  properties are instantiated.
\<close>

definition line_heap :: "nat \<Rightarrow> (nat \<Rightarrow> u32) \<Rightarrow> u32 \<Rightarrow> index_heap" where
  "line_heap n t bits p =
     (if p < n
      then Some (CBlockIndex_SetNull\<lparr>phashBlock := Some [of_nat p],
             pprev := (if p = 0 then None else Some (p - 1)),
             pskip := (if p = 0 then None else Some (nat (GetSkipHeight (int p)))),
             nHeight := int p, nTime := t p, nTimeMax := t p, nBits := bits\<rparr>)
      else None)"

definition sample_header :: CBlockHeader where
  "sample_header = \<lparr>bh_nVersion = 1, bh_hashPrevBlock = [], bh_hashMerkleRoot = [1], bh_nTime = 2, bh_nBits = 0x2000ffff,
      bh_nNonce = 0, bh_nVersionMTP = 0, bh_mtpHashValue = [], bh_reserved0 = [], bh_reserved1 = [],
      bh_mtpHashData = None\<rparr>"

definition sample_child :: CBlockHeader where
  "sample_child = sample_header\<lparr>bh_hashPrevBlock := [1], bh_hashMerkleRoot := [2]\<rparr>"

lemma walk_line: "k \<le> p \<Longrightarrow> p < n \<Longrightarrow> walk (line_heap n t bits) k p = Some (p - k)"
  by (induction k arbitrary: p) (auto simp: line_heap_def)

lemma wf_line_heap: "wf_index (line_heap n t bits)"
proof -
  have "wf_entry (line_heap n t bits) p b" if b: "line_heap n t bits p = Some b" for p b
  proof -
    have p: "p < n" "nHeight b = int p" "pprev b = (if p = 0 then None else Some (p - 1))"
      "pskip b = (if p = 0 then None else Some (nat (GetSkipHeight (int p))))"
      using b by (auto simp: line_heap_def split: if_splits)
    have "walk (line_heap n t bits) (nat (int p - GetSkipHeight (int p))) p = Some (nat (GetSkipHeight (int p)))"
      using GetSkipHeight_nonneg [of "int p"] p(1)
      by (cases "p = 0") (simp_all add: walk_line GetSkipHeight_def [of 0] nat_le_iff, use GetSkipHeight_less [of "int p"] in linarith)
    moreover have "\<exists>c. line_heap n t bits (p - 1) = Some c \<and> int p = nHeight c + 1" if "0 < p"
      using that p(1) by (simp add: line_heap_def)
    ultimately show ?thesis using p by (simp add: wf_entry_def)
  qed
  then show ?thesis by (simp add: wf_index_def)
qed

subsection \<open>Properties\<close>

text \<open>
  C29. On a well-formed block tree the skip-list walk of \<open>GetAncestor\<close> ends, never follows a \<^verbatim>\<open>NULL\<close>
  pointer, and returns the entry that following \<open>pprev\<close> one block at a time reaches, which has the
  requested height; outside the range of heights it returns \<^verbatim>\<open>NULL\<close>.
\<close>

theorem GetAncestor_correct:
  assumes "wf_index H" and "H p = Some b"
  shows "if 0 \<le> h \<and> h \<le> nHeight b
    then \<exists>q c. GetAncestor H p h = Some (Some q) \<and> walk H (nat (nHeight b - h)) p = Some q \<and> H q = Some c \<and> nHeight c = h
    else GetAncestor H p h = Some None"
proof (cases "0 \<le> h \<and> h \<le> nHeight b")
  case True
  then show ?thesis using GetAncestor_Some [OF assms] by (metis (no_types))
next
  case False
  then show ?thesis using GetAncestor_out_of_range [of H p b h] assms(2) by auto
qed

theorem GetAncestor_correct_witness:
  "\<exists>q c. GetAncestor (line_heap 9 (\<lambda>_. 0) 0) 7 2 = Some (Some q) \<and> line_heap 9 (\<lambda>_. 0) 0 q = Some c \<and> nHeight c = 2"
proof -
  obtain b where "line_heap 9 (\<lambda>_. 0) 0 7 = Some b" "nHeight b = 7" by (simp add: line_heap_def)
  then show ?thesis using GetAncestor_correct [OF wf_line_heap, of 9 "\<lambda>_. 0" 0 7 b 2] by auto
qed

text \<open>
  C30. \<open>AddToBlockIndex\<close> always succeeds on a tree that satisfies the invariant, for a header that is not its own
  predecessor. A header whose hash is known changes nothing. Any other gets the new entry, made from the header's
  fields and linked to the entry known under the predecessor's hash; no existing entry changes and no other appears,
  the new entry is to be flushed, and the invariant holds again: one more than the parent's height, a skip pointer to
  the ancestor at the chosen height, the parent's work plus the block's own, the largest time on the branch, the
  children listed under their parent's hash, and a best header with the most work.
\<close>

theorem AddToBlockIndex_keeps_tree:
  assumes "tree_inv st" and "bt_heap st p = None" and "GetHash block \<noteq> bh_hashPrevBlock block"
  shows "\<exists>q st'. AddToBlockIndex GetHash sw p block st = Some (q, st') \<and> tree_inv st'
    \<and> mapBlockIndex st' (GetHash block) = Some q
    \<and> (if mapBlockIndex st (GetHash block) \<noteq> None then st' = st
       else \<exists>b. q = p \<and> bt_heap st' = (bt_heap st)(p \<mapsto> b) \<and> made_from sw (GetHash block) block b
         \<and> pprev b = mapBlockIndex st (bh_hashPrevBlock block) \<and> setDirtyBlockIndex st' = insert p (setDirtyBlockIndex st))"
proof (cases "mapBlockIndex st (GetHash block)")
  case None
  obtain b best where add: "AddToBlockIndex GetHash sw p block st = Some (p, grown st p (GetHash block) b best)"
    and b: "wf_index ((bt_heap st)(p \<mapsto> b))" "entry_ok (bt_heap st) b" "made_from sw (GetHash block) block b"
      "pprev b = mapBlockIndex st (bh_hashPrevBlock block)"
    and best: "best = p \<and> (\<forall>r c. pindexBestHeader st = Some r \<longrightarrow> bt_heap st r = Some c \<longrightarrow> uval (nChainWork c) \<le> uval (nChainWork b))
      \<or> (\<exists>c. pindexBestHeader st = Some best \<and> bt_heap st best = Some c \<and> uval (nChainWork b) \<le> uval (nChainWork c))"
    by (rule AddToBlockIndex_new [where GetHash = GetHash and block = block and sw = sw, OF assms None])
  have "phashBlock b = Some (GetHash block)" using b(3) by (simp add: made_from_def)
  from tree_inv_grown [OF assms(1,2) None b(1) this b(2) best] show ?thesis
    using add b None by (auto simp: grown_def)
next
  case (Some q)
  then show ?thesis using assms(1) by (simp add: AddToBlockIndex_def Let_def)
qed

theorem AddToBlockIndex_keeps_tree_witness:
  "\<exists>st st' b. AddToBlockIndex bh_hashMerkleRoot 0 5 sample_header empty_tree = Some (5, st)
    \<and> AddToBlockIndex bh_hashMerkleRoot 0 6 sample_child st = Some (6, st')
    \<and> tree_inv st' \<and> bt_heap st' 6 = Some b \<and> pprev b = Some 5 \<and> nHeight b = 1 \<and> pskip b = Some 5"
proof -
  obtain st c where st: "AddToBlockIndex bh_hashMerkleRoot 0 5 sample_header empty_tree = Some (5, st)" "tree_inv st"
    "mapBlockIndex st [1] = Some 5" "bt_heap st = [5 \<mapsto> c]" "phashBlock c = Some [1]" "pprev c = None"
    using AddToBlockIndex_keeps_tree [OF empty_tree_inv, of 5 bh_hashMerkleRoot sample_header 0]
    by (auto simp: empty_tree_def sample_header_def made_from_def)
  then have "mapBlockIndex st [2] = None" by (cases "mapBlockIndex st [2]") (auto simp: tree_inv_def split: if_splits)
  then obtain st' b where st': "AddToBlockIndex bh_hashMerkleRoot 0 6 sample_child st = Some (6, st')" "tree_inv st'"
    "bt_heap st' = [5 \<mapsto> c, 6 \<mapsto> b]" "pprev b = Some 5"
    using AddToBlockIndex_keeps_tree [OF st(2), of 6 bh_hashMerkleRoot sample_child 0] st
    by (auto simp: sample_child_def sample_header_def)
  have wf: "wf_index [5 \<mapsto> c, 6 \<mapsto> b]" using st'(2,3) by (simp add: tree_inv_def)
  have "nHeight c = 0" "nHeight b = nHeight c + 1"
    using wf_indexD [OF wf, of 5 c] wf_indexD [OF wf, of 6 b] st(6) st'(4) by (auto simp: wf_entry_def)
  then have h: "nHeight b = 1" by simp
  have "bt_heap st' 6 = Some b" using st'(3) by simp
  then have "entry_ok (bt_heap st') b" using st'(2) unfolding tree_inv_def by blast
  then have "pskip b \<noteq> None" using st'(4) by (simp add: entry_ok_def)
  then have "pskip b = Some 5"
    using wf_indexD [OF wf, of 6 b] h st'(4) by (auto simp: wf_entry_def GetSkipHeight_def)
  with st st' h show ?thesis by auto
qed

text \<open>
  The work of a block is the expected number of hashes to meet its target: \<open>2\<^sup>2\<^sup>5\<^sup>6 / (target + 1)\<close>
  rounded down, computed without ever leaving 256 bits or dividing by zero, and zero for an invalid
  encoding.
\<close>

theorem GetBlockProof_correct:
  "\<exists>q. GetBlockProof b = Inr q \<and> length q = 8 \<and>
     uval q = (let (v, neg, ov) = SetCompact (nBits b)
               in if neg \<or> ov \<or> uval v = 0 then 0 else 2 ^ 256 div (uval v + 1))"
proof -
  obtain q where "GetBlockProof b = Inr q" "length q = 8"
    "uval q = (if fst (snd (SetCompact (nBits b))) \<or> snd (snd (SetCompact (nBits b))) \<or> uval (fst (SetCompact (nBits b))) = 0
       then 0 else 2 ^ 256 div (uval (fst (SetCompact (nBits b))) + 1))"
    by (rule GetBlockProof_value)
  then show ?thesis by (cases "SetCompact (nBits b)") simp
qed

end
