(* ===== verification/Active_Chain.thy ===== *)
theory Active_Chain
  imports Chain_Index
begin

text \<open>
  \<^verbatim>\<open>CChain\<close> of \<^verbatim>\<open>chain.h\<close>/\<^verbatim>\<open>chain.cpp\<close>, the vector of entries of the active branch, and
  \<open>GetMedianTimePast\<close>. A chain is the list of its pointers, \<open>None\<close> being \<^verbatim>\<open>NULL\<close>. As in
  \<^verbatim>\<open>Chain_Index\<close>, \<open>None\<close> as a result stands for a \<^verbatim>\<open>NULL\<close> dereference, an access out of bounds
  or a loop that does not end.
\<close>

subsection \<open>The active chain\<close>

type_synonym CChain = "ptr option list"

definition Genesis :: "CChain \<Rightarrow> ptr option" where
  "Genesis vChain = (if length vChain > 0 then vChain ! 0 else None)"

definition Tip :: "CChain \<Rightarrow> ptr option" where
  "Tip vChain = (if length vChain > 0 then vChain ! (length vChain - 1) else None)"

definition chain_at :: "CChain \<Rightarrow> int \<Rightarrow> ptr option" where
  "chain_at vChain h =
     (if h < 0 \<or> h \<ge> int (length vChain) then None else vChain ! nat h)"

definition Contains :: "index_heap \<Rightarrow> CChain \<Rightarrow> ptr \<Rightarrow> bool option" where
  "Contains H vChain pindex = do { b \<leftarrow> H pindex; Some (chain_at vChain (nHeight b) = Some pindex) }"

definition Next :: "index_heap \<Rightarrow> CChain \<Rightarrow> ptr \<Rightarrow> ptr option option" where
  "Next H vChain pindex = do {
     inside \<leftarrow> Contains H vChain pindex;
     b \<leftarrow> H pindex;
     Some (if inside then chain_at vChain (nHeight b + 1) else None)
   }"

definition chain_Height :: "CChain \<Rightarrow> int" where
  "chain_Height vChain = int (length vChain) - 1"

definition vector_resize :: "nat \<Rightarrow> CChain \<Rightarrow> CChain" where
  "vector_resize n v = take n v @ replicate (n - length v) None"

partial_function (option) SetTip_loop :: "index_heap \<Rightarrow> CChain \<Rightarrow> ptr option \<Rightarrow> CChain option" where
  "SetTip_loop H vChain pindex =
     (case pindex of
        None \<Rightarrow> Some vChain
      | Some p \<Rightarrow> do {
          b \<leftarrow> H p;
          let i = nat (nHeight b)
          in if nHeight b < 0 \<or> i \<ge> length vChain then None
             else if vChain ! i = Some p then Some vChain
             else SetTip_loop H (vChain[i := Some p]) (pprev b)
        })"

definition SetTip :: "index_heap \<Rightarrow> CChain \<Rightarrow> ptr option \<Rightarrow> CChain option" where
  "SetTip H vChain pindex =
     (case pindex of
        None \<Rightarrow> Some []
      | Some p \<Rightarrow> do {
          b \<leftarrow> H p;
          SetTip_loop H (vector_resize (nat (nHeight b + 1)) vChain) (Some p)
        })"

partial_function (option) FindFork_loop :: "index_heap \<Rightarrow> CChain \<Rightarrow> ptr option \<Rightarrow> ptr option option" where
  "FindFork_loop H vChain pindex =
     (case pindex of
        None \<Rightarrow> Some None
      | Some p \<Rightarrow> do {
          inside \<leftarrow> Contains H vChain p;
          b \<leftarrow> H p;
          if inside then Some (Some p) else FindFork_loop H vChain (pprev b)
        })"

definition FindFork :: "index_heap \<Rightarrow> CChain \<Rightarrow> ptr option \<Rightarrow> ptr option option" where
  "FindFork H vChain pindex =
     (case pindex of
        None \<Rightarrow> Some None
      | Some p \<Rightarrow> do {
          b \<leftarrow> H p;
          q \<leftarrow> (if nHeight b > chain_Height vChain then GetAncestor H p (chain_Height vChain) else Some (Some p));
          FindFork_loop H vChain q
        })"

partial_function (option) GetLocator_loop ::
  "index_heap \<Rightarrow> CChain \<Rightarrow> int \<Rightarrow> bytes list \<Rightarrow> ptr option \<Rightarrow> bytes list option" where
  "GetLocator_loop H vChain nStep vHave pindex =
     (case pindex of
        None \<Rightarrow> Some vHave
      | Some p \<Rightarrow> do {
          b \<leftarrow> H p;
          hash \<leftarrow> phashBlock b;
          let vHave = vHave @ [hash]
          in if nHeight b = 0 then Some vHave
             else do {
               inside \<leftarrow> Contains H vChain p;
               let h = max (nHeight b - nStep) 0;
               q \<leftarrow> (if inside then Some (chain_at vChain h) else GetAncestor H p h);
               GetLocator_loop H vChain (if length vHave > 10 then nStep * 2 else nStep) vHave q
             }
        })"

definition GetLocator :: "index_heap \<Rightarrow> CChain \<Rightarrow> ptr option \<Rightarrow> bytes list option" where
  "GetLocator H vChain pindex =
     GetLocator_loop H vChain 1 [] (case pindex of None \<Rightarrow> Tip vChain | Some p \<Rightarrow> Some p)"

text \<open>\<^verbatim>\<open>std::lower_bound\<close> on the range \<open>[first, first + len)\<close>: bisection for the first element where \<open>P\<close> fails.\<close>

function lower_bound :: "('a \<Rightarrow> bool) \<Rightarrow> 'a list \<Rightarrow> nat \<Rightarrow> nat \<Rightarrow> nat" where
  "lower_bound P xs first len =
     (if len = 0 then first
      else let half = len div 2; middle = first + half
           in if P (xs ! middle) then lower_bound P xs (middle + 1) (len - half - 1)
              else lower_bound P xs first half)"
  by auto
termination by (relation "measure (\<lambda>(P, xs, first, len). len)") auto

declare lower_bound.simps [simp del]

definition FindEarliestAtLeast :: "index_heap \<Rightarrow> CChain \<Rightarrow> int \<Rightarrow> ptr option option" where
  "FindEarliestAtLeast H vChain t = do {
     bs \<leftarrow> those (map (\<lambda>p. p \<bind> H) vChain);
     let lower = lower_bound (\<lambda>b. GetBlockTimeMax b < t) bs 0 (length bs)
     in Some (if lower = length vChain then None else vChain ! lower)
   }"

definition nMedianTimeSpan :: nat where
  "nMedianTimeSpan = 11"

fun past_times :: "index_heap \<Rightarrow> nat \<Rightarrow> ptr option \<Rightarrow> int list option" where
  "past_times H (Suc n) (Some p) = do {
     b \<leftarrow> H p;
     ts \<leftarrow> past_times H n (pprev b);
     Some (ts @ [GetBlockTime b])
   }"
| "past_times H _ _ = Some []"

definition GetMedianTimePast :: "index_heap \<Rightarrow> ptr \<Rightarrow> int option" where
  "GetMedianTimePast H p = do {
     pmedian \<leftarrow> past_times H nMedianTimeSpan (Some p);
     let pbegin = sort pmedian in Some (pbegin ! (length pbegin div 2))
   }"

subsection \<open>The chain is the branch below its tip\<close>

definition linked_at :: "index_heap \<Rightarrow> CChain \<Rightarrow> nat \<Rightarrow> bool" where
  "linked_at H v i \<longleftrightarrow> (\<exists>q b. v ! i = Some q \<and> H q = Some b \<and> nHeight b = int i
     \<and> pprev b = (if i = 0 then None else v ! (i - 1)))"

definition chain_ok :: "index_heap \<Rightarrow> CChain \<Rightarrow> bool" where
  "chain_ok H v \<longleftrightarrow> (\<forall>i < length v. linked_at H v i)"

lemma chain_okD: "chain_ok H v \<Longrightarrow> i < length v \<Longrightarrow> linked_at H v i"
  by (simp add: chain_ok_def)

lemma linked_at_cong: "v ! i = w ! i \<Longrightarrow> (0 < i \<Longrightarrow> v ! (i - 1) = w ! (i - 1)) \<Longrightarrow> linked_at H v i = linked_at H w i"
  by (simp add: linked_at_def)

lemma wf_prevD:
  assumes "wf_index H" "H p = Some b" "nHeight b = int (Suc k)"
  obtains r d where "pprev b = Some r" "H r = Some d" "nHeight d = int k"
  using wf_indexD [OF assms(1,2)] assms(3) by (auto simp: wf_entry_def split: option.splits)

lemma wf_rootD:
  assumes "wf_index H" "H p = Some b" "nHeight b = 0"
  shows "pprev b = None"
proof (rule ccontr)
  assume "pprev b \<noteq> None"
  then obtain q c where "H q = Some c" "nHeight b = nHeight c + 1"
    using wf_indexD [OF assms(1,2)] by (auto simp: wf_entry_def)
  then show False using wf_indexD [OF assms(1), of q c] assms(3) by (simp add: wf_entry_def)
qed

lemma SetTip_loop_ok:
  assumes wf: "wf_index H" and c: "chain_ok H c"
    and "H q = Some d" and "nHeight d = int k" and "k < length v"
    and "\<And>i. i \<le> k \<Longrightarrow> v ! i = (if i < length c then c ! i else None)"
  shows "\<exists>v'. SetTip_loop H v (Some q) = Some v' \<and> length v' = length v \<and> v' ! k = Some q
    \<and> (\<forall>i \<le> k. linked_at H v' i) \<and> (\<forall>i > k. v' ! i = v ! i)"
  using assms(3-)
proof (induction k arbitrary: q d v)
  case 0
  note step = SetTip_loop.simps [of H v "Some q"] and end' = SetTip_loop.simps [of H _ None]
  have prev: "pprev d = None" using wf_rootD [OF wf 0(1)] 0(2) by simp
  show ?case
  proof (cases "v ! 0 = Some q")
    case True
    then show ?thesis using step 0 prev by (auto simp: linked_at_def)
  next
    case False
    then show ?thesis using step end' 0 prev by (auto simp: linked_at_def nth_list_update)
  qed
next
  case (Suc k)
  note step = SetTip_loop.simps [of H v "Some q"]
  obtain r e where r: "pprev d = Some r" "H r = Some e" "nHeight e = int k"
    using wf_prevD [OF wf Suc.prems(1,2)] .
  show ?case
  proof (cases "v ! Suc k = Some q")
    case True
    then have "Suc k < length c" using Suc.prems(4) [of "Suc k"] by (auto split: if_splits)
    then have "linked_at H v i" if "i \<le> Suc k" for i
      using chain_okD [OF c, of i] that Suc.prems(4) [of i] Suc.prems(4) [of "i - 1"]
        linked_at_cong [of v i c H] by simp
    moreover have "SetTip_loop H v (Some q) = Some v"
      using step True Suc.prems(1-3) by (simp add: nat_add_distrib)
    ultimately show ?thesis using True by blast
  next
    case False
    define v1 where "v1 = v[Suc k := Some q]"
    have "\<exists>v'. SetTip_loop H v1 (Some r) = Some v' \<and> length v' = length v1 \<and> v' ! k = Some r
        \<and> (\<forall>i \<le> k. linked_at H v' i) \<and> (\<forall>i > k. v' ! i = v1 ! i)"
      using Suc.IH [OF r(2,3), of v1] Suc.prems(3,4) by (simp add: v1_def)
    then obtain v' where v': "SetTip_loop H v1 (Some r) = Some v'" "length v' = length v1" "v' ! k = Some r"
      "\<forall>i \<le> k. linked_at H v' i" "\<forall>i > k. v' ! i = v1 ! i" by blast
    have "SetTip_loop H v (Some q) = Some v'"
      using step False Suc.prems r v'(1) by (simp add: v1_def nat_add_distrib)
    moreover have "v' ! Suc k = Some q" using v'(5) Suc.prems(3) by (simp add: v1_def)
    moreover from this have "linked_at H v' (Suc k)"
      using Suc.prems(1,2) r(1) v'(3) by (simp add: linked_at_def)
    ultimately show ?thesis using v' by (auto simp: v1_def le_Suc_eq)
  qed
qed

text \<open>After \<open>SetTip\<close> the chain is exactly the branch from the root to the new tip.\<close>

lemma SetTip_ok:
  assumes wf: "wf_index H" and c: "chain_ok H c" and b: "H p = Some b"
  obtains v where "SetTip H c (Some p) = Some v" "chain_ok H v" "int (length v) = nHeight b + 1" "Tip v = Some p"
proof -
  have h: "0 \<le> nHeight b" using wf_indexD [OF wf b] by (simp add: wf_entry_def)
  define k where "k = nat (nHeight b)"
  define v0 where "v0 = vector_resize (Suc k) c"
  have len: "length v0 = Suc k" by (simp add: v0_def vector_resize_def)
  have "v0 ! i = (if i < length c then c ! i else None)" if "i \<le> k" for i
    using that by (simp add: v0_def vector_resize_def nth_append)
  then obtain v where v: "SetTip_loop H v0 (Some p) = Some v" "length v = length v0" "v ! k = Some p"
    "\<forall>i \<le> k. linked_at H v i"
    using SetTip_loop_ok [OF wf c b, of k v0] h len by (auto simp: k_def)
  have "nat (nHeight b + 1) = Suc k" using h by (simp add: k_def)
  then have "SetTip H c (Some p) = Some v" using b v(1) by (simp add: SetTip_def v0_def)
  moreover have "chain_ok H v" using v(2,4) len by (simp add: chain_ok_def)
  moreover have "Tip v = Some p" using v(2,3) len by (simp add: Tip_def)
  ultimately show thesis using that v(2) len h by (simp add: k_def)
qed

lemma chain_walk:
  assumes c: "chain_ok H v" and "i + n < length v" and "v ! (i + n) = Some p"
  shows "walk H n p = v ! i"
  using assms(2,3)
proof (induction n arbitrary: p)
  case (Suc n)
  obtain b where "H p = Some b" "pprev b = v ! (i + n)"
    using chain_okD [OF c Suc.prems(1)] Suc.prems(2) by (auto simp: linked_at_def)
  moreover obtain q where "v ! (i + n) = Some q"
    using chain_okD [OF c, of "i + n"] Suc.prems(1) by (auto simp: linked_at_def)
  ultimately show ?case using Suc by simp
qed simp

subsection \<open>Forks and locators\<close>

lemma Contains_iff:
  assumes c: "chain_ok H v" and b: "H p = Some b"
  shows "Contains H v p = Some (Some p \<in> set v)"
proof -
  have "chain_at v (nHeight b) = Some p" if "Some p \<in> set v"
  proof -
    from that obtain i where "i < length v" "v ! i = Some p" by (auto simp: in_set_conv_nth)
    with chain_okD [OF c this(1)] b show ?thesis by (auto simp: linked_at_def chain_at_def)
  qed
  moreover have "Some p \<in> set v" if "chain_at v (nHeight b) = Some p"
  proof -
    have "nat (nHeight b) < length v" "v ! nat (nHeight b) = Some p"
      using that by (auto simp: chain_at_def split: if_splits)
    then show ?thesis by (metis nth_mem)
  qed
  ultimately show ?thesis using b by (auto simp: Contains_def)
qed

lemma chain_height_less: "chain_ok H v \<Longrightarrow> Some p \<in> set v \<Longrightarrow> H p = Some b \<Longrightarrow> nHeight b < int (length v)"
  by (auto simp: in_set_conv_nth chain_ok_def linked_at_def)

text \<open>\<open>fork_of H v p r\<close>: \<open>r\<close> is the first block met on the chain \<open>v\<close> when walking back from \<open>p\<close>.\<close>

definition fork_of :: "index_heap \<Rightarrow> CChain \<Rightarrow> ptr \<Rightarrow> ptr option \<Rightarrow> bool" where
  "fork_of H v p r \<longleftrightarrow>
     (case r of None \<Rightarrow> \<forall>n q. walk H n p = Some q \<longrightarrow> Some q \<notin> set v
      | Some q \<Rightarrow> Some q \<in> set v \<and> (\<exists>n. walk H n p = Some q \<and>
          (\<forall>m q'. m < n \<longrightarrow> walk H m p = Some q' \<longrightarrow> Some q' \<notin> set v)))"

lemma fork_of_skip:
  assumes k: "walk H k p = Some q" and off: "\<And>m q'. m < k \<Longrightarrow> walk H m p = Some q' \<Longrightarrow> Some q' \<notin> set v"
    and q: "fork_of H v q r"
  shows "fork_of H v p r"
proof -
  have shift: "walk H m p = walk H (m - k) q" if "k \<le> m" for m
    using walk_add [of H k "m - k" p] that k by simp
  show ?thesis
  proof (cases r)
    case None
    then have none: "Some q' \<notin> set v" if "walk H n q = Some q'" for n q' using q that by (auto simp: fork_of_def)
    have "Some q' \<notin> set v" if "walk H n p = Some q'" for n q'
      using that off [of n q'] none [of "n - k" q'] shift [of n] by (cases "n < k") auto
    then show ?thesis by (auto simp: fork_of_def None)
  next
    case (Some x)
    then obtain n where x: "Some x \<in> set v" "walk H n q = Some x"
      and n: "\<And>m q'. m < n \<Longrightarrow> walk H m q = Some q' \<Longrightarrow> Some q' \<notin> set v"
      using q by (auto simp: fork_of_def)
    have "Some q' \<notin> set v" if "m < k + n" "walk H m p = Some q'" for m q'
      using that off [of m q'] n [of "m - k" q'] shift [of m] by (cases "m < k") auto
    moreover have "walk H (k + n) p = Some x" using x shift [of "k + n"] by simp
    ultimately show ?thesis using x(1) Some by (auto simp: fork_of_def)
  qed
qed

lemma fork_of_here: "Some q \<in> set v \<Longrightarrow> fork_of H v q (Some q)"
  by (auto simp: fork_of_def intro!: exI [of _ 0])

lemma FindFork_loop_ok:
  assumes wf: "wf_index H" and c: "chain_ok H v" and "H q = Some d" and "nHeight d = int k"
  shows "\<exists>r. FindFork_loop H v (Some q) = Some r \<and> fork_of H v q r"
  using assms(3,4)
proof (induction k arbitrary: q d)
  case 0
  have prev: "pprev d = None" using wf_rootD [OF wf 0(1)] 0(2) by simp
  then have "walk H n q = Some q' \<Longrightarrow> q' = q" for n q' using 0(1) by (cases n) auto
  then have "Some q \<notin> set v \<Longrightarrow> fork_of H v q None" by (auto simp: fork_of_def)
  then show ?case
    using FindFork_loop.simps [of H v "Some q"] FindFork_loop.simps [of H v None] 0(1) prev
      Contains_iff [OF c 0(1)] fork_of_here [of q v H] by (cases "Some q \<in> set v") auto
next
  case (Suc k)
  obtain r e where r: "pprev d = Some r" "H r = Some e" "nHeight e = int k"
    using wf_prevD [OF wf Suc.prems] .
  note step = FindFork_loop.simps [of H v "Some q"] Contains_iff [OF c Suc.prems(1)]
  show ?case
  proof (cases "Some q \<in> set v")
    case True
    then show ?thesis using step Suc.prems(1) fork_of_here [OF True] by simp
  next
    case False
    obtain x where x: "FindFork_loop H v (Some r) = Some x" "fork_of H v r x" using Suc.IH [OF r(2,3)] by blast
    have "fork_of H v q x"
      by (rule fork_of_skip [OF _ _ x(2), of 1 q]) (use False r Suc.prems(1) in auto)
    then show ?thesis using step Suc.prems(1) False r x(1) by simp
  qed
qed

lemma FindFork_ok:
  assumes wf: "wf_index H" and c: "chain_ok H v" and b: "H p = Some b"
  shows "\<exists>r. FindFork H v (Some p) = Some r \<and> fork_of H v p r"
proof (cases "nHeight b > chain_Height v")
  case False
  have "0 \<le> nHeight b" using wf_indexD [OF wf b] by (simp add: wf_entry_def)
  with FindFork_loop_ok [OF wf c b, of "nat (nHeight b)"] False b show ?thesis by (simp add: FindFork_def)
next
  case True
  note gt = True
  show ?thesis
  proof (cases "v = []")
    case True
    then show ?thesis using gt b FindFork_loop.simps [of H v None]
      by (auto simp: FindFork_def GetAncestor_def chain_Height_def fork_of_def)
  next
    case False
    define k where "k = nat (nHeight b - chain_Height v)"
    have rng: "0 \<le> chain_Height v" "chain_Height v \<le> nHeight b"
      using False True by (simp_all add: chain_Height_def Suc_le_eq)
    obtain q d where q: "GetAncestor H p (chain_Height v) = Some (Some q)" "walk H k p = Some q"
      "H q = Some d" "nHeight d = chain_Height v"
      using GetAncestor_Some [OF wf b rng] unfolding k_def .
    obtain r where r: "FindFork_loop H v (Some q) = Some r" "fork_of H v q r"
      using FindFork_loop_ok [OF wf c q(3), of "nat (chain_Height v)"] q(4) rng by auto
    have "Some q' \<notin> set v" if m: "m < k" "walk H m p = Some q'" for m q'
    proof -
      have "int m \<le> nHeight b" using m(1) rng by (simp add: k_def)
      then obtain d' where "H q' = Some d'" "nHeight d' = nHeight b - int m"
        using walk_height [OF wf b] m(2) by (metis option.inject)
      then show ?thesis using chain_height_less [OF c] m(1) by (force simp: k_def chain_Height_def)
    qed
    then have "fork_of H v p r" using fork_of_skip [OF q(2) _ r(2)] by blast
    then show ?thesis using r(1) q(1) b True by (simp add: FindFork_def)
  qed
qed

text \<open>The hash of the ancestor of \<open>p\<close> at height \<open>h\<close>.\<close>

definition anc_hash :: "index_heap \<Rightarrow> ptr \<Rightarrow> int \<Rightarrow> bytes option" where
  "anc_hash H p h = do { b \<leftarrow> H p; q \<leftarrow> walk H (nat (nHeight b - h)) p; c \<leftarrow> H q; phashBlock c }"

definition hashed :: "index_heap \<Rightarrow> bool" where
  "hashed H \<longleftrightarrow> (\<forall>p b. H p = Some b \<longrightarrow> phashBlock b \<noteq> None)"

lemma locator_step:
  assumes wf: "wf_index H" and c: "chain_ok H v" and d: "H q = Some d" and h: "0 \<le> h" "h \<le> nHeight d"
  obtains r e where "(if Some q \<in> set v then Some (chain_at v h) else GetAncestor H q h) = Some (Some r)"
    "walk H (nat (nHeight d - h)) q = Some r" "H r = Some e" "nHeight e = h"
proof -
  obtain r e where r: "GetAncestor H q h = Some (Some r)" "walk H (nat (nHeight d - h)) q = Some r"
    "H r = Some e" "nHeight e = h"
    using GetAncestor_Some [OF wf d h] .
  have "chain_at v h = Some r" if "Some q \<in> set v"
  proof -
    from that obtain i where i: "i < length v" "v ! i = Some q" by (auto simp: in_set_conv_nth)
    then have "nHeight d = int i" using chain_okD [OF c i(1)] d by (auto simp: linked_at_def)
    then have "walk H (nat (nHeight d - h)) q = v ! nat h"
      using chain_walk [OF c, of "nat h" "nat (nHeight d - h)" q] h i by (simp add: nat_diff_distrib)
    then show ?thesis using r(2) h i(1) \<open>nHeight d = int i\<close> by (simp add: chain_at_def)
  qed
  then show thesis using that [of r e] r by simp
qed

lemma GetLocator_loop_ok:
  assumes wf: "wf_index H" and c: "chain_ok H v" and hash: "hashed H" and b: "H p = Some b"
    and "1 \<le> nStep" and "H q = Some d" and "nHeight d \<le> nHeight b"
    and "walk H (nat (nHeight b - nHeight d)) p = Some q"
  shows "\<exists>hs l. GetLocator_loop H v nStep vHave (Some q) = Some (vHave @ l) \<and> map Some l = map (anc_hash H p) hs
    \<and> hs \<noteq> [] \<and> hd hs = nHeight d \<and> last hs = 0 \<and> sorted_wrt (>) hs"
  using assms(5-)
proof (induction "nat (nHeight d)" arbitrary: q d nStep vHave rule: less_induct)
  case less
  obtain x where x: "phashBlock d = Some x" using hash less.prems(2) by (auto simp: hashed_def)
  have d0: "0 \<le> nHeight d" using wf_indexD [OF wf less.prems(2)] by (simp add: wf_entry_def)
  have here: "anc_hash H p (nHeight d) = Some x" using b less.prems x by (simp add: anc_hash_def)
  note step = GetLocator_loop.simps [of H v nStep vHave "Some q"] Contains_iff [OF c less.prems(2)]
  show ?case
  proof (cases "nHeight d = 0")
    case True
    then show ?thesis using step x less.prems here by (intro exI [of _ "[0]"] exI [of _ "[x]"]) simp
  next
    case False
    define h where "h = max (nHeight d - nStep) 0"
    have h: "0 \<le> h" "h < nHeight d" using False d0 less.prems(1) by (simp_all add: h_def)
    obtain r e where r: "(if Some q \<in> set v then Some (chain_at v h) else GetAncestor H q h) = Some (Some r)"
      "walk H (nat (nHeight d - h)) q = Some r" "H r = Some e" "nHeight e = h"
      using locator_step [OF wf c less.prems(2) h(1)] h(2) by auto
    have "nat (nHeight b - nHeight e) = nat (nHeight b - nHeight d) + nat (nHeight d - h)"
      using h less.prems(3) r(4) by simp
    then have w: "walk H (nat (nHeight b - nHeight e)) p = Some r"
      using r(2) less.prems(4) by (simp only: walk_add) simp
    define nStep' where "nStep' = (if length (vHave @ [x]) > 10 then nStep * 2 else nStep)"
    have "1 \<le> nStep'" using less.prems(1) by (simp add: nStep'_def)
    then obtain hs l where l: "GetLocator_loop H v nStep' (vHave @ [x]) (Some r) = Some ((vHave @ [x]) @ l)"
      "map Some l = map (anc_hash H p) hs" "hs \<noteq> []" "hd hs = nHeight e" "last hs = 0" "sorted_wrt (>) hs"
      using less.hyps [of e nStep' r "vHave @ [x]"] r(3,4) h less.prems w by auto
    have "GetLocator_loop H v nStep vHave (Some q) = Some (vHave @ x # l)"
    proof -
      have "GetLocator_loop H v nStep vHave (Some q) =
          (if Some q \<in> set v then Some (chain_at v h) else GetAncestor H q h) \<bind>
            GetLocator_loop H v nStep' (vHave @ [x])"
        using step x less.prems(2) False by (simp add: Let_def h_def nStep'_def)
      then show ?thesis by (simp only: r(1) Option.bind.simps l(1)) simp
    qed
    moreover have "sorted_wrt (>) (nHeight d # hs)"
      using l(3,4,6) h r(4) by (cases hs) auto
    ultimately show ?thesis
      using l here by (intro exI [of _ "nHeight d # hs"] exI [of _ "x # l"]) simp
  qed
qed

subsection \<open>Searching by time\<close>

lemma lower_bound_range:
  assumes "\<And>i j. i \<le> j \<Longrightarrow> j < length xs \<Longrightarrow> P (xs ! j) \<Longrightarrow> P (xs ! i)"
    and "first + len \<le> length xs" and "\<And>i. i < first \<Longrightarrow> P (xs ! i)"
    and "\<And>i. first + len \<le> i \<Longrightarrow> i < length xs \<Longrightarrow> \<not> P (xs ! i)"
  defines "r \<equiv> lower_bound P xs first len"
  shows "r \<le> length xs \<and> (\<forall>i < r. P (xs ! i)) \<and> (\<forall>i. r \<le> i \<longrightarrow> i < length xs \<longrightarrow> \<not> P (xs ! i))"
  using assms(1-4) unfolding r_def
proof (induction P xs first len rule: lower_bound.induct)
  case (1 P xs first len)
  note mono = 1(3) and low = 1(5) and high = 1(6)
  define half middle where "half = len div 2" and "middle = first + half"
  show ?case
  proof (cases "len = 0")
    case True
    then show ?thesis using 1(4-6) by (auto simp: lower_bound.simps [of P xs first 0])
  next
    case False
    then have mid: "middle < first + len" "half < len" by (simp_all add: middle_def half_def)
    show ?thesis
    proof (cases "P (xs ! middle)")
      case True
      have eq: "lower_bound P xs first len = lower_bound P xs (middle + 1) (len - half - 1)"
        using False True by (simp add: lower_bound.simps [of P xs first len] Let_def middle_def half_def)
      have len: "middle + 1 + (len - half - 1) = first + len" using mid by (simp add: middle_def)
      have "P (xs ! i)" if "i < middle + 1" for i using mono [of i middle] that True mid 1(4) by simp
      then show ?thesis
        unfolding eq using high 1(4) by (intro 1(1) [OF False half_def middle_def True mono]) (unfold len, blast+)
    next
      case F: False
      have eq: "lower_bound P xs first len = lower_bound P xs first half"
        using False F by (simp add: lower_bound.simps [of P xs first len] Let_def middle_def half_def)
      have "\<not> P (xs ! i)" if "first + half \<le> i" "i < length xs" for i
        using mono [of middle i] that F by (auto simp: middle_def)
      then show ?thesis
        unfolding eq using low 1(4) mid by (intro 1(2) [OF False half_def middle_def F mono]) simp_all
    qed
  qed
qed

text \<open>The times that \<open>GetMedianTimePast\<close> sorts.\<close>

lemma past_times_shorter:
  "past_times H (Suc n) x = Some ts \<Longrightarrow> past_times H n x = Some (if length ts = Suc n then tl ts else ts)"
proof (induction n arbitrary: x ts)
  case 0
  then show ?case by (cases x) (auto split: bind_splits)
next
  case (Suc n)
  have "tl (xs @ [t]) = tl xs @ [t]" if "length xs = Suc n" for xs and t :: int
    using that by (cases xs) simp_all
  with Suc show ?case by (cases x) (auto split: bind_splits if_splits)
qed

lemma past_times_defined:
  assumes wf: "wf_index H"
  shows "x = None \<or> (\<exists>p b. x = Some p \<and> H p = Some b) \<Longrightarrow> \<exists>ts. past_times H n x = Some ts"
proof (induction n arbitrary: x)
  case (Suc n)
  then show ?case
  proof (cases x)
    case (Some p)
    then obtain b where b: "H p = Some b" using Suc.prems by auto
    have "pprev b = None \<or> (\<exists>q c. pprev b = Some q \<and> H q = Some c)"
      using wf_indexD [OF wf b] by (auto simp: wf_entry_def split: option.splits)
    from Suc.IH [OF this] Some b show ?thesis by auto
  qed simp
qed simp

text \<open>The element at index \<open>k\<close> of a sorted list is at least \<open>m\<close> exactly if enough elements are.\<close>

lemma sorted_nth_ge_iff:
  fixes m :: int
  assumes "k < length xs"
  shows "m \<le> sort xs ! k \<longleftrightarrow> length xs - k \<le> length (filter (\<lambda>x. m \<le> x) xs)"
proof -
  define ys where "ys = sort xs"
  have ys: "sorted ys" "length ys = length xs" by (simp_all add: ys_def)
  have flt: "length (filter (\<lambda>x. m \<le> x) ys) = length (filter (\<lambda>x. m \<le> x) xs)"
    by (simp add: ys_def filter_sort)
  have cnt: "length (filter (\<lambda>x. m \<le> x) ys) = card {i. i < length ys \<and> m \<le> ys ! i}"
    by (rule length_filter_conv_card)
  show ?thesis
  proof
    assume "m \<le> sort xs ! k"
    then have "{k..<length ys} \<subseteq> {i. i < length ys \<and> m \<le> ys ! i}"
      using sorted_nth_mono [OF ys(1), of k] by (fastforce simp: ys_def)
    then have "card {k..<length ys} \<le> card {i. i < length ys \<and> m \<le> ys ! i}" by (intro card_mono) auto
    then show "length xs - k \<le> length (filter (\<lambda>x. m \<le> x) xs)" using ys(2) cnt flt by simp
  next
    assume *: "length xs - k \<le> length (filter (\<lambda>x. m \<le> x) xs)"
    show "m \<le> sort xs ! k"
    proof (rule ccontr)
      assume "\<not> m \<le> sort xs ! k"
      then have lt: "ys ! k < m" by (simp add: ys_def)
      have "{i. i < length ys \<and> m \<le> ys ! i} \<subseteq> {Suc k..<length ys}"
      proof
        fix i
        assume i: "i \<in> {i. i < length ys \<and> m \<le> ys ! i}"
        have "\<not> i \<le> k" using sorted_nth_mono [OF ys(1), of i k] lt i assms ys(2) by auto
        then show "i \<in> {Suc k..<length ys}" using i by simp
      qed
      then have "card {i. i < length ys \<and> m \<le> ys ! i} \<le> card {Suc k..<length ys}" by (intro card_mono) auto
      then show False using * cnt flt ys(2) assms by simp
    qed
  qed
qed

lemma median_grows:
  fixes m t :: int
  assumes ts: "ts \<noteq> []" "length ts \<le> Suc n" and m: "m = sort ts ! (length ts div 2)" and t: "m < t"
  defines "ts' \<equiv> (if length ts = Suc n then tl ts else ts) @ [t]"
  shows "m \<le> sort ts' ! (length ts' div 2)"
proof -
  define f where "f = (\<lambda>xs. length (filter (\<lambda>x. m \<le> x) xs))"
  have "length ts - length ts div 2 \<le> f ts"
    using sorted_nth_ge_iff [of "length ts div 2" ts m] ts m by (simp add: f_def)
  moreover have "f ts \<le> Suc (f (tl ts))" using ts(1) by (cases ts) (auto simp: f_def)
  moreover have "f ts' = (if length ts = Suc n then f (tl ts) else f ts) + 1" using t by (simp add: ts'_def f_def)
  moreover have "length ts' = (if length ts = Suc n then length ts else Suc (length ts))"
    using ts(1) by (cases ts) (auto simp: ts'_def)
  ultimately have "length ts' - length ts' div 2 \<le> f ts'" by (auto split: if_splits)
  then show ?thesis
    using sorted_nth_ge_iff [of "length ts' div 2" ts' m] by (simp add: f_def ts'_def)
qed

lemma past_times_length: "past_times H n x = Some ts \<Longrightarrow> length ts \<le> n"
  by (induction H n x arbitrary: ts rule: past_times.induct) (auto split: bind_splits)

lemma past_times_nonempty: "past_times H (Suc n) (Some p) = Some ts \<Longrightarrow> ts \<noteq> []"
  by (auto split: bind_splits)

text \<open>
  A block later than the median time of its parent does not lower the median time. This is the
  rule \<open>time-too-old\<close> enforces, and what makes the median time usable as a clock.
\<close>

lemma GetMedianTimePast_mono:
  assumes wf: "wf_index H" and b: "H p = Some b" "pprev b = Some q"
    and m: "GetMedianTimePast H q = Some m" and t: "m < GetBlockTime b"
  obtains m' where "GetMedianTimePast H p = Some m'" "m \<le> m'"
proof -
  obtain c where c: "H q = Some c" using wf_indexD [OF wf b(1)] b(2) by (auto simp: wf_entry_def)
  obtain n where n: "nMedianTimeSpan = Suc n" by (simp add: nMedianTimeSpan_def)
  obtain ts where ts: "past_times H (Suc n) (Some q) = Some ts" "m = sort ts ! (length ts div 2)"
    using m by (auto simp: GetMedianTimePast_def n Let_def split: bind_splits)
  define ts' where "ts' = (if length ts = Suc n then tl ts else ts) @ [GetBlockTime b]"
  have "past_times H (Suc n) (Some p) = Some ts'"
    using past_times_shorter [OF ts(1)] b by (simp add: ts'_def)
  then have "GetMedianTimePast H p = Some (sort ts' ! (length ts' div 2))"
    by (simp add: GetMedianTimePast_def n Let_def)
  moreover have "m \<le> sort ts' ! (length ts' div 2)"
    unfolding ts'_def
    using median_grows [OF past_times_nonempty [OF ts(1)] past_times_length [OF ts(1)] ts(2) t] .
  ultimately show thesis by (rule that)
qed

lemma GetMedianTimePast_defined: "wf_index H \<Longrightarrow> H p = Some b \<Longrightarrow> \<exists>m. GetMedianTimePast H p = Some m"
  using past_times_defined [of H "Some p" nMedianTimeSpan] by (auto simp: GetMedianTimePast_def Let_def)

lemma those_map_Some: "(\<And>x. x \<in> set xs \<Longrightarrow> f x = Some (g x)) \<Longrightarrow> those (map f xs) = Some (map g xs)"
  by (induction xs) auto

definition time_mono :: "index_heap \<Rightarrow> bool" where
  "time_mono H \<longleftrightarrow> (\<forall>p b q c. H p = Some b \<longrightarrow> pprev b = Some q \<longrightarrow> H q = Some c \<longrightarrow> nTimeMax c \<le> nTimeMax b)"

lemma chain_time_mono:
  assumes c: "chain_ok H v" and t: "time_mono H" and "i \<le> j" "j < length v"
  shows "\<exists>p b q d. v ! i = Some p \<and> H p = Some b \<and> v ! j = Some q \<and> H q = Some d \<and> nTimeMax b \<le> nTimeMax d"
  using assms(3,4)
proof (induction j)
  case 0
  then show ?case using chain_okD [OF c, of 0] by (auto simp: linked_at_def)
next
  case (Suc j)
  obtain q d where d: "v ! Suc j = Some q" "H q = Some d" "pprev d = v ! j"
    using chain_okD [OF c Suc.prems(2)] by (auto simp: linked_at_def)
  show ?case
  proof (cases "i = Suc j")
    case False
    then obtain p b r e where "v ! i = Some p" "H p = Some b" "v ! j = Some r" "H r = Some e" "nTimeMax b \<le> nTimeMax e"
      using Suc by auto
    moreover have "nTimeMax e \<le> nTimeMax d" using t d calculation unfolding time_mono_def by metis
    ultimately show ?thesis using d by auto
  qed (use d in auto)
qed

lemma FindEarliestAtLeast_ok:
  assumes c: "chain_ok H v" and t: "time_mono H"
  obtains i where "i \<le> length v" "FindEarliestAtLeast H v x = Some (if i = length v then None else v ! i)"
    "\<And>j p b. j < length v \<Longrightarrow> v ! j = Some p \<Longrightarrow> H p = Some b \<Longrightarrow> GetBlockTimeMax b < x \<longleftrightarrow> j < i"
proof -
  define g where "g = (\<lambda>p. the (p \<bind> H))"
  define bs where "bs = map g v"
  have el: "p \<bind> H = Some (g p)" if "p \<in> set v" for p
    using that c by (auto simp: in_set_conv_nth chain_ok_def linked_at_def g_def)
  have those: "those (map (\<lambda>p. p \<bind> H) v) = Some bs"
    unfolding bs_def using el by (rule those_map_Some)
  have bs: "bs ! j = b" if "j < length v" "v ! j = Some p" "H p = Some b" for j p b
    using that by (simp add: bs_def g_def)
  define P where "P = (\<lambda>b. GetBlockTimeMax b < x)"
  have mono: "P (bs ! i)" if "i \<le> j" "j < length bs" "P (bs ! j)" for i j
    using chain_time_mono [OF c t that(1)] that bs by (force simp: P_def bs_def g_def GetBlockTimeMax_def word_le_def)
  define r where "r = lower_bound P bs 0 (length bs)"
  have r: "r \<le> length bs \<and> (\<forall>i < r. P (bs ! i)) \<and> (\<forall>i. r \<le> i \<longrightarrow> i < length bs \<longrightarrow> \<not> P (bs ! i))"
    unfolding r_def using mono by (intro lower_bound_range) auto
  have "FindEarliestAtLeast H v x = Some (if r = length v then None else v ! r)"
    by (simp add: FindEarliestAtLeast_def those r_def P_def)
  moreover have "GetBlockTimeMax b < x \<longleftrightarrow> j < r" if "j < length v" "v ! j = Some p" "H p = Some b" for j p b
    using r bs [OF that] that(1) by (cases "j < r") (auto simp: P_def bs_def not_less)
  ultimately show thesis using that [of r] r by (simp add: bs_def)
qed


subsection \<open>Properties\<close>

lemma chain_ok_line: "m \<le> n \<Longrightarrow> chain_ok (line_heap n t bits) (map Some [0..<m])"
  by (auto simp: chain_ok_def linked_at_def line_heap_def)

lemma chain_ok_line3: "chain_ok (line_heap 5 t bits) [Some 0, Some 1, Some 2]"
  using chain_ok_line [of 3 5 t bits] by (simp add: upt_rec numeral_2_eq_2)

text \<open>
  \<open>SetTip\<close> ends and leaves in the chain vector exactly the branch of the new tip: its length is the
  tip's height plus one, and the entry at every height is the ancestor of the tip at that height,
  whichever branch the vector held before.
\<close>

theorem SetTip_correct:
  assumes "wf_index H" and "chain_ok H c" and "H p = Some b"
  shows "\<exists>v. SetTip H c (Some p) = Some v \<and> chain_ok H v \<and> int (length v) = nHeight b + 1 \<and> Tip v = Some p
    \<and> (\<forall>i < length v. v ! i = walk H (length v - 1 - i) p)"
proof -
  obtain v where v: "SetTip H c (Some p) = Some v" "chain_ok H v" "int (length v) = nHeight b + 1" "Tip v = Some p"
    using SetTip_ok [OF assms] .
  have "v ! i = walk H (length v - 1 - i) p" if "i < length v" for i
    using chain_walk [OF v(2), of i "length v - 1 - i" p] that v(4) by (auto simp: Tip_def split: if_splits)
  with v show ?thesis by blast
qed

theorem SetTip_correct_witness:
  "\<exists>v. SetTip (line_heap 5 (\<lambda>_. 0) 0) [Some 0, Some 1, Some 2] (Some 4) = Some v \<and> length v = 5 \<and> Tip v = Some 4"
proof -
  have "chain_ok (line_heap 5 (\<lambda>_. 0) 0) [Some 0, Some 1, Some 2]"
    by (rule chain_ok_line3)
  then show ?thesis
    using SetTip_correct [OF wf_line_heap, of 5 "\<lambda>_. 0" 0 "[Some 0, Some 1, Some 2]" 4] by (force simp: line_heap_def)
qed

text \<open>
  C31. \<open>FindFork\<close> ends and returns the last common block: the first block on the chain met when walking
  back from the given one, or \<^verbatim>\<open>NULL\<close> when no ancestor is on the chain.
\<close>

theorem FindFork_correct:
  assumes "wf_index H" and "chain_ok H v" and "H p = Some b"
  shows "\<exists>r. FindFork H v (Some p) = Some r \<and>
     (case r of None \<Rightarrow> \<forall>n q. walk H n p = Some q \<longrightarrow> Some q \<notin> set v
      | Some q \<Rightarrow> Some q \<in> set v \<and> (\<exists>n. walk H n p = Some q \<and>
          (\<forall>m q'. m < n \<longrightarrow> walk H m p = Some q' \<longrightarrow> Some q' \<notin> set v)))"
  using FindFork_ok [OF assms] by (simp only: fork_of_def)

theorem FindFork_correct_witness:
  "\<exists>r. FindFork (line_heap 5 (\<lambda>_. 0) 0) [Some 0, Some 1, Some 2] (Some 4) = Some r \<and>
     (case r of None \<Rightarrow> \<forall>n q. walk (line_heap 5 (\<lambda>_. 0) 0) n 4 = Some q \<longrightarrow> Some q \<notin> {Some 0, Some 1, Some 2}
      | Some q \<Rightarrow> Some q \<in> {Some 0, Some 1, Some 2})"
proof -
  have "chain_ok (line_heap 5 (\<lambda>_. 0) 0) [Some 0, Some 1, Some 2]"
    by (rule chain_ok_line3)
  then obtain r where "FindFork (line_heap 5 (\<lambda>_. 0) 0) [Some 0, Some 1, Some 2] (Some 4) = Some r"
    "case r of None \<Rightarrow> \<forall>n q. walk (line_heap 5 (\<lambda>_. 0) 0) n 4 = Some q \<longrightarrow> Some q \<notin> set [Some 0, Some 1, Some 2]
      | Some q \<Rightarrow> Some q \<in> set [Some 0, Some 1, Some 2] \<and> (\<exists>n. walk (line_heap 5 (\<lambda>_. 0) 0) n 4 = Some q \<and>
          (\<forall>m q'. m < n \<longrightarrow> walk (line_heap 5 (\<lambda>_. 0) 0) m 4 = Some q' \<longrightarrow> Some q' \<notin> set [Some 0, Some 1, Some 2]))"
    using FindFork_correct [OF wf_line_heap, of 5 "\<lambda>_. 0" 0 "[Some 0, Some 1, Some 2]" 4] by (force simp: line_heap_def)
  then show ?thesis by (cases r) auto
qed

text \<open>
  A block locator starts with the given block, ends with the genesis block and lists hashes of
  ancestors at strictly decreasing heights; building it ends whether or not the block is on the
  active chain.
\<close>

theorem GetLocator_correct:
  assumes "wf_index H" and "chain_ok H v" and "hashed H" and "H p = Some b"
  shows "\<exists>hs l. GetLocator H v (Some p) = Some l \<and> map Some l = map (anc_hash H p) hs
    \<and> hs \<noteq> [] \<and> hd hs = nHeight b \<and> last hs = 0 \<and> sorted_wrt (>) hs"
proof -
  have "walk H (nat (nHeight b - nHeight b)) p = Some p" by simp
  then show ?thesis
    using GetLocator_loop_ok [OF assms, of 1 p b "[]"] assms(4) by (simp add: GetLocator_def)
qed

theorem GetLocator_correct_witness:
  "\<exists>hs l. GetLocator (line_heap 5 (\<lambda>_. 0) 0) [Some 0, Some 1, Some 2] (Some 4) = Some l
    \<and> map Some l = map (anc_hash (line_heap 5 (\<lambda>_. 0) 0) 4) hs \<and> hd hs = 4 \<and> last hs = 0"
proof -
  have "chain_ok (line_heap 5 (\<lambda>_. 0) 0) [Some 0, Some 1, Some 2]"
    by (rule chain_ok_line3)
  moreover have "hashed (line_heap 5 (\<lambda>_. 0) 0)" by (auto simp: hashed_def line_heap_def split: if_splits)
  moreover obtain b where "line_heap 5 (\<lambda>_. 0) 0 4 = Some b" "nHeight b = 4" by (simp add: line_heap_def)
  ultimately show ?thesis
    using GetLocator_correct [OF wf_line_heap, of 5 "\<lambda>_. 0" 0 "[Some 0, Some 1, Some 2]" 4 b] by auto
qed

text \<open>
  The bisection of \<open>FindEarliestAtLeast\<close> finds the earliest block: the blocks below the returned
  one are exactly those of the chain whose \<open>nTimeMax\<close> is less than the given time, provided \<open>nTimeMax\<close>
  does not decrease along branches (which \<open>AddToBlockIndex\<close> guarantees).
\<close>

theorem FindEarliestAtLeast_correct:
  assumes "chain_ok H v" and "time_mono H"
  shows "\<exists>i \<le> length v. FindEarliestAtLeast H v x = Some (if i = length v then None else v ! i)
    \<and> (\<forall>j p b. j < length v \<longrightarrow> v ! j = Some p \<longrightarrow> H p = Some b \<longrightarrow> (GetBlockTimeMax b < x \<longleftrightarrow> j < i))"
  using FindEarliestAtLeast_ok [OF assms, of x] by metis

theorem FindEarliestAtLeast_correct_witness:
  "\<exists>i \<le> length [Some 0, Some 1, Some 2 :: ptr option].
     FindEarliestAtLeast (line_heap 5 (\<lambda>p. if p < 2 then 1 else 9) 0) [Some 0, Some 1, Some 2] 2
     = Some (if i = length [Some 0, Some 1, Some 2 :: ptr option] then None else [Some 0, Some 1, Some 2] ! i)"
proof -
  have "chain_ok (line_heap 5 (\<lambda>p. if p < 2 then 1 else 9) 0) [Some 0, Some 1, Some 2]"
    by (rule chain_ok_line3)
  moreover have "time_mono (line_heap 5 (\<lambda>p. if p < 2 then 1 else 9) 0)"
    by (auto simp: time_mono_def line_heap_def split: if_splits)
  ultimately show ?thesis
    using FindEarliestAtLeast_correct [of "line_heap 5 (\<lambda>p. if p < 2 then 1 else 9) 0" "[Some 0, Some 1, Some 2]" 2] by blast
qed

text \<open>
  Median time past is monotone: a block whose time is later than the median time of its parent, as the
  header check demands, has a median time at least its parent's.
\<close>

theorem GetMedianTimePast_monotone:
  assumes "wf_index H" and "H p = Some b" and "pprev b = Some q"
    and "GetMedianTimePast H q = Some m" and "m < GetBlockTime b"
  shows "\<exists>m'. GetMedianTimePast H p = Some m' \<and> m \<le> m'"
  using GetMedianTimePast_mono [OF assms] by metis

theorem GetMedianTimePast_monotone_witness:
  "\<exists>m'. GetMedianTimePast (line_heap 3 (\<lambda>p. if p = 0 then 7 else if p = 1 then 5 else 8) 0) 2 = Some m' \<and> 7 \<le> m'"
proof -
  define H where "H = line_heap 3 (\<lambda>p. if p = 0 then 7 else if p = 1 then 5 else 8) 0"
  obtain b where "H 2 = Some b" "pprev b = Some 1" "GetBlockTime b = 8"
    by (simp add: H_def line_heap_def GetBlockTime_def)
  moreover have "GetMedianTimePast H 1 = Some 7"
    unfolding H_def by code_simp
  ultimately show ?thesis
    using GetMedianTimePast_monotone [of H 2 b 1 7] wf_line_heap unfolding H_def by auto
qed

end
