(* ===== verification/Pow.thy ===== *)
theory Pow
  imports Active_Chain "HOL-Library.Signed_Division"
begin

text \<open>
  Proof of work: the retargeting rule and the checks of \<^verbatim>\<open>pow.cpp\<close>, and \<open>ContextualCheckBlockHeader\<close>
  of \<^verbatim>\<open>validation.cpp\<close>. \<open>None\<close> is a \<^verbatim>\<open>NULL\<close> dereference, a failed assertion or an exception.
  Verification of the MTP proof (\<^verbatim>\<open>mtp::verify\<close>, a hash computation) is a parameter. The consensus
  parameters are one record: every caller passes \<^verbatim>\<open>Params().GetConsensus()\<close>, the object that
  \<open>IsMTP\<close> and \<open>CheckMerkleTreeProof\<close> read directly.
\<close>

unbundle bit_operations_syntax

subsection \<open>Definitions\<close>

record PowParams =
  powLimit :: bytes
  fPowNoRetargeting :: bool
  fPowAllowMinDifficultyBlocks :: bool
  nPowTargetSpacing :: int
  nMTPSwitchTime :: u32

definition nPastBlocks :: nat where
  "nPastBlocks = 24"

definition of_result :: "'e + 'a \<Rightarrow> 'a option" where
  "of_result r = (case r of Inl _ \<Rightarrow> None | Inr x \<Rightarrow> Some x)"

text \<open>The loop of \<open>DarkGravityWave\<close>, with \<open>k\<close> rounds to go: the running average and the last entry read.\<close>

fun dgw_loop :: "index_heap \<Rightarrow> nat \<Rightarrow> nat \<Rightarrow> ptr \<Rightarrow> base_uint \<Rightarrow> (base_uint \<times> ptr) option" where
  "dgw_loop H 0 nCountBlocks pindex bnPastTargetAvg = Some (bnPastTargetAvg, pindex)"
| "dgw_loop H (Suc k) nCountBlocks pindex bnPastTargetAvg = do {
     b \<leftarrow> H pindex;
     let bnTarget = fst (SetCompact (nBits b));
     avg \<leftarrow> (if nCountBlocks = 1 then Some bnTarget
            else of_result (bu_divide (bu_add (bu_mul32 bnPastTargetAvg (of_nat nCountBlocks)) bnTarget)
                                      (base_uint_u64 8 (of_nat (nCountBlocks + 1)))));
     p \<leftarrow> (if nCountBlocks \<noteq> nPastBlocks then pprev b else Some pindex);
     dgw_loop H k (nCountBlocks + 1) p avg
   }"

definition clamp_timespan :: "int \<Rightarrow> int \<Rightarrow> int" where
  "clamp_timespan nTargetTimespan nActualTimespan =
     (let t = (if nActualTimespan < nTargetTimespan sdiv 3 then nTargetTimespan sdiv 3 else nActualTimespan)
      in if t > nTargetTimespan * 3 then nTargetTimespan * 3 else t)"

definition DarkGravityWave :: "index_heap \<Rightarrow> ptr option \<Rightarrow> PowParams \<Rightarrow> u32 option" where
  "DarkGravityWave H pindexLast params =
     (let bnPowLimit = UintToArith256 (powLimit params)
      in case pindexLast of
        None \<Rightarrow> GetCompact False bnPowLimit
      | Some p \<Rightarrow> do {
          b \<leftarrow> H p;
          if nHeight b < 401 then GetCompact False bnPowLimit
          else if nHeight b < int nPastBlocks then GetCompact False bnPowLimit
          else do {
            (bnNew, pindex) \<leftarrow> dgw_loop H nPastBlocks 1 p (base_uint_zero 8);
            c \<leftarrow> H pindex;
            let nTargetTimespan = int nPastBlocks * nPowTargetSpacing params;
            let nActualTimespan = clamp_timespan nTargetTimespan (GetBlockTime b - GetBlockTime c);
            let bnNew = bu_mul32 bnNew (of_int nActualTimespan);
            bnNew \<leftarrow> of_result (bu_divide bnNew (base_uint_u64 8 (of_int nTargetTimespan)));
            GetCompact False (if CompareTo bnNew bnPowLimit > 0 then bnPowLimit else bnNew)
          }
        })"

definition GetNextWorkRequired :: "index_heap \<Rightarrow> ptr option \<Rightarrow> CBlockHeader \<Rightarrow> PowParams \<Rightarrow> u32 option" where
  "GetNextWorkRequired H pindexLast pblock params =
     (let bnPowLimit = UintToArith256 (powLimit params)
      in if fPowNoRetargeting params then GetCompact False bnPowLimit
         else if fPowAllowMinDifficultyBlocks params then do {
           p \<leftarrow> pindexLast;
           b \<leftarrow> H p;
           if nHeight b \<ge> 64114 \<and> uint (bh_nTime pblock) > GetBlockTime b + nPowTargetSpacing params * 4
           then GetCompact False bnPowLimit
           else DarkGravityWave H pindexLast params
         }
         else DarkGravityWave H pindexLast params)"

definition CheckMerkleTreeProof ::
  "(u32 \<Rightarrow> CBlockHeader \<Rightarrow> bytes \<Rightarrow> bool \<times> bytes) \<Rightarrow> CBlockHeader \<Rightarrow> PowParams \<Rightarrow> bool" where
  "CheckMerkleTreeProof mtp_verify block params =
     (if \<not> IsMTP (nMTPSwitchTime params) block then True
      else if bh_mtpHashData block = None then False
      else let (ok, calculatedMtpHashValue) = mtp_verify (bh_nNonce block) block (powLimit params)
           in if \<not> (ok \<and> bh_mtpHashValue block = calculatedMtpHashValue) then False else True)"

definition CheckProofOfWork :: "bytes \<Rightarrow> u32 \<Rightarrow> PowParams \<Rightarrow> bool" where
  "CheckProofOfWork hash bits params =
     (let (bnTarget, fNegative, fOverflow) = SetCompact bits
      in if fNegative \<or> EqualTo bnTarget 0 \<or> fOverflow \<or> CompareTo bnTarget (UintToArith256 (powLimit params)) > 0
         then False
         else if CompareTo (UintToArith256 hash) bnTarget > 0 then False
         else True)"

text \<open>The rejection codes of \<open>ContextualCheckBlockHeader\<close>; \<open>None\<close> inside \<open>Some\<close> is acceptance.\<close>

datatype header_error = bad_version | bad_diffbits | time_too_old | time_too_new

definition ContextualCheckBlockHeader ::
  "index_heap \<Rightarrow> CBlockHeader \<Rightarrow> PowParams \<Rightarrow> ptr option \<Rightarrow> int \<Rightarrow> header_error option option" where
  "ContextualCheckBlockHeader H block params pindexPrev nAdjustedTime =
     (let fBlockHasMTP = (bh_nVersion block AND 4096 \<noteq> 0 \<or> (pindexPrev \<noteq> None \<and> nMTPSwitchTime params = 0))
      in if IsMTP (nMTPSwitchTime params) block \<noteq> fBlockHasMTP then Some (Some bad_version)
         else do {
           bits \<leftarrow> GetNextWorkRequired H pindexPrev block params;
           if bh_nBits block \<noteq> bits then Some (Some bad_diffbits)
           else do {
             p \<leftarrow> pindexPrev;
             mtp \<leftarrow> GetMedianTimePast H p;
             if uint (bh_nTime block) \<le> mtp then Some (Some time_too_old)
             else if uint (bh_nTime block) > nAdjustedTime + 2 * 60 * 60 then Some (Some time_too_new)
             else Some None
           }
         })"

subsection \<open>The average target\<close>

text \<open>Reference: the weighted average of the targets, newest first, on numbers.\<close>

fun dgw_avg :: "nat \<Rightarrow> nat list \<Rightarrow> nat \<Rightarrow> nat" where
  "dgw_avg n [] avg = avg"
| "dgw_avg n (t # ts) avg = dgw_avg (n + 1) ts (if n = 1 then t else (avg * n + t) div (n + 1))"

definition target_of :: "CBlockIndex \<Rightarrow> nat" where
  "target_of b = uval (fst (SetCompact (nBits b)))"

lemma dgw_avg_step_bounds:
  assumes "lo \<le> avg" "avg \<le> hi" "lo \<le> t" "t \<le> hi"
  shows "lo \<le> (avg * n + t) div (n + 1) \<and> (avg * n + t) div (n + 1) \<le> (hi :: nat)"
proof -
  have "lo * (n + 1) \<le> avg * n + t" "avg * n + t \<le> hi * (n + 1)"
    using assms by (simp_all add: add_mono mult_le_mono1 distrib_left add.commute)
  moreover have "hi * (n + 1) < (hi + 1) * (n + 1)" by simp
  ultimately have "avg * n + t < (hi + 1) * (n + 1)" by (metis le_less_trans)
  then have "(avg * n + t) div (n + 1) < hi + 1" by (simp only: div_less_iff_less_mult)
  moreover have "lo \<le> (avg * n + t) div (n + 1)"
    using \<open>lo * (n + 1) \<le> avg * n + t\<close> by (simp only: less_eq_div_iff_mult_less_eq)
  ultimately show ?thesis by simp
qed

lemma dgw_avg_bounds:
  assumes "\<And>t. t \<in> set ts \<Longrightarrow> lo \<le> t \<and> t \<le> hi" and "1 \<le> n"
    and "n = 1 \<and> ts \<noteq> [] \<or> lo \<le> avg \<and> avg \<le> hi"
  shows "lo \<le> dgw_avg n ts avg \<and> dgw_avg n ts avg \<le> hi"
  using assms
proof (induction n ts avg rule: dgw_avg.induct)
  case (2 n t ts avg)
  then show ?case using dgw_avg_step_bounds [of lo avg hi t n] by auto
qed auto

lemma divide_u64:
  assumes "length a = 8" "unat d \<noteq> 0"
  obtains q where "bu_divide a (base_uint_u64 8 d) = Inr q" "length q = 8" "uval q = uval a div unat d"
  using divide_cases [of a "base_uint_u64 8 d"] assms by auto

lemma dgw_step:
  assumes len: "length avg = 8" "length T = 8" and n: "1 \<le> n" "n \<le> 24"
    and lt: "uval avg < 2 ^ 251" "uval T < 2 ^ 251"
  obtains q where "of_result (bu_divide (bu_add (bu_mul32 avg (of_nat n)) T) (base_uint_u64 8 (of_nat (n + 1)))) = Some q"
    "length q = 8" "uval q = (uval avg * n + uval T) div (n + 1)"
proof -
  define N :: nat where "N = 2 ^ (32 * 8)"
  have N: "2 ^ 251 * 32 = N" by (simp add: N_def)
  have n32: "unat (of_nat n :: u32) = n" using n by (simp add: unat_of_nat)
  have n64: "unat (of_nat (n + 1) :: u64) = n + 1"
    using unat_of_nat [of "n + 1", where ?'a = 64] n by (simp del: of_nat_add of_nat_Suc)
  have "uval avg * n \<le> 2 ^ 251 * 24" using lt(1) n(2) by (intro mult_le_mono) simp_all
  then have small: "uval avg * n + uval T < N" using lt(2) unfolding N [symmetric] by simp
  have "uval (bu_mul32 avg (of_nat n)) = (uval avg * n) mod N"
    unfolding N_def using uval_mul32 [of avg "of_nat n"] len(1) by (simp only: n32)
  then have mul: "uval (bu_mul32 avg (of_nat n)) = uval avg * n" using small by simp
  have "uval (bu_add (bu_mul32 avg (of_nat n)) T) = (uval avg * n + uval T) mod N"
    unfolding N_def using uval_add [of "bu_mul32 avg (of_nat n)" T] len by (simp only: mul length_mul32)
  then have add: "uval (bu_add (bu_mul32 avg (of_nat n)) T) = uval avg * n + uval T" using small by simp
  obtain q where "bu_divide (bu_add (bu_mul32 avg (of_nat n)) T) (base_uint_u64 8 (of_nat (n + 1))) = Inr q"
    "length q = 8" "uval q = (uval avg * n + uval T) div (n + 1)"
    using divide_u64 [of "bu_add (bu_mul32 avg (of_nat n)) T" "of_nat (n + 1)"] len unfolding n64 add by auto
  then show thesis using that [of q] by (simp add: of_result_def)
qed

text \<open>
  As long as the targets are below \<open>2\<^sup>2\<^sup>5\<^sup>1\<close> no step of the average overflows, and the loop
  computes the reference average.
\<close>

lemma dgw_loop_avg:
  assumes "n + k = 25" and "1 \<le> n" and "length avg = 8"
    and "n = 1 \<or> uval avg < 2 ^ 251"
    and "\<And>j. j < k \<Longrightarrow> \<exists>q b. walk H j p = Some q \<and> H q = Some b \<and> target_of b = ts ! j \<and> ts ! j < 2 ^ 251"
    and "length ts = k" and "0 < k"
  shows "\<exists>r q. dgw_loop H k n p avg = Some (r, q) \<and> length r = 8 \<and> uval r = dgw_avg n ts (uval avg)
    \<and> walk H (k - 1) p = Some q"
  using assms
proof (induction k arbitrary: n p avg ts)
  case (Suc k)
  obtain b where b: "H p = Some b" "target_of b = ts ! 0" "ts ! 0 < 2 ^ 251"
    using Suc.prems(5) [of 0] by auto
  obtain t ts' where ts: "ts = t # ts'" "length ts' = k" using Suc.prems(6) by (cases ts) auto
  define T where "T = fst (SetCompact (nBits b))"
  have T: "length T = 8" "uval T = t" "t < 2 ^ 251"
    using b SetCompact_parts(1) by (simp_all add: T_def target_of_def ts)
  define avg1 where "avg1 = (if n = 1 then t else (uval avg * n + t) div (n + 1))"
  obtain q where q: "(if n = 1 then Some T else of_result (bu_divide (bu_add (bu_mul32 avg (of_nat n)) T)
      (base_uint_u64 8 (of_nat (n + 1))))) = Some q" "length q = 8" "uval q = avg1"
  proof (cases "n = 1")
    case True
    then show ?thesis using that [of T] T by (simp add: avg1_def)
  next
    case False
    then show ?thesis
      using dgw_step [of avg T n] Suc.prems(1-4) T that by (auto simp: avg1_def simp del: of_nat_add of_nat_Suc)
  qed
  have lt: "avg1 < 2 ^ 251"
  proof (cases "n = 1")
    case False
    then have "avg1 \<le> 2 ^ 251 - 1"
      unfolding avg1_def using dgw_avg_step_bounds [of 0 "uval avg" "2 ^ 251 - 1" t n] Suc.prems(4) T by simp
    then show ?thesis by simp
  qed (use T(3) in \<open>simp add: avg1_def\<close>)
  show ?case
  proof (cases k)
    case 0
    then have "n = 24" using Suc.prems(1) by simp
    with 0 ts q b(1) show ?thesis by (simp add: nPastBlocks_def T_def avg1_def)
  next
    case (Suc k')
    obtain r where r: "pprev b = Some r" using Suc.prems(5) [of 1] Suc b(1) by (auto split: bind_splits)
    have w: "walk H (Suc j) p = walk H j r" for j using b(1) r by simp
    have "\<exists>x q'. dgw_loop H k (n + 1) r q = Some (x, q') \<and> length x = 8 \<and>
        uval x = dgw_avg (n + 1) ts' (uval q) \<and> walk H (k - 1) r = Some q'"
    proof (rule Suc.IH)
      show "\<exists>q b. walk H j r = Some q \<and> H q = Some b \<and> target_of b = ts' ! j \<and> ts' ! j < 2 ^ 251" if "j < k" for j
        using Suc.prems(5) [of "Suc j"] that w by (simp add: ts)
    qed (use Suc Suc.prems q lt ts in auto)
    moreover have "n \<noteq> nPastBlocks" using Suc.prems(1) Suc by (simp add: nPastBlocks_def)
    ultimately show ?thesis using b(1) r q Suc ts w by (auto simp: T_def avg1_def)
  qed
qed simp

subsection \<open>The next target\<close>

text \<open>The targets of the last 24 blocks, newest first.\<close>

definition past_targets :: "index_heap \<Rightarrow> ptr \<Rightarrow> nat list" where
  "past_targets H p = map (\<lambda>j. target_of (the (H (the (walk H j p))))) [0..<nPastBlocks]"

definition wf_params :: "PowParams \<Rightarrow> bool" where
  "wf_params params \<longleftrightarrow> length (powLimit params) = 32 \<and> 0 < nPowTargetSpacing params
     \<and> 3 * (24 * nPowTargetSpacing params) < 2 ^ 32"

abbreviation timespan :: "PowParams \<Rightarrow> int" where
  "timespan params \<equiv> 24 * nPowTargetSpacing params"

abbreviation limit_of :: "PowParams \<Rightarrow> nat" where
  "limit_of params \<equiv> uval (UintToArith256 (powLimit params))"

lemma clamp_timespan_bounds:
  "0 < T \<Longrightarrow> T div 3 \<le> clamp_timespan T a \<and> clamp_timespan T a \<le> 3 * T \<and> 0 \<le> clamp_timespan T a"
proof -
  assume T: "0 < T"
  then have "T sdiv 3 = T div 3" by (simp add: signed_divide_int_def)
  moreover have "0 \<le> T div 3" "T div 3 \<le> T" using T by (simp_all add: pos_imp_zdiv_nonneg_iff)
  ultimately show ?thesis using T by (auto simp: clamp_timespan_def Let_def)
qed

lemma length_UintToArith256 [simp]: "length (UintToArith256 b) = 8"
  by (simp add: UintToArith256_def)

lemma unat_of_int_less: "0 \<le> i \<Longrightarrow> i < 2 ^ LENGTH('a) \<Longrightarrow> unat (of_int i :: 'a::len word) = nat i"
  by (simp add: unsigned_of_int take_bit_int_eq_self nat_take_bit_eq)

lemma past_targets_window:
  assumes wf: "wf_index H" and b: "H p = Some b" "401 \<le> nHeight b" and j: "j < nPastBlocks"
  shows "\<exists>q c. walk H j p = Some q \<and> H q = Some c \<and> target_of c = past_targets H p ! j"
proof -
  have "int j \<le> nHeight b" using b(2) j by (simp add: nPastBlocks_def)
  then obtain q c where "walk H j p = Some q" "H q = Some c" using walk_height [OF wf b(1)] by blast
  then show ?thesis using j by (auto simp: past_targets_def)
qed

text \<open>What \<open>DarkGravityWave\<close> computes once the chain is long enough, the 256-bit wrap-around written out.\<close>

lemma DarkGravityWave_value:
  assumes wf: "wf_index H" and b: "H p = Some b" "401 \<le> nHeight b" and params: "wf_params params"
    and ts: "\<And>t. t \<in> set (past_targets H p) \<Longrightarrow> t < 2 ^ 251"
    and first: "walk H 23 p = Some q" "H q = Some c"
  defines "avg \<equiv> dgw_avg 1 (past_targets H p) 0"
    and "span \<equiv> clamp_timespan (timespan params) (GetBlockTime b - GetBlockTime c)"
  obtains r where "DarkGravityWave H (Some p) params = GetCompact False r" "length r = 8"
    "uval r = min (limit_of params) ((avg * nat span) mod 2 ^ 256 div nat (timespan params))"
proof -
  define T where "T = timespan params"
  have T: "0 < T" "3 * T < 2 ^ 32" using params by (simp_all add: wf_params_def T_def)
  have span: "0 \<le> span" "span < 2 ^ 32"
    using clamp_timespan_bounds [OF T(1)] T(2) unfolding span_def T_def by (force intro: le_less_trans)+
  have "\<exists>r q'. dgw_loop H 24 1 p (base_uint_zero 8) = Some (r, q') \<and> length r = 8 \<and>
      uval r = dgw_avg 1 (past_targets H p) (uval (base_uint_zero 8)) \<and> walk H (24 - 1) p = Some q'"
  proof (rule dgw_loop_avg)
    fix j :: nat
    assume "j < 24"
    then have j: "j < nPastBlocks" by (simp add: nPastBlocks_def)
    then have "past_targets H p ! j \<in> set (past_targets H p)" by (simp add: past_targets_def)
    then show "\<exists>q b. walk H j p = Some q \<and> H q = Some b \<and> target_of b = past_targets H p ! j \<and> past_targets H p ! j < 2 ^ 251"
      using past_targets_window [OF wf b j] ts by blast
  qed (simp_all add: past_targets_def nPastBlocks_def)
  then obtain a where a: "dgw_loop H nPastBlocks 1 p (base_uint_zero 8) = Some (a, q)" "length a = 8" "uval a = avg"
    using first(1) by (auto simp: avg_def nPastBlocks_def)
  have us: "unat (of_int span :: u32) = nat span" using span by (simp add: unat_of_int_less)
  have "T < 2 ^ 64" using T by simp
  then have ut: "unat (of_int T :: u64) = nat T" using T(1) by (simp add: unat_of_int_less)
  define m where "m = bu_mul32 a (of_int span)"
  have m: "length m = 8" "uval m = (avg * nat span) mod 2 ^ 256"
    using a uval_mul32 [of a "of_int span"] by (simp_all add: m_def us)
  obtain d where d: "bu_divide m (base_uint_u64 8 (of_int T)) = Inr d" "length d = 8" "uval d = uval m div nat T"
    using divide_u64 [of m "of_int T"] m(1) T(1) ut by auto
  define L where "L = UintToArith256 (powLimit params)"
  define r where "r = (if CompareTo d L > 0 then L else d)"
  have "DarkGravityWave H (Some p) params = GetCompact False r"
    unfolding DarkGravityWave_def Let_def L_def [symmetric]
    using b first(2) a(1) d(1)
    by (simp add: r_def nPastBlocks_def of_result_def flip: T_def m_def span_def) (simp add: m_def span_def T_def)
  moreover have "length r = 8" using d(2) by (simp add: r_def L_def)
  moreover have "uval r = min (uval L) (uval m div nat T)"
    using CompareTo_gt [of d L] d by (auto simp: r_def L_def min_def)
  ultimately show thesis using that m(2) by (simp add: L_def T_def)
qed

lemma past_targets_nonempty: "past_targets H p \<noteq> []"
  by (simp add: past_targets_def nPastBlocks_def)

lemma dgw_avg_past:
  assumes "\<And>t. t \<in> set (past_targets H p) \<Longrightarrow> lo \<le> t \<and> t \<le> hi"
  shows "lo \<le> dgw_avg 1 (past_targets H p) 0 \<and> dgw_avg 1 (past_targets H p) 0 \<le> hi"
  using assms past_targets_nonempty by (intro dgw_avg_bounds) auto

lemma first_window_block:
  assumes "wf_index H" "H p = Some b" "401 \<le> nHeight b"
  obtains q c where "walk H 23 p = Some q" "H q = Some c"
proof -
  have "int 23 \<le> nHeight b" using assms(3) by simp
  then show thesis using walk_height [OF assms(1,2)] that by metis
qed

lemma DarkGravityWave_bounds:
  assumes wf: "wf_index H" and b: "H p = Some b" "401 \<le> nHeight b" and params: "wf_params params"
    and ts: "\<And>t. t \<in> set (past_targets H p) \<Longrightarrow> lo \<le> t \<and> t \<le> hi"
    and fit: "hi * nat (3 * timespan params) < 2 ^ 256" and hi: "hi < 2 ^ 251"
  defines "T \<equiv> nat (timespan params)"
  obtains r where "DarkGravityWave H (Some p) params = GetCompact False r" "length r = 8"
    "min (limit_of params) (lo * (T div 3) div T) \<le> uval r" "uval r \<le> min (limit_of params) (3 * hi)"
proof -
  obtain q c where first: "walk H 23 p = Some q" "H q = Some c" using first_window_block [OF wf b] .
  define avg where "avg = dgw_avg 1 (past_targets H p) 0"
  define span where "span = clamp_timespan (timespan params) (GetBlockTime b - GetBlockTime c)"
  have T0: "0 < timespan params" using params by (simp add: wf_params_def)
  then have Tpos: "0 < T" by (simp add: T_def)
  have span: "T div 3 \<le> nat span" "nat span \<le> 3 * T"
    using clamp_timespan_bounds [OF T0, of "GetBlockTime b - GetBlockTime c"] T0 unfolding span_def T_def
    by linarith+
  have avg: "lo \<le> avg" "avg \<le> hi" using dgw_avg_past [OF ts] by (simp_all add: avg_def)
  have "avg * nat span \<le> hi * nat (3 * timespan params)"
    using avg(2) span(2) by (intro mult_le_mono) (simp_all add: T_def nat_mult_distrib)
  then have nowrap: "(avg * nat span) mod 2 ^ 256 = avg * nat span" using fit by (intro mod_less) (rule le_less_trans)
  have lt: "t < 2 ^ 251" if "t \<in> set (past_targets H p)" for t
    using ts [OF that] hi by (elim conjE) (rule le_less_trans)
  obtain r where r: "DarkGravityWave H (Some p) params = GetCompact False r" "length r = 8"
    "uval r = min (limit_of params) ((avg * nat span) mod 2 ^ 256 div T)"
    using DarkGravityWave_value [OF wf b params lt first] unfolding avg_def span_def T_def .
  note r = r(1,2) r(3) [unfolded nowrap]
  have "lo * (T div 3) div T \<le> avg * nat span div T"
    using avg(1) span(1) by (intro div_le_mono mult_le_mono)
  moreover have "avg * nat span div T \<le> 3 * hi"
  proof -
    have "avg * nat span \<le> (3 * hi) * T" using mult_le_mono [OF avg(2) span(2)] by (simp add: mult.assoc mult.commute mult.left_commute)
    then have "avg * nat span div T \<le> (3 * hi) * T div T" by (rule div_le_mono)
    then show ?thesis using Tpos by simp
  qed
  ultimately show thesis using that r by (auto simp: min_def)
qed

lemma GetCompact_le:
  assumes "length r = 8" "uval r \<le> L"
  shows "\<exists>w v. GetCompact False r = Some w \<and> SetCompact w = (v, False, False) \<and> uval v \<le> L \<and> uval v \<le> uval r"
proof -
  obtain w v where wv: "GetCompact False r = Some w" "SetCompact w = (v, False, False)"
    "uval v = uval r div 256 ^ (nb_size w - 3) * 256 ^ (nb_size w - 3)"
    using Compact_roundtrip [OF assms(1)] by metis
  have "uval v \<le> uval r" unfolding wv(3) by simp
  moreover from this have "uval v \<le> L" using assms(2) by (rule order.trans)
  ultimately show ?thesis using wv(1,2) by blast
qed

lemma CheckProofOfWork_iff:
  "CheckProofOfWork hash bits params \<longleftrightarrow>
     (let (v, neg, ov) = SetCompact bits
      in \<not> neg \<and> \<not> ov \<and> 0 < uval v \<and> uval v \<le> limit_of params \<and> uval (UintToArith256 hash) \<le> uval v)"
proof -
  obtain v neg ov where sc: "SetCompact bits = (v, neg, ov)" by (cases "SetCompact bits")
  have "length v = 8" using SetCompact_parts(1) [of bits] sc by simp
  then show ?thesis
    by (simp add: CheckProofOfWork_def sc EqualTo_iff CompareTo_gt not_less)
qed

text \<open>The compact form of a positive target is a positive target, so a range check never refuses it.\<close>

lemma GetCompact_attainable:
  assumes len: "length r = 8" and pos: "0 < uval r" "uval r \<le> limit_of params"
  shows "\<exists>w. GetCompact False r = Some w \<and> 0 < uval (fst (SetCompact w)) \<and> uval (fst (SetCompact w)) \<le> uval r \<and>
    (\<forall>hash. CheckProofOfWork hash w params \<longleftrightarrow> uval (UintToArith256 hash) \<le> uval (fst (SetCompact w)))"
proof -
  obtain w v where wv: "GetCompact False r = Some w" "SetCompact w = (v, False, False)" "length v = 8"
    "uval v = uval r div 256 ^ (nb_size w - 3) * 256 ^ (nb_size w - 3)" "GetCompact False v = Some w"
    using Compact_roundtrip [OF len] by metis
  have "uval v \<le> uval r" unfolding wv(4) by simp
  moreover have "0 < uval v"
  proof (rule ccontr)
    assume "\<not> 0 < uval v"
    then have v: "uval v = 0" "nbytes v = 0" using nbytes_le [of v 0] by simp_all
    then have "unat w = 0"
      using GetCompact_value [OF wv(3)] wv(5) by (auto simp: compact_mant_def compact_exp_def mant_raw_def)
    then have "nb_size w = 0" by (simp add: nb_size_def)
    then show False using wv(4) v(1) pos(1) by simp
  qed
  ultimately show ?thesis using wv(1,2) pos(2) by (auto simp: CheckProofOfWork_iff)
qed

text \<open>The target that the next block is to meet, on numbers.\<close>

definition required_target :: "index_heap \<Rightarrow> ptr \<Rightarrow> CBlockHeader \<Rightarrow> PowParams \<Rightarrow> nat" where
  "required_target H p block params =
     (let b = the (H p); c = the (H (the (walk H 23 p))); T = timespan params;
          span = max (T div 3) (min (3 * T) (GetBlockTime b - GetBlockTime c))
      in if fPowNoRetargeting params
           \<or> (fPowAllowMinDifficultyBlocks params \<and> 64114 \<le> nHeight b
              \<and> uint (bh_nTime block) > GetBlockTime b + 4 * nPowTargetSpacing params)
           \<or> nHeight b \<le> 400
         then limit_of params
         else min (limit_of params) (dgw_avg 1 (past_targets H p) 0 * nat span div nat T))"

lemma clamp_timespan_eq: "0 < T \<Longrightarrow> clamp_timespan T a = max (T div 3) (min (3 * T) a)"
proof -
  assume T: "0 < T"
  then have "T sdiv 3 = T div 3" by (simp add: signed_divide_int_def)
  moreover have "T div 3 \<le> 3 * T" using T by linarith
  ultimately show ?thesis by (auto simp: clamp_timespan_def Let_def)
qed

lemma span_third: "nat (24 * x) div 3 = 8 * nat x" "0 < x \<Longrightarrow> 3 * nat ((24 * x) div 3) = nat (24 * x)" for x :: int
  by simp_all

lemma DarkGravityWave_target:
  assumes wf: "wf_index H" and b: "H p = Some b" "401 \<le> nHeight b" and params: "wf_params params"
    and ts: "\<And>t. t \<in> set (past_targets H p) \<Longrightarrow> 3 \<le> t \<and> t * nat (3 * timespan params) < 2 ^ 256"
    and first: "walk H 23 p = Some q" "H q = Some c"
  defines "avg \<equiv> dgw_avg 1 (past_targets H p) 0"
    and "span \<equiv> max (timespan params div 3) (min (3 * timespan params) (GetBlockTime b - GetBlockTime c))"
  obtains r where "DarkGravityWave H (Some p) params = GetCompact False r" "length r = 8"
    "uval r = min (limit_of params) (avg * nat span div nat (timespan params))" "0 < avg * nat span div nat (timespan params)"
proof -
  define T where "T = timespan params"
  define M where "M = nat (3 * T)"
  have T0: "0 < T" "24 \<le> T" using params by (auto simp: wf_params_def T_def)
  have M: "72 \<le> M" using T0 by (simp add: M_def)
  have lt: "t < 2 ^ 251" if "t \<in> set (past_targets H p)" for t
  proof -
    have "t * 72 \<le> t * M" using M by simp
    also have "\<dots> < 2 ^ 256" using ts [OF that] by (simp add: M_def T_def)
    finally show ?thesis by simp
  qed
  have span: "clamp_timespan T (GetBlockTime b - GetBlockTime c) = span"
    unfolding span_def T_def [symmetric] by (rule clamp_timespan_eq [OF T0(1)])
  have sb: "T div 3 \<le> span" "span \<le> 3 * T" using clamp_timespan_bounds [OF T0(1)] unfolding span [symmetric] by auto
  define hi where "hi = (2 ^ 256 - 1) div M"
  have "3 \<le> t \<and> t \<le> hi" if "t \<in> set (past_targets H p)" for t
  proof -
    have "t * M \<le> 2 ^ 256 - 1" using ts [OF that] by (simp add: M_def T_def)
    then show ?thesis using ts [OF that] M by (simp add: hi_def less_eq_div_iff_mult_less_eq)
  qed
  then have avg: "3 \<le> avg" "avg \<le> hi" using dgw_avg_past unfolding avg_def by blast+
  have "avg * nat span \<le> hi * M" using avg(2) sb(2) by (intro mult_le_mono) (simp_all add: M_def)
  also have "\<dots> \<le> 2 ^ 256 - 1" unfolding hi_def by (rule div_times_less_eq_dividend)
  finally have nowrap: "(avg * nat span) mod 2 ^ 256 = avg * nat span" by simp
  obtain r where r: "DarkGravityWave H (Some p) params = GetCompact False r" "length r = 8"
    "uval r = min (limit_of params) ((avg * nat span) mod 2 ^ 256 div nat T)"
    using DarkGravityWave_value [OF wf b params lt first] unfolding T_def [symmetric] span avg_def .
  have "nat T \<le> 3 * nat (T div 3)" by (simp add: T_def span_third)
  also have "\<dots> \<le> avg * nat span" using avg(1) sb(1) by (intro mult_le_mono) simp_all
  finally have "0 < avg * nat span div nat T" using T0(1) by (simp add: div_greater_zero_iff)
  then show thesis using that r unfolding nowrap T_def by blast
qed

subsection \<open>Main network parameters\<close>

definition mainnet_pow :: PowParams where
  "mainnet_pow = \<lparr>powLimit = replicate 31 0xff @ [0], fPowNoRetargeting = False,
     fPowAllowMinDifficultyBlocks = False, nPowTargetSpacing = 150, nMTPSwitchTime = 1570701600\<rparr>"

lemma mainnet_limit: "limit_of mainnet_pow = 2 ^ 248 - 1"
proof -
  have "UintToArith256 (powLimit mainnet_pow) = [0xffffffff, 0xffffffff, 0xffffffff,
      0xffffffff, 0xffffffff, 0xffffffff, 0xffffffff, 0x00ffffff]"
    by code_simp
  then show ?thesis by simp
qed

lemma wf_mainnet: "wf_params mainnet_pow"
  by (simp add: wf_params_def mainnet_pow_def)

lemma past_targets_line:
  assumes "23 \<le> p" "p < n"
  shows "t \<in> set (past_targets (line_heap n tm bits) p) \<Longrightarrow> t = uval (fst (SetCompact bits))"
  using assms by (auto simp: past_targets_def nPastBlocks_def walk_line target_of_def line_heap_def)

lemma entry_line: "p < n \<Longrightarrow> \<exists>b. line_heap n tm bits p = Some b \<and> nHeight b = int p \<and> nTime b = tm p"
  by (simp add: line_heap_def)

lemma target_decode: "nb_size w = e \<Longrightarrow> nb_mant w = m \<Longrightarrow> compact_dec e m < 2 ^ 256 \<Longrightarrow>
    uval (fst (SetCompact w)) = compact_dec e m"
  by (simp add: SetCompact_parts(2))

subsection \<open>Properties\<close>

text \<open>
  C32. Retargeting is bounded: once the chain has more than 400 blocks, and as long as three times the
  largest recent target times the timespan fits 256 bits, the next target (before rounding to the compact
  form) is at most three times the largest of the last 24 targets, at least about a third of the smallest,
  and never above \<open>powLimit\<close>.
\<close>

theorem DarkGravityWave_bounded:
  assumes "wf_index H" and "H p = Some b" and "401 \<le> nHeight b" and "wf_params params"
    and "\<forall>t \<in> set (past_targets H p). lo \<le> t \<and> t \<le> hi"
    and "hi * nat (3 * timespan params) < 2 ^ 256" and "hi < 2 ^ 251"
  shows "\<exists>r. DarkGravityWave H (Some p) params = GetCompact False r
    \<and> min (limit_of params) (lo * (nat (timespan params) div 3) div nat (timespan params)) \<le> uval r
    \<and> uval r \<le> min (limit_of params) (3 * hi)"
proof -
  have "\<And>t. t \<in> set (past_targets H p) \<Longrightarrow> lo \<le> t \<and> t \<le> hi" using assms(5) by blast
  from DarkGravityWave_bounds [OF assms(1-4) this assms(6,7)] show ?thesis by metis
qed

theorem DarkGravityWave_bounded_witness:
  "\<exists>r. DarkGravityWave (line_heap 450 (\<lambda>_. 0) 0x1b00ffff) (Some 440) mainnet_pow = GetCompact False r
    \<and> uval r \<le> min (limit_of mainnet_pow) (3 * (65535 * 256 ^ 24))"
proof -
  obtain b where b: "line_heap 450 (\<lambda>_. 0) 0x1b00ffff 440 = Some b" "nHeight b = 440"
    using entry_line [of 440 450] by fastforce
  have t: "uval (fst (SetCompact 0x1b00ffff)) = 65535 * 256 ^ 24"
    by (subst target_decode [of _ 27 65535]) (simp_all add: nb_size_def nb_mant_def compact_dec_def)
  have ts: "\<forall>t \<in> set (past_targets (line_heap 450 (\<lambda>_. 0) 0x1b00ffff) 440). 65535 * 256 ^ 24 \<le> t \<and> t \<le> 65535 * 256 ^ 24"
    using past_targets_line [of 440 450 _ "\<lambda>_. 0" "0x1b00ffff"] t by auto
  have fit: "65535 * 256 ^ 24 * nat (3 * timespan mainnet_pow) < 2 ^ 256" by (simp add: mainnet_pow_def)
  have hi: "65535 * 256 ^ 24 < (2 :: nat) ^ 251" and height: "401 \<le> nHeight b" using b(2) by simp_all
  from DarkGravityWave_bounded [OF wf_line_heap b(1) height wf_mainnet ts fit hi] show ?thesis by blast
qed

text \<open>
  C33. The required difficulty and the proof-of-work check agree. On a well-formed tree whose last 24 targets are at least 3
  and small enough for the retarget product to fit 256 bits, \<open>GetNextWorkRequired\<close> returns the compact form of the
  target that the rules describe: \<open>powLimit\<close> without retargeting, for a late block on a network that allows it, and up
  to height 400, and otherwise the average of the last 24 targets scaled by the clamped timespan, at most \<open>powLimit\<close>.
  The 32 bits decode to a positive target not above it, and \<open>CheckProofOfWork\<close> accepts with them exactly the hashes up
  to that target: a miner is never asked for a target that the check refuses as out of range.
\<close>

theorem GetNextWorkRequired_attainable:
  assumes "wf_index H" and "H p = Some b" and "wf_params params" and "0 < limit_of params"
    and "401 \<le> nHeight b \<longrightarrow> (\<forall>t \<in> set (past_targets H p). 3 \<le> t \<and> t * nat (3 * timespan params) < 2 ^ 256)"
  shows "\<exists>w r. GetNextWorkRequired H (Some p) block params = Some w \<and> GetCompact False r = Some w
    \<and> uval r = required_target H p block params
    \<and> 0 < uval (fst (SetCompact w)) \<and> uval (fst (SetCompact w)) \<le> uval r
    \<and> (\<forall>hash. CheckProofOfWork hash w params \<longleftrightarrow> uval (UintToArith256 hash) \<le> uval (fst (SetCompact w)))"
proof -
  have "\<exists>r. GetNextWorkRequired H (Some p) block params = GetCompact False r \<and> length r = 8 \<and>
      uval r = required_target H p block params \<and> 0 < uval r \<and> uval r \<le> limit_of params"
  proof (cases "fPowNoRetargeting params \<or> (fPowAllowMinDifficultyBlocks params \<and> 64114 \<le> nHeight b
      \<and> uint (bh_nTime block) > GetBlockTime b + 4 * nPowTargetSpacing params) \<or> nHeight b \<le> 400")
    case True
    then have "required_target H p block params = limit_of params" using assms(2) by (simp add: required_target_def Let_def)
    moreover have "GetNextWorkRequired H (Some p) block params = GetCompact False (UintToArith256 (powLimit params))"
      using True assms(2) by (auto simp: GetNextWorkRequired_def DarkGravityWave_def Let_def)
    ultimately show ?thesis using assms(4) by (intro exI [of _ "UintToArith256 (powLimit params)"]) simp
  next
    case False
    then have h: "401 \<le> nHeight b" by simp
    obtain q c where first: "walk H 23 p = Some q" "H q = Some c" using first_window_block [OF assms(1,2) h] .
    obtain r where r: "DarkGravityWave H (Some p) params = GetCompact False r" "length r = 8"
      "uval r = min (limit_of params) (dgw_avg 1 (past_targets H p) 0 * nat (max (timespan params div 3)
        (min (3 * timespan params) (GetBlockTime b - GetBlockTime c))) div nat (timespan params))"
      "0 < dgw_avg 1 (past_targets H p) 0 * nat (max (timespan params div 3)
        (min (3 * timespan params) (GetBlockTime b - GetBlockTime c))) div nat (timespan params)"
      by (rule DarkGravityWave_target [OF assms(1,2) h assms(3) _ first]) (use assms(5) h in blast)+
    have "GetNextWorkRequired H (Some p) block params = DarkGravityWave H (Some p) params"
      using False assms(2) by (auto simp: GetNextWorkRequired_def Let_def)
    moreover have "required_target H p block params = uval r"
      by (simp only: required_target_def Let_def assms(2) first option.sel False if_False r(3))
    moreover have "0 < uval r" "uval r \<le> limit_of params" 
      by (simp_all only: r(3,4) assms(4) min_less_iff_conj min.cobounded1 simp_thms)
    ultimately show ?thesis using r(1,2) by (intro exI [of _ r]) simp
  qed
  then obtain r where r: "GetNextWorkRequired H (Some p) block params = GetCompact False r" "length r = 8"
    "uval r = required_target H p block params" "0 < uval r" "uval r \<le> limit_of params" by blast
  from GetCompact_attainable [OF r(2,4,5)] r(1,3) show ?thesis by force
qed

theorem GetNextWorkRequired_attainable_witness:
  "\<exists>w r. GetNextWorkRequired (line_heap 450 (\<lambda>_. 0) 0x1b00ffff) (Some 440) sample_header mainnet_pow = Some w
    \<and> uval r = required_target (line_heap 450 (\<lambda>_. 0) 0x1b00ffff) 440 sample_header mainnet_pow
    \<and> 0 < uval (fst (SetCompact w)) \<and> uval (fst (SetCompact w)) \<le> uval r"
proof -
  obtain b where b: "line_heap 450 (\<lambda>_. 0) 0x1b00ffff 440 = Some b"
    using entry_line [of 440 450] by fastforce
  have t: "uval (fst (SetCompact 0x1b00ffff)) = 65535 * 256 ^ 24"
    by (subst target_decode [of _ 27 65535]) (simp_all add: nb_size_def nb_mant_def compact_dec_def)
  have "3 \<le> x \<and> x * nat (3 * timespan mainnet_pow) < 2 ^ 256"
    if "x \<in> set (past_targets (line_heap 450 (\<lambda>_. 0) 0x1b00ffff) 440)" for x
  proof -
    have "x = 65535 * 256 ^ 24" using past_targets_line [OF _ _ that] t by simp
    then show ?thesis by (simp add: mainnet_pow_def)
  qed
  moreover have "0 < limit_of mainnet_pow" by (simp add: mainnet_limit)
  ultimately show ?thesis
    using GetNextWorkRequired_attainable [OF wf_line_heap b wf_mainnet, of sample_header] by blast
qed

text \<open>
  \<open>CheckProofOfWork\<close> accepts exactly the hashes, read as 256-bit numbers, that do not exceed a target
  which is encoded without sign or overflow, is positive and does not exceed \<open>powLimit\<close>.
\<close>

theorem CheckProofOfWork_correct:
  "CheckProofOfWork hash bits params \<longleftrightarrow>
     (let (v, neg, ov) = SetCompact bits
      in \<not> neg \<and> \<not> ov \<and> 0 < uval v \<and> uval v \<le> limit_of params \<and> uval (UintToArith256 hash) \<le> uval v)"
  by (rule CheckProofOfWork_iff)

text \<open>
  C34. The retarget product overflows near \<open>powLimit\<close> on the main network: with the last 24 blocks at the
  lowest difficulty \<open>0x2000ffff\<close> and exactly on schedule (3600 seconds), \<open>bnNew *= nActualTimespan\<close> wraps
  modulo \<open>2\<^sup>2\<^sup>5\<^sup>6\<close> before the clamp to \<open>powLimit\<close>, and the next target is below 1/220 of the
  unchanged one that the formula means to give.
\<close>

theorem DarkGravityWave_overflow:
  assumes "wf_index H" and "H p = Some b" and "401 \<le> nHeight b"
    and "\<forall>j < 24. \<exists>q c. walk H j p = Some q \<and> H q = Some c \<and> nBits c = 0x2000ffff"
    and "walk H 23 p = Some q" and "H q = Some c" and "GetBlockTime b - GetBlockTime c = 3600"
  shows "\<exists>w v. DarkGravityWave H (Some p) mainnet_pow = Some w \<and> SetCompact w = (v, False, False)
    \<and> 220 * uval v < uval (fst (SetCompact 0x2000ffff))"
proof -
  define t :: nat where "t = 65535 * 256 ^ 29"
  have t: "uval (fst (SetCompact 0x2000ffff)) = t"
    unfolding t_def by (subst target_decode [of _ 32 65535]) (simp_all add: nb_size_def nb_mant_def compact_dec_def)
  have ts: "x = t" if x: "x \<in> set (past_targets H p)" for x
  proof -
    obtain j where "j < 24" "x = target_of (the (H (the (walk H j p))))"
      using x by (auto simp: past_targets_def nPastBlocks_def)
    then show ?thesis using assms(4) t by (force simp: target_of_def)
  qed
  then have lt: "x < 2 ^ 251" if "x \<in> set (past_targets H p)" for x
    using ts [OF that] by (simp add: t_def)
  have avg: "dgw_avg 1 (past_targets H p) 0 = t" using dgw_avg_past [of H p t t] ts by (simp add: eq_iff)
  have span: "clamp_timespan (timespan mainnet_pow) (GetBlockTime b - GetBlockTime c) = 3600"
    unfolding assms(7) by (simp add: mainnet_pow_def clamp_timespan_def signed_divide_int_def)
  obtain r where r: "DarkGravityWave H (Some p) mainnet_pow = GetCompact False r" "length r = 8"
    "uval r = min (limit_of mainnet_pow) ((t * nat 3600) mod 2 ^ 256 div nat (timespan mainnet_pow))"
    using DarkGravityWave_value [OF assms(1-3) wf_mainnet lt assms(5,6)] unfolding avg span .
  have "uval r \<le> (t * 3600) mod 2 ^ 256 div 3600" using r(3) by (simp add: mainnet_pow_def)
  then have "220 * uval r < t" by (simp add: t_def)
  moreover obtain w v where "GetCompact False r = Some w" "SetCompact w = (v, False, False)" "uval v \<le> uval r"
    using GetCompact_le [OF r(2) order.refl] by blast
  ultimately show ?thesis using r(1) t by auto
qed

theorem DarkGravityWave_overflow_witness:
  "\<exists>w v. DarkGravityWave (line_heap 450 (\<lambda>p. if p = 440 then 3600 else 0) 0x2000ffff) (Some 440) mainnet_pow = Some w
    \<and> SetCompact w = (v, False, False) \<and> 220 * uval v < uval (fst (SetCompact 0x2000ffff))"
proof -
  define H where "H = line_heap 450 (\<lambda>p. if p = 440 then 3600 else 0) 0x2000ffff"
  obtain b c where b: "H 440 = Some b" "nHeight b = 440" "nTime b = 3600" and c: "H 417 = Some c" "nTime c = 0"
    using entry_line [of 440 450] entry_line [of 417 450] unfolding H_def by fastforce
  have w: "walk H j 440 = Some (440 - j)" if "j < 24" for j unfolding H_def using that by (simp add: walk_line)
  have "\<forall>j < 24. \<exists>q c. walk H j 440 = Some q \<and> H q = Some c \<and> nBits c = 0x2000ffff"
  proof (intro allI impI)
    fix j :: nat
    assume j: "j < 24"
    have "440 - j < 450" by simp
    then show "\<exists>q c. walk H j 440 = Some q \<and> H q = Some c \<and> nBits c = 0x2000ffff"
      using w [OF j] by (simp add: H_def line_heap_def)
  qed
  then show ?thesis
    using DarkGravityWave_overflow [of H 440 b 417 c] wf_line_heap w [of 23] b c
    unfolding H_def by (simp add: GetBlockTime_def)
qed

text \<open>
  The wrapped product can be zero: on the main network 24 blocks at \<open>0x1f100000\<close> over 4096 seconds make it exactly
  \<open>2\<^sup>2\<^sup>5\<^sup>6\<close>. The next target is then 0, which \<open>CheckProofOfWork\<close> refuses for every hash, so that no block can
  follow.
\<close>

theorem DarkGravityWave_zero_target:
  assumes "wf_index H" and "H p = Some b" and "401 \<le> nHeight b"
    and "\<forall>t \<in> set (past_targets H p). t = 2 ^ 244"
    and "walk H 23 p = Some q" and "H q = Some c" and "GetBlockTime b - GetBlockTime c = 4096"
  shows "\<exists>w. GetNextWorkRequired H (Some p) block mainnet_pow = Some w \<and> (\<forall>hash. \<not> CheckProofOfWork hash w mainnet_pow)"
proof -
  have lt: "x < 2 ^ 251" if "x \<in> set (past_targets H p)" for x
    using bspec [OF assms(4) that] by simp
  have avg: "dgw_avg 1 (past_targets H p) 0 = 2 ^ 244"
    using dgw_avg_past [of H p "2 ^ 244" "2 ^ 244"] assms(4) by (simp add: eq_iff)
  have span: "clamp_timespan (timespan mainnet_pow) (GetBlockTime b - GetBlockTime c) = 4096"
    unfolding assms(7) by (simp add: mainnet_pow_def clamp_timespan_def signed_divide_int_def)
  obtain r where r: "DarkGravityWave H (Some p) mainnet_pow = GetCompact False r" "length r = 8"
    "uval r = min (limit_of mainnet_pow) ((2 ^ 244 * nat 4096) mod 2 ^ 256 div nat (timespan mainnet_pow))"
    using DarkGravityWave_value [OF assms(1-3) wf_mainnet lt assms(5,6)] unfolding avg span .
  then obtain w v where w: "GetCompact False r = Some w" "SetCompact w = (v, False, False)" "uval v \<le> 0"
    using GetCompact_le [of r 0] by auto
  then have "GetNextWorkRequired H (Some p) block mainnet_pow = Some w"
    using r(1) by (simp add: GetNextWorkRequired_def mainnet_pow_def Let_def)
  then show ?thesis using w by (auto simp: CheckProofOfWork_iff)
qed

theorem DarkGravityWave_zero_target_witness:
  "\<exists>w. GetNextWorkRequired (line_heap 450 (\<lambda>p. if p = 440 then 4096 else 0) 0x1f100000) (Some 440) sample_header mainnet_pow = Some w
    \<and> (\<forall>hash. \<not> CheckProofOfWork hash w mainnet_pow)"
proof -
  define H where "H = line_heap 450 (\<lambda>p. if p = 440 then 4096 else 0) 0x1f100000"
  obtain b c where b: "H 440 = Some b" "nHeight b = 440" "nTime b = 4096" and c: "H 417 = Some c" "nTime c = 0"
    using entry_line [of 440 450] entry_line [of 417 450] unfolding H_def by fastforce
  have t: "uval (fst (SetCompact 0x1f100000)) = 2 ^ 244"
    by (subst target_decode [of _ 31 1048576]) (simp_all add: nb_size_def nb_mant_def compact_dec_def)
  have "\<forall>t \<in> set (past_targets H 440). t = 2 ^ 244"
    using past_targets_line [of 440 450] t unfolding H_def by auto
  moreover have "walk H 23 440 = Some 417" unfolding H_def by (simp add: walk_line)
  ultimately show ?thesis
    using DarkGravityWave_zero_target [of H 440 b 417 c] wf_line_heap b c
    unfolding H_def by (simp add: GetBlockTime_def)
qed

end
