(* ===== verification/Version_Bits.thy ===== *)
theory Version_Bits
  imports Active_Chain
begin

text \<open>
  BIP9 deployments: \<^verbatim>\<open>versionbits.cpp\<close> and \<open>ComputeBlockVersion\<close> of \<^verbatim>\<open>validation.cpp\<close>. The abstract
  class with its five virtual functions is a record of them; the cache is a map keyed by the
  parent block (\<open>None\<close> for \<^verbatim>\<open>NULL\<close>), passed and returned. As before, \<open>None\<close> as a result is a
  \<^verbatim>\<open>NULL\<close> dereference or a loop that does not end.
\<close>

unbundle bit_operations_syntax

subsection \<open>Definitions\<close>

datatype ThresholdState =
  THRESHOLD_DEFINED | THRESHOLD_STARTED | THRESHOLD_LOCKED_IN | THRESHOLD_ACTIVE | THRESHOLD_FAILED

record ConditionChecker =
  Condition :: "CBlockIndex \<Rightarrow> bool"
  BeginTime :: int
  EndTime :: int
  Period :: int
  Threshold :: int

type_synonym ThresholdConditionCache = "ptr option \<rightharpoonup> ThresholdState"

partial_function (option) state_back_loop ::
  "index_heap \<Rightarrow> ConditionChecker \<Rightarrow> ptr option \<Rightarrow> ptr list \<Rightarrow> ThresholdConditionCache \<Rightarrow>
   (ptr option \<times> ptr list \<times> ThresholdConditionCache) option" where
  "state_back_loop H c pindexPrev vToCompute cache =
     (if cache pindexPrev \<noteq> None then Some (pindexPrev, vToCompute, cache)
      else case pindexPrev of
        None \<Rightarrow> Some (None, vToCompute, cache(None \<mapsto> THRESHOLD_DEFINED))
      | Some p \<Rightarrow> do {
          mtp \<leftarrow> GetMedianTimePast H p;
          if mtp < BeginTime c then Some (Some p, vToCompute, cache(Some p \<mapsto> THRESHOLD_DEFINED))
          else do {
            b \<leftarrow> H p;
            q \<leftarrow> GetAncestor H p (nHeight b - Period c);
            state_back_loop H c q (p # vToCompute) cache
          }
        })"

text \<open>The counting loop: how many of \<open>n\<close> blocks, walking back, meet the condition.\<close>

fun count_condition :: "index_heap \<Rightarrow> ConditionChecker \<Rightarrow> nat \<Rightarrow> ptr option \<Rightarrow> int \<Rightarrow> int option" where
  "count_condition H c 0 pindexCount count = Some count"
| "count_condition H c (Suc n) pindexCount count = do {
     p \<leftarrow> pindexCount;
     b \<leftarrow> H p;
     count_condition H c n (pprev b) (if Condition c b then count + 1 else count)
   }"

definition next_state :: "index_heap \<Rightarrow> ConditionChecker \<Rightarrow> ThresholdState \<Rightarrow> ptr \<Rightarrow> ThresholdState option" where
  "next_state H c state p =
     (case state of
        THRESHOLD_DEFINED \<Rightarrow> do {
          mtp \<leftarrow> GetMedianTimePast H p;
          Some (if mtp \<ge> EndTime c then THRESHOLD_FAILED
                else if mtp \<ge> BeginTime c then THRESHOLD_STARTED
                else state)
        }
      | THRESHOLD_STARTED \<Rightarrow> do {
          mtp \<leftarrow> GetMedianTimePast H p;
          if mtp \<ge> EndTime c then Some THRESHOLD_FAILED
          else do {
            count \<leftarrow> count_condition H c (nat (Period c)) (Some p) 0;
            Some (if count \<ge> Threshold c then THRESHOLD_LOCKED_IN else state)
          }
        }
      | THRESHOLD_LOCKED_IN \<Rightarrow> Some THRESHOLD_ACTIVE
      | THRESHOLD_FAILED \<Rightarrow> Some state
      | THRESHOLD_ACTIVE \<Rightarrow> Some state)"

fun state_forward_loop ::
  "index_heap \<Rightarrow> ConditionChecker \<Rightarrow> ptr list \<Rightarrow> ThresholdState \<Rightarrow> ThresholdConditionCache \<Rightarrow>
   (ThresholdState \<times> ThresholdConditionCache) option" where
  "state_forward_loop H c [] state cache = Some (state, cache)"
| "state_forward_loop H c (p # vToCompute) state cache = do {
     stateNext \<leftarrow> next_state H c state p;
     state_forward_loop H c vToCompute stateNext (cache(Some p \<mapsto> stateNext))
   }"

text \<open>Both loops: back to a known state, then forward again.\<close>

definition back_and_forth ::
  "index_heap \<Rightarrow> ConditionChecker \<Rightarrow> ptr option \<Rightarrow> ptr list \<Rightarrow> ThresholdConditionCache \<Rightarrow>
   (ThresholdState \<times> ThresholdConditionCache) option" where
  "back_and_forth H c pindexPrev vToCompute cache = do {
     (known, vToCompute, cache) \<leftarrow> state_back_loop H c pindexPrev vToCompute cache;
     state \<leftarrow> cache known;
     state_forward_loop H c vToCompute state cache
   }"

definition GetStateFor ::
  "index_heap \<Rightarrow> ConditionChecker \<Rightarrow> ptr option \<Rightarrow> ThresholdConditionCache \<Rightarrow>
   (ThresholdState \<times> ThresholdConditionCache) option" where
  "GetStateFor H c pindexPrev cache = do {
     start \<leftarrow> (case pindexPrev of
         None \<Rightarrow> Some None
       | Some p \<Rightarrow> do { b \<leftarrow> H p; GetAncestor H p (nHeight b - (nHeight b + 1) mod Period c) });
     back_and_forth H c start [] cache
   }"

partial_function (option) since_loop ::
  "index_heap \<Rightarrow> ConditionChecker \<Rightarrow> ThresholdState \<Rightarrow> ptr option \<Rightarrow> ptr option \<Rightarrow> ThresholdConditionCache \<Rightarrow>
   (int \<times> ThresholdConditionCache) option" where
  "since_loop H c initialState pindexPrev previousPeriodParent cache = do {
     p \<leftarrow> pindexPrev;
     b \<leftarrow> H p;
     case previousPeriodParent of
       None \<Rightarrow> Some (nHeight b + 1, cache)
     | Some q \<Rightarrow> do {
         (state, cache) \<leftarrow> GetStateFor H c (Some q) cache;
         if state = initialState then do {
           d \<leftarrow> H q;
           r \<leftarrow> GetAncestor H q (nHeight d - Period c);
           since_loop H c initialState (Some q) r cache
         }
         else Some (nHeight b + 1, cache)
       }
   }"

definition GetStateSinceHeightFor ::
  "index_heap \<Rightarrow> ConditionChecker \<Rightarrow> ptr option \<Rightarrow> ThresholdConditionCache \<Rightarrow> (int \<times> ThresholdConditionCache) option" where
  "GetStateSinceHeightFor H c pindexPrev cache = do {
     (initialState, cache) \<leftarrow> GetStateFor H c pindexPrev cache;
     if initialState = THRESHOLD_DEFINED then Some (0, cache)
     else do {
       p \<leftarrow> pindexPrev;
       b \<leftarrow> H p;
       start \<leftarrow> GetAncestor H p (nHeight b - (nHeight b + 1) mod Period c);
       q \<leftarrow> start;
       d \<leftarrow> H q;
       prev \<leftarrow> GetAncestor H q (nHeight d - Period c);
       since_loop H c initialState (Some q) prev cache
     }
   }"

subsection \<open>Deployments\<close>

definition VERSIONBITS_TOP_BITS :: u32 where "VERSIONBITS_TOP_BITS = 0x20000000"
definition VERSIONBITS_TOP_MASK :: u32 where "VERSIONBITS_TOP_MASK = 0xE0000000"
definition MAX_VERSION_BITS_DEPLOYMENTS :: nat where "MAX_VERSION_BITS_DEPLOYMENTS = 4"

record BIP9Deployment =
  dep_bit :: nat
  dep_nStartTime :: int
  dep_nTimeout :: int

record BitsParams =
  vDeployments :: "BIP9Deployment list"
  nMinerConfirmationWindow :: int
  nRuleChangeActivationThreshold :: int

definition VersionBitsMask :: "BitsParams \<Rightarrow> nat \<Rightarrow> u32" where
  "VersionBitsMask params pos = push_bit (dep_bit (vDeployments params ! pos)) 1"

definition VersionBitsConditionChecker :: "BitsParams \<Rightarrow> nat \<Rightarrow> ConditionChecker" where
  "VersionBitsConditionChecker params pos =
     \<lparr>Condition = (\<lambda>b. nVersion b AND VERSIONBITS_TOP_MASK = VERSIONBITS_TOP_BITS \<and>
                       nVersion b AND VersionBitsMask params pos \<noteq> 0),
      BeginTime = dep_nStartTime (vDeployments params ! pos),
      EndTime = dep_nTimeout (vDeployments params ! pos),
      Period = nMinerConfirmationWindow params,
      Threshold = nRuleChangeActivationThreshold params\<rparr>"

type_synonym VersionBitsCache = "nat \<Rightarrow> ThresholdConditionCache"

definition VersionBitsCache_Clear :: VersionBitsCache where
  "VersionBitsCache_Clear = (\<lambda>d. Map.empty)"

definition VersionBitsState ::
  "index_heap \<Rightarrow> ptr option \<Rightarrow> BitsParams \<Rightarrow> nat \<Rightarrow> VersionBitsCache \<Rightarrow> (ThresholdState \<times> VersionBitsCache) option" where
  "VersionBitsState H pindexPrev params pos caches = do {
     (s, cache) \<leftarrow> GetStateFor H (VersionBitsConditionChecker params pos) pindexPrev (caches pos);
     Some (s, caches(pos := cache))
   }"

definition VersionBitsStateSinceHeight ::
  "index_heap \<Rightarrow> ptr option \<Rightarrow> BitsParams \<Rightarrow> nat \<Rightarrow> VersionBitsCache \<Rightarrow> (int \<times> VersionBitsCache) option" where
  "VersionBitsStateSinceHeight H pindexPrev params pos caches = do {
     (h, cache) \<leftarrow> GetStateSinceHeightFor H (VersionBitsConditionChecker params pos) pindexPrev (caches pos);
     Some (h, caches(pos := cache))
   }"

fun ComputeBlockVersion_loop ::
  "index_heap \<Rightarrow> ptr option \<Rightarrow> BitsParams \<Rightarrow> nat list \<Rightarrow> u32 \<Rightarrow> VersionBitsCache \<Rightarrow> (u32 \<times> VersionBitsCache) option" where
  "ComputeBlockVersion_loop H pindexPrev params [] version caches = Some (version, caches)"
| "ComputeBlockVersion_loop H pindexPrev params (i # is) version caches = do {
     (state, caches) \<leftarrow> VersionBitsState H pindexPrev params i caches;
     ComputeBlockVersion_loop H pindexPrev params is
       (if state = THRESHOLD_LOCKED_IN \<or> state = THRESHOLD_STARTED
        then version OR VersionBitsMask params i else version) caches
   }"

definition ComputeBlockVersion ::
  "index_heap \<Rightarrow> ptr option \<Rightarrow> BitsParams \<Rightarrow> VersionBitsCache \<Rightarrow> (u32 \<times> VersionBitsCache) option" where
  "ComputeBlockVersion H pindexPrev params caches =
     ComputeBlockVersion_loop H pindexPrev params [0..<MAX_VERSION_BITS_DEPLOYMENTS] VERSIONBITS_TOP_BITS caches"

subsection \<open>The state machine without a cache\<close>

text \<open>
  The recursion of BIP9: the state of the \<open>n\<close>-th period, whose last block before it is \<open>p\<close> (\<open>None\<close> for the period
  of the genesis block), computed from the period before it.
\<close>

fun bip9 :: "index_heap \<Rightarrow> ConditionChecker \<Rightarrow> nat \<Rightarrow> ptr option \<Rightarrow> ThresholdState option" where
  "bip9 H c 0 p = Some THRESHOLD_DEFINED"
| "bip9 H c (Suc n) None = Some THRESHOLD_DEFINED"
| "bip9 H c (Suc n) (Some p) = do { s \<leftarrow> bip9 H c n (walk H (nat (Period c)) p); next_state H c s p }"

text \<open>
  The same recursion in which a period that ends before the start time is defined whatever came before it. It is what
  the shortcut of \<open>GetStateFor\<close> amounts to, and differs from BIP9 for a deployment whose timeout lies before its
  start time.
\<close>

fun gated :: "index_heap \<Rightarrow> ConditionChecker \<Rightarrow> nat \<Rightarrow> ptr option \<Rightarrow> ThresholdState option" where
  "gated H c 0 p = Some THRESHOLD_DEFINED"
| "gated H c (Suc n) None = Some THRESHOLD_DEFINED"
| "gated H c (Suc n) (Some p) = do {
     mtp \<leftarrow> GetMedianTimePast H p;
     if mtp < BeginTime c then Some THRESHOLD_DEFINED
     else do { s \<leftarrow> gated H c n (walk H (nat (Period c)) p); next_state H c s p }
   }"

text \<open>The state for a block that follows \<open>pindexPrev\<close>: that of its period.\<close>

definition state_of ::
  "(nat \<Rightarrow> ptr option \<Rightarrow> ThresholdState option) \<Rightarrow> index_heap \<Rightarrow> ConditionChecker \<Rightarrow> ptr option \<Rightarrow> ThresholdState option" where
  "state_of period_state H c pindexPrev =
     (case pindexPrev of
        None \<Rightarrow> Some THRESHOLD_DEFINED
      | Some p \<Rightarrow> do {
          h \<leftarrow> height_of H p;
          period_state (nat ((h + 1) div Period c)) (walk H (nat ((h + 1) mod Period c)) p)
        })"

abbreviation bip9_state :: "index_heap \<Rightarrow> ConditionChecker \<Rightarrow> ptr option \<Rightarrow> ThresholdState option" where
  "bip9_state H c \<equiv> state_of (bip9 H c) H c"

abbreviation gated_state :: "index_heap \<Rightarrow> ConditionChecker \<Rightarrow> ptr option \<Rightarrow> ThresholdState option" where
  "gated_state H c \<equiv> state_of (gated H c) H c"

definition at_period :: "index_heap \<Rightarrow> ConditionChecker \<Rightarrow> nat \<Rightarrow> ptr option \<Rightarrow> bool" where
  "at_period H c n p \<longleftrightarrow>
     (case p of None \<Rightarrow> n = 0 | Some q \<Rightarrow> 0 < n \<and> height_of H q = Some (int n * Period c - 1))"

definition cache_ok :: "index_heap \<Rightarrow> ConditionChecker \<Rightarrow> ThresholdConditionCache \<Rightarrow> bool" where
  "cache_ok H c cache \<longleftrightarrow> (\<forall>p s. cache p = Some s \<longrightarrow> (\<exists>n. at_period H c n p \<and> gated H c n p = Some s))"

text \<open>Median times do not decrease along branches: the consequence of the \<open>time-too-old\<close> rule.\<close>

definition mtp_mono :: "index_heap \<Rightarrow> bool" where
  "mtp_mono H \<longleftrightarrow> (\<forall>p b q m m'. H p = Some b \<longrightarrow> pprev b = Some q \<longrightarrow>
     GetMedianTimePast H q = Some m \<longrightarrow> GetMedianTimePast H p = Some m' \<longrightarrow> m \<le> m')"

definition checker_ok :: "index_heap \<Rightarrow> ConditionChecker \<Rightarrow> bool" where
  "checker_ok H c \<longleftrightarrow> wf_index H \<and> 0 < Period c"

lemma checker_okD:
  assumes "checker_ok H c"
  shows "wf_index H" "0 < Period c"
  using assms by (simp_all add: checker_ok_def)

lemma at_period_unique: "0 < Period c \<Longrightarrow> at_period H c n p \<Longrightarrow> at_period H c m p \<Longrightarrow> n = m"
  by (cases p) (auto simp: at_period_def)

lemma at_period_prev:
  assumes ok: "checker_ok H c" and "at_period H c (Suc n) (Some q)"
  shows "at_period H c n (walk H (nat (Period c)) q)"
proof -
  note c = checker_okD [OF ok]
  have h: "height_of H q = Some (int (Suc n) * Period c - 1)" using assms(2) by (simp add: at_period_def)
  show ?thesis
  proof (cases n)
    case 0
    then show ?thesis using tree.up_beyond [OF c(1) h, of "nat (Period c)"] c(2) by (simp add: at_period_def)
  next
    case (Suc m)
    have "int (nat (Period c)) \<le> int (Suc n) * Period c - 1"
      using c(2) Suc by (simp add: distrib_right add_pos_nonneg)
    from tree.up_height [OF c(1) h this] show ?thesis
      using c(2) Suc by (auto simp: at_period_def distrib_right)
  qed
qed

lemma count_defined:
  assumes "wf_index H"
  shows "H p = Some b \<Longrightarrow> int n \<le> nHeight b + 1 \<Longrightarrow> \<exists>k. count_condition H c n (Some p) cnt = Some k"
proof (induction n arbitrary: p b cnt)
  case (Suc n)
  show ?case
  proof (cases n)
    case (Suc m)
    then obtain q d where "pprev b = Some q" "H q = Some d" "nHeight b = nHeight d + 1"
      using wf_indexD [OF assms Suc.prems(1)] Suc.prems(2) by (auto simp: wf_entry_def split: option.splits)
    then show ?thesis using Suc.IH [of q d] Suc.prems by simp
  qed (use Suc.prems in simp)
qed simp

lemma next_state_defined:
  assumes ok: "checker_ok H c" and p: "at_period H c (Suc n) (Some q)"
  shows "\<exists>s'. next_state H c s q = Some s'"
proof -
  note c = checker_okD [OF ok]
  obtain b where b: "H q = Some b" "nHeight b = int (Suc n) * Period c - 1"
    using p by (auto simp: at_period_def height_of_def)
  obtain m where m: "GetMedianTimePast H q = Some m" using GetMedianTimePast_defined [OF c(1) b(1)] by blast
  have "int (nat (Period c)) \<le> nHeight b + 1" using c(2) b(2) by (simp add: distrib_right)
  then obtain k where "count_condition H c (nat (Period c)) (Some q) 0 = Some k"
    using count_defined [OF c(1) b(1)] by blast
  with m show ?thesis by (cases s) (simp_all add: next_state_def)
qed

lemma at_periodD:
  "at_period H c (Suc n) p \<Longrightarrow> wf_index H \<Longrightarrow> \<exists>q b m. p = Some q \<and> H q = Some b \<and> GetMedianTimePast H q = Some m"
  using GetMedianTimePast_defined by (fastforce simp: at_period_def height_of_def split: option.splits)

lemma gated_defined:
  assumes ok: "checker_ok H c"
  shows "at_period H c n p \<Longrightarrow> \<exists>s. gated H c n p = Some s"
proof (induction n arbitrary: p)
  case (Suc n)
  then obtain q m where q: "p = Some q" "GetMedianTimePast H q = Some m" using at_periodD checker_okD [OF ok] by blast
  obtain s where s: "gated H c n (walk H (nat (Period c)) q) = Some s"
    using Suc.IH [OF at_period_prev [OF ok]] Suc.prems q(1) by blast
  then show ?case using next_state_defined [OF ok, of n q s] Suc.prems q by auto
qed simp

lemma mtp_mono_walk:
  assumes wf: "wf_index H" and mono: "mtp_mono H"
  shows "walk H k p = Some r \<Longrightarrow> H p = Some b \<Longrightarrow> GetMedianTimePast H p = Some m \<Longrightarrow>
    \<exists>m'. GetMedianTimePast H r = Some m' \<and> m' \<le> m"
proof (induction k arbitrary: p b m)
  case (Suc k)
  then obtain q where q: "pprev b = Some q" "walk H k q = Some r" by (auto split: bind_splits)
  then obtain d where d: "H q = Some d" using wf_indexD [OF wf Suc.prems(2)] by (auto simp: wf_entry_def)
  obtain mq where mq: "GetMedianTimePast H q = Some mq" using GetMedianTimePast_defined [OF wf d] by blast
  have "mq \<le> m" using mono Suc.prems(2,3) q(1) mq unfolding mtp_mono_def by blast
  then show ?case using Suc.IH [OF q(2) d mq] by auto
qed simp

lemma bip9_before_start:
  assumes ok: "checker_ok H c" and mono: "mtp_mono H" and order: "BeginTime c \<le> EndTime c"
  shows "at_period H c n (Some q) \<Longrightarrow> GetMedianTimePast H q = Some m \<Longrightarrow> m < BeginTime c \<Longrightarrow>
    bip9 H c n (Some q) = Some THRESHOLD_DEFINED"
proof (induction n arbitrary: q m)
  case (Suc n)
  note c = checker_okD [OF ok]
  have "bip9 H c n (walk H (nat (Period c)) q) = Some THRESHOLD_DEFINED"
  proof (cases "walk H (nat (Period c)) q")
    case None
    then show ?thesis by (cases n) simp_all
  next
    case (Some r)
    obtain b where "H q = Some b" using Suc.prems(1) by (auto simp: at_period_def height_of_def)
    then obtain m' where "GetMedianTimePast H r = Some m'" "m' \<le> m"
      using mtp_mono_walk [OF c(1) mono Some] Suc.prems(2) by blast
    then show ?thesis using Suc.IH [of r m'] at_period_prev [OF ok Suc.prems(1)] Some Suc.prems(3) by simp
  qed
  then show ?case using Suc.prems order by (simp add: next_state_def)
qed (simp add: at_period_def)

text \<open>With the start time not after the timeout and median times that do not decrease, the gate changes nothing.\<close>

lemma gated_bip9:
  assumes ok: "checker_ok H c" and mono: "mtp_mono H" and order: "BeginTime c \<le> EndTime c"
  shows "at_period H c n p \<Longrightarrow> gated H c n p = bip9 H c n p"
proof (induction n arbitrary: p)
  case (Suc n)
  then obtain q m where q: "p = Some q" "GetMedianTimePast H q = Some m" using at_periodD checker_okD [OF ok] by blast
  have "gated H c n (walk H (nat (Period c)) q) = bip9 H c n (walk H (nat (Period c)) q)"
    using Suc.IH [OF at_period_prev [OF ok]] Suc.prems q(1) by blast
  then show ?case using bip9_before_start [OF assms _ q(2), of "Suc n"] Suc.prems q by simp
qed simp

subsection \<open>The cached computation agrees with it\<close>

lemma cache_okI: "cache_ok H c cache \<Longrightarrow> at_period H c n p \<Longrightarrow> gated H c n p = Some s \<Longrightarrow> cache_ok H c (cache(p \<mapsto> s))"
  by (auto simp: cache_ok_def)

lemma cache_hit:
  assumes "0 < Period c" "cache_ok H c cache" "at_period H c n p" "cache p = Some s"
  shows "gated H c n p = Some s"
  using assms at_period_unique by (fastforce simp: cache_ok_def)

lemma height_ofD: "height_of H p = Some n \<Longrightarrow> \<exists>b. H p = Some b \<and> nHeight b = n"
  by (auto simp: height_of_def)

lemma back_and_forth_ok:
  assumes ok: "checker_ok H c" and "cache_ok H c cache" and "at_period H c n p"
  shows "\<exists>s cache'. gated H c n p = Some s \<and> cache_ok H c cache' \<and>
    back_and_forth H c p vs cache = state_forward_loop H c vs s cache'"
  using assms(2,3)
proof (induction n arbitrary: p vs cache)
  case 0
  note step = state_back_loop.simps [of H c p vs cache]
  have p: "p = None" using 0(2) by (auto simp: at_period_def split: option.splits)
  show ?case
  proof (cases "cache p")
    case None
    then show ?thesis using step p cache_okI [OF 0(1), of 0 None] by (auto simp: at_period_def back_and_forth_def)
  next
    case (Some s)
    then show ?thesis using step 0 cache_hit [OF checker_okD(2) [OF ok] 0 Some] by (auto simp: back_and_forth_def)
  qed
next
  case (Suc n)
  note c = checker_okD [OF ok]
  note step = state_back_loop.simps [of H c p vs cache]
  obtain q where p: "p = Some q" using Suc.prems(2) by (auto simp: at_period_def split: option.splits)
  obtain b where b: "H q = Some b" "height_of H q = Some (nHeight b)" "nHeight b = int (Suc n) * Period c - 1"
    using Suc.prems(2) p by (auto simp: at_period_def height_of_def)
  obtain m where m: "GetMedianTimePast H q = Some m" using GetMedianTimePast_defined [OF c(1) b(1)] by blast
  obtain s where s: "gated H c (Suc n) p = Some s" using gated_defined [OF ok Suc.prems(2)] by blast
  show ?case
  proof (cases "cache p")
    case (Some s')
    then show ?thesis using step cache_hit [OF c(2) Suc.prems Some] Suc.prems(1) by (auto simp: back_and_forth_def)
  next
    case None
    show ?thesis
    proof (cases "m < BeginTime c")
      case True
      then have "s = THRESHOLD_DEFINED" using p m True s by simp
      then show ?thesis
        using step None p m True s cache_okI [OF Suc.prems s] by (auto simp: back_and_forth_def)
    next
      case False
      have anc: "GetAncestor H q (nHeight b - Period c) = Some (walk H (nat (Period c)) q)"
        using tree.anc_period [OF c(1) b(2)] c(2) by simp
      obtain s' cache' where IH: "gated H c n (walk H (nat (Period c)) q) = Some s'" "cache_ok H c cache'"
        "back_and_forth H c (walk H (nat (Period c)) q) (q # vs) cache = state_forward_loop H c (q # vs) s' cache'"
        using Suc.IH [OF Suc.prems(1) at_period_prev [OF ok], of q "q # vs"] Suc.prems(2) p by blast
      have next': "next_state H c s' q = Some s" using s IH(1) p m False by simp
      have "state_back_loop H c p vs cache = state_back_loop H c (walk H (nat (Period c)) q) (q # vs) cache"
        using step None p m False b(1) anc by simp
      then have "back_and_forth H c p vs cache = state_forward_loop H c vs s (cache'(Some q \<mapsto> s))"
        using IH(3) next' by (simp add: back_and_forth_def)
      then show ?thesis using s cache_okI [OF IH(2) Suc.prems(2) s] p by auto
    qed
  qed
qed

lemma at_period_start:
  assumes ok: "checker_ok H c" and h: "height_of H p = Some h"
  shows "at_period H c (nat ((h + 1) div Period c)) (walk H (nat ((h + 1) mod Period c)) p)"
proof -
  note c = checker_okD [OF ok]
  define P where "P = Period c"
  have P: "0 < P" using c(2) by (simp add: P_def)
  have h0: "0 \<le> h" using tree.height_nonneg [OF c(1) h] .
  have dm: "(h + 1) div P * P + (h + 1) mod P = h + 1" by simp
  show ?thesis
  proof (cases "(h + 1) div P = 0")
    case True
    then have "(h + 1) mod P = h + 1" using dm by simp
    then show ?thesis
      using tree.up_beyond [OF c(1) h, of "nat (h + 1)"] True h0 by (simp add: P_def at_period_def)
  next
    case False
    then have "0 < (h + 1) div P" using P h0 by (simp add: less_le pos_imp_zdiv_nonneg_iff)
    then have "P \<le> (h + 1) div P * P" using P by simp
    then have "(h + 1) mod P \<le> h" using dm P by linarith
    then have "int (nat ((h + 1) mod P)) \<le> h" using P by simp
    from tree.up_height [OF c(1) h this] show ?thesis
      using \<open>0 < (h + 1) div P\<close> dm P by (auto simp: P_def at_period_def algebra_simps)
  qed
qed

lemma GetStateFor_ok:
  assumes ok: "checker_ok H c" and cache: "cache_ok H c cache"
    and p: "p = None \<or> (\<exists>q b. p = Some q \<and> H q = Some b)"
  obtains s cache' where "GetStateFor H c p cache = Some (s, cache')" "gated_state H c p = Some s" "cache_ok H c cache'"
proof (cases p)
  case None
  have "at_period H c 0 None" by (simp add: at_period_def)
  from back_and_forth_ok [OF ok cache this, of "[]"] show ?thesis
    using that None by (auto simp: GetStateFor_def state_of_def)
next
  case (Some q)
  note c = checker_okD [OF ok]
  obtain b where b: "H q = Some b" using p Some by auto
  then have h: "height_of H q = Some (nHeight b)" by (simp add: height_of_def)
  note a = at_period_start [OF ok h]
  obtain s cache' where "gated H c (nat ((nHeight b + 1) div Period c)) (walk H (nat ((nHeight b + 1) mod Period c)) q) = Some s"
    "cache_ok H c cache'"
    "back_and_forth H c (walk H (nat ((nHeight b + 1) mod Period c)) q) [] cache = state_forward_loop H c [] s cache'"
    using back_and_forth_ok [OF ok cache a] by blast
  then show ?thesis
    using that [of s cache'] Some b h tree.anc_aligned(1) [OF c(1) h c(2)]
    by (simp add: GetStateFor_def state_of_def)
qed

subsection \<open>Since when\<close>

text \<open>The block before period \<open>j\<close>, seen from the block \<open>a\<close> before period \<open>n\<close>.\<close>

definition period_parent :: "index_heap \<Rightarrow> ConditionChecker \<Rightarrow> nat \<Rightarrow> ptr \<Rightarrow> nat \<Rightarrow> ptr option" where
  "period_parent H c n a j = walk H ((n - j) * nat (Period c)) a"

lemma period_parent_step:
  assumes "Suc k \<le> n" "period_parent H c n a (Suc k) = Some q"
  shows "period_parent H c n a k = walk H (nat (Period c)) q"
proof -
  have "(n - k) * nat (Period c) = (n - Suc k) * nat (Period c) + nat (Period c)"
    using assms(1) by (metis Suc_diff_le add.commute diff_Suc_Suc mult_Suc)
  then show ?thesis using assms(2) by (simp add: period_parent_def walk_add)
qed

lemma gated_state_at:
  assumes "0 < Period c" "at_period H c n (Some q)"
  shows "gated_state H c (Some q) = gated H c n (Some q)"
  using assms by (auto simp: state_of_def at_period_def)

lemma since_loop_ok:
  assumes ok: "checker_ok H c" and "cache_ok H c cache" and "at_period H c k (Some q)"
    and "period_parent H c n a k = Some q" and "k \<le> n"
    and "\<And>j. k \<le> j \<Longrightarrow> j \<le> n \<Longrightarrow> gated H c j (period_parent H c n a j) = Some s"
  shows "\<exists>k' cache'. since_loop H c s (Some q) (walk H (nat (Period c)) q) cache = Some (int k' * Period c, cache')
    \<and> cache_ok H c cache' \<and> 1 \<le> k' \<and> k' \<le> k \<and> (\<forall>j. k' \<le> j \<longrightarrow> j \<le> n \<longrightarrow> gated H c j (period_parent H c n a j) = Some s)
    \<and> (k' = 1 \<or> gated H c (k' - 1) (period_parent H c n a (k' - 1)) \<noteq> Some s)"
  using assms(2-)
proof (induction k arbitrary: q cache)
  case (Suc k)
  note c = checker_okD [OF ok]
  note prev = at_period_prev [OF ok Suc.prems(2)]
  have pp: "period_parent H c n a k = walk H (nat (Period c)) q"
    using period_parent_step [OF Suc.prems(4,3)] .
  obtain b where b: "H q = Some b" "nHeight b + 1 = int (Suc k) * Period c"
    using Suc.prems(2) by (auto simp: at_period_def height_of_def)
  note step = since_loop.simps [of H c s "Some q" "walk H (nat (Period c)) q" cache]
  show ?case
  proof (cases "walk H (nat (Period c)) q")
    case None
    then have "k = 0" using prev by (simp add: at_period_def)
    then show ?thesis using step None b Suc.prems by (intro exI [of _ "Suc k"] exI [of _ cache]) auto
  next
    case (Some r)
    then have r: "at_period H c k (Some r)" using prev by simp
    then obtain d where d: "H r = Some d" "height_of H r = Some (nHeight d)" and k0: "0 < k"
      by (auto simp: at_period_def height_of_def)
    obtain s' cache' where s': "GetStateFor H c (Some r) cache = Some (s', cache')"
      "gated_state H c (Some r) = Some s'" "cache_ok H c cache'"
      using GetStateFor_ok [OF ok Suc.prems(1), of "Some r"] d(1) by auto
    have bs: "gated H c k (period_parent H c n a k) = Some s'"
      using s'(2) gated_state_at [OF c(2) r] pp Some by simp
    show ?thesis
    proof (cases "s' = s")
      case True
      have anc: "GetAncestor H r (nHeight d - Period c) = Some (walk H (nat (Period c)) r)"
        using tree.anc_period [OF c(1) d(2)] c(2) by simp
      have all: "gated H c j (period_parent H c n a j) = Some s" if "k \<le> j" "j \<le> n" for j
        using Suc.prems(5) [of j] that bs True by (cases "j = k") auto
      have eq: "since_loop H c s (Some q) (walk H (nat (Period c)) q) cache
          = since_loop H c s (Some r) (walk H (nat (Period c)) r) cache'"
        using step b(1) Some s'(1) True d(1) anc by simp
      have "period_parent H c n a k = Some r" "k \<le> n" using pp Some Suc.prems(4) by simp_all
      from Suc.IH [OF s'(3) r this all] show ?thesis unfolding eq by (meson le_SucI)
    next
      case False
      then have "since_loop H c s (Some q) (walk H (nat (Period c)) q) cache = Some (int (Suc k) * Period c, cache')"
        using step b Some s'(1) by simp
      moreover have "gated H c (Suc k - 1) (period_parent H c n a (Suc k - 1)) \<noteq> Some s" using bs False by simp
      ultimately show ?thesis using s'(3) Suc.prems(5) by (intro exI [of _ "Suc k"] exI [of _ cache']) auto
    qed
  qed
qed (simp add: at_period_def)

subsection \<open>Transitions\<close>

inductive bip9_step :: "ThresholdState \<Rightarrow> ThresholdState \<Rightarrow> bool" where
  defined_stays: "bip9_step THRESHOLD_DEFINED THRESHOLD_DEFINED"
| defined_starts: "bip9_step THRESHOLD_DEFINED THRESHOLD_STARTED"
| defined_fails: "bip9_step THRESHOLD_DEFINED THRESHOLD_FAILED"
| started_stays: "bip9_step THRESHOLD_STARTED THRESHOLD_STARTED"
| started_locks_in: "bip9_step THRESHOLD_STARTED THRESHOLD_LOCKED_IN"
| started_fails: "bip9_step THRESHOLD_STARTED THRESHOLD_FAILED"
| locked_in_activates: "bip9_step THRESHOLD_LOCKED_IN THRESHOLD_ACTIVE"
| active_stays: "bip9_step THRESHOLD_ACTIVE THRESHOLD_ACTIVE"
| failed_stays: "bip9_step THRESHOLD_FAILED THRESHOLD_FAILED"

code_pred bip9_step .

inductive_cases bip9_step_to_lock_in: "bip9_step s THRESHOLD_LOCKED_IN"
inductive_cases bip9_step_to_active: "bip9_step s THRESHOLD_ACTIVE"
inductive_cases bip9_step_from_active: "bip9_step THRESHOLD_ACTIVE s"

lemma next_state_step: "next_state H c s q = Some s' \<Longrightarrow> bip9_step s s'"
  by (cases s) (auto simp: next_state_def intro: bip9_step.intros split: bind_splits if_splits)

lemma next_state_lock_in:
  "next_state H c THRESHOLD_STARTED q = Some THRESHOLD_LOCKED_IN \<Longrightarrow>
     \<exists>k m. count_condition H c (nat (Period c)) (Some q) 0 = Some k \<and> Threshold c \<le> k \<and>
       GetMedianTimePast H q = Some m \<and> m < EndTime c"
  by (auto simp: next_state_def split: bind_splits if_splits)

text \<open>The \<open>n\<close> blocks that end at \<open>p\<close>, newest first, and the count of those that meet the condition.\<close>

definition window :: "index_heap \<Rightarrow> nat \<Rightarrow> ptr \<Rightarrow> CBlockIndex list" where
  "window H n p = map (\<lambda>j. the (H (the (walk H j p)))) [0..<n]"

lemma window_Suc:
  assumes "H p = Some b" and "pprev b = Some q"
  shows "window H (Suc n) p = b # window H n q"
proof -
  have "window H (Suc n) p = b # map (\<lambda>j. the (H (the (walk H (Suc j) p)))) [0..<n]"
    unfolding window_def upt_conv_Cons [OF zero_less_Suc] list.map map_Suc_upt [symmetric] map_map comp_def
    by (simp add: assms(1))
  then show ?thesis using assms by (simp add: window_def)
qed

lemma count_condition_window:
  "count_condition H c n (Some p) cnt = Some k \<Longrightarrow> k = cnt + int (length (filter (Condition c) (window H n p)))"
proof (induction n arbitrary: p cnt)
  case (Suc n)
  then obtain b where b: "H p = Some b" "count_condition H c n (pprev b) (if Condition c b then cnt + 1 else cnt) = Some k"
    by (auto split: bind_splits)
  show ?case
  proof (cases "pprev b")
    case None
    with b(2) have "n = 0" by (cases n) auto
    then show ?thesis using b None by (simp add: window_def split: if_splits)
  next
    case (Some q)
    then have "k = (if Condition c b then cnt + 1 else cnt) + int (length (filter (Condition c) (window H n q)))"
      using b(2) by (intro Suc.IH) simp
    then show ?thesis using window_Suc [of H p b q n] b(1) Some by simp
  qed
qed (simp add: window_def)

lemma period_parent_at:
  assumes ok: "checker_ok H c" and a: "at_period H c n (Some a)"
  shows "j \<le> n \<Longrightarrow> at_period H c j (period_parent H c n a j)"
proof (induction "n - j" arbitrary: j)
  case 0
  then show ?case using a by (simp add: period_parent_def)
next
  case (Suc m)
  have s: "at_period H c (Suc j) (period_parent H c n a (Suc j))"
    using Suc.hyps(1) [of "Suc j"] Suc.hyps(2) by simp
  then obtain q where q: "period_parent H c n a (Suc j) = Some q"
    by (auto simp: at_period_def split: option.splits)
  then show ?case using at_period_prev [OF ok] s period_parent_step [of j n H c a q] Suc.hyps(2) by simp
qed

lemma gated_consecutive:
  assumes ok: "checker_ok H c" and a: "at_period H c n (Some a)" and j: "j < n"
    and s: "gated H c j (period_parent H c n a j) = Some s"
    and s': "gated H c (Suc j) (period_parent H c n a (Suc j)) = Some s'"
  obtains q m where "period_parent H c n a (Suc j) = Some q" "GetMedianTimePast H q = Some m"
    "if m < BeginTime c then s' = THRESHOLD_DEFINED else next_state H c s q = Some s'"
proof -
  have "at_period H c (Suc j) (period_parent H c n a (Suc j))" using period_parent_at [OF ok a] j by simp
  then obtain q m where q: "period_parent H c n a (Suc j) = Some q" "GetMedianTimePast H q = Some m"
    using at_periodD checker_okD [OF ok] by blast
  then show thesis using that period_parent_step [of j n H c a q] j s s' by (simp split: if_splits)
qed

lemma gated_started:
  "gated H c n p = Some s \<Longrightarrow> s \<noteq> THRESHOLD_DEFINED \<Longrightarrow> \<exists>q m. p = Some q \<and> GetMedianTimePast H q = Some m \<and> BeginTime c \<le> m"
  by (cases "(H, c, n, p)" rule: gated.cases) (auto split: bind_splits if_splits)

text \<open>Active and failed are final, once median times do not decrease.\<close>

lemma final_permanent:
  assumes ok: "checker_ok H c" and mono: "mtp_mono H" and a: "at_period H c n (Some a)"
    and s: "s = THRESHOLD_ACTIVE \<or> s = THRESHOLD_FAILED"
  shows "j \<le> n \<Longrightarrow> gated H c j (period_parent H c n a j) = Some s \<Longrightarrow> gated H c n (Some a) = Some s"
proof (induction "n - j" arbitrary: j)
  case 0
  then show ?case by (simp add: period_parent_def)
next
  case (Suc x)
  have j: "j < n" using Suc.hyps(2) by simp
  obtain s' where s': "gated H c (Suc j) (period_parent H c n a (Suc j)) = Some s'"
    using gated_defined [OF ok period_parent_at [OF ok a]] j by (metis Suc_leI)
  obtain q m where q: "period_parent H c n a (Suc j) = Some q" "GetMedianTimePast H q = Some m"
    "if m < BeginTime c then s' = THRESHOLD_DEFINED else next_state H c s q = Some s'"
    by (rule gated_consecutive [OF ok a j Suc.prems(2) s'])
  obtain r m' where r: "period_parent H c n a j = Some r" "GetMedianTimePast H r = Some m'" "BeginTime c \<le> m'"
    using gated_started [OF Suc.prems(2)] s by auto
  obtain b where b: "H q = Some b"
    using period_parent_at [OF ok a, of "Suc j"] j q(1) by (auto simp: at_period_def height_of_def)
  have "walk H (nat (Period c)) q = Some r" using period_parent_step [of j n H c a q] j q(1) r(1) by simp
  then have "m' \<le> m" using mtp_mono_walk [OF checker_okD(1) [OF ok] mono _ b q(2)] r(2) by fastforce
  then have "next_state H c s q = Some s'" using q(3) r(3) by simp
  then have "s' = s" using s by (auto simp: next_state_def)
  then show ?case using Suc.hyps(1) [of "Suc j"] Suc.hyps(2) s' j by simp
qed

lemma active_was_locked_in:
  assumes ok: "checker_ok H c" and a: "at_period H c n (Some a)"
  shows "j \<le> n \<Longrightarrow> gated H c j (period_parent H c n a j) = Some THRESHOLD_ACTIVE \<Longrightarrow>
    \<exists>i q. Suc i < j \<and> gated H c i (period_parent H c n a i) = Some THRESHOLD_STARTED
      \<and> period_parent H c n a (Suc i) = Some q \<and> gated H c (Suc i) (Some q) = Some THRESHOLD_LOCKED_IN
      \<and> next_state H c THRESHOLD_STARTED q = Some THRESHOLD_LOCKED_IN"
proof (induction j)
  case (Suc j)
  obtain s where s: "gated H c j (period_parent H c n a j) = Some s"
    using gated_defined [OF ok period_parent_at [OF ok a, of j]] Suc.prems(1) by auto
  have "j < n" using Suc.prems(1) by simp
  then obtain r where "next_state H c s r = Some THRESHOLD_ACTIVE"
    by (rule gated_consecutive [OF ok a _ s Suc.prems(2)]) (auto split: if_splits)
  then have "bip9_step s THRESHOLD_ACTIVE" by (intro next_state_step)
  then consider "s = THRESHOLD_LOCKED_IN" | "s = THRESHOLD_ACTIVE" by (elim bip9_step_to_active)
  then show ?case
  proof cases
    case 1
    then have lock: "gated H c j (period_parent H c n a j) = Some THRESHOLD_LOCKED_IN" using s by simp
    then obtain i where i: "j = Suc i" by (cases j) auto
    obtain s0 where s0: "gated H c i (period_parent H c n a i) = Some s0"
      using gated_defined [OF ok period_parent_at [OF ok a, of i]] Suc.prems(1) i by auto
    have "i < n" using i \<open>j < n\<close> by simp
    then obtain q where q: "period_parent H c n a (Suc i) = Some q" "next_state H c s0 q = Some THRESHOLD_LOCKED_IN"
      by (rule gated_consecutive [OF ok a _ s0 lock [unfolded i]]) (auto split: if_splits)
    have "s0 = THRESHOLD_STARTED" using next_state_step [OF q(2)] by (rule bip9_step_to_lock_in)
    with q s0 lock i show ?thesis by (intro exI [of _ i] exI [of _ q]) auto
  next
    case 2
    then have "gated H c j (period_parent H c n a j) = Some THRESHOLD_ACTIVE" "j \<le> n" using s \<open>j < n\<close> by simp_all
    with Suc.IH show ?thesis by (meson less_SucI)
  qed
qed simp

text \<open>The period of an ancestor, seen from the period of the block.\<close>

lemma ancestor_period:
  assumes ok: "checker_ok H c" and p: "H p = Some b" and r: "walk H k p = Some r" "H r = Some d"
    and a: "walk H (nat ((nHeight b + 1) mod Period c)) p = Some a"
  shows "nat ((nHeight d + 1) div Period c) \<le> nat ((nHeight b + 1) div Period c)"
    and "walk H (nat ((nHeight d + 1) mod Period c)) r =
      period_parent H c (nat ((nHeight b + 1) div Period c)) a (nat ((nHeight d + 1) div Period c))"
proof -
  note c = checker_okD [OF ok]
  define P x y where "P = Period c" and "x = nHeight b + 1" and "y = nHeight d + 1"
  have P: "0 < P" using c(2) by (simp add: P_def)
  have k: "int k \<le> nHeight b" using walk_beyond [OF c(1) p, of k] r(1) by (cases "nHeight b < int k") auto
  have d: "nHeight d = nHeight b - int k" by (rule walk_height [OF c(1) p k]) (use r in simp)
  have y: "0 < y" "y \<le> x" "int k = x - y" using k d by (simp_all add: x_def y_def)
  then show le: "nat (y div P) \<le> nat (x div P)" using P by (intro nat_mono zdiv_mono1)
  have m: "int (nat (z mod P)) = z - z div P * P" for z using P pos_mod_sign [of P z] by (simp add: minus_div_mult_eq_mod)
  have "int (k + nat (y mod P)) = x - y div P * P" 
    unfolding of_nat_add m using y(3) by simp
  also have "\<dots> = int (nat (x mod P) + (nat (x div P) - nat (y div P)) * nat P)"
  proof -
    have "0 \<le> x div P" "0 \<le> y div P" using y P by (simp_all add: pos_imp_zdiv_nonneg_iff)
    then show ?thesis
      unfolding of_nat_add of_nat_mult m using le P by (simp add: of_nat_diff left_diff_distrib)
  qed
  finally have "k + nat (y mod P) = nat (x mod P) + (nat (x div P) - nat (y div P)) * nat P" by (simp only: of_nat_eq_iff)
  then have "walk H (nat (y mod P)) r = walk H ((nat (x div P) - nat (y div P)) * nat P) a"
    using walk_add [of H k "nat (y mod P)" p] walk_add [of H "nat (x mod P)" "(nat (x div P) - nat (y div P)) * nat P" p] r(1) a
    by (simp add: x_def P_def)
  then show "walk H (nat (y mod Period c)) r = period_parent H c (nat (x div Period c)) a (nat (y div Period c))"
    by (simp add: period_parent_def P_def)
qed

text \<open>What an answer of \<open>GetStateFor\<close> other than defined says of the period of the block.\<close>

lemma answer_gated:
  assumes ok: "checker_ok H c" and cache: "cache_ok H c cache" and d: "H r = Some d"
    and st: "GetStateFor H c (Some r) cache = Some (s, cache')" and s: "s \<noteq> THRESHOLD_DEFINED"
  obtains a where "walk H (nat ((nHeight d + 1) mod Period c)) r = Some a"
    "gated H c (nat ((nHeight d + 1) div Period c)) (Some a) = Some s"
proof -
  have "gated_state H c (Some r) = Some s"
    by (rule GetStateFor_ok [OF ok cache, of "Some r"]) (use d st in auto)
  then have g: "gated H c (nat ((nHeight d + 1) div Period c)) (walk H (nat ((nHeight d + 1) mod Period c)) r) = Some s"
    using d by (simp add: state_of_def height_of_def)
  from gated_started [OF this s] show thesis using that g by auto
qed

lemma final_state_kept:
  assumes ok: "checker_ok H c" and mono: "mtp_mono H" and p: "H p = Some b" and r: "walk H k p = Some r" "H r = Some d"
    and a': "walk H (nat ((nHeight d + 1) mod Period c)) r = Some a'"
    and s: "gated H c (nat ((nHeight d + 1) div Period c)) (Some a') = Some s" and final: "s = THRESHOLD_ACTIVE \<or> s = THRESHOLD_FAILED"
  shows "gated_state H c (Some p) = Some s"
proof -
  define n j where "n = nat ((nHeight b + 1) div Period c)" and "j = nat ((nHeight d + 1) div Period c)"
  have hp: "height_of H p = Some (nHeight b)" and hr: "height_of H r = Some (nHeight d)" using p r(2) by (simp_all add: height_of_def)
  have w: "walk H (nat ((nHeight b + 1) mod Period c)) p \<noteq> None"
  proof
    assume "walk H (nat ((nHeight b + 1) mod Period c)) p = None"
    then have "(nHeight b + 1) div Period c \<le> 0" using at_period_start [OF ok hp] by (simp add: at_period_def)
    moreover have "0 < j" using at_period_start [OF ok hr] a' by (simp add: at_period_def j_def)
    moreover have "nHeight d \<le> nHeight b"
      using tree.up_height [OF checker_okD(1) [OF ok] hp, of k] tree.up_beyond [OF checker_okD(1) [OF ok] hp, of k] r hr
      by (cases "int k \<le> nHeight b") auto
    ultimately show False
      using zdiv_mono1 [of "nHeight d + 1" "nHeight b + 1" "Period c"] checker_okD(2) [OF ok] by (simp add: j_def)
  qed
  then obtain a where a: "walk H (nat ((nHeight b + 1) mod Period c)) p = Some a" by auto
  note anc = ancestor_period [OF ok p r a, folded n_def j_def]
  have at: "at_period H c n (Some a)" using at_period_start [OF ok hp] a by (simp add: n_def)
  have "gated H c n (Some a) = Some s"
    using final_permanent [OF ok mono at final anc(1)] anc(2) a' s by (simp add: j_def)
  then show ?thesis using hp a by (simp add: state_of_def n_def)
qed

lemma gated_answer:
  assumes ok: "checker_ok H c" and cache: "cache_ok H c cache" and at: "at_period H c n (Some q)"
    and s: "gated H c n (Some q) = Some s"
  shows "\<exists>cache'. GetStateFor H c (Some q) cache = Some (s, cache')"
proof -
  obtain b where b: "H q = Some b" using at by (auto simp: at_period_def height_of_def)
  show ?thesis
    by (rule GetStateFor_ok [OF ok cache, of "Some q"]) (use b gated_state_at [OF checker_okD(2) [OF ok] at] s in auto)
qed

lemma active_earned:
  assumes ok: "checker_ok H c" and cache: "cache_ok H c cache" and d: "H r = Some d"
    and a: "walk H (nat ((nHeight d + 1) mod Period c)) r = Some a"
    and active: "gated H c (nat ((nHeight d + 1) div Period c)) (Some a) = Some THRESHOLD_ACTIVE"
  shows "\<exists>i q e m ce cq. walk H i r = Some q \<and> walk H (nat (Period c)) q = Some e
    \<and> GetStateFor H c (Some e) cache = Some (THRESHOLD_STARTED, ce)
    \<and> GetStateFor H c (Some q) cache = Some (THRESHOLD_LOCKED_IN, cq)
    \<and> Threshold c \<le> int (length (filter (Condition c) (window H (nat (Period c)) q)))
    \<and> GetMedianTimePast H q = Some m \<and> m < EndTime c"
proof -
  define j where "j = nat ((nHeight d + 1) div Period c)"
  have at: "at_period H c j (Some a)" using at_period_start [OF ok, of r "nHeight d"] d a by (simp add: j_def height_of_def)
  have pj: "period_parent H c j a j = Some a" by (simp add: period_parent_def)
  obtain i q where iq: "Suc i < j" "gated H c i (period_parent H c j a i) = Some THRESHOLD_STARTED"
    "period_parent H c j a (Suc i) = Some q" "gated H c (Suc i) (Some q) = Some THRESHOLD_LOCKED_IN"
    "next_state H c THRESHOLD_STARTED q = Some THRESHOLD_LOCKED_IN"
    using active_was_locked_in [OF ok at order.refl] active pj by (auto simp: j_def)
  obtain e where e: "period_parent H c j a i = Some e" using gated_started [OF iq(2)] by auto
  have "walk H (nat (Period c)) q = Some e" using period_parent_step [of i j H c a q] iq(1,3) e by simp
  moreover have "walk H (nat ((nHeight d + 1) mod Period c) + (j - Suc i) * nat (Period c)) r = Some q"
    using iq(3) a by (simp add: walk_add period_parent_def)
  moreover have "at_period H c (Suc i) (Some q)" "at_period H c i (Some e)"
    using period_parent_at [OF ok at, of "Suc i"] period_parent_at [OF ok at, of i] iq(1,3) e by simp_all
  then have "\<exists>cq. GetStateFor H c (Some q) cache = Some (THRESHOLD_LOCKED_IN, cq)"
    "\<exists>ce. GetStateFor H c (Some e) cache = Some (THRESHOLD_STARTED, ce)"
    using gated_answer [OF ok cache] iq(2,4) e by simp_all
  moreover obtain x m where "count_condition H c (nat (Period c)) (Some q) 0 = Some x" "Threshold c \<le> x"
    "GetMedianTimePast H q = Some m" "m < EndTime c" using next_state_lock_in [OF iq(5)] by blast
  moreover from this(1) have "x = int (length (filter (Condition c) (window H (nat (Period c)) q)))"
    using count_condition_window by fastforce
  ultimately show ?thesis by blast
qed

subsection \<open>Properties\<close>

lemma past_times_const:
  assumes "\<And>p b. H p = Some b \<Longrightarrow> GetBlockTime b = x"
  shows "past_times H k y = Some ts \<Longrightarrow> set ts \<subseteq> {x}"
proof (induction k arbitrary: y ts)
  case (Suc k)
  then show ?case using assms by (cases y) (fastforce split: bind_splits)+
qed simp

lemma mtp_mono_const: "mtp_mono (line_heap n (\<lambda>_. t) bits)"
proof -
  define H where "H = line_heap n (\<lambda>_. t) bits"
  have time: "GetBlockTime b = uint t" if "H p = Some b" for p b
    using that by (auto simp: H_def line_heap_def GetBlockTime_def split: if_splits)
  have "m = uint t" if m: "GetMedianTimePast H p = Some m" for p m
  proof -
    obtain ts where ts: "past_times H (Suc 10) (Some p) = Some ts" "m = sort ts ! (length ts div 2)"
      using m by (auto simp: GetMedianTimePast_def nMedianTimeSpan_def Let_def simp del: past_times.simps split: bind_splits)
    have "length ts div 2 < length ts" using past_times_nonempty [OF ts(1)] by simp
    then have "m \<in> set ts" using ts(2) nth_mem [of "length ts div 2" "sort ts"] by simp
    then show ?thesis using past_times_const [of H "uint t", OF _ ts(1)] time by auto
  qed
  then show ?thesis unfolding mtp_mono_def H_def [symmetric] by (metis order.refl)
qed

definition sample_checker :: ConditionChecker where
  "sample_checker = \<lparr>Condition = (\<lambda>b. True), BeginTime = 5, EndTime = 100, Period = 2, Threshold = 2\<rparr>"

lemma sample_ok: "checker_ok (line_heap n (\<lambda>_. 7) bits) sample_checker"
  by (simp add: checker_ok_def wf_line_heap sample_checker_def)

text \<open>
  C35. The cached state computation agrees with a recursion without a cache. On a well-formed tree, from a cache all of
  whose entries are right, \<open>GetStateFor\<close> returns, leaves the cache right, and answers the state that computing every
  period from the genesis block gives, where a period that ends before the start time counts as defined. If median times
  do not decrease along branches (the \<open>time-too-old\<close> rule) and the start time is not after the timeout, this is the
  recursion of BIP9 itself: the shortcut for periods before the start time is sound. Without that order it is not; the
  main network's TESTDUMMY deployment has its timeout before its start time.
\<close>

theorem GetStateFor_correct:
  assumes "checker_ok H c" and "cache_ok H c cache" and "p = None \<or> (\<exists>q b. p = Some q \<and> H q = Some b)"
  shows "\<exists>s cache'. GetStateFor H c p cache = Some (s, cache') \<and> gated_state H c p = Some s \<and> cache_ok H c cache'
    \<and> (mtp_mono H \<and> BeginTime c \<le> EndTime c \<longrightarrow> bip9_state H c p = Some s)"
proof -
  obtain s cache' where s: "GetStateFor H c p cache = Some (s, cache')" "gated_state H c p = Some s" "cache_ok H c cache'"
    by (rule GetStateFor_ok [OF assms])
  have "bip9_state H c p = Some s" if "mtp_mono H" "BeginTime c \<le> EndTime c"
  proof (cases p)
    case (Some q)
    then obtain h where h: "height_of H q = Some h" using assms(3) by (auto simp: height_of_def)
    then show ?thesis
      using gated_bip9 [OF assms(1) that at_period_start [OF assms(1) h]] s(2) Some by (simp add: state_of_def)
  qed (use s(2) in \<open>simp add: state_of_def\<close>)
  with s show ?thesis by blast
qed

theorem GetStateFor_correct_witness:
  "\<exists>s cache'. GetStateFor (line_heap 9 (\<lambda>_. 7) 0) sample_checker (Some 8) Map.empty = Some (s, cache')
    \<and> bip9_state (line_heap 9 (\<lambda>_. 7) 0) sample_checker (Some 8) = Some s"
proof -
  have "cache_ok (line_heap 9 (\<lambda>_. 7) 0) sample_checker Map.empty" by (simp add: cache_ok_def)
  moreover have "\<exists>b. line_heap 9 (\<lambda>_. 7) 0 8 = Some b" by (simp add: line_heap_def)
  moreover have "BeginTime sample_checker \<le> EndTime sample_checker" by (simp add: sample_checker_def)
  ultimately show ?thesis
    using GetStateFor_correct [OF sample_ok [of 9 0], of Map.empty "Some 8"] mtp_mono_const [of 9 7 0] by blast
qed

text \<open>
  A deployment whose timeout lies before its start time: BIP9 has it failed, and the shortcut answers that it is
  still defined.
\<close>

definition inverted_checker :: ConditionChecker where
  "inverted_checker = \<lparr>Condition = (\<lambda>b. True), BeginTime = 10, EndTime = 5, Period = 2, Threshold = 2\<rparr>"

theorem shortcut_hides_timeout:
  "\<exists>cache'. GetStateFor (line_heap 9 (\<lambda>_. 7) 0) inverted_checker (Some 8) Map.empty = Some (THRESHOLD_DEFINED, cache')"
  "bip9_state (line_heap 9 (\<lambda>_. 7) 0) inverted_checker (Some 8) = Some THRESHOLD_FAILED"
proof -
  have ok: "checker_ok (line_heap 9 (\<lambda>_. 7) 0) inverted_checker" by (simp add: checker_ok_def wf_line_heap inverted_checker_def)
  have "gated_state (line_heap 9 (\<lambda>_. 7) 0) inverted_checker (Some 8) = Some THRESHOLD_DEFINED" by code_simp
  moreover have "\<exists>b. line_heap 9 (\<lambda>_. 7) 0 8 = Some b" by (simp add: line_heap_def)
  ultimately show "\<exists>cache'. GetStateFor (line_heap 9 (\<lambda>_. 7) 0) inverted_checker (Some 8) Map.empty = Some (THRESHOLD_DEFINED, cache')"
    by (rule_tac GetStateFor_ok [OF ok, of Map.empty "Some 8"]) (auto simp: cache_ok_def)
  show "bip9_state (line_heap 9 (\<lambda>_. 7) 0) inverted_checker (Some 8) = Some THRESHOLD_FAILED" by code_simp
qed

text \<open>
  C36. Deployments activate only through a lock-in, and active and failed are final. On a well-formed tree with
  non-decreasing median times, if \<open>GetStateFor\<close> answers active or failed for a block, it gives the same answer for every
  descendant, whatever sound caches it is called with. If the answer is active, there is an earlier block of the branch
  for which it answers locked in: the last block of a period, before the timeout, that began as started and in which at
  least \<open>Threshold\<close> of the \<open>Period\<close> blocks meet the condition.
\<close>

theorem activation_is_earned_and_permanent:
  assumes "checker_ok H c" and "mtp_mono H" and "cache_ok H c cache" and "cache_ok H c cache2"
    and "H p = Some b" and "walk H k p = Some r"
    and "GetStateFor H c (Some r) cache = Some (s, cache')" and "s = THRESHOLD_ACTIVE \<or> s = THRESHOLD_FAILED"
  shows "(\<exists>cache''. GetStateFor H c (Some p) cache2 = Some (s, cache'')) \<and>
    (s = THRESHOLD_ACTIVE \<longrightarrow> (\<exists>i q e m ce cq. walk H i r = Some q \<and> walk H (nat (Period c)) q = Some e
      \<and> GetStateFor H c (Some e) cache = Some (THRESHOLD_STARTED, ce)
      \<and> GetStateFor H c (Some q) cache = Some (THRESHOLD_LOCKED_IN, cq)
      \<and> Threshold c \<le> int (length (filter (Condition c) (window H (nat (Period c)) q)))
      \<and> GetMedianTimePast H q = Some m \<and> m < EndTime c))"
proof -
  obtain d where d: "H r = Some d"
    using assms(7) by (auto simp: GetStateFor_def split: bind_splits)
  obtain a' where a': "walk H (nat ((nHeight d + 1) mod Period c)) r = Some a'"
    and s: "gated H c (nat ((nHeight d + 1) div Period c)) (Some a') = Some s"
    by (rule answer_gated [OF assms(1,3) d assms(7)]) (use assms(8) in auto)
  have "gated_state H c (Some p) = Some s"
    by (rule final_state_kept [OF assms(1,2,5,6) d a' s assms(8)])
  then have "\<exists>cache''. GetStateFor H c (Some p) cache2 = Some (s, cache'')"
    by (rule_tac GetStateFor_ok [OF assms(1,4), of "Some p"]) (use assms(5) in auto)
  moreover have "\<exists>i q e m ce cq. walk H i r = Some q \<and> walk H (nat (Period c)) q = Some e
      \<and> GetStateFor H c (Some e) cache = Some (THRESHOLD_STARTED, ce)
      \<and> GetStateFor H c (Some q) cache = Some (THRESHOLD_LOCKED_IN, cq)
      \<and> Threshold c \<le> int (length (filter (Condition c) (window H (nat (Period c)) q)))
      \<and> GetMedianTimePast H q = Some m \<and> m < EndTime c" if "s = THRESHOLD_ACTIVE"
    by (rule active_earned [OF assms(1,3) d a' s [unfolded that]])
  ultimately show ?thesis by blast
qed

theorem activation_is_earned_and_permanent_witness:
  "\<exists>cache''. GetStateFor (line_heap 9 (\<lambda>_. 7) 0) sample_checker (Some 8) Map.empty = Some (THRESHOLD_ACTIVE, cache'')"
proof -
  let ?H = "line_heap 9 (\<lambda>_. 7) 0"
  have cache: "cache_ok ?H sample_checker Map.empty" by (simp add: cache_ok_def)
  obtain b d where b: "?H 8 = Some b" and d: "?H 5 = Some d" by (simp add: line_heap_def)
  have "gated_state ?H sample_checker (Some 5) = Some THRESHOLD_ACTIVE" by code_simp
  then obtain cache' where "GetStateFor ?H sample_checker (Some 5) Map.empty = Some (THRESHOLD_ACTIVE, cache')"
    by (rule_tac GetStateFor_ok [OF sample_ok [of 9 0] cache, of "Some 5"]) (use d in auto)
  moreover have "walk ?H 3 8 = Some 5" by (simp add: walk_line)
  ultimately show ?thesis
    using activation_is_earned_and_permanent [OF sample_ok [of 9 0] mtp_mono_const cache cache b] by blast
qed

text \<open>
  C37. Every deployment is decided. Once the median time at the end of a period has reached both the start time and the
  timeout, \<open>GetStateFor\<close> answers, for every block of the next period, that the deployment is active or has failed; it does
  not stay defined, started or locked in.
\<close>

theorem deployment_decided:
  assumes "checker_ok H c" and "cache_ok H c cache" and "H p = Some b"
    and "walk H (nat ((nHeight b + 1) mod Period c)) p = Some q" and "GetMedianTimePast H q = Some m"
    and "BeginTime c \<le> m" and "EndTime c \<le> m"
  shows "\<exists>s cache'. GetStateFor H c (Some p) cache = Some (s, cache') \<and> (s = THRESHOLD_ACTIVE \<or> s = THRESHOLD_FAILED)"
proof -
  obtain s cache' where s: "GetStateFor H c (Some p) cache = Some (s, cache')" "gated_state H c (Some p) = Some s"
    using GetStateFor_ok [OF assms(1,2), of "Some p"] assms(3) by blast
  have h: "height_of H p = Some (nHeight b)" using assms(3) by (simp add: height_of_def)
  obtain n where "nat ((nHeight b + 1) div Period c) = Suc n"
    using at_period_start [OF assms(1) h] assms(4) by (auto simp: at_period_def gr0_conv_Suc)
  then have "gated H c (Suc n) (Some q) = Some s" using s(2) h assms(4) by (simp add: state_of_def)
  then obtain s0 where "next_state H c s0 q = Some s" using assms(5,6) by (auto split: bind_splits)
  then have "s = THRESHOLD_ACTIVE \<or> s = THRESHOLD_FAILED"
    using assms(5,7) by (cases s0) (auto simp: next_state_def)
  with s(1) show ?thesis by blast
qed

definition expired_checker :: ConditionChecker where
  "expired_checker = \<lparr>Condition = (\<lambda>b. False), BeginTime = 5, EndTime = 6, Period = 2, Threshold = 2\<rparr>"

theorem deployment_decided_witness:
  "\<exists>s cache'. GetStateFor (line_heap 9 (\<lambda>_. 7) 0) expired_checker (Some 8) Map.empty = Some (s, cache') \<and>
    (s = THRESHOLD_ACTIVE \<or> s = THRESHOLD_FAILED)"
proof -
  let ?H = "line_heap 9 (\<lambda>_. 7) 0"
  have ok: "checker_ok ?H expired_checker" by (simp add: checker_ok_def wf_line_heap expired_checker_def)
  obtain b where b: "?H 8 = Some b" "nHeight b = 8" by (simp add: line_heap_def)
  have "walk ?H (nat ((nHeight b + 1) mod Period expired_checker)) 8 = Some 7"
    by (simp add: b(2) expired_checker_def line_heap_def)
  moreover have "GetMedianTimePast ?H 7 = Some 7" by code_simp
  ultimately show ?thesis
    using deployment_decided [OF ok _ b(1)] by (simp add: cache_ok_def expired_checker_def)
qed

text \<open>
  \<open>GetStateSinceHeightFor\<close> returns the height at which the current state began: 0 for a deployment
  still defined, and otherwise the first block of the earliest period from which the state has been
  the same without interruption.
\<close>

theorem GetStateSinceHeightFor_correct:
  assumes ok: "checker_ok H c" and cache: "cache_ok H c cache" and b: "H p = Some b"
  defines "n \<equiv> nat ((nHeight b + 1) div Period c)"
  shows "\<exists>s h cache'. gated_state H c (Some p) = Some s \<and> GetStateSinceHeightFor H c (Some p) cache = Some (h, cache') \<and>
    (if s = THRESHOLD_DEFINED then h = 0
     else \<exists>a k. walk H (nat ((nHeight b + 1) mod Period c)) p = Some a \<and> 1 \<le> k \<and> k \<le> n \<and> h = int k * Period c
       \<and> (\<forall>j. k \<le> j \<longrightarrow> j \<le> n \<longrightarrow> gated H c j (period_parent H c n a j) = Some s)
       \<and> (k = 1 \<or> gated H c (k - 1) (period_parent H c n a (k - 1)) \<noteq> Some s))"
proof -
  note c = checker_okD [OF ok]
  have h: "height_of H p = Some (nHeight b)" using b by (simp add: height_of_def)
  obtain s cache1 where s: "GetStateFor H c (Some p) cache = Some (s, cache1)" "gated_state H c (Some p) = Some s"
    "cache_ok H c cache1"
    using GetStateFor_ok [OF ok cache, of "Some p"] b by auto
  show ?thesis
  proof (cases "s = THRESHOLD_DEFINED")
    case True
    then show ?thesis using s by (simp add: GetStateSinceHeightFor_def)
  next
    case False
    have sn: "gated H c n (walk H (nat ((nHeight b + 1) mod Period c)) p) = Some s"
      using s(2) h by (simp add: state_of_def n_def)
    obtain a where a: "walk H (nat ((nHeight b + 1) mod Period c)) p = Some a"
      using sn False by (cases n; cases "walk H (nat ((nHeight b + 1) mod Period c)) p") auto
    have ap: "at_period H c n (Some a)" using at_period_start [OF ok h] a by (simp add: n_def)
    then obtain d where d: "H a = Some d" "height_of H a = Some (nHeight d)" by (auto simp: at_period_def height_of_def)
    have pp: "period_parent H c n a n = Some a" by (simp add: period_parent_def)
    have "gated H c j (period_parent H c n a j) = Some s" if "n \<le> j" "j \<le> n" for j
      using that sn a pp by simp
    from since_loop_ok [OF ok s(3) ap pp order.refl this]
    obtain k cache' where "since_loop H c s (Some a) (walk H (nat (Period c)) a) cache1 = Some (int k * Period c, cache')"
      and k: "1 \<le> k" "k \<le> n" "\<forall>j. k \<le> j \<longrightarrow> j \<le> n \<longrightarrow> gated H c j (period_parent H c n a j) = Some s"
        "k = 1 \<or> gated H c (k - 1) (period_parent H c n a (k - 1)) \<noteq> Some s" by metis
    then have "GetStateSinceHeightFor H c (Some p) cache = Some (int k * Period c, cache')"
      using s(1) False b d tree.anc_aligned(1) [OF c(1) h c(2)] a tree.anc_period [OF c(1) d(2)] c(2)
      by (simp add: GetStateSinceHeightFor_def)
    then show ?thesis using s(2) False a k by auto
  qed
qed

theorem GetStateSinceHeightFor_correct_witness:
  "\<exists>s h cache'. gated_state (line_heap 9 (\<lambda>_. 7) 0) sample_checker (Some 8) = Some s
    \<and> GetStateSinceHeightFor (line_heap 9 (\<lambda>_. 7) 0) sample_checker (Some 8) Map.empty = Some (h, cache')"
proof -
  have "cache_ok (line_heap 9 (\<lambda>_. 7) 0) sample_checker Map.empty" by (simp add: cache_ok_def)
  moreover obtain b where "line_heap 9 (\<lambda>_. 7) 0 8 = Some b" by (simp add: line_heap_def)
  ultimately show ?thesis
    using GetStateSinceHeightFor_correct [OF sample_ok [of 9 0], of Map.empty 8 b] by blast
qed

end
