(* ===== verification/Byte_Order.thy ===== *)
theory Byte_Order
  imports Prelude
begin

text \<open>
  Reading and writing integers of fixed width in memory, \<^verbatim>\<open>crypto/common.h\<close>. A memory area is a
  list of bytes; a read takes the bytes at its pointer, a write yields the bytes it stores. The conversions
  are those of a little-endian host, where \<^verbatim>\<open>le32toh\<close> and its relatives are the identity and the
  \<^verbatim>\<open>be\<close> variants reverse the bytes.
\<close>

unbundle bit_operations_syntax

subsection \<open>Definitions\<close>

text \<open>The value of a byte sequence, least significant byte first, and the bytes of a value.\<close>

fun from_le :: "bytes \<Rightarrow> 'a::len word" where
  "from_le [] = 0"
| "from_le (b # bs) = ucast b OR push_bit 8 (from_le bs)"

definition to_le :: "nat \<Rightarrow> 'a::len word \<Rightarrow> bytes" where
  "to_le n x = map (\<lambda>i. ucast (drop_bit (8 * i) x)) [0..<n]"

definition ReadLE16 :: "bytes \<Rightarrow> u16" where "ReadLE16 p = from_le (take 2 p)"
definition ReadLE32 :: "bytes \<Rightarrow> u32" where "ReadLE32 p = from_le (take 4 p)"
definition ReadLE64 :: "bytes \<Rightarrow> u64" where "ReadLE64 p = from_le (take 8 p)"
definition WriteLE16 :: "u16 \<Rightarrow> bytes" where "WriteLE16 x = to_le 2 x"
definition WriteLE32 :: "u32 \<Rightarrow> bytes" where "WriteLE32 x = to_le 4 x"
definition WriteLE64 :: "u64 \<Rightarrow> bytes" where "WriteLE64 x = to_le 8 x"
definition ReadBE32 :: "bytes \<Rightarrow> u32" where "ReadBE32 p = from_le (rev (take 4 p))"
definition ReadBE64 :: "bytes \<Rightarrow> u64" where "ReadBE64 p = from_le (rev (take 8 p))"
definition WriteBE32 :: "u32 \<Rightarrow> bytes" where "WriteBE32 x = rev (to_le 4 x)"
definition WriteBE64 :: "u64 \<Rightarrow> bytes" where "WriteBE64 x = rev (to_le 8 x)"

text \<open>\<^verbatim>\<open>memcpy (dst + off, src, n)\<close> on an array.\<close>

definition memcpy :: "'b list \<Rightarrow> nat \<Rightarrow> 'b list \<Rightarrow> 'b list" where
  "memcpy dst off src = take off dst @ src @ drop (off + length src) dst"

subsection \<open>Round trips\<close>

lemma bit_from_le:
  "bit (from_le bs :: 'a::len word) n \<longleftrightarrow> n < LENGTH('a) \<and> n div 8 < length bs \<and> bit (bs ! (n div 8)) (n mod 8)"
proof (induction bs arbitrary: n)
  case (Cons b bs)
  show ?case
  proof (cases "n < 8")
    case False
    then have "n div 8 = Suc ((n - 8) div 8)" "n mod 8 = (n - 8) mod 8"
      by (simp_all add: le_div_geq le_mod_geq)
    moreover have "\<not> bit b n" using False by (auto dest: bit_imp_le_length)
    ultimately show ?thesis using False Cons [of "n - 8"] by (auto simp: bit_simps)
  qed (auto simp: bit_simps)
qed simp

lemma length_to_le [simp]: "length (to_le n x) = n"
  by (simp add: to_le_def)

lemma nth_to_le [simp]: "i < n \<Longrightarrow> to_le n x ! i = ucast (drop_bit (8 * i) x)"
  by (simp add: to_le_def)

lemma from_to_le:
  fixes x :: "'a::len word"
  assumes "LENGTH('a) \<le> 8 * n"
  shows "from_le (to_le n x) = x"
proof (rule bit_word_eqI)
  fix k assume k: "k < LENGTH('a)"
  then have "k div 8 < n" using assms by (simp add: div_less_iff_less_mult)
  moreover have "bit x (8 * (k div 8) + k mod 8) = bit x k" by simp
  ultimately show "bit (from_le (to_le n x) :: 'a word) k = bit x k"
    using k by (simp add: bit_from_le bit_simps)
qed

lemma to_from_le:
  assumes "8 * length bs \<le> LENGTH('a::len)"
  shows "to_le (length bs) (from_le bs :: 'a word) = bs"
proof (rule nth_equalityI)
  fix i assume i: "i < length (to_le (length bs) (from_le bs :: 'a word))"
  show "to_le (length bs) (from_le bs :: 'a word) ! i = bs ! i"
  proof (rule bit_word_eqI)
    fix n assume n: "n < LENGTH(8)"
    with i have "8 * i + n < LENGTH('a)" using assms by simp
    moreover have "(8 * i + n) div 8 = i" "(8 * i + n) mod 8 = n" using n by simp_all
    ultimately show "bit (to_le (length bs) (from_le bs :: 'a word) ! i) n = bit (bs ! i) n"
      using i n by (simp add: bit_simps bit_from_le)
  qed
qed simp

text \<open>Every write is undone by the read of the same width and order, whatever follows in memory.\<close>

lemma Read_Write [simp]:
  "ReadLE16 (WriteLE16 x @ r) = x" "ReadLE32 (WriteLE32 y @ r) = y" "ReadLE64 (WriteLE64 z @ r) = z"
  "ReadBE32 (WriteBE32 y @ r) = y" "ReadBE64 (WriteBE64 z @ r) = z"
  by (simp_all add: ReadLE16_def ReadLE32_def ReadLE64_def ReadBE32_def ReadBE64_def
    WriteLE16_def WriteLE32_def WriteLE64_def WriteBE32_def WriteBE64_def from_to_le)

lemma Write_length [simp]:
  "length (WriteLE16 x) = 2" "length (WriteLE32 y) = 4" "length (WriteLE64 z) = 8"
  "length (WriteBE32 y) = 4" "length (WriteBE64 z) = 8"
  by (simp_all add: WriteLE16_def WriteLE32_def WriteLE64_def WriteBE32_def WriteBE64_def)

lemma Write_Read:
  "2 \<le> length p \<Longrightarrow> WriteLE16 (ReadLE16 p) = take 2 p"
  "4 \<le> length p \<Longrightarrow> WriteLE32 (ReadLE32 p) = take 4 p"
  "8 \<le> length p \<Longrightarrow> WriteLE64 (ReadLE64 p) = take 8 p"
  using to_from_le [of "take 2 p", where ?'a = 16] to_from_le [of "take 4 p", where ?'a = 32]
    to_from_le [of "take 8 p", where ?'a = 64]
  by (simp_all add: WriteLE16_def ReadLE16_def WriteLE32_def ReadLE32_def WriteLE64_def ReadLE64_def)

lemma length_memcpy [simp]: "off + length src \<le> length dst \<Longrightarrow> length (memcpy dst off src) = length dst"
  by (simp add: memcpy_def)

lemma take_memcpy: "off \<le> length dst \<Longrightarrow> take (off + length src) (memcpy dst off src) = take off dst @ src"
  by (simp add: memcpy_def)

end
