(* ===== verification/Script_Num.thy ===== *)
theory Script_Num
  imports Byte_Order
begin

text \<open>
  The numbers of scripts, class \<^verbatim>\<open>CScriptNum\<close> of \<^verbatim>\<open>script/script.h\<close>: little-endian sign and magnitude of
  variable length. The conversions are inverse to each other, and reading with \<^verbatim>\<open>fRequireMinimal\<close> accepts
  exactly what \<open>CScriptNum_serialize\<close> writes.
\<close>

unbundle bit_operations_syntax

subsection \<open>Definitions\<close>

text \<open>
  A \<^verbatim>\<open>CScriptNum\<close> is its value, a 64-bit signed integer; the constructor from bytes, which throws, is an
  option. Bytes are combined in 64 bits: the constructor never sees more than five of them.
\<close>

fun set_vch_loop :: "nat \<Rightarrow> bytes \<Rightarrow> u64 \<Rightarrow> u64" where
  "set_vch_loop i [] result = result"
| "set_vch_loop i (b # vch) result = set_vch_loop (Suc i) vch (result OR push_bit (8 * i) (ucast b))"

definition set_vch :: "bytes \<Rightarrow> int" where
  "set_vch vch =
     (if vch = [] then 0
      else let result = set_vch_loop 0 vch 0
           in if last vch AND 0x80 \<noteq> 0 then - sint (result AND NOT (push_bit (8 * (length vch - 1)) 0x80))
              else sint result)"

definition nDefaultMaxNumSize :: nat where "nDefaultMaxNumSize = 4"

definition CScriptNum :: "bytes \<Rightarrow> bool \<Rightarrow> nat \<Rightarrow> int option" where
  "CScriptNum vch fRequireMinimal nMaxNumSize =
     (if length vch > nMaxNumSize then None
      else if fRequireMinimal \<and> length vch > 0 \<and> last vch AND 0x7f = 0 \<and>
              (length vch \<le> 1 \<or> vch ! (length vch - 2) AND 0x80 = 0) then None
      else Some (set_vch vch))"

definition getint :: "int \<Rightarrow> int" where
  "getint m_value = (if m_value > 2 ^ 31 - 1 then 2 ^ 31 - 1 else if m_value < - (2 ^ 31) then - (2 ^ 31) else m_value)"

function abs_bytes :: "u64 \<Rightarrow> bytes" where
  "abs_bytes absvalue = (if absvalue = 0 then [] else ucast (absvalue AND 0xff) # abs_bytes (drop_bit 8 absvalue))"
  by pat_completeness auto
termination
proof (relation "measure unat")
  fix absvalue :: u64
  assume "absvalue \<noteq> 0"
  then have "unat absvalue div 2 ^ 8 < unat absvalue"
    by (simp add: unat_gt_0)
  then show "(drop_bit 8 absvalue, absvalue) \<in> measure unat"
    unfolding in_measure unat_drop_bit_eq by (simp only: drop_bit_eq_div)
qed simp

declare abs_bytes.simps [simp del]

definition CScriptNum_serialize :: "int \<Rightarrow> bytes" where
  "CScriptNum_serialize value =
     (if value = 0 then []
      else let neg = value < 0;
               result = abs_bytes (of_int (if neg then - value else value))
           in if last result AND 0x80 \<noteq> 0 then result @ [if neg then 0x80 else 0]
              else if neg then butlast result @ [last result OR 0x80]
              else result)"

subsection \<open>Magnitudes\<close>

lemma set_vch_loop_from_le: "set_vch_loop i vch r = r OR push_bit (8 * i) (from_le vch)"
  by (induction i vch r rule: set_vch_loop.induct) (simp_all add: ac_simps push_bit_or)

lemma set_vch_from_le: "set_vch_loop 0 vch 0 = from_le vch"
  by (simp add: set_vch_loop_from_le)

lemma low_byte: "(x :: u64) AND 0xff = take_bit 8 x"
  by (simp add: take_bit_eq_mask mask_eq_exp_minus_1)

lemma from_le_abs_bytes: "from_le (abs_bytes a) = a"
proof (induction a rule: abs_bytes.induct)
  case (1 a)
  show ?case
  proof (cases "a = 0")
    case False
    have "ucast (ucast (a AND 0xff) :: u8) OR push_bit 8 (drop_bit 8 a) = a"
      unfolding low_byte by (intro bit_word_eqI, rename_tac n, case_tac "n < 8") (auto simp: bit_simps)
    with 1 [OF False] False show ?thesis
      by (subst abs_bytes.simps) (simp only: if_False from_le.simps)
  qed (simp add: abs_bytes.simps)
qed

lemma bit_top_byte:
  assumes "vch \<noteq> []" and "length vch \<le> 8" and "k < 8"
  shows "bit (from_le vch :: u64) (8 * (length vch - 1) + k) \<longleftrightarrow> bit (last vch) k"
  using assms by (cases "length vch") (auto simp: bit_from_le last_conv_nth)

lemma byte_bit: "(b :: u8) \<noteq> 0 \<Longrightarrow> \<exists>k<8. bit b k"
  using bit_word_eqI [of b 0] by auto

lemma from_le_nonzero:
  assumes "vch \<noteq> []" and "length vch \<le> 8" and "last vch \<noteq> 0"
  shows "(from_le vch :: u64) \<noteq> 0"
proof
  assume "(from_le vch :: u64) = 0"
  moreover obtain k where "k < 8" "bit (last vch) k" using byte_bit [OF assms(3)] by blast
  ultimately show False using bit_top_byte [OF assms(1,2)] by auto
qed

lemma abs_bytes_from_le:
  assumes "length vch \<le> 8" and "vch \<noteq> [] \<longrightarrow> last vch \<noteq> 0"
  shows "abs_bytes (from_le vch) = vch"
  using assms
proof (induction vch)
  case (Cons b bs)
  have nz: "(from_le (b # bs) :: u64) \<noteq> 0"
    using from_le_nonzero [of "b # bs"] Cons.prems by simp
  have "ucast ((from_le (b # bs) :: u64) AND 0xff) = b"
    unfolding low_byte by (intro bit_word_eqI) (auto simp: bit_simps dest: bit_imp_le_length)
  moreover have "drop_bit 8 (from_le (b # bs) :: u64) = from_le bs"
    using Cons.prems(1) by (intro bit_word_eqI) (auto simp: bit_from_le bit_simps dest: bit_imp_le_length)
  moreover have "abs_bytes (from_le bs) = bs" using Cons by (cases bs) auto
  ultimately show ?case using nz by (subst abs_bytes.simps) (simp only: if_False)
qed (simp add: abs_bytes.simps)

lemma abs_bytes_last: "a \<noteq> 0 \<Longrightarrow> abs_bytes a \<noteq> [] \<and> last (abs_bytes a) \<noteq> 0"
proof (induction a rule: abs_bytes.induct)
  case (1 a)
  show ?case
  proof (cases "drop_bit 8 a = 0")
    case True
    then have one: "abs_bytes a = [ucast (a AND 0xff)]"
      using 1(2) by (subst abs_bytes.simps) (simp add: abs_bytes.simps [of 0])
    with from_le_abs_bytes [of a] have "a = ucast (ucast (a AND 0xff) :: u8)"
      by (simp only: from_le.simps push_bit_of_0 or.right_neutral)
    with 1(2) have "(ucast (a AND 0xff) :: u8) \<noteq> 0"
      by auto
    with one show ?thesis by simp
  next
    case False
    from 1(1) [OF 1(2) False] 1(2) show ?thesis
      by (subst (1 2) abs_bytes.simps) simp
  qed
qed

subsection \<open>Sign and magnitude\<close>

lemma sign_bit: "(b :: u8) AND 0x80 \<noteq> 0 \<longleftrightarrow> bit b 7"
  by (simp add: bit_iff_and_push_bit_not_eq_0)

lemma magnitude_bits: "(b :: u8) AND 0x7f = take_bit 7 b"
  by (simp add: take_bit_eq_mask mask_eq_exp_minus_1)

lemma take_bit_7_eq: "\<not> bit b 7 \<Longrightarrow> take_bit 7 b = (b :: u8)"
proof (rule bit_word_eqI)
  fix n assume "\<not> bit b 7" and "n < LENGTH(8)"
  then show "bit (take_bit 7 b) n = bit b n"
    by (cases "n = 7") (auto simp: bit_simps)
qed

definition magnitude :: "bytes \<Rightarrow> bytes" where
  "magnitude vch = butlast vch @ [take_bit 7 (last vch)]"

lemma magnitude_id: "vch \<noteq> [] \<Longrightarrow> \<not> bit (last vch) 7 \<Longrightarrow> magnitude vch = vch"
  by (simp add: magnitude_def take_bit_7_eq)

lemma length_magnitude [simp]: "vch \<noteq> [] \<Longrightarrow> length (magnitude vch) = length vch"
  by (simp add: magnitude_def)

lemma bit_magnitude:
  assumes "vch \<noteq> []"
  shows "bit (from_le (magnitude vch) :: u64) n \<longleftrightarrow> n \<noteq> 8 * (length vch - 1) + 7 \<and> bit (from_le vch :: u64) n"
proof -
  obtain us u where vch: "vch = us @ [u]" using assms by (cases vch rule: rev_cases) auto
  have "n div 8 = length us \<Longrightarrow> n = 8 * length us + 7 \<longleftrightarrow> n mod 8 = 7"
    by presburger
  moreover have "n = 8 * length us + 7 \<Longrightarrow> n div 8 = length us" by simp
  moreover have "n mod 8 < 8" by simp
  ultimately show ?thesis
    by (auto simp: vch magnitude_def bit_from_le nth_append bit_take_bit_iff less_Suc_eq)
qed

lemma sint_short:
  assumes "length vch \<le> 7"
  shows "sint (from_le vch :: u64) = uint (from_le vch :: u64)"
proof (rule bit_eqI)
  fix n :: nat
  have "\<not> bit (from_le vch :: u64) k" if "k \<ge> 56" for k
    using assms that by (auto simp: bit_from_le)
  then show "bit (sint (from_le vch :: u64)) n = bit (uint (from_le vch :: u64)) n"
    by (auto simp: bit_simps min_def)
qed

lemma set_vch_value:
  assumes "vch \<noteq> []" and "length vch \<le> 7"
  shows "set_vch vch = (if bit (last vch) 7 then - 1 else 1) * uint (from_le (magnitude vch) :: u64)"
proof (cases "bit (last vch) 7")
  case True
  have m: "(0x80 :: u64) = push_bit 7 1" by simp
  have "(from_le vch :: u64) AND NOT (push_bit (8 * (length vch - 1)) 0x80) = from_le (magnitude vch)"
    unfolding m push_bit_push_bit
    by (rule bit_word_eqI) (auto simp: bit_magnitude [OF assms(1)] bit_simps)
  with True assms show ?thesis
    using sint_short [of "magnitude vch"]
    by (simp only: set_vch_def set_vch_from_le sign_bit Let_def if_True if_False length_magnitude) simp
next
  case False
  with assms show ?thesis
    by (simp add: set_vch_def set_vch_from_le sign_bit magnitude_id sint_short)
qed

lemma magnitude_bound:
  assumes "vch \<noteq> []" and "length vch \<le> n" and "n \<le> 7"
  shows "uint (from_le (magnitude vch) :: u64) < 2 ^ (8 * n - 1)"
proof -
  have "k < 8 * n - 1" if "bit (from_le (magnitude vch) :: u64) k" for k
  proof -
    from that have "k \<noteq> 8 * (length vch - 1) + 7" "k div 8 < length vch"
      using bit_magnitude [OF assms(1)] by (auto simp: bit_from_le)
    then have "k < 8 * length vch - 1"
      by presburger
    with assms(2) show ?thesis by simp
  qed
  then have "take_bit (8 * n - 1) (from_le (magnitude vch) :: u64) = from_le (magnitude vch)"
    by (intro bit_word_eqI) (auto simp: bit_simps)
  then have "take_bit (8 * n - 1) (uint (from_le (magnitude vch) :: u64)) = uint (from_le (magnitude vch) :: u64)"
    by (metis unsigned_take_bit_eq)
  then show ?thesis
    by (metis take_bit_int_less_exp)
qed

lemma from_le_snoc_0: "from_le (r @ [0]) = (from_le r :: 'a::len word)"
  by (induction r) simp_all

definition minimal :: "bytes \<Rightarrow> bool" where
  "minimal vch \<longleftrightarrow> take_bit 7 (last vch) \<noteq> 0 \<or> (length vch > 1 \<and> bit (vch ! (length vch - 2)) 7)"

lemma CScriptNum_minimal:
  "CScriptNum vch True n = (if length vch \<le> n \<and> (vch = [] \<or> minimal vch) then Some (set_vch vch) else None)"
  by (auto simp: CScriptNum_def minimal_def magnitude_bits simp flip: sign_bit)

text \<open>What \<open>CScriptNum_serialize\<close> makes of sign and magnitude.\<close>

definition signed_bytes :: "bool \<Rightarrow> bytes \<Rightarrow> bytes" where
  "signed_bytes neg r =
     (if bit (last r) 7 then r @ [if neg then 0x80 else 0]
      else if neg then butlast r @ [last r OR 0x80] else r)"

lemma serialize_signed_bytes:
  "v \<noteq> 0 \<Longrightarrow> CScriptNum_serialize v = signed_bytes (v < 0) (abs_bytes (of_int \<bar>v\<bar>))"
  by (simp add: CScriptNum_serialize_def signed_bytes_def Let_def sign_bit abs_if)

lemma signed_bytes_props:
  assumes "r \<noteq> []" and "last r \<noteq> 0"
  shows "signed_bytes neg r \<noteq> []" and "bit (last (signed_bytes neg r)) 7 = neg"
    and "from_le (magnitude (signed_bytes neg r)) = (from_le r :: u64)" and "minimal (signed_bytes neg r)"
proof -
  have or7: "bit (x OR 0x80) 7" "take_bit 7 (x OR 0x80) = take_bit 7 x" for x :: u8
  proof -
    have "(0x80 :: u8) = push_bit 7 1" by simp
    then show "bit (x OR 0x80) 7" "take_bit 7 (x OR 0x80) = take_bit 7 x"
      by (auto intro!: bit_word_eqI simp only: bit_simps) simp
  qed
  have c7: "bit (0x80 :: u8) 7" "take_bit 7 (0x80 :: u8) = 0"
    using or7 [of 0] by simp_all
  show "signed_bytes neg r \<noteq> []" using assms by (simp add: signed_bytes_def)
  show "bit (last (signed_bytes neg r)) 7 = neg"
    using or7 c7 by (simp add: signed_bytes_def)
  have small: "take_bit 7 (last r) = last r" if "\<not> bit (last r) 7"
    using that by (rule take_bit_7_eq)
  show "from_le (magnitude (signed_bytes neg r)) = (from_le r :: u64)"
    using assms small by (simp add: signed_bytes_def magnitude_def or7 c7 from_le_snoc_0)
  show "minimal (signed_bytes neg r)"
    using assms small by (auto simp: signed_bytes_def minimal_def or7 nth_append last_conv_nth)
qed

lemma signed_bytes_magnitude:
  assumes "vch \<noteq> []" and "length vch \<le> 7" and "minimal vch"
  shows "from_le (magnitude vch) \<noteq> (0 :: u64)"
    and "signed_bytes (bit (last vch) 7) (abs_bytes (from_le (magnitude vch))) = vch"
proof -
  obtain us u where vch: "vch = us @ [u]" using assms(1) by (cases vch rule: rev_cases) auto
  have join: "take_bit 7 u OR (if bit u 7 then 0x80 else 0) = u"
  proof (rule bit_word_eqI)
    fix n assume "n < LENGTH(8)"
    moreover have "(0x80 :: u8) = push_bit 7 1" by simp
    ultimately show "bit (take_bit 7 u OR (if bit u 7 then 0x80 else 0)) n = bit u n"
      by (cases "n = 7") (auto simp only: bit_simps split: if_splits, simp_all)
  qed
  have no7: "\<not> bit (take_bit 7 u) 7" by (simp add: bit_simps)
  have "from_le (magnitude vch) \<noteq> (0 :: u64) \<and>
    signed_bytes (bit (last vch) 7) (abs_bytes (from_le (magnitude vch))) = vch"
  proof (cases "take_bit 7 u = 0")
    case False
    have m: "magnitude (us @ [u]) = us @ [take_bit 7 u]" by (simp add: magnitude_def)
    have "abs_bytes (from_le (magnitude vch)) = magnitude vch"
      using assms(2) False by (intro abs_bytes_from_le) (simp_all add: magnitude_def vch)
    moreover have "from_le (magnitude vch) \<noteq> (0 :: u64)"
      using assms(2) False by (intro from_le_nonzero) (simp_all add: magnitude_def vch)
    ultimately show ?thesis
      using join no7 unfolding vch m by (cases "bit u 7") (simp_all add: signed_bytes_def)
  next
    case True
    have u: "u = (if bit u 7 then 0x80 else 0)" using join True by simp
    have top: "us \<noteq> []" "bit (last us) 7"
      using assms(3) True by (auto simp: minimal_def vch nth_append last_conv_nth)
    then have nz: "last us \<noteq> 0" by auto
    have m: "from_le (magnitude vch) = (from_le us :: u64)"
      by (simp add: magnitude_def vch True from_le_snoc_0)
    have "abs_bytes (from_le us) = us"
      using assms(2) nz by (intro abs_bytes_from_le) (simp_all add: vch)
    moreover have "from_le us \<noteq> (0 :: u64)"
      using assms(2) top(1) nz by (intro from_le_nonzero) (simp_all add: vch)
    ultimately show ?thesis unfolding m using top u by (simp add: signed_bytes_def vch)
  qed
  then show "from_le (magnitude vch) \<noteq> (0 :: u64)"
    and "signed_bytes (bit (last vch) 7) (abs_bytes (from_le (magnitude vch))) = vch" by simp_all
qed

lemma uint_of_int_less: "0 \<le> x \<Longrightarrow> x < 2 ^ 63 \<Longrightarrow> uint (of_int x :: u64) = x"
  by (simp add: uint_word_of_int_eq take_bit_int_eq_self)

lemma serialize_length:
  assumes "v \<noteq> 0" and "\<bar>v\<bar> < 2 ^ (8 * n - 1)" and "n \<le> 7"
  shows "length (CScriptNum_serialize v) \<le> n"
proof -
  define a :: u64 where "a = of_int \<bar>v\<bar>"
  define r where "r = abs_bytes a"
  have "(2 :: int) ^ (8 * n - 1) \<le> 2 ^ 63" using assms(3) by (intro power_increasing) auto
  with assms have ua: "uint a = \<bar>v\<bar>" unfolding a_def by (intro uint_of_int_less) auto
  then have "a \<noteq> 0" using assms(1) by auto
  then have r: "r \<noteq> []" "last r \<noteq> 0" using abs_bytes_last by (auto simp: r_def)
  have low: "k < 8 * n - 1" if "bit a k" for k
  proof -
    have "take_bit (8 * n - 1) (uint a) = uint a" using assms(2) ua by (simp add: take_bit_int_eq_self)
    moreover have "bit (uint a) k" using that by (auto simp: bit_uint_iff dest: bit_imp_le_length)
    ultimately show ?thesis by (metis bit_take_bit_iff)
  qed
  have a: "a = from_le r" by (simp add: r_def from_le_abs_bytes)
  have len: "length r \<le> 8"
  proof -
    have "length (abs_bytes x) \<le> k" if "drop_bit (8 * k) x = 0" for k x
      using that
    proof (induction k arbitrary: x)
      case (Suc k)
      then have "drop_bit (8 * k) (drop_bit 8 x) = 0" by (simp add: ac_simps)
      from Suc.IH [OF this] show ?case by (subst abs_bytes.simps) simp
    qed (simp add: abs_bytes.simps)
    from this [of 8 a] show ?thesis by (simp add: r_def)
  qed
  obtain k where k: "k < 8" "bit (last r) k" using byte_bit [OF r(2)] by blast
  with bit_top_byte [OF r(1) len] have b: "8 * (length r - 1) + k < 8 * n - 1" by (intro low) (simp add: a)
  have "bit (last r) 7 \<Longrightarrow> 8 * (length r - 1) + 7 < 8 * n - 1"
    using bit_top_byte [OF r(1) len, of 7] by (intro low) (simp add: a)
  with b r(1) show ?thesis
    unfolding serialize_signed_bytes [OF assms(1)] signed_bytes_def a_def [symmetric] r_def [symmetric]
    by (cases r) auto
qed

lemma CScriptNum_canonical:
  assumes "0 < n" and "n \<le> 7"
  shows "CScriptNum vch True n = Some v \<longleftrightarrow> \<bar>v\<bar> < 2 ^ (8 * n - 1) \<and> vch = CScriptNum_serialize v"
proof (cases "v = 0")
  case True
  have "set_vch vch \<noteq> 0" if "vch \<noteq> []" "length vch \<le> n" "minimal vch"
    using set_vch_value [of vch] signed_bytes_magnitude(1) [of vch] that assms by (simp add: uint_0_iff)
  with True show ?thesis
    by (auto simp: CScriptNum_minimal CScriptNum_serialize_def set_vch_def split: if_splits)
next
  case False
  show ?thesis
  proof
    assume l: "CScriptNum vch True n = Some v"
    with False have vch: "vch \<noteq> []" "length vch \<le> n" "minimal vch" "v = set_vch vch"
      by (auto simp: CScriptNum_minimal set_vch_def split: if_splits)
    note m = signed_bytes_magnitude [OF vch(1) _ vch(3)]
    have v: "v = (if bit (last vch) 7 then - 1 else 1) * uint (from_le (magnitude vch) :: u64)"
      using set_vch_value [of vch] vch assms by simp
    then have "\<bar>v\<bar> = uint (from_le (magnitude vch) :: u64)" by (simp add: abs_mult)
    moreover have "v < 0 \<longleftrightarrow> bit (last vch) 7"
      using v False unsigned_greater_eq [of "from_le (magnitude vch) :: u64", where ?'a = int] by (auto simp: less_le)
    ultimately show "\<bar>v\<bar> < 2 ^ (8 * n - 1) \<and> vch = CScriptNum_serialize v"
      using magnitude_bound [OF vch(1,2)] m vch assms False
      by (simp add: serialize_signed_bytes)
  next
    assume r: "\<bar>v\<bar> < 2 ^ (8 * n - 1) \<and> vch = CScriptNum_serialize v"
    define a :: u64 where "a = of_int \<bar>v\<bar>"
    have "(2 :: int) ^ (8 * n - 1) \<le> 2 ^ 63" using assms by (intro power_increasing) auto
    with r have ua: "uint a = \<bar>v\<bar>" unfolding a_def by (intro uint_of_int_less) auto
    with False have "a \<noteq> 0" by auto
    note s = signed_bytes_props [of "abs_bytes a" "v < 0"]
    have vch: "vch = signed_bytes (v < 0) (abs_bytes a)" using r False by (simp add: serialize_signed_bytes a_def)
    have "length vch \<le> n" using serialize_length [OF False] r assms by simp
    then show "CScriptNum vch True n = Some v"
      using s abs_bytes_last [OF \<open>a \<noteq> 0\<close>] set_vch_value [of vch] assms ua
      by (simp add: CScriptNum_minimal vch from_le_abs_bytes)
  qed
qed

section \<open>Properties\<close>

text \<open>
  C19. Script numbers have one encoding: with \<^verbatim>\<open>fRequireMinimal\<close>, the default four bytes and the five bytes
  of lock times are read as \<open>v\<close> exactly if they are the bytes \<open>serialize\<close> writes for \<open>v\<close> and \<open>v\<close> is in the
  signed range of that size.
\<close>

theorem script_number_canonical:
  "(CScriptNum vch True nDefaultMaxNumSize = Some v \<longleftrightarrow> \<bar>v\<bar> < 2 ^ 31 \<and> vch = CScriptNum_serialize v) \<and>
   (CScriptNum vch True 5 = Some v \<longleftrightarrow> \<bar>v\<bar> < 2 ^ 39 \<and> vch = CScriptNum_serialize v)"
  using CScriptNum_canonical [of 4 vch v] CScriptNum_canonical [of 5 vch v]
  by (simp add: nDefaultMaxNumSize_def)

end
