(* ===== verification/Hash_Block.thy ===== *)
theory Hash_Block
  imports Byte_Order
begin

text \<open>
  The streaming part the hash classes of \<^verbatim>\<open>crypto/\<close> share: \<^verbatim>\<open>CSHA256\<close>, \<^verbatim>\<open>CSHA1\<close>,
  \<^verbatim>\<open>CRIPEMD160\<close> and \<^verbatim>\<open>CSHA512\<close> have the same \<open>Write\<close> and the same padding, up to the compression
  function \<open>T\<close>, the block size \<open>B\<close> and the length field. The definitions take these as arguments; the
  locale \<open>block_hash\<close> shows once that any sequence of writes followed by the padding computes the
  compression function over the blocks of the padded message. \<^verbatim>\<open>buf\<close> is not initialised by the
  constructors, so its first contents are an argument of them.
\<close>

subsection \<open>Definitions\<close>

record 's hasher =
  hs :: 's
  buf :: bytes
  nbytes :: u64

text \<open>The loop over full chunks, reading directly from the source.\<close>

function chunk_loop :: "('s \<Rightarrow> bytes \<Rightarrow> 's) \<Rightarrow> nat \<Rightarrow> 's hasher \<Rightarrow> bytes \<Rightarrow> 's hasher \<times> bytes" where
  "chunk_loop T B h data =
     (if 0 < B \<and> B \<le> length data
      then chunk_loop T B (h\<lparr>hs := T (hs h) (take B data), nbytes := nbytes h + of_nat B\<rparr>) (drop B data)
      else (h, data))"
  by pat_completeness auto
termination by (relation "measure (\<lambda>(T, B, h, data). length data)") auto

declare chunk_loop.simps [simp del]

definition hash_Write :: "('s \<Rightarrow> bytes \<Rightarrow> 's) \<Rightarrow> nat \<Rightarrow> 's hasher \<Rightarrow> bytes \<Rightarrow> 's hasher" where
  "hash_Write T B h data =
     (let bufsize = unat (nbytes h) mod B;
          (h, data, bufsize) =
            (if bufsize \<noteq> 0 \<and> B \<le> bufsize + length data
             then (let buf' = memcpy (buf h) bufsize (take (B - bufsize) data)
                   in (h\<lparr>hs := T (hs h) buf', buf := buf', nbytes := nbytes h + of_nat (B - bufsize)\<rparr>,
                       drop (B - bufsize) data, 0))
             else (h, data, bufsize));
          (h, data) = chunk_loop T B h data
      in if 0 < length data
         then h\<lparr>buf := memcpy (buf h) bufsize data, nbytes := nbytes h + of_nat (length data)\<rparr>
         else h)"

text \<open>The padding of \<open>Finalize\<close>: \<open>P\<close> is 119 for 64-byte blocks and 239 for 128-byte blocks.\<close>

definition hash_pad :: "('s \<Rightarrow> bytes \<Rightarrow> 's) \<Rightarrow> nat \<Rightarrow> nat \<Rightarrow> (u64 \<Rightarrow> bytes) \<Rightarrow> 's hasher \<Rightarrow> 's hasher" where
  "hash_pad T B P sizedesc h =
     hash_Write T B
       (hash_Write T B h (take (1 + (P - unat (nbytes h) mod B) mod B) (0x80 # replicate (B - 1) 0)))
       (sizedesc (push_bit 3 (nbytes h)))"

subsection \<open>Reference: the compression function over a message\<close>

function absorb :: "('s \<Rightarrow> bytes \<Rightarrow> 's) \<Rightarrow> nat \<Rightarrow> 's \<Rightarrow> bytes \<Rightarrow> 's" where
  "absorb T B s m = (if 0 < B \<and> B \<le> length m then absorb T B (T s (take B m)) (drop B m) else s)"
  by pat_completeness auto
termination by (relation "measure (\<lambda>(T, B, s, m). length m)") auto

declare absorb.simps [simp del]

definition padded :: "nat \<Rightarrow> nat \<Rightarrow> (u64 \<Rightarrow> bytes) \<Rightarrow> bytes \<Rightarrow> bytes" where
  "padded B P sizedesc m =
     m @ 0x80 # replicate ((P - length m mod B) mod B) 0 @ sizedesc (of_nat (8 * length m))"

definition hash_inv :: "('s \<Rightarrow> bytes \<Rightarrow> 's) \<Rightarrow> nat \<Rightarrow> 's \<Rightarrow> 's hasher \<Rightarrow> bytes \<Rightarrow> bool" where
  "hash_inv T B i h m \<longleftrightarrow>
     length (buf h) = B \<and> nbytes h = of_nat (length m) \<and> hs h = absorb T B i m \<and>
     take (length m mod B) (buf h) = drop (length m - length m mod B) m"

lemma absorb_short: "length m < B \<Longrightarrow> absorb T B s m = s"
  by (subst absorb.simps) simp

lemma absorb_block: "0 < B \<Longrightarrow> length b = B \<Longrightarrow> absorb T B s (b @ m) = absorb T B (T s b) m"
  by (subst absorb.simps) simp

lemma absorb_append:
  assumes "length a = k * B" and "0 < B"
  shows "absorb T B s (a @ m) = absorb T B (absorb T B s a) m"
  using assms
proof (induction k arbitrary: a s)
  case (Suc k)
  from Suc.prems have t: "length (take B a) = B" by simp
  have "absorb T B s (a @ m) = absorb T B (T s (take B a)) (drop B a @ m)"
    using absorb_block [OF Suc.prems(2) t, of T s "drop B a @ m"] by (simp flip: append_assoc)
  also have "\<dots> = absorb T B (absorb T B (T s (take B a)) (drop B a)) m"
    using Suc.prems by (intro Suc.IH) simp_all
  also have "absorb T B (T s (take B a)) (drop B a) = absorb T B s a"
    using absorb_block [OF Suc.prems(2) t, of T s "drop B a"] by simp
  finally show ?case .
qed (simp add: absorb_short)

lemma chunk_loop_absorb:
  assumes "0 < B"
  shows "chunk_loop T B h data =
    (h\<lparr>hs := absorb T B (hs h) data, nbytes := nbytes h + of_nat (length data - length data mod B)\<rparr>,
     drop (length data - length data mod B) data)"
proof (induction T B h data rule: chunk_loop.induct)
  case (1 T B h data)
  show ?case
  proof (cases "0 < B \<and> B \<le> length data")
    case True
    let ?n = "length data - B"
    have m: "length data mod B = ?n mod B" using True by (simp add: le_mod_geq)
    have le: "?n mod B \<le> ?n" by simp
    have a: "B + (?n - ?n mod B) = length data - ?n mod B" using True le by linarith
    then have w: "(of_nat B :: u64) + of_nat (?n - ?n mod B) = of_nat (length data - ?n mod B)"
      by (metis of_nat_add)
    show ?thesis
      using True 1 a w by (subst chunk_loop.simps, subst absorb.simps) (simp add: m add.assoc add.commute)
  next
    case False
    then have "length data mod B = length data" using 1 by (cases "B = 0") simp_all
    then show ?thesis using False by (auto simp: chunk_loop.simps [of T B h] absorb.simps [of T B "hs h"])
  qed
qed

lemma le_diff_mod: "n \<le> n - n mod B \<longleftrightarrow> n mod B = (0 :: nat)"
  using mod_less_eq_dividend [of n B] by linarith

subsection \<open>Streaming is hashing the concatenation\<close>

locale block_hash =
  fixes T :: "'s \<Rightarrow> bytes \<Rightarrow> 's" and B :: nat and P :: nat and L :: nat
  assumes B_pos: "0 < B" and B_dvd: "B dvd 2 ^ 64" and P_val: "P + 1 + L = 2 * B" and L_le: "L < B"
begin

lemma size_mod: "unat (of_nat n :: u64) mod B = n mod B"
  using B_dvd by (simp add: unat_of_nat mod_mod_cancel)

lemma Write_chunks:
  fixes t data :: bytes and h :: "'s hasher" and k :: nat
  assumes "length t = k" and "k < B"
  defines "n \<equiv> k + length data" and "h' \<equiv> hash_Write T B h data"
  assumes "unat (nbytes h) mod B = k" and "length (buf h) = B" and "take k (buf h) = t"
  shows "hs h' = absorb T B (hs h) (t @ data) \<and> nbytes h' = nbytes h + of_nat (length data) \<and>
    length (buf h') = B \<and> take (n mod B) (buf h') = drop (n - n mod B) (t @ data)"
proof (cases "k \<noteq> 0 \<and> B \<le> n")
  case True
  define b where "b = memcpy (buf h) k (take (B - k) data)"
  define d where "d = drop (B - k) data"
  have b: "b = t @ take (B - k) data" using True assms by (simp add: b_def memcpy_def min_def)
  have lb: "length b = B" using b True assms(1,2) n_def by auto
  have td: "t @ data = b @ d" by (simp add: b d_def)
  have n: "n = B + length d" using True assms by (simp add: d_def)
  have drp: "drop (n - n mod B) (t @ data) = drop (length d - length d mod B) d"
  proof -
    have "n - n mod B = B + (length d - length d mod B)" by (simp add: n mod_less_eq_dividend)
    moreover have "drop (B + j) (b @ d) = drop j d" for j by (simp add: lb)
    ultimately show ?thesis by (simp only: td)
  qed
  have sz: "of_nat (B - k) + (of_nat (length d - length d mod B) + of_nat (length d mod B)) = (of_nat (length data) :: u64)"
  proof -
    have "B - k + (length d - length d mod B + length d mod B) = length data" using n assms by simp
    then show ?thesis by (metis of_nat_add)
  qed
  have sz0: "of_nat (B - k) + of_nat (length d - length d mod B) = (of_nat (length data) :: u64)" if "length d mod B = 0"
    using sz that by simp
  have ab: "absorb T B (hs h) (t @ data) = absorb T B (T (hs h) b) d"
    by (simp add: td absorb_block B_pos lb)
  have lt: "length d mod B < B" using B_pos by simp
  have unf: "h' = (let q = length d mod B; g = h\<lparr>hs := absorb T B (T (hs h) b) d, buf := b,
        nbytes := nbytes h + (of_nat (B - k) + of_nat (length d - q))\<rparr> in
      if 0 < q then g\<lparr>buf := memcpy b 0 (drop (length d - q) d), nbytes := nbytes g + of_nat q\<rparr> else g)"
    using True assms(5) unfolding h'_def hash_Write_def n_def
    by (simp add: Let_def chunk_loop_absorb B_pos add.assoc le_diff_mod flip: b_def d_def)
  show ?thesis
    unfolding unf drp ab using lt sz sz0 lb
    by (cases "length d mod B = 0")
      (simp_all add: Let_def n memcpy_def add.assoc min_def mod_less_eq_dividend)
next
  case False
  define q where "q = length data mod B"
  have unf: "h' = (let g = h\<lparr>hs := absorb T B (hs h) data, nbytes := nbytes h + of_nat (length data - q)\<rparr> in
      if 0 < q then g\<lparr>buf := memcpy (buf h) k (drop (length data - q) data), nbytes := nbytes g + of_nat q\<rparr> else g)"
    using False assms(5) unfolding h'_def hash_Write_def n_def q_def
    by (auto simp: Let_def chunk_loop_absorb B_pos le_diff_mod)
  have sz: "of_nat (length data - q) + of_nat q = (of_nat (length data) :: u64)"
    by (metis le_add_diff_inverse2 mod_less_eq_dividend of_nat_add q_def)
  have q: "q < B" "q \<le> length data" using B_pos by (simp_all add: q_def)
  show ?thesis
  proof (cases "k = 0")
    case True
    then show ?thesis unfolding unf using assms q sz
      by (cases "q = 0") (simp_all add: Let_def n_def memcpy_def min_def mod_less_eq_dividend add.assoc flip: q_def)
  next
    case k: False
    with False have n: "n < B" by simp
    then have "q = length data" by (simp add: q_def n_def)
    then show ?thesis unfolding unf using assms(1,2,6,7) n
      by (cases "q = 0") (simp_all add: Let_def n_def memcpy_def absorb_short)
  qed
qed

lemma Write_inv:
  assumes inv: "hash_inv T B i h m"
  shows "hash_inv T B i (hash_Write T B h data) (m @ data)"
proof -
  define k where "k = length m mod B"
  define m0 where "m0 = take (length m - k) m"
  define t where "t = drop (length m - k) m"
  have k: "k < B" "unat (nbytes h) mod B = k" "k \<le> length m"
    using inv B_pos by (simp_all add: hash_inv_def k_def size_mod)
  have t: "length t = k" "take k (buf h) = t" and m: "m = m0 @ t"
    using inv k by (simp_all add: hash_inv_def t_def m0_def k_def)
  have m0: "length m0 = (length m div B) * B"
    using k by (simp add: m0_def k_def minus_mod_eq_div_mult)
  have hsm: "hs h = absorb T B i m0"
    using inv k(1) t(1) absorb_append [OF m0 B_pos, of T i t] m by (simp add: hash_inv_def absorb_short)
  have total: "absorb T B i (m @ data) = absorb T B (hs h) (t @ data)"
    using absorb_append [OF m0 B_pos, of T i "t @ data"] m hsm by simp
  have len: "length (m @ data) mod B = (k + length data) mod B"
    by (simp add: k_def mod_simps)
  have "length (m @ data) - (k + length data) mod B = length m0 + (k + length data - (k + length data) mod B)"
    using m t(1) by (simp add: mod_less_eq_dividend)
  moreover have "length m0 \<le> length m0 + (k + length data) - (k + length data) mod B"
    by (metis Nat.le_diff_conv2 add.commute le_add1 mod_less_eq_dividend nat_add_left_cancel_le trans_le_add2)
  ultimately have rest: "drop (length (m @ data) - (k + length data) mod B) (m @ data) = drop (k + length data - (k + length data) mod B) (t @ data)"
    using m by (simp add: mod_less_eq_dividend)
  show ?thesis
    using Write_chunks [OF t(1) k(1,2) _ t(2), of data] inv
    unfolding hash_inv_def total len rest by simp
qed

lemma Write_empty: "length b = B \<Longrightarrow> hash_inv T B i \<lparr>hs = i, buf = b, nbytes = 0\<rparr> []"
  by (simp add: hash_inv_def absorb_short B_pos)

lemma pad_inv:
  assumes inv: "hash_inv T B i h m" and L: "\<And>x. length (sizedesc x) = L"
  shows "hs (hash_pad T B P sizedesc h) = absorb T B i (padded B P sizedesc m) \<and>
    length (buf (hash_pad T B P sizedesc h)) = B \<and> B dvd length (padded B P sizedesc m)"
proof -
  define k where "k = length m mod B"
  have k: "unat (nbytes h) mod B = k" "k < B" using inv B_pos by (simp_all add: hash_inv_def k_def size_mod)
  have "take (1 + (P - k) mod B) (0x80 # replicate (B - 1) 0) = 0x80 # replicate ((P - k) mod B) (0 :: u8)"
    using B_pos mod_less_divisor [OF B_pos, of "P - k"] by (simp add: min_def)
  moreover have "push_bit 3 (nbytes h) = of_nat (8 * length m)"
    using inv by (simp add: hash_inv_def push_bit_eq_mult)
  ultimately have "hash_inv T B i (hash_pad T B P sizedesc h) (padded B P sizedesc m)"
    using Write_inv [OF Write_inv [OF inv], of "0x80 # replicate ((P - k) mod B) 0" "sizedesc (of_nat (8 * length m))"]
    by (simp add: hash_pad_def padded_def k(1) k_def [symmetric])
  moreover have "B dvd length (padded B P sizedesc m)"
  proof -
    have "(length m + 1 + (P - k) mod B + L) mod B = (k + 1 + (P - k) + L) mod B"
      using mod_add_right_eq [of "length m + 1 + L" "P - k" B] mod_add_left_eq [of "length m" B "1 + (P - k) + L"]
      by (simp add: k_def ac_simps)
    also have "k + 1 + (P - k) + L = 2 * B" using P_val k(2) L_le by linarith
    finally show ?thesis by (simp add: padded_def L k_def [symmetric] mod_eq_0_iff_dvd ac_simps)
  qed
  ultimately show ?thesis by (simp add: hash_inv_def)
qed

lemma Writes_inv:
  "hash_inv T B i h m \<Longrightarrow> hash_inv T B i (fold (\<lambda>d h. hash_Write T B h d) ds h) (m @ concat ds)"
proof (induction ds arbitrary: h m)
  case (Cons d ds)
  from Cons.IH [OF Write_inv [OF Cons.prems, of d]] show ?case by simp
qed simp

text \<open>The digest depends on the bytes written only, not on how they were split or on the memory \<open>b\<close>.\<close>

lemma digest:
  fixes sizedesc :: "u64 \<Rightarrow> bytes" and ds :: "bytes list" and i :: 's and b :: bytes
  assumes "length b = B" and "\<And>x. length (sizedesc x) = L"
  defines "h \<equiv> hash_pad T B P sizedesc (fold (\<lambda>d h. hash_Write T B h d) ds \<lparr>hs = i, buf = b, nbytes = 0\<rparr>)"
  shows "hs h = absorb T B i (padded B P sizedesc (concat ds)) \<and> length (buf h) = B"
proof -
  have "hash_inv T B i (fold (\<lambda>d h. hash_Write T B h d) ds \<lparr>hs = i, buf = b, nbytes = 0\<rparr>) ([] @ concat ds)"
    by (rule Writes_inv [OF Write_empty [OF assms(1)]])
  then show ?thesis using pad_inv [OF _ assms(2)] by (simp add: h_def)
qed

end

end
