(* ===== verification/Hash_Rounds.thy ===== *)
theory Hash_Rounds
  imports Hash_Block
begin

text \<open>
  What the compression functions of SHA-1, SHA-256 and SHA-512 have in common: a chain of rounds over
  working variables \<open>'v\<close>, each with a constant \<open>'k\<close> and a message word \<open>'a\<close>, and a message schedule that is
  sixteen words of input followed by words computed from the sixteen before. The sources unroll the rounds
  and keep only a window of sixteen words; \<open>run_load\<close> and \<open>run_mix\<close> have the shape of the unrolled code, and
  the lemmas relate them to the plain recursions \<open>rounds\<close> and \<open>schedule\<close>.
\<close>

unbundle bit_operations_syntax

subsection \<open>Rounds and schedule\<close>

fun rounds :: "('v \<Rightarrow> 'k \<Rightarrow> 'a \<Rightarrow> 'v) \<Rightarrow> ('k \<times> 'a) list \<Rightarrow> 'v \<Rightarrow> 'v" where
  "rounds st [] v = v"
| "rounds st ((k, w) # kws) v = rounds st kws (st v k w)"

fun schedule :: "('a list \<Rightarrow> 'a) \<Rightarrow> nat \<Rightarrow> 'a list \<Rightarrow> 'a list" where
  "schedule g 0 ws = ws"
| "schedule g (Suc n) ws = schedule g n (ws @ [g (drop (length ws - 16) ws)])"

text \<open>
  Unrolled code: \<open>S v k w \<kappa>\<close> performs a round and continues with \<open>\<kappa>\<close>; \<open>K\<close> makes the result from the
  variables and the window.
\<close>

fun run_load :: "('v \<Rightarrow> 'k \<Rightarrow> 'a \<Rightarrow> ('v \<Rightarrow> 'r) \<Rightarrow> 'r) \<Rightarrow> ('v \<Rightarrow> 'a list \<Rightarrow> 'r) \<Rightarrow> ('k \<times> 'a) list \<Rightarrow> 'v \<Rightarrow> 'a list \<Rightarrow> 'r" where
  "run_load S K [] v ws = K v ws"
| "run_load S K ((k, x) # kxs) v ws = (let w = x in S v k w (\<lambda>v'. run_load S K kxs v' (ws @ [w])))"

fun run_mix :: "('v \<Rightarrow> 'k \<Rightarrow> 'a \<Rightarrow> ('v \<Rightarrow> 'r) \<Rightarrow> 'r) \<Rightarrow> ('a list \<Rightarrow> 'a) \<Rightarrow> ('v \<Rightarrow> 'a list \<Rightarrow> 'r) \<Rightarrow> 'k list \<Rightarrow> 'v \<Rightarrow> 'a list \<Rightarrow> 'r" where
  "run_mix S g K [] v ws = K v ws"
| "run_mix S g K (k # ks) v ws = (let w = g ws in S v k w (\<lambda>v'. run_mix S g K ks v' (tl ws @ [w])))"

definition window :: "'a list \<Rightarrow> 'a \<times> 'a \<times> 'a \<times> 'a \<times> 'a \<times> 'a \<times> 'a \<times> 'a \<times> 'a \<times> 'a \<times> 'a \<times> 'a \<times> 'a \<times> 'a \<times> 'a \<times> 'a" where
  "window ws = (ws ! 0, ws ! 1, ws ! 2, ws ! 3, ws ! 4, ws ! 5, ws ! 6, ws ! 7, ws ! 8, ws ! 9,
     ws ! 10, ws ! 11, ws ! 12, ws ! 13, ws ! 14, ws ! 15)"

lemma sixteen_nth:
  "[x0, x1, x2, x3, x4, x5, x6, x7, x8, x9, x10, x11, x12, x13, x14, x15] ! 0 = x0"
  "[x0, x1, x2, x3, x4, x5, x6, x7, x8, x9, x10, x11, x12, x13, x14, x15] ! 1 = x1"
  "[x0, x1, x2, x3, x4, x5, x6, x7, x8, x9, x10, x11, x12, x13, x14, x15] ! 2 = x2"
  "[x0, x1, x2, x3, x4, x5, x6, x7, x8, x9, x10, x11, x12, x13, x14, x15] ! 3 = x3"
  "[x0, x1, x2, x3, x4, x5, x6, x7, x8, x9, x10, x11, x12, x13, x14, x15] ! 4 = x4"
  "[x0, x1, x2, x3, x4, x5, x6, x7, x8, x9, x10, x11, x12, x13, x14, x15] ! 5 = x5"
  "[x0, x1, x2, x3, x4, x5, x6, x7, x8, x9, x10, x11, x12, x13, x14, x15] ! 6 = x6"
  "[x0, x1, x2, x3, x4, x5, x6, x7, x8, x9, x10, x11, x12, x13, x14, x15] ! 7 = x7"
  "[x0, x1, x2, x3, x4, x5, x6, x7, x8, x9, x10, x11, x12, x13, x14, x15] ! 8 = x8"
  "[x0, x1, x2, x3, x4, x5, x6, x7, x8, x9, x10, x11, x12, x13, x14, x15] ! 9 = x9"
  "[x0, x1, x2, x3, x4, x5, x6, x7, x8, x9, x10, x11, x12, x13, x14, x15] ! 10 = x10"
  "[x0, x1, x2, x3, x4, x5, x6, x7, x8, x9, x10, x11, x12, x13, x14, x15] ! 11 = x11"
  "[x0, x1, x2, x3, x4, x5, x6, x7, x8, x9, x10, x11, x12, x13, x14, x15] ! 12 = x12"
  "[x0, x1, x2, x3, x4, x5, x6, x7, x8, x9, x10, x11, x12, x13, x14, x15] ! 13 = x13"
  "[x0, x1, x2, x3, x4, x5, x6, x7, x8, x9, x10, x11, x12, x13, x14, x15] ! 14 = x14"
  "[x0, x1, x2, x3, x4, x5, x6, x7, x8, x9, x10, x11, x12, x13, x14, x15] ! 15 = x15"
  by simp_all

lemmas unroll_rounds = prod.case run_mix.simps run_load.simps window_def sixteen_nth append.simps list.sel
  zip_Cons_Cons zip_Nil

lemma sixteen_list: "length ws = 16 \<Longrightarrow> [ws ! 0, ws ! 1, ws ! 2, ws ! 3, ws ! 4, ws ! 5, ws ! 6, ws ! 7, ws ! 8, ws ! 9, ws ! 10, ws ! 11, ws ! 12, ws ! 13, ws ! 14, ws ! 15] = ws"
  by (rule nth_equalityI) (auto simp: less_Suc_eq numeral_eq_Suc)

subsection \<open>The schedule\<close>

lemma schedule_length [simp]: "length (schedule g n ws) = n + length ws"
  by (induction g n ws rule: schedule.induct) simp_all

lemma schedule_prefix: "take (length ws) (schedule g n ws) = ws"
proof (induction n arbitrary: ws)
  case (Suc n)
  let ?y = "g (drop (length ws - 16) ws)"
  from Suc [of "ws @ [?y]"] have "take (length ws) (take (Suc (length ws)) (schedule g n (ws @ [?y]))) = ws"
    by simp
  then show ?case by (simp add: min_def)
qed simp

lemma schedule_add: "schedule g (m + n) ws = schedule g n (schedule g m ws)"
  by (induction g m ws rule: schedule.induct) simp_all

lemma schedule_shift: "16 \<le> length ws \<Longrightarrow> schedule g n (ys @ ws) = ys @ schedule g n ws"
proof (induction n arbitrary: ws)
  case (Suc n)
  then have "drop (length ys + length ws - 16) (ys @ ws) = drop (length ws - 16) ws" by simp
  with Suc show ?case by simp
qed simp

subsection \<open>Unrolled rounds are rounds\<close>

lemma rounds_append: "rounds st (xs @ ys) v = rounds st ys (rounds st xs v)"
  by (induction st xs v rule: rounds.induct) simp_all

lemma run_load_rounds:
  assumes "\<And>v k w \<kappa>. S v k w \<kappa> = \<kappa> (st v k w)"
  shows "run_load S K kxs v ws = K (rounds st kxs v) (ws @ map snd kxs)"
  by (induction kxs arbitrary: v ws) (auto simp: Let_def assms)

lemma run_mix_rounds:
  assumes "\<And>v k w \<kappa>. S v k w \<kappa> = \<kappa> (st v k w)" and "length ws = 16"
  shows "run_mix S g K ks v ws = K (rounds st (zip ks (drop 16 (schedule g (length ks) ws))) v) (drop (length ks) (schedule g (length ks) ws))"
  using assms(2)
proof (induction ks arbitrary: v ws)
  case (Cons k ks)
  define x where "x = g ws"
  define S' where "S' = schedule g (length ks) (tl ws @ [x])"
  have "schedule g (Suc (length ks)) ws = schedule g (length ks) ([hd ws] @ (tl ws @ [x]))"
    using Cons.prems by (cases ws) (simp_all add: x_def)
  also have "\<dots> = hd ws # S'" using Cons.prems by (subst schedule_shift) (simp_all add: S'_def)
  finally have sched: "schedule g (Suc (length ks)) ws = hd ws # S'" .
  have pre: "take 16 S' = tl ws @ [x]"
    using schedule_prefix [of "tl ws @ [x]" g "length ks"] Cons.prems by (simp add: S'_def)
  have "S' ! 15 = take 16 S' ! 15" by simp
  also have "\<dots> = x" using Cons.prems by (simp add: pre nth_append)
  finally have "S' ! 15 = x" .
  moreover have "15 < length S'" using Cons.prems by (simp add: S'_def)
  ultimately have "drop 15 S' = x # drop 16 S'" using Cons_nth_drop_Suc [of 15 S'] by simp
  moreover have "run_mix S g K (k # ks) v ws = run_mix S g K ks (st v k x) (tl ws @ [x])"
    by (simp add: Let_def assms(1) x_def)
  ultimately show ?case
    unfolding list.size(4) add_Suc_right add_0_right sched
    using Cons.IH [of "tl ws @ [x]" "st v k x"] Cons.prems by (simp flip: S'_def)
qed simp

text \<open>One more paragraph of rounds, on the window the rounds so far have left.\<close>

lemma run_mix_continue:
  assumes S: "\<And>v k w \<kappa>. S v k w \<kappa> = \<kappa> (st v k w)" and "length M = 16" and "length k0 = 16 + n"
  shows "run_mix S g K ks (rounds st (zip k0 (schedule g n M)) v) (drop n (schedule g n M)) =
    K (rounds st (zip (k0 @ ks) (schedule g (n + length ks) M)) v) (drop (n + length ks) (schedule g (n + length ks) M))"
proof -
  define S0 where "S0 = schedule g n M"
  have S0: "length S0 = n + 16" by (simp add: S0_def assms)
  have "schedule g (length ks) (take n S0 @ drop n S0) = take n S0 @ schedule g (length ks) (drop n S0)"
    using S0 by (intro schedule_shift) simp
  then have next_S: "schedule g (n + length ks) M = take n S0 @ schedule g (length ks) (drop n S0)"
    by (simp add: schedule_add S0_def)
  have "take (length (drop n S0)) (schedule g (length ks) (drop n S0)) = drop n S0"
    by (rule schedule_prefix)
  then have "take 16 (schedule g (length ks) (drop n S0)) = drop n S0" using S0 by simp
  then have split: "schedule g (n + length ks) M = S0 @ drop 16 (schedule g (length ks) (drop n S0))"
    unfolding next_S by (metis append.assoc append_take_drop_id)
  have "drop (n + length ks) (schedule g (n + length ks) M) = drop (length ks) (schedule g (length ks) (drop n S0))"
    using S0 by (simp add: next_S)
  moreover have "zip (k0 @ ks) (schedule g (n + length ks) M) = zip k0 S0 @ zip ks (drop 16 (schedule g (length ks) (drop n S0)))"
    using S0 assms by (simp add: split)
  ultimately show ?thesis
    unfolding S0_def [symmetric] using S0
    by (subst run_mix_rounds [where S = S and st = st, OF S]) (simp_all add: rounds_append)
qed

text \<open>
  The variables after \<open>16 + n\<close> rounds with the constants \<open>KK\<close>, and the window at that point. A paragraph
  that is sixteen rounds of the reference continues the chain.
\<close>

definition chain :: "('v \<Rightarrow> 'k \<Rightarrow> 'a \<Rightarrow> 'v) \<Rightarrow> ('a list \<Rightarrow> 'a) \<Rightarrow> 'k list \<Rightarrow> 'a list \<Rightarrow> 'v \<Rightarrow> nat \<Rightarrow> 'v" where
  "chain st g KK M v n = rounds st (zip (take (16 + n) KK) (schedule g n M)) v"

lemma chain_paragraph:
  assumes "\<And>v k w \<kappa>. S v k w \<kappa> = \<kappa> (st v k w)"
    and "length M = 16" and ks: "ks = take 16 (drop (16 + n) KK)" "16 + (n + 16) \<le> length KK"
  shows "run_mix S g K ks (chain st g KK M v n) (drop n (schedule g n M)) =
    K (chain st g KK M v (n + 16)) (drop (n + 16) (schedule g (n + 16) M))"
proof -
  have "take (16 + n) KK @ ks = take (16 + (n + 16)) KK"
    unfolding ks(1) add.assoc [symmetric] by (rule take_add [symmetric])
  moreover have "length ks = 16" using ks by simp
  moreover have "length (take (16 + n) KK) = 16 + n" using ks by simp
  ultimately show ?thesis
    using run_mix_continue [where S = S and st = st, OF assms(1,2), where ?k0.0 = "take (16 + n) KK" and n = n and ks = ks] by (simp add: chain_def)
qed

lemma prod_cases8:
  obtains a b c d e f g h where "v = (a, b, c, d, e, f, g, h)"
  by (metis prod.collapse)

text \<open>In SHA-1 and RIPEMD-160 the five variables move by one place in sixteen rounds.\<close>

fun turn :: "'a \<times> 'a \<times> 'a \<times> 'a \<times> 'a \<Rightarrow> 'a \<times> 'a \<times> 'a \<times> 'a \<times> 'a" where
  "turn (a, b, c, d, e) = (e, a, b, c, d)"

fun unturn :: "'a \<times> 'a \<times> 'a \<times> 'a \<times> 'a \<Rightarrow> 'a \<times> 'a \<times> 'a \<times> 'a \<times> 'a" where
  "unturn (a, b, c, d, e) = (b, c, d, e, a)"

lemma turn_unturn [simp]: "turn (unturn v) = v"
  by (cases v rule: prod_cases5) simp

subsection \<open>Rotations\<close>

lemma rotate_shifts:
  fixes x :: "'a::len word"
  assumes "0 < n" and "n < LENGTH('a)"
  shows "drop_bit n x OR push_bit (LENGTH('a) - n) x = word_rotr n x"
proof (rule bit_word_eqI)
  fix k assume k: "k < LENGTH('a)"
  show "bit (drop_bit n x OR push_bit (LENGTH('a) - n) x) k = bit (word_rotr n x) k"
  proof (cases "k + n < LENGTH('a)")
    case False
    moreover have "(k + n) mod LENGTH('a) = k + n - LENGTH('a)"
      using False k assms by (simp add: mod_if)
    moreover have "k - (LENGTH('a) - n) = k + n - LENGTH('a)" using assms by simp
    moreover have "LENGTH('a) - n \<le> k" using False by simp
    moreover have "\<not> bit x (n + k)" using False by (auto dest: bit_imp_le_length)
    ultimately show ?thesis using k assms by (simp add: bit_or_iff bit_drop_bit_eq bit_push_bit_iff bit_word_rotr_iff)
  next
    case True
    then have "\<not> LENGTH('a) - n \<le> k" by simp
    with True k show ?thesis
      by (simp add: bit_or_iff bit_drop_bit_eq bit_push_bit_iff bit_word_rotr_iff add.commute)
  qed
qed

lemma rotate_left_shifts:
  fixes x :: u32
  assumes "0 < n" and "n < 32"
  shows "word_rotl n x = push_bit n x OR drop_bit (32 - n) x"
  using assms rotate_shifts [where ?'a = 32 and n = "32 - n" and x = x]
  by (simp add: word_rotl_eq_word_rotr or.commute)

subsection \<open>Constants from cube roots\<close>

definition cube_root :: "nat \<Rightarrow> nat" where
  "cube_root n = (LEAST c. n < (c + 1) ^ 3)"

lemma cube_root_eq:
  assumes "c ^ 3 \<le> n" and "n < (c + 1) ^ 3"
  shows "cube_root n = c"
  unfolding cube_root_def
proof (rule Least_equality)
  fix d
  assume "n < (d + 1) ^ 3"
  with assms(1) have "c ^ 3 < (d + 1) ^ 3"
    by simp
  then show "c \<le> d"
    by (metis Suc_eq_plus1 less_Suc_eq_le power_less_imp_less_base zero_le)
qed (rule assms(2))

text \<open>The integral part of the cube root of a number below 512.\<close>

definition root_part :: "nat \<Rightarrow> nat" where
  "root_part p = length (filter (\<lambda>m. m ^ 3 \<le> p) [1, 2, 3, 4, 5, 6, 7])"

text \<open>The first eighty primes.\<close>

definition sha_primes :: "nat list" where
  "sha_primes =
    [2, 3, 5, 7, 11, 13, 17, 19, 23, 29, 31, 37, 41, 43, 47, 53, 59, 61, 67, 71,
     73, 79, 83, 89, 97, 101, 103, 107, 109, 113, 127, 131, 137, 139, 149, 151, 157, 163, 167, 173,
     179, 181, 191, 193, 197, 199, 211, 223, 227, 229, 233, 239, 241, 251, 257, 263, 269, 271, 277, 281,
     283, 293, 307, 311, 313, 317, 331, 337, 347, 349, 353, 359, 367, 373, 379, 383, 389, 397, 401, 409]"

end
