(* ===== verification/Sha1.thy ===== *)
theory Sha1
  imports Hash_Rounds
begin

text \<open>
  SHA-1, \<^verbatim>\<open>crypto/sha1.cpp\<close>. The five working variables rotate through the argument positions of
  \<open>Round\<close>; after sixteen rounds they have moved by one place, and after eighty they are back. The compression
  function is shown equal to that of the standard (FIPS 180-4), and the class \<^verbatim>\<open>CSHA1\<close> is an instance of
  the streaming interface of \<open>Hash_Block\<close>.
\<close>

unbundle bit_operations_syntax

subsection \<open>Definitions\<close>

type_synonym sha1_vars = "u32 \<times> u32 \<times> u32 \<times> u32 \<times> u32"
type_synonym sha1_window = "u32 \<times> u32 \<times> u32 \<times> u32 \<times> u32 \<times> u32 \<times> u32 \<times> u32 \<times> u32 \<times> u32 \<times> u32 \<times> u32 \<times> u32 \<times> u32 \<times> u32 \<times> u32"

definition sha1_Round :: "u32 \<Rightarrow> u32 \<Rightarrow> u32 \<Rightarrow> u32 \<Rightarrow> u32 \<Rightarrow> u32 \<Rightarrow> u32 \<Rightarrow> u32 \<Rightarrow> u32 \<times> u32" where
  "sha1_Round a b c d e f k w =
     (push_bit 30 b OR drop_bit 2 b, e + ((push_bit 5 a OR drop_bit 27 a) + f + k + w))"

definition sha1_f1 :: "u32 \<Rightarrow> u32 \<Rightarrow> u32 \<Rightarrow> u32" where "sha1_f1 b c d = d XOR (b AND (c XOR d))"
definition sha1_f2 :: "u32 \<Rightarrow> u32 \<Rightarrow> u32 \<Rightarrow> u32" where "sha1_f2 b c d = b XOR c XOR d"
definition sha1_f3 :: "u32 \<Rightarrow> u32 \<Rightarrow> u32 \<Rightarrow> u32" where "sha1_f3 b c d = (b AND c) OR (d AND (b OR c))"

definition sha1_left :: "u32 \<Rightarrow> u32" where "sha1_left x = push_bit 1 x OR drop_bit 31 x"

definition sha1_Initialize :: sha1_vars where
  "sha1_Initialize = (0x67452301, 0xEFCDAB89, 0x98BADCFE, 0x10325476, 0xC3D2E1F0)"

definition sha1_k1 :: u32 where "sha1_k1 = 0x5A827999"
definition sha1_k2 :: u32 where "sha1_k2 = 0x6ED9EBA1"
definition sha1_k3 :: u32 where "sha1_k3 = 0x8F1BBCDC"
definition sha1_k4 :: u32 where "sha1_k4 = 0xCA62C1D6"

text \<open>The 5 paragraphs of sixteen rounds.\<close>

definition sha1_rounds_0 :: "sha1_vars \<Rightarrow> bytes \<Rightarrow> sha1_vars \<times> sha1_window" where
  "sha1_rounds_0 = (\<lambda>(a, b, c, d, e) chunk.
     (let w0 = ReadBE32 (drop 0 chunk);
          (b, e) = sha1_Round a b c d e (sha1_f1 b c d) sha1_k1 w0;
          w1 = ReadBE32 (drop 4 chunk);
          (a, d) = sha1_Round e a b c d (sha1_f1 a b c) sha1_k1 w1;
          w2 = ReadBE32 (drop 8 chunk);
          (e, c) = sha1_Round d e a b c (sha1_f1 e a b) sha1_k1 w2;
          w3 = ReadBE32 (drop 12 chunk);
          (d, b) = sha1_Round c d e a b (sha1_f1 d e a) sha1_k1 w3;
          w4 = ReadBE32 (drop 16 chunk);
          (c, a) = sha1_Round b c d e a (sha1_f1 c d e) sha1_k1 w4;
          w5 = ReadBE32 (drop 20 chunk);
          (b, e) = sha1_Round a b c d e (sha1_f1 b c d) sha1_k1 w5;
          w6 = ReadBE32 (drop 24 chunk);
          (a, d) = sha1_Round e a b c d (sha1_f1 a b c) sha1_k1 w6;
          w7 = ReadBE32 (drop 28 chunk);
          (e, c) = sha1_Round d e a b c (sha1_f1 e a b) sha1_k1 w7;
          w8 = ReadBE32 (drop 32 chunk);
          (d, b) = sha1_Round c d e a b (sha1_f1 d e a) sha1_k1 w8;
          w9 = ReadBE32 (drop 36 chunk);
          (c, a) = sha1_Round b c d e a (sha1_f1 c d e) sha1_k1 w9;
          w10 = ReadBE32 (drop 40 chunk);
          (b, e) = sha1_Round a b c d e (sha1_f1 b c d) sha1_k1 w10;
          w11 = ReadBE32 (drop 44 chunk);
          (a, d) = sha1_Round e a b c d (sha1_f1 a b c) sha1_k1 w11;
          w12 = ReadBE32 (drop 48 chunk);
          (e, c) = sha1_Round d e a b c (sha1_f1 e a b) sha1_k1 w12;
          w13 = ReadBE32 (drop 52 chunk);
          (d, b) = sha1_Round c d e a b (sha1_f1 d e a) sha1_k1 w13;
          w14 = ReadBE32 (drop 56 chunk);
          (c, a) = sha1_Round b c d e a (sha1_f1 c d e) sha1_k1 w14;
          w15 = ReadBE32 (drop 60 chunk);
          (b, e) = sha1_Round a b c d e (sha1_f1 b c d) sha1_k1 w15
      in ((a, b, c, d, e), (w0, w1, w2, w3, w4, w5, w6, w7, w8, w9, w10, w11, w12, w13, w14, w15))))"

definition sha1_rounds_1 :: "sha1_vars \<Rightarrow> sha1_window \<Rightarrow> sha1_vars \<times> sha1_window" where
  "sha1_rounds_1 = (\<lambda>(a, b, c, d, e) (w0, w1, w2, w3, w4, w5, w6, w7, w8, w9, w10, w11, w12, w13, w14, w15).
     (let w0 = sha1_left (w0 XOR w13 XOR w8 XOR w2);
          (a, d) = sha1_Round e a b c d (sha1_f1 a b c) sha1_k1 w0;
          w1 = sha1_left (w1 XOR w14 XOR w9 XOR w3);
          (e, c) = sha1_Round d e a b c (sha1_f1 e a b) sha1_k1 w1;
          w2 = sha1_left (w2 XOR w15 XOR w10 XOR w4);
          (d, b) = sha1_Round c d e a b (sha1_f1 d e a) sha1_k1 w2;
          w3 = sha1_left (w3 XOR w0 XOR w11 XOR w5);
          (c, a) = sha1_Round b c d e a (sha1_f1 c d e) sha1_k1 w3;
          w4 = sha1_left (w4 XOR w1 XOR w12 XOR w6);
          (b, e) = sha1_Round a b c d e (sha1_f2 b c d) sha1_k2 w4;
          w5 = sha1_left (w5 XOR w2 XOR w13 XOR w7);
          (a, d) = sha1_Round e a b c d (sha1_f2 a b c) sha1_k2 w5;
          w6 = sha1_left (w6 XOR w3 XOR w14 XOR w8);
          (e, c) = sha1_Round d e a b c (sha1_f2 e a b) sha1_k2 w6;
          w7 = sha1_left (w7 XOR w4 XOR w15 XOR w9);
          (d, b) = sha1_Round c d e a b (sha1_f2 d e a) sha1_k2 w7;
          w8 = sha1_left (w8 XOR w5 XOR w0 XOR w10);
          (c, a) = sha1_Round b c d e a (sha1_f2 c d e) sha1_k2 w8;
          w9 = sha1_left (w9 XOR w6 XOR w1 XOR w11);
          (b, e) = sha1_Round a b c d e (sha1_f2 b c d) sha1_k2 w9;
          w10 = sha1_left (w10 XOR w7 XOR w2 XOR w12);
          (a, d) = sha1_Round e a b c d (sha1_f2 a b c) sha1_k2 w10;
          w11 = sha1_left (w11 XOR w8 XOR w3 XOR w13);
          (e, c) = sha1_Round d e a b c (sha1_f2 e a b) sha1_k2 w11;
          w12 = sha1_left (w12 XOR w9 XOR w4 XOR w14);
          (d, b) = sha1_Round c d e a b (sha1_f2 d e a) sha1_k2 w12;
          w13 = sha1_left (w13 XOR w10 XOR w5 XOR w15);
          (c, a) = sha1_Round b c d e a (sha1_f2 c d e) sha1_k2 w13;
          w14 = sha1_left (w14 XOR w11 XOR w6 XOR w0);
          (b, e) = sha1_Round a b c d e (sha1_f2 b c d) sha1_k2 w14;
          w15 = sha1_left (w15 XOR w12 XOR w7 XOR w1);
          (a, d) = sha1_Round e a b c d (sha1_f2 a b c) sha1_k2 w15
      in ((a, b, c, d, e), (w0, w1, w2, w3, w4, w5, w6, w7, w8, w9, w10, w11, w12, w13, w14, w15))))"

definition sha1_rounds_2 :: "sha1_vars \<Rightarrow> sha1_window \<Rightarrow> sha1_vars \<times> sha1_window" where
  "sha1_rounds_2 = (\<lambda>(a, b, c, d, e) (w0, w1, w2, w3, w4, w5, w6, w7, w8, w9, w10, w11, w12, w13, w14, w15).
     (let w0 = sha1_left (w0 XOR w13 XOR w8 XOR w2);
          (e, c) = sha1_Round d e a b c (sha1_f2 e a b) sha1_k2 w0;
          w1 = sha1_left (w1 XOR w14 XOR w9 XOR w3);
          (d, b) = sha1_Round c d e a b (sha1_f2 d e a) sha1_k2 w1;
          w2 = sha1_left (w2 XOR w15 XOR w10 XOR w4);
          (c, a) = sha1_Round b c d e a (sha1_f2 c d e) sha1_k2 w2;
          w3 = sha1_left (w3 XOR w0 XOR w11 XOR w5);
          (b, e) = sha1_Round a b c d e (sha1_f2 b c d) sha1_k2 w3;
          w4 = sha1_left (w4 XOR w1 XOR w12 XOR w6);
          (a, d) = sha1_Round e a b c d (sha1_f2 a b c) sha1_k2 w4;
          w5 = sha1_left (w5 XOR w2 XOR w13 XOR w7);
          (e, c) = sha1_Round d e a b c (sha1_f2 e a b) sha1_k2 w5;
          w6 = sha1_left (w6 XOR w3 XOR w14 XOR w8);
          (d, b) = sha1_Round c d e a b (sha1_f2 d e a) sha1_k2 w6;
          w7 = sha1_left (w7 XOR w4 XOR w15 XOR w9);
          (c, a) = sha1_Round b c d e a (sha1_f2 c d e) sha1_k2 w7;
          w8 = sha1_left (w8 XOR w5 XOR w0 XOR w10);
          (b, e) = sha1_Round a b c d e (sha1_f3 b c d) sha1_k3 w8;
          w9 = sha1_left (w9 XOR w6 XOR w1 XOR w11);
          (a, d) = sha1_Round e a b c d (sha1_f3 a b c) sha1_k3 w9;
          w10 = sha1_left (w10 XOR w7 XOR w2 XOR w12);
          (e, c) = sha1_Round d e a b c (sha1_f3 e a b) sha1_k3 w10;
          w11 = sha1_left (w11 XOR w8 XOR w3 XOR w13);
          (d, b) = sha1_Round c d e a b (sha1_f3 d e a) sha1_k3 w11;
          w12 = sha1_left (w12 XOR w9 XOR w4 XOR w14);
          (c, a) = sha1_Round b c d e a (sha1_f3 c d e) sha1_k3 w12;
          w13 = sha1_left (w13 XOR w10 XOR w5 XOR w15);
          (b, e) = sha1_Round a b c d e (sha1_f3 b c d) sha1_k3 w13;
          w14 = sha1_left (w14 XOR w11 XOR w6 XOR w0);
          (a, d) = sha1_Round e a b c d (sha1_f3 a b c) sha1_k3 w14;
          w15 = sha1_left (w15 XOR w12 XOR w7 XOR w1);
          (e, c) = sha1_Round d e a b c (sha1_f3 e a b) sha1_k3 w15
      in ((a, b, c, d, e), (w0, w1, w2, w3, w4, w5, w6, w7, w8, w9, w10, w11, w12, w13, w14, w15))))"

definition sha1_rounds_3 :: "sha1_vars \<Rightarrow> sha1_window \<Rightarrow> sha1_vars \<times> sha1_window" where
  "sha1_rounds_3 = (\<lambda>(a, b, c, d, e) (w0, w1, w2, w3, w4, w5, w6, w7, w8, w9, w10, w11, w12, w13, w14, w15).
     (let w0 = sha1_left (w0 XOR w13 XOR w8 XOR w2);
          (d, b) = sha1_Round c d e a b (sha1_f3 d e a) sha1_k3 w0;
          w1 = sha1_left (w1 XOR w14 XOR w9 XOR w3);
          (c, a) = sha1_Round b c d e a (sha1_f3 c d e) sha1_k3 w1;
          w2 = sha1_left (w2 XOR w15 XOR w10 XOR w4);
          (b, e) = sha1_Round a b c d e (sha1_f3 b c d) sha1_k3 w2;
          w3 = sha1_left (w3 XOR w0 XOR w11 XOR w5);
          (a, d) = sha1_Round e a b c d (sha1_f3 a b c) sha1_k3 w3;
          w4 = sha1_left (w4 XOR w1 XOR w12 XOR w6);
          (e, c) = sha1_Round d e a b c (sha1_f3 e a b) sha1_k3 w4;
          w5 = sha1_left (w5 XOR w2 XOR w13 XOR w7);
          (d, b) = sha1_Round c d e a b (sha1_f3 d e a) sha1_k3 w5;
          w6 = sha1_left (w6 XOR w3 XOR w14 XOR w8);
          (c, a) = sha1_Round b c d e a (sha1_f3 c d e) sha1_k3 w6;
          w7 = sha1_left (w7 XOR w4 XOR w15 XOR w9);
          (b, e) = sha1_Round a b c d e (sha1_f3 b c d) sha1_k3 w7;
          w8 = sha1_left (w8 XOR w5 XOR w0 XOR w10);
          (a, d) = sha1_Round e a b c d (sha1_f3 a b c) sha1_k3 w8;
          w9 = sha1_left (w9 XOR w6 XOR w1 XOR w11);
          (e, c) = sha1_Round d e a b c (sha1_f3 e a b) sha1_k3 w9;
          w10 = sha1_left (w10 XOR w7 XOR w2 XOR w12);
          (d, b) = sha1_Round c d e a b (sha1_f3 d e a) sha1_k3 w10;
          w11 = sha1_left (w11 XOR w8 XOR w3 XOR w13);
          (c, a) = sha1_Round b c d e a (sha1_f3 c d e) sha1_k3 w11;
          w12 = sha1_left (w12 XOR w9 XOR w4 XOR w14);
          (b, e) = sha1_Round a b c d e (sha1_f2 b c d) sha1_k4 w12;
          w13 = sha1_left (w13 XOR w10 XOR w5 XOR w15);
          (a, d) = sha1_Round e a b c d (sha1_f2 a b c) sha1_k4 w13;
          w14 = sha1_left (w14 XOR w11 XOR w6 XOR w0);
          (e, c) = sha1_Round d e a b c (sha1_f2 e a b) sha1_k4 w14;
          w15 = sha1_left (w15 XOR w12 XOR w7 XOR w1);
          (d, b) = sha1_Round c d e a b (sha1_f2 d e a) sha1_k4 w15
      in ((a, b, c, d, e), (w0, w1, w2, w3, w4, w5, w6, w7, w8, w9, w10, w11, w12, w13, w14, w15))))"

definition sha1_rounds_4 :: "sha1_vars \<Rightarrow> sha1_window \<Rightarrow> sha1_vars" where
  "sha1_rounds_4 = (\<lambda>(a, b, c, d, e) (w0, w1, w2, w3, w4, w5, w6, w7, w8, w9, w10, w11, w12, w13, w14, w15).
     (let w0 = sha1_left (w0 XOR w13 XOR w8 XOR w2);
          (c, a) = sha1_Round b c d e a (sha1_f2 c d e) sha1_k4 w0;
          w1 = sha1_left (w1 XOR w14 XOR w9 XOR w3);
          (b, e) = sha1_Round a b c d e (sha1_f2 b c d) sha1_k4 w1;
          w2 = sha1_left (w2 XOR w15 XOR w10 XOR w4);
          (a, d) = sha1_Round e a b c d (sha1_f2 a b c) sha1_k4 w2;
          w3 = sha1_left (w3 XOR w0 XOR w11 XOR w5);
          (e, c) = sha1_Round d e a b c (sha1_f2 e a b) sha1_k4 w3;
          w4 = sha1_left (w4 XOR w1 XOR w12 XOR w6);
          (d, b) = sha1_Round c d e a b (sha1_f2 d e a) sha1_k4 w4;
          w5 = sha1_left (w5 XOR w2 XOR w13 XOR w7);
          (c, a) = sha1_Round b c d e a (sha1_f2 c d e) sha1_k4 w5;
          w6 = sha1_left (w6 XOR w3 XOR w14 XOR w8);
          (b, e) = sha1_Round a b c d e (sha1_f2 b c d) sha1_k4 w6;
          w7 = sha1_left (w7 XOR w4 XOR w15 XOR w9);
          (a, d) = sha1_Round e a b c d (sha1_f2 a b c) sha1_k4 w7;
          w8 = sha1_left (w8 XOR w5 XOR w0 XOR w10);
          (e, c) = sha1_Round d e a b c (sha1_f2 e a b) sha1_k4 w8;
          w9 = sha1_left (w9 XOR w6 XOR w1 XOR w11);
          (d, b) = sha1_Round c d e a b (sha1_f2 d e a) sha1_k4 w9;
          w10 = sha1_left (w10 XOR w7 XOR w2 XOR w12);
          (c, a) = sha1_Round b c d e a (sha1_f2 c d e) sha1_k4 w10;
          w11 = sha1_left (w11 XOR w8 XOR w3 XOR w13);
          (b, e) = sha1_Round a b c d e (sha1_f2 b c d) sha1_k4 w11;
          w12 = sha1_left (w12 XOR w9 XOR w4 XOR w14);
          (a, d) = sha1_Round e a b c d (sha1_f2 a b c) sha1_k4 w12;
          x13 = sha1_left (w13 XOR w10 XOR w5 XOR w15);
          (e, c) = sha1_Round d e a b c (sha1_f2 e a b) sha1_k4 x13;
          x14 = sha1_left (w14 XOR w11 XOR w6 XOR w0);
          (d, b) = sha1_Round c d e a b (sha1_f2 d e a) sha1_k4 x14;
          x15 = sha1_left (w15 XOR w12 XOR w7 XOR w1);
          (c, a) = sha1_Round b c d e a (sha1_f2 c d e) sha1_k4 x15
      in (a, b, c, d, e)))"

fun sha1_add :: "sha1_vars \<Rightarrow> sha1_vars \<Rightarrow> sha1_vars" where
  "sha1_add (s0, s1, s2, s3, s4) (a, b, c, d, e) = (s0 + a, s1 + b, s2 + c, s3 + d, s4 + e)"

definition sha1_Transform :: "sha1_vars \<Rightarrow> bytes \<Rightarrow> sha1_vars" where
  "sha1_Transform s chunk =
     (let (v, w) = sha1_rounds_0 s chunk;
          (v, w) = sha1_rounds_1 v w;
          (v, w) = sha1_rounds_2 v w;
          (v, w) = sha1_rounds_3 v w;
          v = sha1_rounds_4 v w
      in sha1_add s v)"

type_synonym CSHA1 = "sha1_vars hasher"

definition CSHA1_init :: "bytes \<Rightarrow> CSHA1" where
  "CSHA1_init mem = \<lparr>hs = sha1_Initialize, buf = mem, nbytes = 0\<rparr>"

definition CSHA1_Write :: "CSHA1 \<Rightarrow> bytes \<Rightarrow> CSHA1" where
  "CSHA1_Write = hash_Write sha1_Transform 64"

fun sha1_output :: "sha1_vars \<Rightarrow> bytes" where
  "sha1_output (s0, s1, s2, s3, s4) = WriteBE32 s0 @ WriteBE32 s1 @ WriteBE32 s2 @ WriteBE32 s3 @ WriteBE32 s4"

definition CSHA1_Finalize :: "CSHA1 \<Rightarrow> bytes \<times> CSHA1" where
  "CSHA1_Finalize h = (let h = hash_pad sha1_Transform 64 119 WriteBE64 h in (sha1_output (hs h), h))"

definition CSHA1_Reset :: "CSHA1 \<Rightarrow> CSHA1" where
  "CSHA1_Reset h = h\<lparr>nbytes := 0, hs := sha1_Initialize\<rparr>"

subsection \<open>Reference: the compression function of the standard\<close>

text \<open>The function and the constant of round \<open>t\<close>: choose, parity, majority, parity, twenty rounds each.\<close>

definition sha1_K :: "((u32 \<Rightarrow> u32 \<Rightarrow> u32 \<Rightarrow> u32) \<times> u32) list" where
  "sha1_K =
     replicate 20 (\<lambda>b c d. (b AND c) XOR (NOT b AND d), 0x5a827999) @
     replicate 20 (\<lambda>b c d. b XOR c XOR d, 0x6ed9eba1) @
     replicate 20 (\<lambda>b c d. (b AND c) XOR (b AND d) XOR (c AND d), 0x8f1bbcdc) @
     replicate 20 (\<lambda>b c d. b XOR c XOR d, 0xca62c1d6)"

fun sha1_fips :: "sha1_vars \<Rightarrow> (u32 \<Rightarrow> u32 \<Rightarrow> u32 \<Rightarrow> u32) \<times> u32 \<Rightarrow> u32 \<Rightarrow> sha1_vars" where
  "sha1_fips (a, b, c, d, e) (f, k) w = (word_rotl 5 a + f b c d + e + k + w, a, word_rotl 30 b, c, d)"

definition sha1_extend :: "u32 list \<Rightarrow> u32" where
  "sha1_extend ws = word_rotl 1 (ws ! 13 XOR ws ! 8 XOR ws ! 2 XOR ws ! 0)"

definition sha1_compress :: "sha1_vars \<Rightarrow> bytes \<Rightarrow> sha1_vars" where
  "sha1_compress s chunk =
     sha1_add s (rounds sha1_fips
       (zip sha1_K (schedule sha1_extend 64 (map (\<lambda>i. ReadBE32 (drop (4 * i) chunk)) [0..<16]))) s)"

lemma sha1_functions:
  "sha1_f1 = (\<lambda>b c d. (b AND c) XOR (NOT b AND d))"
  "sha1_f2 = (\<lambda>b c d. b XOR c XOR d)"
  "sha1_f3 = (\<lambda>b c d. (b AND c) XOR (b AND d) XOR (c AND d))"
  by (auto simp: fun_eq_iff bit_eq_iff bit_simps sha1_f1_def sha1_f2_def sha1_f3_def)

fun sha1_step :: "sha1_vars \<Rightarrow> (u32 \<Rightarrow> u32 \<Rightarrow> u32 \<Rightarrow> u32) \<times> u32 \<Rightarrow> u32 \<Rightarrow> (sha1_vars \<Rightarrow> 'r) \<Rightarrow> 'r" where
  "sha1_step (a, b, c, d, e) (f, k) w \<kappa> = (let (b', e') = sha1_Round a b c d e (f b c d) k w in \<kappa> (e', a, b', c, d))"

lemma sha1_step_fips: "sha1_step v fk w \<kappa> = \<kappa> (sha1_fips v fk w)"
proof (cases v rule: prod_cases5)
  case (fields a b c d e)
  have "word_rotl 5 a = push_bit 5 a OR drop_bit 27 a" "word_rotl 30 b = push_bit 30 b OR drop_bit 2 b"
    by (simp_all add: rotate_left_shifts)
  then show ?thesis by (cases fk) (simp add: fields sha1_Round_def ac_simps)
qed

lemma sha1_extend_window: "sha1_extend = (\<lambda>ws. sha1_left (ws ! 0 XOR ws ! 13 XOR ws ! 8 XOR ws ! 2))"
  by (simp add: fun_eq_iff sha1_extend_def sha1_left_def rotate_left_shifts ac_simps)

subsection \<open>The unrolled rounds\<close>

text \<open>
  Each paragraph is sixteen rounds of the reference, in the rotated variables.
\<close>

lemma sha1_unroll_0:
  "sha1_rounds_0 (a, b, c, d, e) chunk =
     run_load sha1_step (\<lambda>v ws. (unturn v, window ws)) (zip [(sha1_f1, sha1_k1), (sha1_f1, sha1_k1), (sha1_f1, sha1_k1), (sha1_f1, sha1_k1), (sha1_f1, sha1_k1), (sha1_f1, sha1_k1), (sha1_f1, sha1_k1), (sha1_f1, sha1_k1), (sha1_f1, sha1_k1), (sha1_f1, sha1_k1), (sha1_f1, sha1_k1), (sha1_f1, sha1_k1), (sha1_f1, sha1_k1), (sha1_f1, sha1_k1), (sha1_f1, sha1_k1), (sha1_f1, sha1_k1)]
          [ReadBE32 (drop 0 chunk), ReadBE32 (drop 4 chunk), ReadBE32 (drop 8 chunk), ReadBE32 (drop 12 chunk), ReadBE32 (drop 16 chunk), ReadBE32 (drop 20 chunk), ReadBE32 (drop 24 chunk), ReadBE32 (drop 28 chunk), ReadBE32 (drop 32 chunk), ReadBE32 (drop 36 chunk), ReadBE32 (drop 40 chunk), ReadBE32 (drop 44 chunk), ReadBE32 (drop 48 chunk), ReadBE32 (drop 52 chunk), ReadBE32 (drop 56 chunk), ReadBE32 (drop 60 chunk)]) (a, b, c, d, e) []"
  unfolding sha1_rounds_0_def unroll_rounds sha1_step.simps unturn.simps by (rule refl)

lemma sha1_unroll_1:
  "sha1_rounds_1 (a, b, c, d, e) (w0, w1, w2, w3, w4, w5, w6, w7, w8, w9, w10, w11, w12, w13, w14, w15) =
     run_mix sha1_step sha1_extend (\<lambda>v ws. ((unturn (unturn v)), window ws))
       [(sha1_f1, sha1_k1), (sha1_f1, sha1_k1), (sha1_f1, sha1_k1), (sha1_f1, sha1_k1), (sha1_f2, sha1_k2), (sha1_f2, sha1_k2), (sha1_f2, sha1_k2), (sha1_f2, sha1_k2), (sha1_f2, sha1_k2), (sha1_f2, sha1_k2), (sha1_f2, sha1_k2), (sha1_f2, sha1_k2), (sha1_f2, sha1_k2), (sha1_f2, sha1_k2), (sha1_f2, sha1_k2), (sha1_f2, sha1_k2)] (e, a, b, c, d) [w0, w1, w2, w3, w4, w5, w6, w7, w8, w9, w10, w11, w12, w13, w14, w15]"
  unfolding sha1_rounds_1_def sha1_extend_window unroll_rounds sha1_step.simps unturn.simps by (rule refl)

lemma sha1_paragraph_1:
  "length ws = 16 \<Longrightarrow> sha1_rounds_1 v (window ws) =
     run_mix sha1_step sha1_extend (\<lambda>v ws. ((unturn (unturn v)), window ws))
       [(sha1_f1, sha1_k1), (sha1_f1, sha1_k1), (sha1_f1, sha1_k1), (sha1_f1, sha1_k1), (sha1_f2, sha1_k2), (sha1_f2, sha1_k2), (sha1_f2, sha1_k2), (sha1_f2, sha1_k2), (sha1_f2, sha1_k2), (sha1_f2, sha1_k2), (sha1_f2, sha1_k2), (sha1_f2, sha1_k2), (sha1_f2, sha1_k2), (sha1_f2, sha1_k2), (sha1_f2, sha1_k2), (sha1_f2, sha1_k2)] (turn v) ws"
  by (cases v rule: prod_cases5) (simp only: window_def sha1_unroll_1 sixteen_list turn.simps)

lemma sha1_unroll_2:
  "sha1_rounds_2 (a, b, c, d, e) (w0, w1, w2, w3, w4, w5, w6, w7, w8, w9, w10, w11, w12, w13, w14, w15) =
     run_mix sha1_step sha1_extend (\<lambda>v ws. ((unturn (unturn (unturn v))), window ws))
       [(sha1_f2, sha1_k2), (sha1_f2, sha1_k2), (sha1_f2, sha1_k2), (sha1_f2, sha1_k2), (sha1_f2, sha1_k2), (sha1_f2, sha1_k2), (sha1_f2, sha1_k2), (sha1_f2, sha1_k2), (sha1_f3, sha1_k3), (sha1_f3, sha1_k3), (sha1_f3, sha1_k3), (sha1_f3, sha1_k3), (sha1_f3, sha1_k3), (sha1_f3, sha1_k3), (sha1_f3, sha1_k3), (sha1_f3, sha1_k3)] (d, e, a, b, c) [w0, w1, w2, w3, w4, w5, w6, w7, w8, w9, w10, w11, w12, w13, w14, w15]"
  unfolding sha1_rounds_2_def sha1_extend_window unroll_rounds sha1_step.simps unturn.simps by (rule refl)

lemma sha1_paragraph_2:
  "length ws = 16 \<Longrightarrow> sha1_rounds_2 v (window ws) =
     run_mix sha1_step sha1_extend (\<lambda>v ws. ((unturn (unturn (unturn v))), window ws))
       [(sha1_f2, sha1_k2), (sha1_f2, sha1_k2), (sha1_f2, sha1_k2), (sha1_f2, sha1_k2), (sha1_f2, sha1_k2), (sha1_f2, sha1_k2), (sha1_f2, sha1_k2), (sha1_f2, sha1_k2), (sha1_f3, sha1_k3), (sha1_f3, sha1_k3), (sha1_f3, sha1_k3), (sha1_f3, sha1_k3), (sha1_f3, sha1_k3), (sha1_f3, sha1_k3), (sha1_f3, sha1_k3), (sha1_f3, sha1_k3)] (turn (turn v)) ws"
  by (cases v rule: prod_cases5) (simp only: window_def sha1_unroll_2 sixteen_list turn.simps)

lemma sha1_unroll_3:
  "sha1_rounds_3 (a, b, c, d, e) (w0, w1, w2, w3, w4, w5, w6, w7, w8, w9, w10, w11, w12, w13, w14, w15) =
     run_mix sha1_step sha1_extend (\<lambda>v ws. ((unturn (unturn (unturn (unturn v)))), window ws))
       [(sha1_f3, sha1_k3), (sha1_f3, sha1_k3), (sha1_f3, sha1_k3), (sha1_f3, sha1_k3), (sha1_f3, sha1_k3), (sha1_f3, sha1_k3), (sha1_f3, sha1_k3), (sha1_f3, sha1_k3), (sha1_f3, sha1_k3), (sha1_f3, sha1_k3), (sha1_f3, sha1_k3), (sha1_f3, sha1_k3), (sha1_f2, sha1_k4), (sha1_f2, sha1_k4), (sha1_f2, sha1_k4), (sha1_f2, sha1_k4)] (c, d, e, a, b) [w0, w1, w2, w3, w4, w5, w6, w7, w8, w9, w10, w11, w12, w13, w14, w15]"
  unfolding sha1_rounds_3_def sha1_extend_window unroll_rounds sha1_step.simps unturn.simps by (rule refl)

lemma sha1_paragraph_3:
  "length ws = 16 \<Longrightarrow> sha1_rounds_3 v (window ws) =
     run_mix sha1_step sha1_extend (\<lambda>v ws. ((unturn (unturn (unturn (unturn v)))), window ws))
       [(sha1_f3, sha1_k3), (sha1_f3, sha1_k3), (sha1_f3, sha1_k3), (sha1_f3, sha1_k3), (sha1_f3, sha1_k3), (sha1_f3, sha1_k3), (sha1_f3, sha1_k3), (sha1_f3, sha1_k3), (sha1_f3, sha1_k3), (sha1_f3, sha1_k3), (sha1_f3, sha1_k3), (sha1_f3, sha1_k3), (sha1_f2, sha1_k4), (sha1_f2, sha1_k4), (sha1_f2, sha1_k4), (sha1_f2, sha1_k4)] (turn (turn (turn v))) ws"
  by (cases v rule: prod_cases5) (simp only: window_def sha1_unroll_3 sixteen_list turn.simps)

lemma sha1_unroll_4:
  "sha1_rounds_4 (a, b, c, d, e) (w0, w1, w2, w3, w4, w5, w6, w7, w8, w9, w10, w11, w12, w13, w14, w15) =
     run_mix sha1_step sha1_extend (\<lambda>v _. v)
       [(sha1_f2, sha1_k4), (sha1_f2, sha1_k4), (sha1_f2, sha1_k4), (sha1_f2, sha1_k4), (sha1_f2, sha1_k4), (sha1_f2, sha1_k4), (sha1_f2, sha1_k4), (sha1_f2, sha1_k4), (sha1_f2, sha1_k4), (sha1_f2, sha1_k4), (sha1_f2, sha1_k4), (sha1_f2, sha1_k4), (sha1_f2, sha1_k4), (sha1_f2, sha1_k4), (sha1_f2, sha1_k4), (sha1_f2, sha1_k4)] (b, c, d, e, a) [w0, w1, w2, w3, w4, w5, w6, w7, w8, w9, w10, w11, w12, w13, w14, w15]"
  unfolding sha1_rounds_4_def sha1_extend_window unroll_rounds sha1_step.simps unturn.simps by (rule refl)

lemma sha1_paragraph_4:
  "length ws = 16 \<Longrightarrow> sha1_rounds_4 v (window ws) =
     run_mix sha1_step sha1_extend (\<lambda>v _. v)
       [(sha1_f2, sha1_k4), (sha1_f2, sha1_k4), (sha1_f2, sha1_k4), (sha1_f2, sha1_k4), (sha1_f2, sha1_k4), (sha1_f2, sha1_k4), (sha1_f2, sha1_k4), (sha1_f2, sha1_k4), (sha1_f2, sha1_k4), (sha1_f2, sha1_k4), (sha1_f2, sha1_k4), (sha1_f2, sha1_k4), (sha1_f2, sha1_k4), (sha1_f2, sha1_k4), (sha1_f2, sha1_k4), (sha1_f2, sha1_k4)] (turn (turn (turn (turn v)))) ws"
  by (cases v rule: prod_cases5) (simp only: window_def sha1_unroll_4 sixteen_list turn.simps)

subsection \<open>The compression function is that of the standard\<close>

lemma sha1_words:
  "[ReadBE32 (drop 0 chunk), ReadBE32 (drop 4 chunk), ReadBE32 (drop 8 chunk), ReadBE32 (drop 12 chunk), ReadBE32 (drop 16 chunk), ReadBE32 (drop 20 chunk), ReadBE32 (drop 24 chunk), ReadBE32 (drop 28 chunk), ReadBE32 (drop 32 chunk), ReadBE32 (drop 36 chunk), ReadBE32 (drop 40 chunk), ReadBE32 (drop 44 chunk), ReadBE32 (drop 48 chunk), ReadBE32 (drop 52 chunk), ReadBE32 (drop 56 chunk), ReadBE32 (drop 60 chunk)] = map (\<lambda>i. ReadBE32 (drop (4 * i) chunk)) [0..<16]"
  by (simp add: upt_rec)

lemma sha1_K_eq:
  "sha1_K = replicate 20 (sha1_f1, sha1_k1) @ replicate 20 (sha1_f2, sha1_k2) @
     replicate 20 (sha1_f3, sha1_k3) @ replicate 20 (sha1_f2, sha1_k4)"
  by (simp add: sha1_K_def sha1_functions sha1_k1_def sha1_k2_def sha1_k3_def sha1_k4_def)

lemma sha1_Transform_fips: "sha1_Transform s chunk = sha1_compress s chunk"
proof -
  define M where "M = map (\<lambda>i. ReadBE32 (drop (4 * i) chunk)) [0..<16]"
  have M: "length M = 16" by (simp add: M_def)
  define C where "C = chain sha1_fips sha1_extend sha1_K M s"
  define S where "S n = drop n (schedule sha1_extend n M)" for n
  have S: "length (S n) = 16" for n by (simp add: S_def M)
  have p0: "sha1_rounds_0 s chunk = (unturn (C 0), window (S 0))"
  proof -
    let ?k0 = "[(sha1_f1, sha1_k1), (sha1_f1, sha1_k1), (sha1_f1, sha1_k1), (sha1_f1, sha1_k1), (sha1_f1, sha1_k1), (sha1_f1, sha1_k1), (sha1_f1, sha1_k1), (sha1_f1, sha1_k1), (sha1_f1, sha1_k1), (sha1_f1, sha1_k1), (sha1_f1, sha1_k1), (sha1_f1, sha1_k1), (sha1_f1, sha1_k1), (sha1_f1, sha1_k1), (sha1_f1, sha1_k1), (sha1_f1, sha1_k1)]"
    have "map snd (zip ?k0 M) = M" "take (16 + 0) sha1_K = ?k0" using M by (simp_all add: sha1_K_eq numeral_eq_Suc)
    then show ?thesis
      by (cases s rule: prod_cases5)
        (simp only: sha1_unroll_0 sha1_words [of chunk, folded M_def]
           run_load_rounds [where S = sha1_step and st = sha1_fips, OF sha1_step_fips] append_Nil
           schedule.simps C_def S_def chain_def, simp only: drop_0)
  qed
  have p1: "sha1_rounds_1 (unturn (C 0)) (window (S 0)) = ((unturn (unturn (C (0 + 16)))), window (S (0 + 16)))"
    unfolding sha1_paragraph_1 [OF S] turn_unturn unfolding C_def S_def
    by (rule chain_paragraph [where S = sha1_step and st = sha1_fips and K = "\<lambda>v ws. ((unturn (unturn v)), window ws)", OF sha1_step_fips M]) (simp_all add: sha1_K_eq numeral_eq_Suc)
  have p2: "sha1_rounds_2 (unturn (unturn (C 16))) (window (S 16)) = ((unturn (unturn (unturn (C (16 + 16))))), window (S (16 + 16)))"
    unfolding sha1_paragraph_2 [OF S] turn_unturn unfolding C_def S_def
    by (rule chain_paragraph [where S = sha1_step and st = sha1_fips and K = "\<lambda>v ws. ((unturn (unturn (unturn v))), window ws)", OF sha1_step_fips M]) (simp_all add: sha1_K_eq numeral_eq_Suc)
  have p3: "sha1_rounds_3 (unturn (unturn (unturn (C 32)))) (window (S 32)) = ((unturn (unturn (unturn (unturn (C (32 + 16)))))), window (S (32 + 16)))"
    unfolding sha1_paragraph_3 [OF S] turn_unturn unfolding C_def S_def
    by (rule chain_paragraph [where S = sha1_step and st = sha1_fips and K = "\<lambda>v ws. ((unturn (unturn (unturn (unturn v)))), window ws)", OF sha1_step_fips M]) (simp_all add: sha1_K_eq numeral_eq_Suc)
  have p4: "sha1_rounds_4 (unturn (unturn (unturn (unturn (C 48))))) (window (S 48)) = C (48 + 16)"
    unfolding sha1_paragraph_4 [OF S] turn_unturn unfolding C_def S_def
    by (rule chain_paragraph [where S = sha1_step and st = sha1_fips and K = "\<lambda>v _. v", OF sha1_step_fips M]) (simp_all add: sha1_K_eq numeral_eq_Suc)
  have "sha1_Transform s chunk = sha1_add s (C 64)"
    by (simp add: sha1_Transform_def Let_def p0 p1 p2 p3 p4)
  also have "C 64 = rounds sha1_fips (zip sha1_K (schedule sha1_extend 64 M)) s"
    by (simp add: C_def chain_def sha1_K_def)
  finally show ?thesis
    by (simp only: sha1_compress_def M_def)
qed

lemma sha1_Transform_eq: "sha1_Transform = sha1_compress"
  by (simp add: fun_eq_iff sha1_Transform_fips)

subsection \<open>The hasher\<close>

interpretation sha1: block_hash sha1_Transform 64 119 8
  by unfold_locales simp_all

lemma length_sha1_output [simp]: "length (sha1_output s) = 20"
  by (cases s rule: prod_cases5) simp

lemma CSHA1_digest_fold:
  assumes "length mem = 64"
  shows "fst (CSHA1_Finalize (fold (\<lambda>d h. CSHA1_Write h d) ds (CSHA1_init mem))) =
    sha1_output (absorb sha1_compress 64 sha1_Initialize (padded 64 119 WriteBE64 (concat ds)))"
  using sha1.digest [OF assms, where sizedesc = WriteBE64 and i = sha1_Initialize and ds = ds]
  by (simp add: CSHA1_Finalize_def CSHA1_Write_def CSHA1_init_def Let_def sha1_Transform_eq)

end
