(* ===== verification/Sha256.thy ===== *)
theory Sha256
  imports Hash_Rounds
begin

text \<open>
  SHA-256, \<^verbatim>\<open>crypto/sha256.cpp\<close>. The compression function is unrolled in the source: the eight
  working variables rotate through the argument positions of \<open>Round\<close>, and the message schedule is computed
  in place in sixteen words. It is shown equal to the rounds and schedule of the standard (FIPS 180-4), and
  the class \<^verbatim>\<open>CSHA256\<close> is an instance of the streaming interface of \<open>Hash_Block\<close>.
\<close>

unbundle bit_operations_syntax

subsection \<open>Definitions\<close>

type_synonym sha256_vars = "u32 \<times> u32 \<times> u32 \<times> u32 \<times> u32 \<times> u32 \<times> u32 \<times> u32"
type_synonym sha256_window = "u32 \<times> u32 \<times> u32 \<times> u32 \<times> u32 \<times> u32 \<times> u32 \<times> u32 \<times> u32 \<times> u32 \<times> u32 \<times> u32 \<times> u32 \<times> u32 \<times> u32 \<times> u32"

definition sha256_Ch :: "u32 \<Rightarrow> u32 \<Rightarrow> u32 \<Rightarrow> u32" where
  "sha256_Ch x y z = z XOR (x AND (y XOR z))"
definition sha256_Maj :: "u32 \<Rightarrow> u32 \<Rightarrow> u32 \<Rightarrow> u32" where
  "sha256_Maj x y z = (x AND y) OR (z AND (x OR y))"
definition sha256_Sigma0 :: "u32 \<Rightarrow> u32" where
  "sha256_Sigma0 x = (drop_bit 2 x OR push_bit 30 x) XOR (drop_bit 13 x OR push_bit 19 x) XOR (drop_bit 22 x OR push_bit 10 x)"
definition sha256_Sigma1 :: "u32 \<Rightarrow> u32" where
  "sha256_Sigma1 x = (drop_bit 6 x OR push_bit 26 x) XOR (drop_bit 11 x OR push_bit 21 x) XOR (drop_bit 25 x OR push_bit 7 x)"
definition sha256_sigma0 :: "u32 \<Rightarrow> u32" where
  "sha256_sigma0 x = (drop_bit 7 x OR push_bit 25 x) XOR (drop_bit 18 x OR push_bit 14 x) XOR drop_bit 3 x"
definition sha256_sigma1 :: "u32 \<Rightarrow> u32" where
  "sha256_sigma1 x = (drop_bit 17 x OR push_bit 15 x) XOR (drop_bit 19 x OR push_bit 13 x) XOR drop_bit 10 x"

definition sha256_Round :: "u32 \<Rightarrow> u32 \<Rightarrow> u32 \<Rightarrow> u32 \<Rightarrow> u32 \<Rightarrow> u32 \<Rightarrow> u32 \<Rightarrow> u32 \<Rightarrow> u32 \<Rightarrow> u32 \<Rightarrow> u32 \<times> u32" where
  "sha256_Round a b c d e f g h k w =
     (let t1 = h + sha256_Sigma1 e + sha256_Ch e f g + k + w;
          t2 = sha256_Sigma0 a + sha256_Maj a b c
      in (d + t1, t1 + t2))"

definition sha256_Initialize :: sha256_vars where
  "sha256_Initialize = (0x6a09e667, 0xbb67ae85, 0x3c6ef372, 0xa54ff53a, 0x510e527f, 0x9b05688c, 0x1f83d9ab, 0x5be0cd19)"

text \<open>The 4 paragraphs of sixteen rounds.\<close>

definition sha256_rounds_0 :: "sha256_vars \<Rightarrow> bytes \<Rightarrow> sha256_vars \<times> sha256_window" where
  "sha256_rounds_0 = (\<lambda>(a, b, c, d, e, f, g, h) chunk.
     (let w0 = ReadBE32 (drop 0 chunk);
          (d, h) = sha256_Round a b c d e f g h 0x428a2f98 w0;
          w1 = ReadBE32 (drop 4 chunk);
          (c, g) = sha256_Round h a b c d e f g 0x71374491 w1;
          w2 = ReadBE32 (drop 8 chunk);
          (b, f) = sha256_Round g h a b c d e f 0xb5c0fbcf w2;
          w3 = ReadBE32 (drop 12 chunk);
          (a, e) = sha256_Round f g h a b c d e 0xe9b5dba5 w3;
          w4 = ReadBE32 (drop 16 chunk);
          (h, d) = sha256_Round e f g h a b c d 0x3956c25b w4;
          w5 = ReadBE32 (drop 20 chunk);
          (g, c) = sha256_Round d e f g h a b c 0x59f111f1 w5;
          w6 = ReadBE32 (drop 24 chunk);
          (f, b) = sha256_Round c d e f g h a b 0x923f82a4 w6;
          w7 = ReadBE32 (drop 28 chunk);
          (e, a) = sha256_Round b c d e f g h a 0xab1c5ed5 w7;
          w8 = ReadBE32 (drop 32 chunk);
          (d, h) = sha256_Round a b c d e f g h 0xd807aa98 w8;
          w9 = ReadBE32 (drop 36 chunk);
          (c, g) = sha256_Round h a b c d e f g 0x12835b01 w9;
          w10 = ReadBE32 (drop 40 chunk);
          (b, f) = sha256_Round g h a b c d e f 0x243185be w10;
          w11 = ReadBE32 (drop 44 chunk);
          (a, e) = sha256_Round f g h a b c d e 0x550c7dc3 w11;
          w12 = ReadBE32 (drop 48 chunk);
          (h, d) = sha256_Round e f g h a b c d 0x72be5d74 w12;
          w13 = ReadBE32 (drop 52 chunk);
          (g, c) = sha256_Round d e f g h a b c 0x80deb1fe w13;
          w14 = ReadBE32 (drop 56 chunk);
          (f, b) = sha256_Round c d e f g h a b 0x9bdc06a7 w14;
          w15 = ReadBE32 (drop 60 chunk);
          (e, a) = sha256_Round b c d e f g h a 0xc19bf174 w15
      in ((a, b, c, d, e, f, g, h), (w0, w1, w2, w3, w4, w5, w6, w7, w8, w9, w10, w11, w12, w13, w14, w15))))"

definition sha256_rounds_1 :: "sha256_vars \<Rightarrow> sha256_window \<Rightarrow> sha256_vars \<times> sha256_window" where
  "sha256_rounds_1 = (\<lambda>(a, b, c, d, e, f, g, h) (w0, w1, w2, w3, w4, w5, w6, w7, w8, w9, w10, w11, w12, w13, w14, w15).
     (let w0 = w0 + (sha256_sigma1 w14 + w9 + sha256_sigma0 w1);
          (d, h) = sha256_Round a b c d e f g h 0xe49b69c1 w0;
          w1 = w1 + (sha256_sigma1 w15 + w10 + sha256_sigma0 w2);
          (c, g) = sha256_Round h a b c d e f g 0xefbe4786 w1;
          w2 = w2 + (sha256_sigma1 w0 + w11 + sha256_sigma0 w3);
          (b, f) = sha256_Round g h a b c d e f 0x0fc19dc6 w2;
          w3 = w3 + (sha256_sigma1 w1 + w12 + sha256_sigma0 w4);
          (a, e) = sha256_Round f g h a b c d e 0x240ca1cc w3;
          w4 = w4 + (sha256_sigma1 w2 + w13 + sha256_sigma0 w5);
          (h, d) = sha256_Round e f g h a b c d 0x2de92c6f w4;
          w5 = w5 + (sha256_sigma1 w3 + w14 + sha256_sigma0 w6);
          (g, c) = sha256_Round d e f g h a b c 0x4a7484aa w5;
          w6 = w6 + (sha256_sigma1 w4 + w15 + sha256_sigma0 w7);
          (f, b) = sha256_Round c d e f g h a b 0x5cb0a9dc w6;
          w7 = w7 + (sha256_sigma1 w5 + w0 + sha256_sigma0 w8);
          (e, a) = sha256_Round b c d e f g h a 0x76f988da w7;
          w8 = w8 + (sha256_sigma1 w6 + w1 + sha256_sigma0 w9);
          (d, h) = sha256_Round a b c d e f g h 0x983e5152 w8;
          w9 = w9 + (sha256_sigma1 w7 + w2 + sha256_sigma0 w10);
          (c, g) = sha256_Round h a b c d e f g 0xa831c66d w9;
          w10 = w10 + (sha256_sigma1 w8 + w3 + sha256_sigma0 w11);
          (b, f) = sha256_Round g h a b c d e f 0xb00327c8 w10;
          w11 = w11 + (sha256_sigma1 w9 + w4 + sha256_sigma0 w12);
          (a, e) = sha256_Round f g h a b c d e 0xbf597fc7 w11;
          w12 = w12 + (sha256_sigma1 w10 + w5 + sha256_sigma0 w13);
          (h, d) = sha256_Round e f g h a b c d 0xc6e00bf3 w12;
          w13 = w13 + (sha256_sigma1 w11 + w6 + sha256_sigma0 w14);
          (g, c) = sha256_Round d e f g h a b c 0xd5a79147 w13;
          w14 = w14 + (sha256_sigma1 w12 + w7 + sha256_sigma0 w15);
          (f, b) = sha256_Round c d e f g h a b 0x06ca6351 w14;
          w15 = w15 + (sha256_sigma1 w13 + w8 + sha256_sigma0 w0);
          (e, a) = sha256_Round b c d e f g h a 0x14292967 w15
      in ((a, b, c, d, e, f, g, h), (w0, w1, w2, w3, w4, w5, w6, w7, w8, w9, w10, w11, w12, w13, w14, w15))))"

definition sha256_rounds_2 :: "sha256_vars \<Rightarrow> sha256_window \<Rightarrow> sha256_vars \<times> sha256_window" where
  "sha256_rounds_2 = (\<lambda>(a, b, c, d, e, f, g, h) (w0, w1, w2, w3, w4, w5, w6, w7, w8, w9, w10, w11, w12, w13, w14, w15).
     (let w0 = w0 + (sha256_sigma1 w14 + w9 + sha256_sigma0 w1);
          (d, h) = sha256_Round a b c d e f g h 0x27b70a85 w0;
          w1 = w1 + (sha256_sigma1 w15 + w10 + sha256_sigma0 w2);
          (c, g) = sha256_Round h a b c d e f g 0x2e1b2138 w1;
          w2 = w2 + (sha256_sigma1 w0 + w11 + sha256_sigma0 w3);
          (b, f) = sha256_Round g h a b c d e f 0x4d2c6dfc w2;
          w3 = w3 + (sha256_sigma1 w1 + w12 + sha256_sigma0 w4);
          (a, e) = sha256_Round f g h a b c d e 0x53380d13 w3;
          w4 = w4 + (sha256_sigma1 w2 + w13 + sha256_sigma0 w5);
          (h, d) = sha256_Round e f g h a b c d 0x650a7354 w4;
          w5 = w5 + (sha256_sigma1 w3 + w14 + sha256_sigma0 w6);
          (g, c) = sha256_Round d e f g h a b c 0x766a0abb w5;
          w6 = w6 + (sha256_sigma1 w4 + w15 + sha256_sigma0 w7);
          (f, b) = sha256_Round c d e f g h a b 0x81c2c92e w6;
          w7 = w7 + (sha256_sigma1 w5 + w0 + sha256_sigma0 w8);
          (e, a) = sha256_Round b c d e f g h a 0x92722c85 w7;
          w8 = w8 + (sha256_sigma1 w6 + w1 + sha256_sigma0 w9);
          (d, h) = sha256_Round a b c d e f g h 0xa2bfe8a1 w8;
          w9 = w9 + (sha256_sigma1 w7 + w2 + sha256_sigma0 w10);
          (c, g) = sha256_Round h a b c d e f g 0xa81a664b w9;
          w10 = w10 + (sha256_sigma1 w8 + w3 + sha256_sigma0 w11);
          (b, f) = sha256_Round g h a b c d e f 0xc24b8b70 w10;
          w11 = w11 + (sha256_sigma1 w9 + w4 + sha256_sigma0 w12);
          (a, e) = sha256_Round f g h a b c d e 0xc76c51a3 w11;
          w12 = w12 + (sha256_sigma1 w10 + w5 + sha256_sigma0 w13);
          (h, d) = sha256_Round e f g h a b c d 0xd192e819 w12;
          w13 = w13 + (sha256_sigma1 w11 + w6 + sha256_sigma0 w14);
          (g, c) = sha256_Round d e f g h a b c 0xd6990624 w13;
          w14 = w14 + (sha256_sigma1 w12 + w7 + sha256_sigma0 w15);
          (f, b) = sha256_Round c d e f g h a b 0xf40e3585 w14;
          w15 = w15 + (sha256_sigma1 w13 + w8 + sha256_sigma0 w0);
          (e, a) = sha256_Round b c d e f g h a 0x106aa070 w15
      in ((a, b, c, d, e, f, g, h), (w0, w1, w2, w3, w4, w5, w6, w7, w8, w9, w10, w11, w12, w13, w14, w15))))"

definition sha256_rounds_3 :: "sha256_vars \<Rightarrow> sha256_window \<Rightarrow> sha256_vars" where
  "sha256_rounds_3 = (\<lambda>(a, b, c, d, e, f, g, h) (w0, w1, w2, w3, w4, w5, w6, w7, w8, w9, w10, w11, w12, w13, w14, w15).
     (let w0 = w0 + (sha256_sigma1 w14 + w9 + sha256_sigma0 w1);
          (d, h) = sha256_Round a b c d e f g h 0x19a4c116 w0;
          w1 = w1 + (sha256_sigma1 w15 + w10 + sha256_sigma0 w2);
          (c, g) = sha256_Round h a b c d e f g 0x1e376c08 w1;
          w2 = w2 + (sha256_sigma1 w0 + w11 + sha256_sigma0 w3);
          (b, f) = sha256_Round g h a b c d e f 0x2748774c w2;
          w3 = w3 + (sha256_sigma1 w1 + w12 + sha256_sigma0 w4);
          (a, e) = sha256_Round f g h a b c d e 0x34b0bcb5 w3;
          w4 = w4 + (sha256_sigma1 w2 + w13 + sha256_sigma0 w5);
          (h, d) = sha256_Round e f g h a b c d 0x391c0cb3 w4;
          w5 = w5 + (sha256_sigma1 w3 + w14 + sha256_sigma0 w6);
          (g, c) = sha256_Round d e f g h a b c 0x4ed8aa4a w5;
          w6 = w6 + (sha256_sigma1 w4 + w15 + sha256_sigma0 w7);
          (f, b) = sha256_Round c d e f g h a b 0x5b9cca4f w6;
          w7 = w7 + (sha256_sigma1 w5 + w0 + sha256_sigma0 w8);
          (e, a) = sha256_Round b c d e f g h a 0x682e6ff3 w7;
          w8 = w8 + (sha256_sigma1 w6 + w1 + sha256_sigma0 w9);
          (d, h) = sha256_Round a b c d e f g h 0x748f82ee w8;
          w9 = w9 + (sha256_sigma1 w7 + w2 + sha256_sigma0 w10);
          (c, g) = sha256_Round h a b c d e f g 0x78a5636f w9;
          w10 = w10 + (sha256_sigma1 w8 + w3 + sha256_sigma0 w11);
          (b, f) = sha256_Round g h a b c d e f 0x84c87814 w10;
          w11 = w11 + (sha256_sigma1 w9 + w4 + sha256_sigma0 w12);
          (a, e) = sha256_Round f g h a b c d e 0x8cc70208 w11;
          w12 = w12 + (sha256_sigma1 w10 + w5 + sha256_sigma0 w13);
          (h, d) = sha256_Round e f g h a b c d 0x90befffa w12;
          w13 = w13 + (sha256_sigma1 w11 + w6 + sha256_sigma0 w14);
          (g, c) = sha256_Round d e f g h a b c 0xa4506ceb w13;
          x14 = w14 + sha256_sigma1 w12 + w7 + sha256_sigma0 w15;
          (f, b) = sha256_Round c d e f g h a b 0xbef9a3f7 x14;
          x15 = w15 + sha256_sigma1 w13 + w8 + sha256_sigma0 w0;
          (e, a) = sha256_Round b c d e f g h a 0xc67178f2 x15
      in (a, b, c, d, e, f, g, h)))"

fun sha256_add :: "sha256_vars \<Rightarrow> sha256_vars \<Rightarrow> sha256_vars" where
  "sha256_add (s0, s1, s2, s3, s4, s5, s6, s7) (a, b, c, d, e, f, g, h) =
     (s0 + a, s1 + b, s2 + c, s3 + d, s4 + e, s5 + f, s6 + g, s7 + h)"

definition sha256_Transform :: "sha256_vars \<Rightarrow> bytes \<Rightarrow> sha256_vars" where
  "sha256_Transform s chunk =
     (let (v, w) = sha256_rounds_0 s chunk;
          (v, w) = sha256_rounds_1 v w;
          (v, w) = sha256_rounds_2 v w;
          v = sha256_rounds_3 v w
      in sha256_add s v)"

text \<open>The hasher class. The constructor leaves \<^verbatim>\<open>buf\<close> as it finds it.\<close>

type_synonym CSHA256 = "sha256_vars hasher"

definition CSHA256_init :: "bytes \<Rightarrow> CSHA256" where
  "CSHA256_init mem = \<lparr>hs = sha256_Initialize, buf = mem, nbytes = 0\<rparr>"

definition CSHA256_Write :: "CSHA256 \<Rightarrow> bytes \<Rightarrow> CSHA256" where
  "CSHA256_Write = hash_Write sha256_Transform 64"

fun sha256_output :: "sha256_vars \<Rightarrow> bytes" where
  "sha256_output (s0, s1, s2, s3, s4, s5, s6, s7) =
     WriteBE32 s0 @ WriteBE32 s1 @ WriteBE32 s2 @ WriteBE32 s3 @ WriteBE32 s4 @ WriteBE32 s5 @ WriteBE32 s6 @ WriteBE32 s7"

definition CSHA256_Finalize :: "CSHA256 \<Rightarrow> bytes \<times> CSHA256" where
  "CSHA256_Finalize h = (let h = hash_pad sha256_Transform 64 119 WriteBE64 h in (sha256_output (hs h), h))"

definition CSHA256_Reset :: "CSHA256 \<Rightarrow> CSHA256" where
  "CSHA256_Reset h = h\<lparr>nbytes := 0, hs := sha256_Initialize\<rparr>"

subsection \<open>Reference: the compression function of the standard\<close>

text \<open>
  The constants of the standard are the first 32 bits of the fractional parts of the cube roots of the first
  64 primes.
\<close>

definition sha256_k :: "nat \<Rightarrow> u32" where
  "sha256_k p = of_nat (cube_root (p * 2 ^ 96))"

definition sha256_K :: "u32 list" where
  "sha256_K = map sha256_k (take 64 sha_primes)"

fun sha256_fips :: "sha256_vars \<Rightarrow> u32 \<Rightarrow> u32 \<Rightarrow> sha256_vars" where
  "sha256_fips (a, b, c, d, e, f, g, h) k w =
     (let t1 = h + (word_rotr 6 e XOR word_rotr 11 e XOR word_rotr 25 e) + ((e AND f) XOR (NOT e AND g)) + k + w;
          t2 = (word_rotr 2 a XOR word_rotr 13 a XOR word_rotr 22 a) + ((a AND b) XOR (a AND c) XOR (b AND c))
      in (t1 + t2, a, b, c, d + t1, e, f, g))"

definition sha256_extend :: "u32 list \<Rightarrow> u32" where
  "sha256_extend ws = (word_rotr 17 (ws ! 14) XOR word_rotr 19 (ws ! 14) XOR drop_bit 10 (ws ! 14)) + ws ! 9 + (word_rotr 7 (ws ! 1) XOR word_rotr 18 (ws ! 1) XOR drop_bit 3 (ws ! 1)) + ws ! 0"

definition sha256_compress :: "sha256_vars \<Rightarrow> bytes \<Rightarrow> sha256_vars" where
  "sha256_compress s chunk =
     sha256_add s (rounds sha256_fips
       (zip sha256_K (schedule sha256_extend 48 (map (\<lambda>i. ReadBE32 (drop (4 * i) chunk)) [0..<16]))) s)"

lemma sha256_k_eqI:
  assumes "(root_part p * 2 ^ 32 + numeral k) ^ 3 \<le> p * 2 ^ 96" and "p * 2 ^ 96 < (root_part p * 2 ^ 32 + numeral k + 1) ^ 3"
  shows "sha256_k p = numeral k"
proof -
  have "(of_nat (2 ^ 32) :: u32) = 0"
    by simp
  then have "(of_nat (root_part p * 2 ^ 32 + numeral k) :: u32) = numeral k"
    by (simp only: of_nat_add of_nat_mult mult_zero_right add_0_left of_nat_numeral)
  then show ?thesis
    by (simp only: sha256_k_def cube_root_eq [OF assms])
qed

lemma sha256_k_values:
  "sha256_k 2 = 0x428a2f98"
  "sha256_k 3 = 0x71374491"
  "sha256_k 5 = 0xb5c0fbcf"
  "sha256_k 7 = 0xe9b5dba5"
  "sha256_k 11 = 0x3956c25b"
  "sha256_k 13 = 0x59f111f1"
  "sha256_k 17 = 0x923f82a4"
  "sha256_k 19 = 0xab1c5ed5"
  "sha256_k 23 = 0xd807aa98"
  "sha256_k 29 = 0x12835b01"
  "sha256_k 31 = 0x243185be"
  "sha256_k 37 = 0x550c7dc3"
  "sha256_k 41 = 0x72be5d74"
  "sha256_k 43 = 0x80deb1fe"
  "sha256_k 47 = 0x9bdc06a7"
  "sha256_k 53 = 0xc19bf174"
  "sha256_k 59 = 0xe49b69c1"
  "sha256_k 61 = 0xefbe4786"
  "sha256_k 67 = 0x0fc19dc6"
  "sha256_k 71 = 0x240ca1cc"
  "sha256_k 73 = 0x2de92c6f"
  "sha256_k 79 = 0x4a7484aa"
  "sha256_k 83 = 0x5cb0a9dc"
  "sha256_k 89 = 0x76f988da"
  "sha256_k 97 = 0x983e5152"
  "sha256_k 101 = 0xa831c66d"
  "sha256_k 103 = 0xb00327c8"
  "sha256_k 107 = 0xbf597fc7"
  "sha256_k 109 = 0xc6e00bf3"
  "sha256_k 113 = 0xd5a79147"
  "sha256_k 127 = 0x06ca6351"
  "sha256_k 131 = 0x14292967"
  "sha256_k 137 = 0x27b70a85"
  "sha256_k 139 = 0x2e1b2138"
  "sha256_k 149 = 0x4d2c6dfc"
  "sha256_k 151 = 0x53380d13"
  "sha256_k 157 = 0x650a7354"
  "sha256_k 163 = 0x766a0abb"
  "sha256_k 167 = 0x81c2c92e"
  "sha256_k 173 = 0x92722c85"
  "sha256_k 179 = 0xa2bfe8a1"
  "sha256_k 181 = 0xa81a664b"
  "sha256_k 191 = 0xc24b8b70"
  "sha256_k 193 = 0xc76c51a3"
  "sha256_k 197 = 0xd192e819"
  "sha256_k 199 = 0xd6990624"
  "sha256_k 211 = 0xf40e3585"
  "sha256_k 223 = 0x106aa070"
  "sha256_k 227 = 0x19a4c116"
  "sha256_k 229 = 0x1e376c08"
  "sha256_k 233 = 0x2748774c"
  "sha256_k 239 = 0x34b0bcb5"
  "sha256_k 241 = 0x391c0cb3"
  "sha256_k 251 = 0x4ed8aa4a"
  "sha256_k 257 = 0x5b9cca4f"
  "sha256_k 263 = 0x682e6ff3"
  "sha256_k 269 = 0x748f82ee"
  "sha256_k 271 = 0x78a5636f"
  "sha256_k 277 = 0x84c87814"
  "sha256_k 281 = 0x8cc70208"
  "sha256_k 283 = 0x90befffa"
  "sha256_k 293 = 0xa4506ceb"
  "sha256_k 307 = 0xbef9a3f7"
  "sha256_k 311 = 0xc67178f2"
  by ((rule sha256_k_eqI; simp add: root_part_def)+)

lemma sha256_functions:
  "sha256_sigma0 = (\<lambda>x. word_rotr 7 x XOR word_rotr 18 x XOR drop_bit 3 x)"
  "sha256_sigma1 = (\<lambda>x. word_rotr 17 x XOR word_rotr 19 x XOR drop_bit 10 x)"
  "sha256_Sigma0 = (\<lambda>x. word_rotr 2 x XOR word_rotr 13 x XOR word_rotr 22 x)"
  "sha256_Sigma1 = (\<lambda>x. word_rotr 6 x XOR word_rotr 11 x XOR word_rotr 25 x)"
  "sha256_Ch = (\<lambda>x y z. (x AND y) XOR (NOT x AND z))"
  "sha256_Maj = (\<lambda>x y z. (x AND y) XOR (x AND z) XOR (y AND z))"
  unfolding sha256_sigma0_def sha256_sigma1_def sha256_Sigma0_def sha256_Sigma1_def sha256_Ch_def sha256_Maj_def
  using rotate_shifts [where ?'a = 32 and n = 2] rotate_shifts [where ?'a = 32 and n = 6] rotate_shifts [where ?'a = 32 and n = 7] rotate_shifts [where ?'a = 32 and n = 11] rotate_shifts [where ?'a = 32 and n = 13] rotate_shifts [where ?'a = 32 and n = 17] rotate_shifts [where ?'a = 32 and n = 18] rotate_shifts [where ?'a = 32 and n = 19] rotate_shifts [where ?'a = 32 and n = 22] rotate_shifts [where ?'a = 32 and n = 25]
  by (auto simp: fun_eq_iff bit_eq_iff bit_simps)

fun sha256_step :: "sha256_vars \<Rightarrow> u32 \<Rightarrow> u32 \<Rightarrow> (sha256_vars \<Rightarrow> 'r) \<Rightarrow> 'r" where
  "sha256_step (a, b, c, d, e, f, g, h) k w \<kappa> = (let (d', h') = sha256_Round a b c d e f g h k w in \<kappa> (h', a, b, c, d', e, f, g))"

lemma sha256_step_fips: "sha256_step v k w \<kappa> = \<kappa> (sha256_fips v k w)"
  by (cases v rule: prod_cases8) (simp add: sha256_Round_def sha256_functions Let_def)

lemma sha256_extend_window: "sha256_extend = (\<lambda>ws. ws ! 0 + (sha256_sigma1 (ws ! 14) + ws ! 9 + sha256_sigma0 (ws ! 1)))"
  by (simp add: fun_eq_iff sha256_extend_def sha256_functions)

subsection \<open>The unrolled rounds\<close>

text \<open>Each paragraph is sixteen rounds of the reference, in the rotated variables.\<close>

lemma sha256_unroll_0:
  "sha256_rounds_0 (a, b, c, d, e, f, g, h) chunk =
     run_load sha256_step (\<lambda>v ws. (v, window ws))
       (zip [sha256_k 2, sha256_k 3, sha256_k 5, sha256_k 7, sha256_k 11, sha256_k 13, sha256_k 17, sha256_k 19, sha256_k 23, sha256_k 29, sha256_k 31, sha256_k 37, sha256_k 41, sha256_k 43, sha256_k 47, sha256_k 53]
          [ReadBE32 (drop 0 chunk), ReadBE32 (drop 4 chunk), ReadBE32 (drop 8 chunk), ReadBE32 (drop 12 chunk), ReadBE32 (drop 16 chunk), ReadBE32 (drop 20 chunk), ReadBE32 (drop 24 chunk), ReadBE32 (drop 28 chunk), ReadBE32 (drop 32 chunk), ReadBE32 (drop 36 chunk), ReadBE32 (drop 40 chunk), ReadBE32 (drop 44 chunk), ReadBE32 (drop 48 chunk), ReadBE32 (drop 52 chunk), ReadBE32 (drop 56 chunk), ReadBE32 (drop 60 chunk)]) (a, b, c, d, e, f, g, h) []"
  unfolding sha256_rounds_0_def unroll_rounds sha256_k_values sha256_step.simps by (rule refl)

lemma sha256_unroll_1:
  "sha256_rounds_1 (a, b, c, d, e, f, g, h) (w0, w1, w2, w3, w4, w5, w6, w7, w8, w9, w10, w11, w12, w13, w14, w15) =
     run_mix sha256_step sha256_extend (\<lambda>v ws. (v, window ws))
       [sha256_k 59, sha256_k 61, sha256_k 67, sha256_k 71, sha256_k 73, sha256_k 79, sha256_k 83, sha256_k 89, sha256_k 97, sha256_k 101, sha256_k 103, sha256_k 107, sha256_k 109, sha256_k 113, sha256_k 127, sha256_k 131] (a, b, c, d, e, f, g, h) [w0, w1, w2, w3, w4, w5, w6, w7, w8, w9, w10, w11, w12, w13, w14, w15]"
  unfolding sha256_rounds_1_def sha256_extend_window unroll_rounds sha256_k_values sha256_step.simps by (rule refl)

lemma sha256_paragraph_1:
  "length ws = 16 \<Longrightarrow> sha256_rounds_1 v (window ws) =
     run_mix sha256_step sha256_extend (\<lambda>v ws. (v, window ws))
       [sha256_k 59, sha256_k 61, sha256_k 67, sha256_k 71, sha256_k 73, sha256_k 79, sha256_k 83, sha256_k 89, sha256_k 97, sha256_k 101, sha256_k 103, sha256_k 107, sha256_k 109, sha256_k 113, sha256_k 127, sha256_k 131] v ws"
  by (cases v rule: prod_cases8) (simp only: window_def sha256_unroll_1 sixteen_list)

lemma sha256_unroll_2:
  "sha256_rounds_2 (a, b, c, d, e, f, g, h) (w0, w1, w2, w3, w4, w5, w6, w7, w8, w9, w10, w11, w12, w13, w14, w15) =
     run_mix sha256_step sha256_extend (\<lambda>v ws. (v, window ws))
       [sha256_k 137, sha256_k 139, sha256_k 149, sha256_k 151, sha256_k 157, sha256_k 163, sha256_k 167, sha256_k 173, sha256_k 179, sha256_k 181, sha256_k 191, sha256_k 193, sha256_k 197, sha256_k 199, sha256_k 211, sha256_k 223] (a, b, c, d, e, f, g, h) [w0, w1, w2, w3, w4, w5, w6, w7, w8, w9, w10, w11, w12, w13, w14, w15]"
  unfolding sha256_rounds_2_def sha256_extend_window unroll_rounds sha256_k_values sha256_step.simps by (rule refl)

lemma sha256_paragraph_2:
  "length ws = 16 \<Longrightarrow> sha256_rounds_2 v (window ws) =
     run_mix sha256_step sha256_extend (\<lambda>v ws. (v, window ws))
       [sha256_k 137, sha256_k 139, sha256_k 149, sha256_k 151, sha256_k 157, sha256_k 163, sha256_k 167, sha256_k 173, sha256_k 179, sha256_k 181, sha256_k 191, sha256_k 193, sha256_k 197, sha256_k 199, sha256_k 211, sha256_k 223] v ws"
  by (cases v rule: prod_cases8) (simp only: window_def sha256_unroll_2 sixteen_list)

lemma sha256_unroll_3:
  "sha256_rounds_3 (a, b, c, d, e, f, g, h) (w0, w1, w2, w3, w4, w5, w6, w7, w8, w9, w10, w11, w12, w13, w14, w15) =
     run_mix sha256_step sha256_extend (\<lambda>v _. v)
       [sha256_k 227, sha256_k 229, sha256_k 233, sha256_k 239, sha256_k 241, sha256_k 251, sha256_k 257, sha256_k 263, sha256_k 269, sha256_k 271, sha256_k 277, sha256_k 281, sha256_k 283, sha256_k 293, sha256_k 307, sha256_k 311] (a, b, c, d, e, f, g, h) [w0, w1, w2, w3, w4, w5, w6, w7, w8, w9, w10, w11, w12, w13, w14, w15]"
  unfolding sha256_rounds_3_def sha256_extend_window unroll_rounds sha256_k_values sha256_step.simps add.assoc by (rule refl)

lemma sha256_paragraph_3:
  "length ws = 16 \<Longrightarrow> sha256_rounds_3 v (window ws) =
     run_mix sha256_step sha256_extend (\<lambda>v _. v)
       [sha256_k 227, sha256_k 229, sha256_k 233, sha256_k 239, sha256_k 241, sha256_k 251, sha256_k 257, sha256_k 263, sha256_k 269, sha256_k 271, sha256_k 277, sha256_k 281, sha256_k 283, sha256_k 293, sha256_k 307, sha256_k 311] v ws"
  by (cases v rule: prod_cases8) (simp only: window_def sha256_unroll_3 sixteen_list)

subsection \<open>The compression function is that of the standard\<close>

lemma sha256_words:
  "[ReadBE32 (drop 0 chunk), ReadBE32 (drop 4 chunk), ReadBE32 (drop 8 chunk), ReadBE32 (drop 12 chunk), ReadBE32 (drop 16 chunk), ReadBE32 (drop 20 chunk), ReadBE32 (drop 24 chunk), ReadBE32 (drop 28 chunk), ReadBE32 (drop 32 chunk), ReadBE32 (drop 36 chunk), ReadBE32 (drop 40 chunk), ReadBE32 (drop 44 chunk), ReadBE32 (drop 48 chunk), ReadBE32 (drop 52 chunk), ReadBE32 (drop 56 chunk), ReadBE32 (drop 60 chunk)] =
     map (\<lambda>i. ReadBE32 (drop (4 * i) chunk)) [0..<16]"
  by (simp add: upt_rec)

lemma sha256_Transform_fips: "sha256_Transform s chunk = sha256_compress s chunk"
proof -
  define M where "M = map (\<lambda>i. ReadBE32 (drop (4 * i) chunk)) [0..<16]"
  have M: "length M = 16" by (simp add: M_def)
  define C where "C = chain sha256_fips sha256_extend sha256_K M s"
  define S where "S n = drop n (schedule sha256_extend n M)" for n
  have S: "length (S n) = 16" for n by (simp add: S_def M)
  have p0: "sha256_rounds_0 s chunk = (C 0, window (S 0))"
  proof -
    let ?k0 = "[sha256_k 2, sha256_k 3, sha256_k 5, sha256_k 7, sha256_k 11, sha256_k 13, sha256_k 17, sha256_k 19, sha256_k 23, sha256_k 29, sha256_k 31, sha256_k 37, sha256_k 41, sha256_k 43, sha256_k 47, sha256_k 53]"
    have "map snd (zip ?k0 M) = M" "take (16 + 0) sha256_K = ?k0" using M by (simp_all add: sha256_K_def sha_primes_def)
    then show ?thesis
      by (cases s rule: prod_cases8)
        (simp only: sha256_unroll_0 sha256_words [of chunk, folded M_def] run_load_rounds [where S = sha256_step and st = sha256_fips, OF sha256_step_fips] append_Nil
           schedule.simps C_def S_def chain_def, simp only: drop_0)
  qed
  have p1: "sha256_rounds_1 (C 0) (window (S 0)) = (C (0 + 16), window (S (0 + 16)))"
    unfolding sha256_paragraph_1 [OF S] unfolding C_def S_def
    by (rule chain_paragraph [where S = sha256_step and st = sha256_fips and K = "\<lambda>v ws. (v, window ws)", OF sha256_step_fips M]) (simp_all add: sha256_K_def sha_primes_def)
  have p2: "sha256_rounds_2 (C 16) (window (S 16)) = (C (16 + 16), window (S (16 + 16)))"
    unfolding sha256_paragraph_2 [OF S] unfolding C_def S_def
    by (rule chain_paragraph [where S = sha256_step and st = sha256_fips and K = "\<lambda>v ws. (v, window ws)", OF sha256_step_fips M]) (simp_all add: sha256_K_def sha_primes_def)
  have p3: "sha256_rounds_3 (C 32) (window (S 32)) = C (32 + 16)"
    unfolding sha256_paragraph_3 [OF S] unfolding C_def S_def
    by (rule chain_paragraph [where S = sha256_step and st = sha256_fips and K = "\<lambda>v _. v", OF sha256_step_fips M]) (simp_all add: sha256_K_def sha_primes_def)
  have "sha256_Transform s chunk = sha256_add s (C 48)"
    by (simp add: sha256_Transform_def Let_def p0 p1 p2 p3)
  also have "C 48 = rounds sha256_fips (zip sha256_K (schedule sha256_extend 48 M)) s"
    by (simp add: C_def chain_def sha256_K_def sha_primes_def)
  finally show ?thesis
    by (simp only: sha256_compress_def M_def)
qed

lemma sha256_Transform_eq: "sha256_Transform = sha256_compress"
  by (simp add: fun_eq_iff sha256_Transform_fips)

subsection \<open>The hasher\<close>

interpretation sha256: block_hash sha256_Transform 64 119 8
  by unfold_locales simp_all

lemma length_sha256_output [simp]: "length (sha256_output s) = 32"
  by (cases s rule: prod_cases8) simp

lemma CSHA256_digest_fold:
  assumes "length mem = 64"
  shows "fst (CSHA256_Finalize (fold (\<lambda>d h. CSHA256_Write h d) ds (CSHA256_init mem))) =
    sha256_output (absorb sha256_compress 64 sha256_Initialize (padded 64 119 WriteBE64 (concat ds)))"
  using sha256.digest [OF assms, where sizedesc = "WriteBE64" and i = sha256_Initialize and ds = ds]
  by (simp add: CSHA256_Finalize_def CSHA256_Write_def CSHA256_init_def Let_def sha256_Transform_eq)

lemma CSHA256_Reset_init: "CSHA256_Reset h = CSHA256_init (buf h)"
  by (simp add: CSHA256_Reset_def CSHA256_init_def)

end
