(* ===== verification/Sha512.thy ===== *)
theory Sha512
  imports Hash_Rounds
begin

text \<open>
  SHA-512, \<^verbatim>\<open>crypto/sha512.cpp\<close>. The compression function is unrolled in the source: the eight
  working variables rotate through the argument positions of \<open>Round\<close>, and the message schedule is computed
  in place in sixteen words. It is shown equal to the rounds and schedule of the standard (FIPS 180-4), and
  the class \<^verbatim>\<open>CSHA512\<close> is an instance of the streaming interface of \<open>Hash_Block\<close>.
\<close>

unbundle bit_operations_syntax

subsection \<open>Definitions\<close>

type_synonym sha512_vars = "u64 \<times> u64 \<times> u64 \<times> u64 \<times> u64 \<times> u64 \<times> u64 \<times> u64"
type_synonym sha512_window = "u64 \<times> u64 \<times> u64 \<times> u64 \<times> u64 \<times> u64 \<times> u64 \<times> u64 \<times> u64 \<times> u64 \<times> u64 \<times> u64 \<times> u64 \<times> u64 \<times> u64 \<times> u64"

definition sha512_Ch :: "u64 \<Rightarrow> u64 \<Rightarrow> u64 \<Rightarrow> u64" where
  "sha512_Ch x y z = z XOR (x AND (y XOR z))"
definition sha512_Maj :: "u64 \<Rightarrow> u64 \<Rightarrow> u64 \<Rightarrow> u64" where
  "sha512_Maj x y z = (x AND y) OR (z AND (x OR y))"
definition sha512_Sigma0 :: "u64 \<Rightarrow> u64" where
  "sha512_Sigma0 x = (drop_bit 28 x OR push_bit 36 x) XOR (drop_bit 34 x OR push_bit 30 x) XOR (drop_bit 39 x OR push_bit 25 x)"
definition sha512_Sigma1 :: "u64 \<Rightarrow> u64" where
  "sha512_Sigma1 x = (drop_bit 14 x OR push_bit 50 x) XOR (drop_bit 18 x OR push_bit 46 x) XOR (drop_bit 41 x OR push_bit 23 x)"
definition sha512_sigma0 :: "u64 \<Rightarrow> u64" where
  "sha512_sigma0 x = (drop_bit 1 x OR push_bit 63 x) XOR (drop_bit 8 x OR push_bit 56 x) XOR drop_bit 7 x"
definition sha512_sigma1 :: "u64 \<Rightarrow> u64" where
  "sha512_sigma1 x = (drop_bit 19 x OR push_bit 45 x) XOR (drop_bit 61 x OR push_bit 3 x) XOR drop_bit 6 x"

definition sha512_Round :: "u64 \<Rightarrow> u64 \<Rightarrow> u64 \<Rightarrow> u64 \<Rightarrow> u64 \<Rightarrow> u64 \<Rightarrow> u64 \<Rightarrow> u64 \<Rightarrow> u64 \<Rightarrow> u64 \<Rightarrow> u64 \<times> u64" where
  "sha512_Round a b c d e f g h k w =
     (let t1 = h + sha512_Sigma1 e + sha512_Ch e f g + k + w;
          t2 = sha512_Sigma0 a + sha512_Maj a b c
      in (d + t1, t1 + t2))"

definition sha512_Initialize :: sha512_vars where
  "sha512_Initialize = (0x6a09e667f3bcc908, 0xbb67ae8584caa73b, 0x3c6ef372fe94f82b, 0xa54ff53a5f1d36f1, 0x510e527fade682d1, 0x9b05688c2b3e6c1f, 0x1f83d9abfb41bd6b, 0x5be0cd19137e2179)"

text \<open>The 5 paragraphs of sixteen rounds.\<close>

definition sha512_rounds_0 :: "sha512_vars \<Rightarrow> bytes \<Rightarrow> sha512_vars \<times> sha512_window" where
  "sha512_rounds_0 = (\<lambda>(a, b, c, d, e, f, g, h) chunk.
     (let w0 = ReadBE64 (drop 0 chunk);
          (d, h) = sha512_Round a b c d e f g h 0x428a2f98d728ae22 w0;
          w1 = ReadBE64 (drop 8 chunk);
          (c, g) = sha512_Round h a b c d e f g 0x7137449123ef65cd w1;
          w2 = ReadBE64 (drop 16 chunk);
          (b, f) = sha512_Round g h a b c d e f 0xb5c0fbcfec4d3b2f w2;
          w3 = ReadBE64 (drop 24 chunk);
          (a, e) = sha512_Round f g h a b c d e 0xe9b5dba58189dbbc w3;
          w4 = ReadBE64 (drop 32 chunk);
          (h, d) = sha512_Round e f g h a b c d 0x3956c25bf348b538 w4;
          w5 = ReadBE64 (drop 40 chunk);
          (g, c) = sha512_Round d e f g h a b c 0x59f111f1b605d019 w5;
          w6 = ReadBE64 (drop 48 chunk);
          (f, b) = sha512_Round c d e f g h a b 0x923f82a4af194f9b w6;
          w7 = ReadBE64 (drop 56 chunk);
          (e, a) = sha512_Round b c d e f g h a 0xab1c5ed5da6d8118 w7;
          w8 = ReadBE64 (drop 64 chunk);
          (d, h) = sha512_Round a b c d e f g h 0xd807aa98a3030242 w8;
          w9 = ReadBE64 (drop 72 chunk);
          (c, g) = sha512_Round h a b c d e f g 0x12835b0145706fbe w9;
          w10 = ReadBE64 (drop 80 chunk);
          (b, f) = sha512_Round g h a b c d e f 0x243185be4ee4b28c w10;
          w11 = ReadBE64 (drop 88 chunk);
          (a, e) = sha512_Round f g h a b c d e 0x550c7dc3d5ffb4e2 w11;
          w12 = ReadBE64 (drop 96 chunk);
          (h, d) = sha512_Round e f g h a b c d 0x72be5d74f27b896f w12;
          w13 = ReadBE64 (drop 104 chunk);
          (g, c) = sha512_Round d e f g h a b c 0x80deb1fe3b1696b1 w13;
          w14 = ReadBE64 (drop 112 chunk);
          (f, b) = sha512_Round c d e f g h a b 0x9bdc06a725c71235 w14;
          w15 = ReadBE64 (drop 120 chunk);
          (e, a) = sha512_Round b c d e f g h a 0xc19bf174cf692694 w15
      in ((a, b, c, d, e, f, g, h), (w0, w1, w2, w3, w4, w5, w6, w7, w8, w9, w10, w11, w12, w13, w14, w15))))"

definition sha512_rounds_1 :: "sha512_vars \<Rightarrow> sha512_window \<Rightarrow> sha512_vars \<times> sha512_window" where
  "sha512_rounds_1 = (\<lambda>(a, b, c, d, e, f, g, h) (w0, w1, w2, w3, w4, w5, w6, w7, w8, w9, w10, w11, w12, w13, w14, w15).
     (let w0 = w0 + (sha512_sigma1 w14 + w9 + sha512_sigma0 w1);
          (d, h) = sha512_Round a b c d e f g h 0xe49b69c19ef14ad2 w0;
          w1 = w1 + (sha512_sigma1 w15 + w10 + sha512_sigma0 w2);
          (c, g) = sha512_Round h a b c d e f g 0xefbe4786384f25e3 w1;
          w2 = w2 + (sha512_sigma1 w0 + w11 + sha512_sigma0 w3);
          (b, f) = sha512_Round g h a b c d e f 0x0fc19dc68b8cd5b5 w2;
          w3 = w3 + (sha512_sigma1 w1 + w12 + sha512_sigma0 w4);
          (a, e) = sha512_Round f g h a b c d e 0x240ca1cc77ac9c65 w3;
          w4 = w4 + (sha512_sigma1 w2 + w13 + sha512_sigma0 w5);
          (h, d) = sha512_Round e f g h a b c d 0x2de92c6f592b0275 w4;
          w5 = w5 + (sha512_sigma1 w3 + w14 + sha512_sigma0 w6);
          (g, c) = sha512_Round d e f g h a b c 0x4a7484aa6ea6e483 w5;
          w6 = w6 + (sha512_sigma1 w4 + w15 + sha512_sigma0 w7);
          (f, b) = sha512_Round c d e f g h a b 0x5cb0a9dcbd41fbd4 w6;
          w7 = w7 + (sha512_sigma1 w5 + w0 + sha512_sigma0 w8);
          (e, a) = sha512_Round b c d e f g h a 0x76f988da831153b5 w7;
          w8 = w8 + (sha512_sigma1 w6 + w1 + sha512_sigma0 w9);
          (d, h) = sha512_Round a b c d e f g h 0x983e5152ee66dfab w8;
          w9 = w9 + (sha512_sigma1 w7 + w2 + sha512_sigma0 w10);
          (c, g) = sha512_Round h a b c d e f g 0xa831c66d2db43210 w9;
          w10 = w10 + (sha512_sigma1 w8 + w3 + sha512_sigma0 w11);
          (b, f) = sha512_Round g h a b c d e f 0xb00327c898fb213f w10;
          w11 = w11 + (sha512_sigma1 w9 + w4 + sha512_sigma0 w12);
          (a, e) = sha512_Round f g h a b c d e 0xbf597fc7beef0ee4 w11;
          w12 = w12 + (sha512_sigma1 w10 + w5 + sha512_sigma0 w13);
          (h, d) = sha512_Round e f g h a b c d 0xc6e00bf33da88fc2 w12;
          w13 = w13 + (sha512_sigma1 w11 + w6 + sha512_sigma0 w14);
          (g, c) = sha512_Round d e f g h a b c 0xd5a79147930aa725 w13;
          w14 = w14 + (sha512_sigma1 w12 + w7 + sha512_sigma0 w15);
          (f, b) = sha512_Round c d e f g h a b 0x06ca6351e003826f w14;
          w15 = w15 + (sha512_sigma1 w13 + w8 + sha512_sigma0 w0);
          (e, a) = sha512_Round b c d e f g h a 0x142929670a0e6e70 w15
      in ((a, b, c, d, e, f, g, h), (w0, w1, w2, w3, w4, w5, w6, w7, w8, w9, w10, w11, w12, w13, w14, w15))))"

definition sha512_rounds_2 :: "sha512_vars \<Rightarrow> sha512_window \<Rightarrow> sha512_vars \<times> sha512_window" where
  "sha512_rounds_2 = (\<lambda>(a, b, c, d, e, f, g, h) (w0, w1, w2, w3, w4, w5, w6, w7, w8, w9, w10, w11, w12, w13, w14, w15).
     (let w0 = w0 + (sha512_sigma1 w14 + w9 + sha512_sigma0 w1);
          (d, h) = sha512_Round a b c d e f g h 0x27b70a8546d22ffc w0;
          w1 = w1 + (sha512_sigma1 w15 + w10 + sha512_sigma0 w2);
          (c, g) = sha512_Round h a b c d e f g 0x2e1b21385c26c926 w1;
          w2 = w2 + (sha512_sigma1 w0 + w11 + sha512_sigma0 w3);
          (b, f) = sha512_Round g h a b c d e f 0x4d2c6dfc5ac42aed w2;
          w3 = w3 + (sha512_sigma1 w1 + w12 + sha512_sigma0 w4);
          (a, e) = sha512_Round f g h a b c d e 0x53380d139d95b3df w3;
          w4 = w4 + (sha512_sigma1 w2 + w13 + sha512_sigma0 w5);
          (h, d) = sha512_Round e f g h a b c d 0x650a73548baf63de w4;
          w5 = w5 + (sha512_sigma1 w3 + w14 + sha512_sigma0 w6);
          (g, c) = sha512_Round d e f g h a b c 0x766a0abb3c77b2a8 w5;
          w6 = w6 + (sha512_sigma1 w4 + w15 + sha512_sigma0 w7);
          (f, b) = sha512_Round c d e f g h a b 0x81c2c92e47edaee6 w6;
          w7 = w7 + (sha512_sigma1 w5 + w0 + sha512_sigma0 w8);
          (e, a) = sha512_Round b c d e f g h a 0x92722c851482353b w7;
          w8 = w8 + (sha512_sigma1 w6 + w1 + sha512_sigma0 w9);
          (d, h) = sha512_Round a b c d e f g h 0xa2bfe8a14cf10364 w8;
          w9 = w9 + (sha512_sigma1 w7 + w2 + sha512_sigma0 w10);
          (c, g) = sha512_Round h a b c d e f g 0xa81a664bbc423001 w9;
          w10 = w10 + (sha512_sigma1 w8 + w3 + sha512_sigma0 w11);
          (b, f) = sha512_Round g h a b c d e f 0xc24b8b70d0f89791 w10;
          w11 = w11 + (sha512_sigma1 w9 + w4 + sha512_sigma0 w12);
          (a, e) = sha512_Round f g h a b c d e 0xc76c51a30654be30 w11;
          w12 = w12 + (sha512_sigma1 w10 + w5 + sha512_sigma0 w13);
          (h, d) = sha512_Round e f g h a b c d 0xd192e819d6ef5218 w12;
          w13 = w13 + (sha512_sigma1 w11 + w6 + sha512_sigma0 w14);
          (g, c) = sha512_Round d e f g h a b c 0xd69906245565a910 w13;
          w14 = w14 + (sha512_sigma1 w12 + w7 + sha512_sigma0 w15);
          (f, b) = sha512_Round c d e f g h a b 0xf40e35855771202a w14;
          w15 = w15 + (sha512_sigma1 w13 + w8 + sha512_sigma0 w0);
          (e, a) = sha512_Round b c d e f g h a 0x106aa07032bbd1b8 w15
      in ((a, b, c, d, e, f, g, h), (w0, w1, w2, w3, w4, w5, w6, w7, w8, w9, w10, w11, w12, w13, w14, w15))))"

definition sha512_rounds_3 :: "sha512_vars \<Rightarrow> sha512_window \<Rightarrow> sha512_vars \<times> sha512_window" where
  "sha512_rounds_3 = (\<lambda>(a, b, c, d, e, f, g, h) (w0, w1, w2, w3, w4, w5, w6, w7, w8, w9, w10, w11, w12, w13, w14, w15).
     (let w0 = w0 + (sha512_sigma1 w14 + w9 + sha512_sigma0 w1);
          (d, h) = sha512_Round a b c d e f g h 0x19a4c116b8d2d0c8 w0;
          w1 = w1 + (sha512_sigma1 w15 + w10 + sha512_sigma0 w2);
          (c, g) = sha512_Round h a b c d e f g 0x1e376c085141ab53 w1;
          w2 = w2 + (sha512_sigma1 w0 + w11 + sha512_sigma0 w3);
          (b, f) = sha512_Round g h a b c d e f 0x2748774cdf8eeb99 w2;
          w3 = w3 + (sha512_sigma1 w1 + w12 + sha512_sigma0 w4);
          (a, e) = sha512_Round f g h a b c d e 0x34b0bcb5e19b48a8 w3;
          w4 = w4 + (sha512_sigma1 w2 + w13 + sha512_sigma0 w5);
          (h, d) = sha512_Round e f g h a b c d 0x391c0cb3c5c95a63 w4;
          w5 = w5 + (sha512_sigma1 w3 + w14 + sha512_sigma0 w6);
          (g, c) = sha512_Round d e f g h a b c 0x4ed8aa4ae3418acb w5;
          w6 = w6 + (sha512_sigma1 w4 + w15 + sha512_sigma0 w7);
          (f, b) = sha512_Round c d e f g h a b 0x5b9cca4f7763e373 w6;
          w7 = w7 + (sha512_sigma1 w5 + w0 + sha512_sigma0 w8);
          (e, a) = sha512_Round b c d e f g h a 0x682e6ff3d6b2b8a3 w7;
          w8 = w8 + (sha512_sigma1 w6 + w1 + sha512_sigma0 w9);
          (d, h) = sha512_Round a b c d e f g h 0x748f82ee5defb2fc w8;
          w9 = w9 + (sha512_sigma1 w7 + w2 + sha512_sigma0 w10);
          (c, g) = sha512_Round h a b c d e f g 0x78a5636f43172f60 w9;
          w10 = w10 + (sha512_sigma1 w8 + w3 + sha512_sigma0 w11);
          (b, f) = sha512_Round g h a b c d e f 0x84c87814a1f0ab72 w10;
          w11 = w11 + (sha512_sigma1 w9 + w4 + sha512_sigma0 w12);
          (a, e) = sha512_Round f g h a b c d e 0x8cc702081a6439ec w11;
          w12 = w12 + (sha512_sigma1 w10 + w5 + sha512_sigma0 w13);
          (h, d) = sha512_Round e f g h a b c d 0x90befffa23631e28 w12;
          w13 = w13 + (sha512_sigma1 w11 + w6 + sha512_sigma0 w14);
          (g, c) = sha512_Round d e f g h a b c 0xa4506cebde82bde9 w13;
          w14 = w14 + (sha512_sigma1 w12 + w7 + sha512_sigma0 w15);
          (f, b) = sha512_Round c d e f g h a b 0xbef9a3f7b2c67915 w14;
          w15 = w15 + (sha512_sigma1 w13 + w8 + sha512_sigma0 w0);
          (e, a) = sha512_Round b c d e f g h a 0xc67178f2e372532b w15
      in ((a, b, c, d, e, f, g, h), (w0, w1, w2, w3, w4, w5, w6, w7, w8, w9, w10, w11, w12, w13, w14, w15))))"

definition sha512_rounds_4 :: "sha512_vars \<Rightarrow> sha512_window \<Rightarrow> sha512_vars" where
  "sha512_rounds_4 = (\<lambda>(a, b, c, d, e, f, g, h) (w0, w1, w2, w3, w4, w5, w6, w7, w8, w9, w10, w11, w12, w13, w14, w15).
     (let w0 = w0 + (sha512_sigma1 w14 + w9 + sha512_sigma0 w1);
          (d, h) = sha512_Round a b c d e f g h 0xca273eceea26619c w0;
          w1 = w1 + (sha512_sigma1 w15 + w10 + sha512_sigma0 w2);
          (c, g) = sha512_Round h a b c d e f g 0xd186b8c721c0c207 w1;
          w2 = w2 + (sha512_sigma1 w0 + w11 + sha512_sigma0 w3);
          (b, f) = sha512_Round g h a b c d e f 0xeada7dd6cde0eb1e w2;
          w3 = w3 + (sha512_sigma1 w1 + w12 + sha512_sigma0 w4);
          (a, e) = sha512_Round f g h a b c d e 0xf57d4f7fee6ed178 w3;
          w4 = w4 + (sha512_sigma1 w2 + w13 + sha512_sigma0 w5);
          (h, d) = sha512_Round e f g h a b c d 0x06f067aa72176fba w4;
          w5 = w5 + (sha512_sigma1 w3 + w14 + sha512_sigma0 w6);
          (g, c) = sha512_Round d e f g h a b c 0x0a637dc5a2c898a6 w5;
          w6 = w6 + (sha512_sigma1 w4 + w15 + sha512_sigma0 w7);
          (f, b) = sha512_Round c d e f g h a b 0x113f9804bef90dae w6;
          w7 = w7 + (sha512_sigma1 w5 + w0 + sha512_sigma0 w8);
          (e, a) = sha512_Round b c d e f g h a 0x1b710b35131c471b w7;
          w8 = w8 + (sha512_sigma1 w6 + w1 + sha512_sigma0 w9);
          (d, h) = sha512_Round a b c d e f g h 0x28db77f523047d84 w8;
          w9 = w9 + (sha512_sigma1 w7 + w2 + sha512_sigma0 w10);
          (c, g) = sha512_Round h a b c d e f g 0x32caab7b40c72493 w9;
          w10 = w10 + (sha512_sigma1 w8 + w3 + sha512_sigma0 w11);
          (b, f) = sha512_Round g h a b c d e f 0x3c9ebe0a15c9bebc w10;
          w11 = w11 + (sha512_sigma1 w9 + w4 + sha512_sigma0 w12);
          (a, e) = sha512_Round f g h a b c d e 0x431d67c49c100d4c w11;
          w12 = w12 + (sha512_sigma1 w10 + w5 + sha512_sigma0 w13);
          (h, d) = sha512_Round e f g h a b c d 0x4cc5d4becb3e42b6 w12;
          w13 = w13 + (sha512_sigma1 w11 + w6 + sha512_sigma0 w14);
          (g, c) = sha512_Round d e f g h a b c 0x597f299cfc657e2a w13;
          x14 = w14 + sha512_sigma1 w12 + w7 + sha512_sigma0 w15;
          (f, b) = sha512_Round c d e f g h a b 0x5fcb6fab3ad6faec x14;
          x15 = w15 + sha512_sigma1 w13 + w8 + sha512_sigma0 w0;
          (e, a) = sha512_Round b c d e f g h a 0x6c44198c4a475817 x15
      in (a, b, c, d, e, f, g, h)))"

fun sha512_add :: "sha512_vars \<Rightarrow> sha512_vars \<Rightarrow> sha512_vars" where
  "sha512_add (s0, s1, s2, s3, s4, s5, s6, s7) (a, b, c, d, e, f, g, h) =
     (s0 + a, s1 + b, s2 + c, s3 + d, s4 + e, s5 + f, s6 + g, s7 + h)"

definition sha512_Transform :: "sha512_vars \<Rightarrow> bytes \<Rightarrow> sha512_vars" where
  "sha512_Transform s chunk =
     (let (v, w) = sha512_rounds_0 s chunk;
          (v, w) = sha512_rounds_1 v w;
          (v, w) = sha512_rounds_2 v w;
          (v, w) = sha512_rounds_3 v w;
          v = sha512_rounds_4 v w
      in sha512_add s v)"

text \<open>The hasher class. The constructor leaves \<^verbatim>\<open>buf\<close> as it finds it.\<close>

type_synonym CSHA512 = "sha512_vars hasher"

definition CSHA512_init :: "bytes \<Rightarrow> CSHA512" where
  "CSHA512_init mem = \<lparr>hs = sha512_Initialize, buf = mem, nbytes = 0\<rparr>"

definition CSHA512_Write :: "CSHA512 \<Rightarrow> bytes \<Rightarrow> CSHA512" where
  "CSHA512_Write = hash_Write sha512_Transform 128"

fun sha512_output :: "sha512_vars \<Rightarrow> bytes" where
  "sha512_output (s0, s1, s2, s3, s4, s5, s6, s7) =
     WriteBE64 s0 @ WriteBE64 s1 @ WriteBE64 s2 @ WriteBE64 s3 @ WriteBE64 s4 @ WriteBE64 s5 @ WriteBE64 s6 @ WriteBE64 s7"

definition CSHA512_Finalize :: "CSHA512 \<Rightarrow> bytes \<times> CSHA512" where
  "CSHA512_Finalize h = (let h = hash_pad sha512_Transform 128 239 (\<lambda>n. replicate 8 0 @ WriteBE64 n) h in (sha512_output (hs h), h))"

definition CSHA512_Reset :: "CSHA512 \<Rightarrow> CSHA512" where
  "CSHA512_Reset h = h\<lparr>nbytes := 0, hs := sha512_Initialize\<rparr>"

subsection \<open>Reference: the compression function of the standard\<close>

text \<open>
  The constants of the standard are the first 64 bits of the fractional parts of the cube roots of the first
  80 primes.
\<close>

definition sha512_k :: "nat \<Rightarrow> u64" where
  "sha512_k p = of_nat (cube_root (p * 2 ^ 192))"

definition sha512_K :: "u64 list" where
  "sha512_K = map sha512_k (take 80 sha_primes)"

fun sha512_fips :: "sha512_vars \<Rightarrow> u64 \<Rightarrow> u64 \<Rightarrow> sha512_vars" where
  "sha512_fips (a, b, c, d, e, f, g, h) k w =
     (let t1 = h + (word_rotr 14 e XOR word_rotr 18 e XOR word_rotr 41 e) + ((e AND f) XOR (NOT e AND g)) + k + w;
          t2 = (word_rotr 28 a XOR word_rotr 34 a XOR word_rotr 39 a) + ((a AND b) XOR (a AND c) XOR (b AND c))
      in (t1 + t2, a, b, c, d + t1, e, f, g))"

definition sha512_extend :: "u64 list \<Rightarrow> u64" where
  "sha512_extend ws = (word_rotr 19 (ws ! 14) XOR word_rotr 61 (ws ! 14) XOR drop_bit 6 (ws ! 14)) + ws ! 9 + (word_rotr 1 (ws ! 1) XOR word_rotr 8 (ws ! 1) XOR drop_bit 7 (ws ! 1)) + ws ! 0"

definition sha512_compress :: "sha512_vars \<Rightarrow> bytes \<Rightarrow> sha512_vars" where
  "sha512_compress s chunk =
     sha512_add s (rounds sha512_fips
       (zip sha512_K (schedule sha512_extend 64 (map (\<lambda>i. ReadBE64 (drop (8 * i) chunk)) [0..<16]))) s)"

lemma sha512_k_eqI:
  assumes "(root_part p * 2 ^ 64 + numeral k) ^ 3 \<le> p * 2 ^ 192" and "p * 2 ^ 192 < (root_part p * 2 ^ 64 + numeral k + 1) ^ 3"
  shows "sha512_k p = numeral k"
proof -
  have "(of_nat (2 ^ 64) :: u64) = 0"
    by simp
  then have "(of_nat (root_part p * 2 ^ 64 + numeral k) :: u64) = numeral k"
    by (simp only: of_nat_add of_nat_mult mult_zero_right add_0_left of_nat_numeral)
  then show ?thesis
    by (simp only: sha512_k_def cube_root_eq [OF assms])
qed

lemma sha512_k_values:
  "sha512_k 2 = 0x428a2f98d728ae22"
  "sha512_k 3 = 0x7137449123ef65cd"
  "sha512_k 5 = 0xb5c0fbcfec4d3b2f"
  "sha512_k 7 = 0xe9b5dba58189dbbc"
  "sha512_k 11 = 0x3956c25bf348b538"
  "sha512_k 13 = 0x59f111f1b605d019"
  "sha512_k 17 = 0x923f82a4af194f9b"
  "sha512_k 19 = 0xab1c5ed5da6d8118"
  "sha512_k 23 = 0xd807aa98a3030242"
  "sha512_k 29 = 0x12835b0145706fbe"
  "sha512_k 31 = 0x243185be4ee4b28c"
  "sha512_k 37 = 0x550c7dc3d5ffb4e2"
  "sha512_k 41 = 0x72be5d74f27b896f"
  "sha512_k 43 = 0x80deb1fe3b1696b1"
  "sha512_k 47 = 0x9bdc06a725c71235"
  "sha512_k 53 = 0xc19bf174cf692694"
  "sha512_k 59 = 0xe49b69c19ef14ad2"
  "sha512_k 61 = 0xefbe4786384f25e3"
  "sha512_k 67 = 0x0fc19dc68b8cd5b5"
  "sha512_k 71 = 0x240ca1cc77ac9c65"
  "sha512_k 73 = 0x2de92c6f592b0275"
  "sha512_k 79 = 0x4a7484aa6ea6e483"
  "sha512_k 83 = 0x5cb0a9dcbd41fbd4"
  "sha512_k 89 = 0x76f988da831153b5"
  "sha512_k 97 = 0x983e5152ee66dfab"
  "sha512_k 101 = 0xa831c66d2db43210"
  "sha512_k 103 = 0xb00327c898fb213f"
  "sha512_k 107 = 0xbf597fc7beef0ee4"
  "sha512_k 109 = 0xc6e00bf33da88fc2"
  "sha512_k 113 = 0xd5a79147930aa725"
  "sha512_k 127 = 0x06ca6351e003826f"
  "sha512_k 131 = 0x142929670a0e6e70"
  "sha512_k 137 = 0x27b70a8546d22ffc"
  "sha512_k 139 = 0x2e1b21385c26c926"
  "sha512_k 149 = 0x4d2c6dfc5ac42aed"
  "sha512_k 151 = 0x53380d139d95b3df"
  "sha512_k 157 = 0x650a73548baf63de"
  "sha512_k 163 = 0x766a0abb3c77b2a8"
  "sha512_k 167 = 0x81c2c92e47edaee6"
  "sha512_k 173 = 0x92722c851482353b"
  "sha512_k 179 = 0xa2bfe8a14cf10364"
  "sha512_k 181 = 0xa81a664bbc423001"
  "sha512_k 191 = 0xc24b8b70d0f89791"
  "sha512_k 193 = 0xc76c51a30654be30"
  "sha512_k 197 = 0xd192e819d6ef5218"
  "sha512_k 199 = 0xd69906245565a910"
  "sha512_k 211 = 0xf40e35855771202a"
  "sha512_k 223 = 0x106aa07032bbd1b8"
  "sha512_k 227 = 0x19a4c116b8d2d0c8"
  "sha512_k 229 = 0x1e376c085141ab53"
  "sha512_k 233 = 0x2748774cdf8eeb99"
  "sha512_k 239 = 0x34b0bcb5e19b48a8"
  "sha512_k 241 = 0x391c0cb3c5c95a63"
  "sha512_k 251 = 0x4ed8aa4ae3418acb"
  "sha512_k 257 = 0x5b9cca4f7763e373"
  "sha512_k 263 = 0x682e6ff3d6b2b8a3"
  "sha512_k 269 = 0x748f82ee5defb2fc"
  "sha512_k 271 = 0x78a5636f43172f60"
  "sha512_k 277 = 0x84c87814a1f0ab72"
  "sha512_k 281 = 0x8cc702081a6439ec"
  "sha512_k 283 = 0x90befffa23631e28"
  "sha512_k 293 = 0xa4506cebde82bde9"
  "sha512_k 307 = 0xbef9a3f7b2c67915"
  "sha512_k 311 = 0xc67178f2e372532b"
  "sha512_k 313 = 0xca273eceea26619c"
  "sha512_k 317 = 0xd186b8c721c0c207"
  "sha512_k 331 = 0xeada7dd6cde0eb1e"
  "sha512_k 337 = 0xf57d4f7fee6ed178"
  "sha512_k 347 = 0x06f067aa72176fba"
  "sha512_k 349 = 0x0a637dc5a2c898a6"
  "sha512_k 353 = 0x113f9804bef90dae"
  "sha512_k 359 = 0x1b710b35131c471b"
  "sha512_k 367 = 0x28db77f523047d84"
  "sha512_k 373 = 0x32caab7b40c72493"
  "sha512_k 379 = 0x3c9ebe0a15c9bebc"
  "sha512_k 383 = 0x431d67c49c100d4c"
  "sha512_k 389 = 0x4cc5d4becb3e42b6"
  "sha512_k 397 = 0x597f299cfc657e2a"
  "sha512_k 401 = 0x5fcb6fab3ad6faec"
  "sha512_k 409 = 0x6c44198c4a475817"
  by ((rule sha512_k_eqI; simp add: root_part_def)+)

lemma sha512_functions:
  "sha512_sigma0 = (\<lambda>x. word_rotr 1 x XOR word_rotr 8 x XOR drop_bit 7 x)"
  "sha512_sigma1 = (\<lambda>x. word_rotr 19 x XOR word_rotr 61 x XOR drop_bit 6 x)"
  "sha512_Sigma0 = (\<lambda>x. word_rotr 28 x XOR word_rotr 34 x XOR word_rotr 39 x)"
  "sha512_Sigma1 = (\<lambda>x. word_rotr 14 x XOR word_rotr 18 x XOR word_rotr 41 x)"
  "sha512_Ch = (\<lambda>x y z. (x AND y) XOR (NOT x AND z))"
  "sha512_Maj = (\<lambda>x y z. (x AND y) XOR (x AND z) XOR (y AND z))"
  unfolding sha512_sigma0_def sha512_sigma1_def sha512_Sigma0_def sha512_Sigma1_def sha512_Ch_def sha512_Maj_def
  using rotate_shifts [where ?'a = 64 and n = 1] rotate_shifts [where ?'a = 64 and n = 8] rotate_shifts [where ?'a = 64 and n = 14] rotate_shifts [where ?'a = 64 and n = 18] rotate_shifts [where ?'a = 64 and n = 19] rotate_shifts [where ?'a = 64 and n = 28] rotate_shifts [where ?'a = 64 and n = 34] rotate_shifts [where ?'a = 64 and n = 39] rotate_shifts [where ?'a = 64 and n = 41] rotate_shifts [where ?'a = 64 and n = 61]
  by (auto simp: fun_eq_iff bit_eq_iff bit_simps)

fun sha512_step :: "sha512_vars \<Rightarrow> u64 \<Rightarrow> u64 \<Rightarrow> (sha512_vars \<Rightarrow> 'r) \<Rightarrow> 'r" where
  "sha512_step (a, b, c, d, e, f, g, h) k w \<kappa> = (let (d', h') = sha512_Round a b c d e f g h k w in \<kappa> (h', a, b, c, d', e, f, g))"

lemma sha512_step_fips: "sha512_step v k w \<kappa> = \<kappa> (sha512_fips v k w)"
  by (cases v rule: prod_cases8) (simp add: sha512_Round_def sha512_functions Let_def)

lemma sha512_extend_window: "sha512_extend = (\<lambda>ws. ws ! 0 + (sha512_sigma1 (ws ! 14) + ws ! 9 + sha512_sigma0 (ws ! 1)))"
  by (simp add: fun_eq_iff sha512_extend_def sha512_functions)

subsection \<open>The unrolled rounds\<close>

text \<open>Each paragraph is sixteen rounds of the reference, in the rotated variables.\<close>

lemma sha512_unroll_0:
  "sha512_rounds_0 (a, b, c, d, e, f, g, h) chunk =
     run_load sha512_step (\<lambda>v ws. (v, window ws))
       (zip [sha512_k 2, sha512_k 3, sha512_k 5, sha512_k 7, sha512_k 11, sha512_k 13, sha512_k 17, sha512_k 19, sha512_k 23, sha512_k 29, sha512_k 31, sha512_k 37, sha512_k 41, sha512_k 43, sha512_k 47, sha512_k 53]
          [ReadBE64 (drop 0 chunk), ReadBE64 (drop 8 chunk), ReadBE64 (drop 16 chunk), ReadBE64 (drop 24 chunk), ReadBE64 (drop 32 chunk), ReadBE64 (drop 40 chunk), ReadBE64 (drop 48 chunk), ReadBE64 (drop 56 chunk), ReadBE64 (drop 64 chunk), ReadBE64 (drop 72 chunk), ReadBE64 (drop 80 chunk), ReadBE64 (drop 88 chunk), ReadBE64 (drop 96 chunk), ReadBE64 (drop 104 chunk), ReadBE64 (drop 112 chunk), ReadBE64 (drop 120 chunk)]) (a, b, c, d, e, f, g, h) []"
  unfolding sha512_rounds_0_def unroll_rounds sha512_k_values sha512_step.simps by (rule refl)

lemma sha512_unroll_1:
  "sha512_rounds_1 (a, b, c, d, e, f, g, h) (w0, w1, w2, w3, w4, w5, w6, w7, w8, w9, w10, w11, w12, w13, w14, w15) =
     run_mix sha512_step sha512_extend (\<lambda>v ws. (v, window ws))
       [sha512_k 59, sha512_k 61, sha512_k 67, sha512_k 71, sha512_k 73, sha512_k 79, sha512_k 83, sha512_k 89, sha512_k 97, sha512_k 101, sha512_k 103, sha512_k 107, sha512_k 109, sha512_k 113, sha512_k 127, sha512_k 131] (a, b, c, d, e, f, g, h) [w0, w1, w2, w3, w4, w5, w6, w7, w8, w9, w10, w11, w12, w13, w14, w15]"
  unfolding sha512_rounds_1_def sha512_extend_window unroll_rounds sha512_k_values sha512_step.simps by (rule refl)

lemma sha512_paragraph_1:
  "length ws = 16 \<Longrightarrow> sha512_rounds_1 v (window ws) =
     run_mix sha512_step sha512_extend (\<lambda>v ws. (v, window ws))
       [sha512_k 59, sha512_k 61, sha512_k 67, sha512_k 71, sha512_k 73, sha512_k 79, sha512_k 83, sha512_k 89, sha512_k 97, sha512_k 101, sha512_k 103, sha512_k 107, sha512_k 109, sha512_k 113, sha512_k 127, sha512_k 131] v ws"
  by (cases v rule: prod_cases8) (simp only: window_def sha512_unroll_1 sixteen_list)

lemma sha512_unroll_2:
  "sha512_rounds_2 (a, b, c, d, e, f, g, h) (w0, w1, w2, w3, w4, w5, w6, w7, w8, w9, w10, w11, w12, w13, w14, w15) =
     run_mix sha512_step sha512_extend (\<lambda>v ws. (v, window ws))
       [sha512_k 137, sha512_k 139, sha512_k 149, sha512_k 151, sha512_k 157, sha512_k 163, sha512_k 167, sha512_k 173, sha512_k 179, sha512_k 181, sha512_k 191, sha512_k 193, sha512_k 197, sha512_k 199, sha512_k 211, sha512_k 223] (a, b, c, d, e, f, g, h) [w0, w1, w2, w3, w4, w5, w6, w7, w8, w9, w10, w11, w12, w13, w14, w15]"
  unfolding sha512_rounds_2_def sha512_extend_window unroll_rounds sha512_k_values sha512_step.simps by (rule refl)

lemma sha512_paragraph_2:
  "length ws = 16 \<Longrightarrow> sha512_rounds_2 v (window ws) =
     run_mix sha512_step sha512_extend (\<lambda>v ws. (v, window ws))
       [sha512_k 137, sha512_k 139, sha512_k 149, sha512_k 151, sha512_k 157, sha512_k 163, sha512_k 167, sha512_k 173, sha512_k 179, sha512_k 181, sha512_k 191, sha512_k 193, sha512_k 197, sha512_k 199, sha512_k 211, sha512_k 223] v ws"
  by (cases v rule: prod_cases8) (simp only: window_def sha512_unroll_2 sixteen_list)

lemma sha512_unroll_3:
  "sha512_rounds_3 (a, b, c, d, e, f, g, h) (w0, w1, w2, w3, w4, w5, w6, w7, w8, w9, w10, w11, w12, w13, w14, w15) =
     run_mix sha512_step sha512_extend (\<lambda>v ws. (v, window ws))
       [sha512_k 227, sha512_k 229, sha512_k 233, sha512_k 239, sha512_k 241, sha512_k 251, sha512_k 257, sha512_k 263, sha512_k 269, sha512_k 271, sha512_k 277, sha512_k 281, sha512_k 283, sha512_k 293, sha512_k 307, sha512_k 311] (a, b, c, d, e, f, g, h) [w0, w1, w2, w3, w4, w5, w6, w7, w8, w9, w10, w11, w12, w13, w14, w15]"
  unfolding sha512_rounds_3_def sha512_extend_window unroll_rounds sha512_k_values sha512_step.simps by (rule refl)

lemma sha512_paragraph_3:
  "length ws = 16 \<Longrightarrow> sha512_rounds_3 v (window ws) =
     run_mix sha512_step sha512_extend (\<lambda>v ws. (v, window ws))
       [sha512_k 227, sha512_k 229, sha512_k 233, sha512_k 239, sha512_k 241, sha512_k 251, sha512_k 257, sha512_k 263, sha512_k 269, sha512_k 271, sha512_k 277, sha512_k 281, sha512_k 283, sha512_k 293, sha512_k 307, sha512_k 311] v ws"
  by (cases v rule: prod_cases8) (simp only: window_def sha512_unroll_3 sixteen_list)

lemma sha512_unroll_4:
  "sha512_rounds_4 (a, b, c, d, e, f, g, h) (w0, w1, w2, w3, w4, w5, w6, w7, w8, w9, w10, w11, w12, w13, w14, w15) =
     run_mix sha512_step sha512_extend (\<lambda>v _. v)
       [sha512_k 313, sha512_k 317, sha512_k 331, sha512_k 337, sha512_k 347, sha512_k 349, sha512_k 353, sha512_k 359, sha512_k 367, sha512_k 373, sha512_k 379, sha512_k 383, sha512_k 389, sha512_k 397, sha512_k 401, sha512_k 409] (a, b, c, d, e, f, g, h) [w0, w1, w2, w3, w4, w5, w6, w7, w8, w9, w10, w11, w12, w13, w14, w15]"
  unfolding sha512_rounds_4_def sha512_extend_window unroll_rounds sha512_k_values sha512_step.simps add.assoc by (rule refl)

lemma sha512_paragraph_4:
  "length ws = 16 \<Longrightarrow> sha512_rounds_4 v (window ws) =
     run_mix sha512_step sha512_extend (\<lambda>v _. v)
       [sha512_k 313, sha512_k 317, sha512_k 331, sha512_k 337, sha512_k 347, sha512_k 349, sha512_k 353, sha512_k 359, sha512_k 367, sha512_k 373, sha512_k 379, sha512_k 383, sha512_k 389, sha512_k 397, sha512_k 401, sha512_k 409] v ws"
  by (cases v rule: prod_cases8) (simp only: window_def sha512_unroll_4 sixteen_list)

subsection \<open>The compression function is that of the standard\<close>

lemma sha512_words:
  "[ReadBE64 (drop 0 chunk), ReadBE64 (drop 8 chunk), ReadBE64 (drop 16 chunk), ReadBE64 (drop 24 chunk), ReadBE64 (drop 32 chunk), ReadBE64 (drop 40 chunk), ReadBE64 (drop 48 chunk), ReadBE64 (drop 56 chunk), ReadBE64 (drop 64 chunk), ReadBE64 (drop 72 chunk), ReadBE64 (drop 80 chunk), ReadBE64 (drop 88 chunk), ReadBE64 (drop 96 chunk), ReadBE64 (drop 104 chunk), ReadBE64 (drop 112 chunk), ReadBE64 (drop 120 chunk)] =
     map (\<lambda>i. ReadBE64 (drop (8 * i) chunk)) [0..<16]"
  by (simp add: upt_rec)

lemma sha512_Transform_fips: "sha512_Transform s chunk = sha512_compress s chunk"
proof -
  define M where "M = map (\<lambda>i. ReadBE64 (drop (8 * i) chunk)) [0..<16]"
  have M: "length M = 16" by (simp add: M_def)
  define C where "C = chain sha512_fips sha512_extend sha512_K M s"
  define S where "S n = drop n (schedule sha512_extend n M)" for n
  have S: "length (S n) = 16" for n by (simp add: S_def M)
  have p0: "sha512_rounds_0 s chunk = (C 0, window (S 0))"
  proof -
    let ?k0 = "[sha512_k 2, sha512_k 3, sha512_k 5, sha512_k 7, sha512_k 11, sha512_k 13, sha512_k 17, sha512_k 19, sha512_k 23, sha512_k 29, sha512_k 31, sha512_k 37, sha512_k 41, sha512_k 43, sha512_k 47, sha512_k 53]"
    have "map snd (zip ?k0 M) = M" "take (16 + 0) sha512_K = ?k0" using M by (simp_all add: sha512_K_def sha_primes_def)
    then show ?thesis
      by (cases s rule: prod_cases8)
        (simp only: sha512_unroll_0 sha512_words [of chunk, folded M_def] run_load_rounds [where S = sha512_step and st = sha512_fips, OF sha512_step_fips] append_Nil
           schedule.simps C_def S_def chain_def, simp only: drop_0)
  qed
  have p1: "sha512_rounds_1 (C 0) (window (S 0)) = (C (0 + 16), window (S (0 + 16)))"
    unfolding sha512_paragraph_1 [OF S] unfolding C_def S_def
    by (rule chain_paragraph [where S = sha512_step and st = sha512_fips and K = "\<lambda>v ws. (v, window ws)", OF sha512_step_fips M]) (simp_all add: sha512_K_def sha_primes_def)
  have p2: "sha512_rounds_2 (C 16) (window (S 16)) = (C (16 + 16), window (S (16 + 16)))"
    unfolding sha512_paragraph_2 [OF S] unfolding C_def S_def
    by (rule chain_paragraph [where S = sha512_step and st = sha512_fips and K = "\<lambda>v ws. (v, window ws)", OF sha512_step_fips M]) (simp_all add: sha512_K_def sha_primes_def)
  have p3: "sha512_rounds_3 (C 32) (window (S 32)) = (C (32 + 16), window (S (32 + 16)))"
    unfolding sha512_paragraph_3 [OF S] unfolding C_def S_def
    by (rule chain_paragraph [where S = sha512_step and st = sha512_fips and K = "\<lambda>v ws. (v, window ws)", OF sha512_step_fips M]) (simp_all add: sha512_K_def sha_primes_def)
  have p4: "sha512_rounds_4 (C 48) (window (S 48)) = C (48 + 16)"
    unfolding sha512_paragraph_4 [OF S] unfolding C_def S_def
    by (rule chain_paragraph [where S = sha512_step and st = sha512_fips and K = "\<lambda>v _. v", OF sha512_step_fips M]) (simp_all add: sha512_K_def sha_primes_def)
  have "sha512_Transform s chunk = sha512_add s (C 64)"
    by (simp add: sha512_Transform_def Let_def p0 p1 p2 p3 p4)
  also have "C 64 = rounds sha512_fips (zip sha512_K (schedule sha512_extend 64 M)) s"
    by (simp add: C_def chain_def sha512_K_def sha_primes_def)
  finally show ?thesis
    by (simp only: sha512_compress_def M_def)
qed

lemma sha512_Transform_eq: "sha512_Transform = sha512_compress"
  by (simp add: fun_eq_iff sha512_Transform_fips)

subsection \<open>The hasher\<close>

interpretation sha512: block_hash sha512_Transform 128 239 16
  by unfold_locales simp_all

lemma length_sha512_output [simp]: "length (sha512_output s) = 64"
  by (cases s rule: prod_cases8) simp

lemma CSHA512_digest_fold:
  assumes "length mem = 128"
  shows "fst (CSHA512_Finalize (fold (\<lambda>d h. CSHA512_Write h d) ds (CSHA512_init mem))) =
    sha512_output (absorb sha512_compress 128 sha512_Initialize (padded 128 239 (\<lambda>n. replicate 8 0 @ WriteBE64 n) (concat ds)))"
  using sha512.digest [OF assms, where sizedesc = "(\<lambda>n. replicate 8 0 @ WriteBE64 n)" and i = sha512_Initialize and ds = ds]
  by (simp add: CSHA512_Finalize_def CSHA512_Write_def CSHA512_init_def Let_def sha512_Transform_eq)

lemma CSHA512_Reset_init: "CSHA512_Reset h = CSHA512_init (buf h)"
  by (simp add: CSHA512_Reset_def CSHA512_init_def)

end
