(* ===== verification/Ripemd160.thy ===== *)
theory Ripemd160
  imports Hash_Rounds
begin

text \<open>
  RIPEMD-160, \<^verbatim>\<open>crypto/ripemd160.cpp\<close>. The source interleaves the rounds of the two lines and rotates the
  five working variables of each through the argument positions. The compression function is shown equal to
  the two independent chains of eighty rounds of the published definition, and the class
  \<^verbatim>\<open>CRIPEMD160\<close> is an instance of the streaming interface of \<open>Hash_Block\<close>.
\<close>

unbundle bit_operations_syntax

subsection \<open>Definitions\<close>

type_synonym ripemd160_vars = "u32 \<times> u32 \<times> u32 \<times> u32 \<times> u32"
type_synonym ripemd160_window = "u32 \<times> u32 \<times> u32 \<times> u32 \<times> u32 \<times> u32 \<times> u32 \<times> u32 \<times> u32 \<times> u32 \<times> u32 \<times> u32 \<times> u32 \<times> u32 \<times> u32 \<times> u32"

definition ripemd160_f1 :: "u32 \<Rightarrow> u32 \<Rightarrow> u32 \<Rightarrow> u32" where "ripemd160_f1 x y z = x XOR y XOR z"
definition ripemd160_f2 :: "u32 \<Rightarrow> u32 \<Rightarrow> u32 \<Rightarrow> u32" where "ripemd160_f2 x y z = (x AND y) OR (NOT x AND z)"
definition ripemd160_f3 :: "u32 \<Rightarrow> u32 \<Rightarrow> u32 \<Rightarrow> u32" where "ripemd160_f3 x y z = (x OR NOT y) XOR z"
definition ripemd160_f4 :: "u32 \<Rightarrow> u32 \<Rightarrow> u32 \<Rightarrow> u32" where "ripemd160_f4 x y z = (x AND z) OR (y AND NOT z)"
definition ripemd160_f5 :: "u32 \<Rightarrow> u32 \<Rightarrow> u32 \<Rightarrow> u32" where "ripemd160_f5 x y z = x XOR (y OR NOT z)"

definition ripemd160_Initialize :: ripemd160_vars where
  "ripemd160_Initialize = (0x67452301, 0xEFCDAB89, 0x98BADCFE, 0x10325476, 0xC3D2E1F0)"

definition ripemd160_rol :: "u32 \<Rightarrow> nat \<Rightarrow> u32" where
  "ripemd160_rol x i = push_bit i x OR drop_bit (32 - i) x"

definition ripemd160_Round :: "u32 \<Rightarrow> u32 \<Rightarrow> u32 \<Rightarrow> u32 \<Rightarrow> u32 \<Rightarrow> u32 \<Rightarrow> u32 \<Rightarrow> u32 \<Rightarrow> nat \<Rightarrow> u32 \<times> u32" where
  "ripemd160_Round a b c d e f x k r = (ripemd160_rol (a + f + x + k) r + e, ripemd160_rol c 10)"

definition ripemd160_R11 :: "u32 \<Rightarrow> u32 \<Rightarrow> u32 \<Rightarrow> u32 \<Rightarrow> u32 \<Rightarrow> u32 \<Rightarrow> nat \<Rightarrow> u32 \<times> u32" where
  "ripemd160_R11 a b c d e x r = ripemd160_Round a b c d e (ripemd160_f1 b c d) x 0 r"
definition ripemd160_R21 :: "u32 \<Rightarrow> u32 \<Rightarrow> u32 \<Rightarrow> u32 \<Rightarrow> u32 \<Rightarrow> u32 \<Rightarrow> nat \<Rightarrow> u32 \<times> u32" where
  "ripemd160_R21 a b c d e x r = ripemd160_Round a b c d e (ripemd160_f2 b c d) x 0x5A827999 r"
definition ripemd160_R31 :: "u32 \<Rightarrow> u32 \<Rightarrow> u32 \<Rightarrow> u32 \<Rightarrow> u32 \<Rightarrow> u32 \<Rightarrow> nat \<Rightarrow> u32 \<times> u32" where
  "ripemd160_R31 a b c d e x r = ripemd160_Round a b c d e (ripemd160_f3 b c d) x 0x6ED9EBA1 r"
definition ripemd160_R41 :: "u32 \<Rightarrow> u32 \<Rightarrow> u32 \<Rightarrow> u32 \<Rightarrow> u32 \<Rightarrow> u32 \<Rightarrow> nat \<Rightarrow> u32 \<times> u32" where
  "ripemd160_R41 a b c d e x r = ripemd160_Round a b c d e (ripemd160_f4 b c d) x 0x8F1BBCDC r"
definition ripemd160_R51 :: "u32 \<Rightarrow> u32 \<Rightarrow> u32 \<Rightarrow> u32 \<Rightarrow> u32 \<Rightarrow> u32 \<Rightarrow> nat \<Rightarrow> u32 \<times> u32" where
  "ripemd160_R51 a b c d e x r = ripemd160_Round a b c d e (ripemd160_f5 b c d) x 0xA953FD4E r"
definition ripemd160_R12 :: "u32 \<Rightarrow> u32 \<Rightarrow> u32 \<Rightarrow> u32 \<Rightarrow> u32 \<Rightarrow> u32 \<Rightarrow> nat \<Rightarrow> u32 \<times> u32" where
  "ripemd160_R12 a b c d e x r = ripemd160_Round a b c d e (ripemd160_f5 b c d) x 0x50A28BE6 r"
definition ripemd160_R22 :: "u32 \<Rightarrow> u32 \<Rightarrow> u32 \<Rightarrow> u32 \<Rightarrow> u32 \<Rightarrow> u32 \<Rightarrow> nat \<Rightarrow> u32 \<times> u32" where
  "ripemd160_R22 a b c d e x r = ripemd160_Round a b c d e (ripemd160_f4 b c d) x 0x5C4DD124 r"
definition ripemd160_R32 :: "u32 \<Rightarrow> u32 \<Rightarrow> u32 \<Rightarrow> u32 \<Rightarrow> u32 \<Rightarrow> u32 \<Rightarrow> nat \<Rightarrow> u32 \<times> u32" where
  "ripemd160_R32 a b c d e x r = ripemd160_Round a b c d e (ripemd160_f3 b c d) x 0x6D703EF3 r"
definition ripemd160_R42 :: "u32 \<Rightarrow> u32 \<Rightarrow> u32 \<Rightarrow> u32 \<Rightarrow> u32 \<Rightarrow> u32 \<Rightarrow> nat \<Rightarrow> u32 \<times> u32" where
  "ripemd160_R42 a b c d e x r = ripemd160_Round a b c d e (ripemd160_f2 b c d) x 0x7A6D76E9 r"
definition ripemd160_R52 :: "u32 \<Rightarrow> u32 \<Rightarrow> u32 \<Rightarrow> u32 \<Rightarrow> u32 \<Rightarrow> u32 \<Rightarrow> nat \<Rightarrow> u32 \<times> u32" where
  "ripemd160_R52 a b c d e x r = ripemd160_Round a b c d e (ripemd160_f1 b c d) x 0 r"

text \<open>The five paragraphs of sixteen rounds of each line.\<close>

definition ripemd160_rounds_0 :: "ripemd160_vars \<times> ripemd160_vars \<Rightarrow> ripemd160_window \<Rightarrow> ripemd160_vars \<times> ripemd160_vars" where
  "ripemd160_rounds_0 = (\<lambda>((a1, b1, c1, d1, e1), (a2, b2, c2, d2, e2)) (w0, w1, w2, w3, w4, w5, w6, w7, w8, w9, w10, w11, w12, w13, w14, w15).
     (let (a1, c1) = ripemd160_R11 a1 b1 c1 d1 e1 w0 11;
          (a2, c2) = ripemd160_R12 a2 b2 c2 d2 e2 w5 8;
          (e1, b1) = ripemd160_R11 e1 a1 b1 c1 d1 w1 14;
          (e2, b2) = ripemd160_R12 e2 a2 b2 c2 d2 w14 9;
          (d1, a1) = ripemd160_R11 d1 e1 a1 b1 c1 w2 15;
          (d2, a2) = ripemd160_R12 d2 e2 a2 b2 c2 w7 9;
          (c1, e1) = ripemd160_R11 c1 d1 e1 a1 b1 w3 12;
          (c2, e2) = ripemd160_R12 c2 d2 e2 a2 b2 w0 11;
          (b1, d1) = ripemd160_R11 b1 c1 d1 e1 a1 w4 5;
          (b2, d2) = ripemd160_R12 b2 c2 d2 e2 a2 w9 13;
          (a1, c1) = ripemd160_R11 a1 b1 c1 d1 e1 w5 8;
          (a2, c2) = ripemd160_R12 a2 b2 c2 d2 e2 w2 15;
          (e1, b1) = ripemd160_R11 e1 a1 b1 c1 d1 w6 7;
          (e2, b2) = ripemd160_R12 e2 a2 b2 c2 d2 w11 15;
          (d1, a1) = ripemd160_R11 d1 e1 a1 b1 c1 w7 9;
          (d2, a2) = ripemd160_R12 d2 e2 a2 b2 c2 w4 5;
          (c1, e1) = ripemd160_R11 c1 d1 e1 a1 b1 w8 11;
          (c2, e2) = ripemd160_R12 c2 d2 e2 a2 b2 w13 7;
          (b1, d1) = ripemd160_R11 b1 c1 d1 e1 a1 w9 13;
          (b2, d2) = ripemd160_R12 b2 c2 d2 e2 a2 w6 7;
          (a1, c1) = ripemd160_R11 a1 b1 c1 d1 e1 w10 14;
          (a2, c2) = ripemd160_R12 a2 b2 c2 d2 e2 w15 8;
          (e1, b1) = ripemd160_R11 e1 a1 b1 c1 d1 w11 15;
          (e2, b2) = ripemd160_R12 e2 a2 b2 c2 d2 w8 11;
          (d1, a1) = ripemd160_R11 d1 e1 a1 b1 c1 w12 6;
          (d2, a2) = ripemd160_R12 d2 e2 a2 b2 c2 w1 14;
          (c1, e1) = ripemd160_R11 c1 d1 e1 a1 b1 w13 7;
          (c2, e2) = ripemd160_R12 c2 d2 e2 a2 b2 w10 14;
          (b1, d1) = ripemd160_R11 b1 c1 d1 e1 a1 w14 9;
          (b2, d2) = ripemd160_R12 b2 c2 d2 e2 a2 w3 12;
          (a1, c1) = ripemd160_R11 a1 b1 c1 d1 e1 w15 8;
          (a2, c2) = ripemd160_R12 a2 b2 c2 d2 e2 w12 6
      in ((a1, b1, c1, d1, e1), (a2, b2, c2, d2, e2))))"

definition ripemd160_rounds_1 :: "ripemd160_vars \<times> ripemd160_vars \<Rightarrow> ripemd160_window \<Rightarrow> ripemd160_vars \<times> ripemd160_vars" where
  "ripemd160_rounds_1 = (\<lambda>((a1, b1, c1, d1, e1), (a2, b2, c2, d2, e2)) (w0, w1, w2, w3, w4, w5, w6, w7, w8, w9, w10, w11, w12, w13, w14, w15).
     (let (e1, b1) = ripemd160_R21 e1 a1 b1 c1 d1 w7 7;
          (e2, b2) = ripemd160_R22 e2 a2 b2 c2 d2 w6 9;
          (d1, a1) = ripemd160_R21 d1 e1 a1 b1 c1 w4 6;
          (d2, a2) = ripemd160_R22 d2 e2 a2 b2 c2 w11 13;
          (c1, e1) = ripemd160_R21 c1 d1 e1 a1 b1 w13 8;
          (c2, e2) = ripemd160_R22 c2 d2 e2 a2 b2 w3 15;
          (b1, d1) = ripemd160_R21 b1 c1 d1 e1 a1 w1 13;
          (b2, d2) = ripemd160_R22 b2 c2 d2 e2 a2 w7 7;
          (a1, c1) = ripemd160_R21 a1 b1 c1 d1 e1 w10 11;
          (a2, c2) = ripemd160_R22 a2 b2 c2 d2 e2 w0 12;
          (e1, b1) = ripemd160_R21 e1 a1 b1 c1 d1 w6 9;
          (e2, b2) = ripemd160_R22 e2 a2 b2 c2 d2 w13 8;
          (d1, a1) = ripemd160_R21 d1 e1 a1 b1 c1 w15 7;
          (d2, a2) = ripemd160_R22 d2 e2 a2 b2 c2 w5 9;
          (c1, e1) = ripemd160_R21 c1 d1 e1 a1 b1 w3 15;
          (c2, e2) = ripemd160_R22 c2 d2 e2 a2 b2 w10 11;
          (b1, d1) = ripemd160_R21 b1 c1 d1 e1 a1 w12 7;
          (b2, d2) = ripemd160_R22 b2 c2 d2 e2 a2 w14 7;
          (a1, c1) = ripemd160_R21 a1 b1 c1 d1 e1 w0 12;
          (a2, c2) = ripemd160_R22 a2 b2 c2 d2 e2 w15 7;
          (e1, b1) = ripemd160_R21 e1 a1 b1 c1 d1 w9 15;
          (e2, b2) = ripemd160_R22 e2 a2 b2 c2 d2 w8 12;
          (d1, a1) = ripemd160_R21 d1 e1 a1 b1 c1 w5 9;
          (d2, a2) = ripemd160_R22 d2 e2 a2 b2 c2 w12 7;
          (c1, e1) = ripemd160_R21 c1 d1 e1 a1 b1 w2 11;
          (c2, e2) = ripemd160_R22 c2 d2 e2 a2 b2 w4 6;
          (b1, d1) = ripemd160_R21 b1 c1 d1 e1 a1 w14 7;
          (b2, d2) = ripemd160_R22 b2 c2 d2 e2 a2 w9 15;
          (a1, c1) = ripemd160_R21 a1 b1 c1 d1 e1 w11 13;
          (a2, c2) = ripemd160_R22 a2 b2 c2 d2 e2 w1 13;
          (e1, b1) = ripemd160_R21 e1 a1 b1 c1 d1 w8 12;
          (e2, b2) = ripemd160_R22 e2 a2 b2 c2 d2 w2 11
      in ((a1, b1, c1, d1, e1), (a2, b2, c2, d2, e2))))"

definition ripemd160_rounds_2 :: "ripemd160_vars \<times> ripemd160_vars \<Rightarrow> ripemd160_window \<Rightarrow> ripemd160_vars \<times> ripemd160_vars" where
  "ripemd160_rounds_2 = (\<lambda>((a1, b1, c1, d1, e1), (a2, b2, c2, d2, e2)) (w0, w1, w2, w3, w4, w5, w6, w7, w8, w9, w10, w11, w12, w13, w14, w15).
     (let (d1, a1) = ripemd160_R31 d1 e1 a1 b1 c1 w3 11;
          (d2, a2) = ripemd160_R32 d2 e2 a2 b2 c2 w15 9;
          (c1, e1) = ripemd160_R31 c1 d1 e1 a1 b1 w10 13;
          (c2, e2) = ripemd160_R32 c2 d2 e2 a2 b2 w5 7;
          (b1, d1) = ripemd160_R31 b1 c1 d1 e1 a1 w14 6;
          (b2, d2) = ripemd160_R32 b2 c2 d2 e2 a2 w1 15;
          (a1, c1) = ripemd160_R31 a1 b1 c1 d1 e1 w4 7;
          (a2, c2) = ripemd160_R32 a2 b2 c2 d2 e2 w3 11;
          (e1, b1) = ripemd160_R31 e1 a1 b1 c1 d1 w9 14;
          (e2, b2) = ripemd160_R32 e2 a2 b2 c2 d2 w7 8;
          (d1, a1) = ripemd160_R31 d1 e1 a1 b1 c1 w15 9;
          (d2, a2) = ripemd160_R32 d2 e2 a2 b2 c2 w14 6;
          (c1, e1) = ripemd160_R31 c1 d1 e1 a1 b1 w8 13;
          (c2, e2) = ripemd160_R32 c2 d2 e2 a2 b2 w6 6;
          (b1, d1) = ripemd160_R31 b1 c1 d1 e1 a1 w1 15;
          (b2, d2) = ripemd160_R32 b2 c2 d2 e2 a2 w9 14;
          (a1, c1) = ripemd160_R31 a1 b1 c1 d1 e1 w2 14;
          (a2, c2) = ripemd160_R32 a2 b2 c2 d2 e2 w11 12;
          (e1, b1) = ripemd160_R31 e1 a1 b1 c1 d1 w7 8;
          (e2, b2) = ripemd160_R32 e2 a2 b2 c2 d2 w8 13;
          (d1, a1) = ripemd160_R31 d1 e1 a1 b1 c1 w0 13;
          (d2, a2) = ripemd160_R32 d2 e2 a2 b2 c2 w12 5;
          (c1, e1) = ripemd160_R31 c1 d1 e1 a1 b1 w6 6;
          (c2, e2) = ripemd160_R32 c2 d2 e2 a2 b2 w2 14;
          (b1, d1) = ripemd160_R31 b1 c1 d1 e1 a1 w13 5;
          (b2, d2) = ripemd160_R32 b2 c2 d2 e2 a2 w10 13;
          (a1, c1) = ripemd160_R31 a1 b1 c1 d1 e1 w11 12;
          (a2, c2) = ripemd160_R32 a2 b2 c2 d2 e2 w0 13;
          (e1, b1) = ripemd160_R31 e1 a1 b1 c1 d1 w5 7;
          (e2, b2) = ripemd160_R32 e2 a2 b2 c2 d2 w4 7;
          (d1, a1) = ripemd160_R31 d1 e1 a1 b1 c1 w12 5;
          (d2, a2) = ripemd160_R32 d2 e2 a2 b2 c2 w13 5
      in ((a1, b1, c1, d1, e1), (a2, b2, c2, d2, e2))))"

definition ripemd160_rounds_3 :: "ripemd160_vars \<times> ripemd160_vars \<Rightarrow> ripemd160_window \<Rightarrow> ripemd160_vars \<times> ripemd160_vars" where
  "ripemd160_rounds_3 = (\<lambda>((a1, b1, c1, d1, e1), (a2, b2, c2, d2, e2)) (w0, w1, w2, w3, w4, w5, w6, w7, w8, w9, w10, w11, w12, w13, w14, w15).
     (let (c1, e1) = ripemd160_R41 c1 d1 e1 a1 b1 w1 11;
          (c2, e2) = ripemd160_R42 c2 d2 e2 a2 b2 w8 15;
          (b1, d1) = ripemd160_R41 b1 c1 d1 e1 a1 w9 12;
          (b2, d2) = ripemd160_R42 b2 c2 d2 e2 a2 w6 5;
          (a1, c1) = ripemd160_R41 a1 b1 c1 d1 e1 w11 14;
          (a2, c2) = ripemd160_R42 a2 b2 c2 d2 e2 w4 8;
          (e1, b1) = ripemd160_R41 e1 a1 b1 c1 d1 w10 15;
          (e2, b2) = ripemd160_R42 e2 a2 b2 c2 d2 w1 11;
          (d1, a1) = ripemd160_R41 d1 e1 a1 b1 c1 w0 14;
          (d2, a2) = ripemd160_R42 d2 e2 a2 b2 c2 w3 14;
          (c1, e1) = ripemd160_R41 c1 d1 e1 a1 b1 w8 15;
          (c2, e2) = ripemd160_R42 c2 d2 e2 a2 b2 w11 14;
          (b1, d1) = ripemd160_R41 b1 c1 d1 e1 a1 w12 9;
          (b2, d2) = ripemd160_R42 b2 c2 d2 e2 a2 w15 6;
          (a1, c1) = ripemd160_R41 a1 b1 c1 d1 e1 w4 8;
          (a2, c2) = ripemd160_R42 a2 b2 c2 d2 e2 w0 14;
          (e1, b1) = ripemd160_R41 e1 a1 b1 c1 d1 w13 9;
          (e2, b2) = ripemd160_R42 e2 a2 b2 c2 d2 w5 6;
          (d1, a1) = ripemd160_R41 d1 e1 a1 b1 c1 w3 14;
          (d2, a2) = ripemd160_R42 d2 e2 a2 b2 c2 w12 9;
          (c1, e1) = ripemd160_R41 c1 d1 e1 a1 b1 w7 5;
          (c2, e2) = ripemd160_R42 c2 d2 e2 a2 b2 w2 12;
          (b1, d1) = ripemd160_R41 b1 c1 d1 e1 a1 w15 6;
          (b2, d2) = ripemd160_R42 b2 c2 d2 e2 a2 w13 9;
          (a1, c1) = ripemd160_R41 a1 b1 c1 d1 e1 w14 8;
          (a2, c2) = ripemd160_R42 a2 b2 c2 d2 e2 w9 12;
          (e1, b1) = ripemd160_R41 e1 a1 b1 c1 d1 w5 6;
          (e2, b2) = ripemd160_R42 e2 a2 b2 c2 d2 w7 5;
          (d1, a1) = ripemd160_R41 d1 e1 a1 b1 c1 w6 5;
          (d2, a2) = ripemd160_R42 d2 e2 a2 b2 c2 w10 15;
          (c1, e1) = ripemd160_R41 c1 d1 e1 a1 b1 w2 12;
          (c2, e2) = ripemd160_R42 c2 d2 e2 a2 b2 w14 8
      in ((a1, b1, c1, d1, e1), (a2, b2, c2, d2, e2))))"

definition ripemd160_rounds_4 :: "ripemd160_vars \<times> ripemd160_vars \<Rightarrow> ripemd160_window \<Rightarrow> ripemd160_vars \<times> ripemd160_vars" where
  "ripemd160_rounds_4 = (\<lambda>((a1, b1, c1, d1, e1), (a2, b2, c2, d2, e2)) (w0, w1, w2, w3, w4, w5, w6, w7, w8, w9, w10, w11, w12, w13, w14, w15).
     (let (b1, d1) = ripemd160_R51 b1 c1 d1 e1 a1 w4 9;
          (b2, d2) = ripemd160_R52 b2 c2 d2 e2 a2 w12 8;
          (a1, c1) = ripemd160_R51 a1 b1 c1 d1 e1 w0 15;
          (a2, c2) = ripemd160_R52 a2 b2 c2 d2 e2 w15 5;
          (e1, b1) = ripemd160_R51 e1 a1 b1 c1 d1 w5 5;
          (e2, b2) = ripemd160_R52 e2 a2 b2 c2 d2 w10 12;
          (d1, a1) = ripemd160_R51 d1 e1 a1 b1 c1 w9 11;
          (d2, a2) = ripemd160_R52 d2 e2 a2 b2 c2 w4 9;
          (c1, e1) = ripemd160_R51 c1 d1 e1 a1 b1 w7 6;
          (c2, e2) = ripemd160_R52 c2 d2 e2 a2 b2 w1 12;
          (b1, d1) = ripemd160_R51 b1 c1 d1 e1 a1 w12 8;
          (b2, d2) = ripemd160_R52 b2 c2 d2 e2 a2 w5 5;
          (a1, c1) = ripemd160_R51 a1 b1 c1 d1 e1 w2 13;
          (a2, c2) = ripemd160_R52 a2 b2 c2 d2 e2 w8 14;
          (e1, b1) = ripemd160_R51 e1 a1 b1 c1 d1 w10 12;
          (e2, b2) = ripemd160_R52 e2 a2 b2 c2 d2 w7 6;
          (d1, a1) = ripemd160_R51 d1 e1 a1 b1 c1 w14 5;
          (d2, a2) = ripemd160_R52 d2 e2 a2 b2 c2 w6 8;
          (c1, e1) = ripemd160_R51 c1 d1 e1 a1 b1 w1 12;
          (c2, e2) = ripemd160_R52 c2 d2 e2 a2 b2 w2 13;
          (b1, d1) = ripemd160_R51 b1 c1 d1 e1 a1 w3 13;
          (b2, d2) = ripemd160_R52 b2 c2 d2 e2 a2 w13 6;
          (a1, c1) = ripemd160_R51 a1 b1 c1 d1 e1 w8 14;
          (a2, c2) = ripemd160_R52 a2 b2 c2 d2 e2 w14 5;
          (e1, b1) = ripemd160_R51 e1 a1 b1 c1 d1 w11 11;
          (e2, b2) = ripemd160_R52 e2 a2 b2 c2 d2 w0 15;
          (d1, a1) = ripemd160_R51 d1 e1 a1 b1 c1 w6 8;
          (d2, a2) = ripemd160_R52 d2 e2 a2 b2 c2 w3 13;
          (c1, e1) = ripemd160_R51 c1 d1 e1 a1 b1 w15 5;
          (c2, e2) = ripemd160_R52 c2 d2 e2 a2 b2 w9 11;
          (b1, d1) = ripemd160_R51 b1 c1 d1 e1 a1 w13 6;
          (b2, d2) = ripemd160_R52 b2 c2 d2 e2 a2 w11 11
      in ((a1, b1, c1, d1, e1), (a2, b2, c2, d2, e2))))"

fun ripemd160_combine :: "ripemd160_vars \<Rightarrow> ripemd160_vars \<times> ripemd160_vars \<Rightarrow> ripemd160_vars" where
  "ripemd160_combine (s0, s1, s2, s3, s4) ((a1, b1, c1, d1, e1), (a2, b2, c2, d2, e2)) =
     (s1 + c1 + d2, s2 + d1 + e2, s3 + e1 + a2, s4 + a1 + b2, s0 + b1 + c2)"

definition ripemd160_Transform :: "ripemd160_vars \<Rightarrow> bytes \<Rightarrow> ripemd160_vars" where
  "ripemd160_Transform s chunk =
     (let w = (ReadLE32 (drop 0 chunk), ReadLE32 (drop 4 chunk), ReadLE32 (drop 8 chunk), ReadLE32 (drop 12 chunk), ReadLE32 (drop 16 chunk), ReadLE32 (drop 20 chunk), ReadLE32 (drop 24 chunk), ReadLE32 (drop 28 chunk), ReadLE32 (drop 32 chunk), ReadLE32 (drop 36 chunk), ReadLE32 (drop 40 chunk), ReadLE32 (drop 44 chunk), ReadLE32 (drop 48 chunk), ReadLE32 (drop 52 chunk), ReadLE32 (drop 56 chunk), ReadLE32 (drop 60 chunk));
          v = ripemd160_rounds_0 (s, s) w;
          v = ripemd160_rounds_1 v w;
          v = ripemd160_rounds_2 v w;
          v = ripemd160_rounds_3 v w;
          v = ripemd160_rounds_4 v w
      in ripemd160_combine s v)"

type_synonym CRIPEMD160 = "ripemd160_vars hasher"

definition CRIPEMD160_init :: "bytes \<Rightarrow> CRIPEMD160" where
  "CRIPEMD160_init mem = \<lparr>hs = ripemd160_Initialize, buf = mem, nbytes = 0\<rparr>"

definition CRIPEMD160_Write :: "CRIPEMD160 \<Rightarrow> bytes \<Rightarrow> CRIPEMD160" where
  "CRIPEMD160_Write = hash_Write ripemd160_Transform 64"

fun ripemd160_output :: "ripemd160_vars \<Rightarrow> bytes" where
  "ripemd160_output (s0, s1, s2, s3, s4) = WriteLE32 s0 @ WriteLE32 s1 @ WriteLE32 s2 @ WriteLE32 s3 @ WriteLE32 s4"

definition CRIPEMD160_Finalize :: "CRIPEMD160 \<Rightarrow> bytes \<times> CRIPEMD160" where
  "CRIPEMD160_Finalize h = (let h = hash_pad ripemd160_Transform 64 119 WriteLE64 h in (ripemd160_output (hs h), h))"

definition CRIPEMD160_Reset :: "CRIPEMD160 \<Rightarrow> CRIPEMD160" where
  "CRIPEMD160_Reset h = h\<lparr>nbytes := 0, hs := ripemd160_Initialize\<rparr>"

subsection \<open>Reference: the published compression function\<close>

text \<open>
  Each line is given by its functions and constants (sixteen rounds each), the order in which it reads the
  message words, and its rotations. The orders are the powers of the permutation \<open>rho\<close>, for the right line
  after \<open>i \<mapsto> 9 * i + 5\<close>.
\<close>

definition rho :: "nat \<Rightarrow> nat" where
  "rho i = [7, 4, 13, 1, 10, 6, 15, 3, 12, 0, 9, 5, 2, 14, 11, 8] ! i"

definition word_order :: "(nat \<Rightarrow> nat) \<Rightarrow> nat list" where
  "word_order start = concat (map (\<lambda>j. map (\<lambda>i. (rho ^^ j) (start i)) [0..<16]) [0..<5])"

fun ripemd160_step :: "(u32 \<Rightarrow> u32 \<Rightarrow> u32 \<Rightarrow> u32) \<times> u32 \<Rightarrow> u32 \<Rightarrow> nat \<Rightarrow> ripemd160_vars \<Rightarrow> ripemd160_vars" where
  "ripemd160_step (f, k) x s (a, b, c, d, e) = (e, word_rotl s (a + f b c d + x + k) + e, b, word_rotl 10 c, d)"

definition ripemd160_line :: "((u32 \<Rightarrow> u32 \<Rightarrow> u32 \<Rightarrow> u32) \<times> u32) list \<Rightarrow> nat list \<Rightarrow> nat list \<Rightarrow> u32 list \<Rightarrow> ripemd160_vars \<Rightarrow> ripemd160_vars" where
  "ripemd160_line fks order shifts M =
     fold (\<lambda>(fk, r, s). ripemd160_step fk (M ! r) s) (zip (concat (map (replicate 16) fks)) (zip order shifts))"

definition left_shifts :: "nat list" where
  "left_shifts = [11, 14, 15, 12, 5, 8, 7, 9, 11, 13, 14, 15, 6, 7, 9, 8, 7, 6, 8, 13, 11, 9, 7, 15, 7, 12, 15, 9, 11, 7, 13, 12, 11, 13, 6, 7, 14, 9, 13, 15, 14, 8, 13, 6, 5, 12, 7, 5, 11, 12, 14, 15, 14, 15, 9, 8, 9, 14, 5, 6, 8, 6, 5, 12, 9, 15, 5, 11, 6, 8, 13, 12, 5, 12, 13, 14, 11, 8, 5, 6]"

definition right_shifts :: "nat list" where
  "right_shifts = [8, 9, 9, 11, 13, 15, 15, 5, 7, 7, 8, 11, 14, 14, 12, 6, 9, 13, 15, 7, 12, 8, 9, 11, 7, 7, 12, 7, 6, 15, 13, 11, 9, 7, 15, 11, 8, 6, 6, 14, 12, 13, 5, 14, 13, 13, 7, 5, 15, 5, 8, 11, 14, 14, 6, 14, 6, 9, 12, 9, 12, 5, 15, 8, 8, 5, 12, 9, 12, 5, 14, 6, 8, 13, 6, 5, 15, 13, 11, 11]"

definition ripemd160_compress :: "ripemd160_vars \<Rightarrow> bytes \<Rightarrow> ripemd160_vars" where
  "ripemd160_compress s chunk =
     (let M = map (\<lambda>i. ReadLE32 (drop (4 * i) chunk)) [0..<16];
          f1 = (\<lambda>x y z. x XOR y XOR z); f2 = (\<lambda>x y z. (x AND y) OR (NOT x AND z));
          f3 = (\<lambda>x y z. (x OR NOT y) XOR z); f4 = (\<lambda>x y z. (x AND z) OR (y AND NOT z));
          f5 = (\<lambda>x y z. x XOR (y OR NOT z))
      in ripemd160_combine s
        (ripemd160_line [(f1, 0), (f2, 0x5A827999), (f3, 0x6ED9EBA1), (f4, 0x8F1BBCDC), (f5, 0xA953FD4E)]
           (word_order (\<lambda>i. i)) left_shifts M s,
         ripemd160_line [(f5, 0x50A28BE6), (f4, 0x5C4DD124), (f3, 0x6D703EF3), (f2, 0x7A6D76E9), (f1, 0)]
           (word_order (\<lambda>i. (9 * i + 5) mod 16)) right_shifts M s))"

subsection \<open>The unrolled, interleaved rounds\<close>

fun line_step :: "ripemd160_vars \<Rightarrow> (u32 \<Rightarrow> u32 \<Rightarrow> u32 \<Rightarrow> u32 \<Rightarrow> u32 \<Rightarrow> u32 \<Rightarrow> nat \<Rightarrow> u32 \<times> u32) \<times> u32 \<times> nat \<Rightarrow> (ripemd160_vars \<Rightarrow> 'r) \<Rightarrow> 'r" where
  "line_step (a, b, c, d, e) (R, x, r) \<kappa> = (let (a', c') = R a b c d e x r in \<kappa> (e, a', b, c', d))"

fun run_pair :: "(ripemd160_vars \<Rightarrow> ripemd160_vars \<Rightarrow> 'r) \<Rightarrow> (((u32 \<Rightarrow> u32 \<Rightarrow> u32 \<Rightarrow> u32 \<Rightarrow> u32 \<Rightarrow> u32 \<Rightarrow> nat \<Rightarrow> u32 \<times> u32) \<times> u32 \<times> nat) \<times> ((u32 \<Rightarrow> u32 \<Rightarrow> u32 \<Rightarrow> u32 \<Rightarrow> u32 \<Rightarrow> u32 \<Rightarrow> nat \<Rightarrow> u32 \<times> u32) \<times> u32 \<times> nat)) list \<Rightarrow> ripemd160_vars \<Rightarrow> ripemd160_vars \<Rightarrow> 'r" where
  "run_pair K [] v1 v2 = K v1 v2"
| "run_pair K ((p, q) # ps) v1 v2 = line_step v1 p (\<lambda>v1. line_step v2 q (\<lambda>v2. run_pair K ps v1 v2))"

fun line_app :: "(u32 \<Rightarrow> u32 \<Rightarrow> u32 \<Rightarrow> u32 \<Rightarrow> u32 \<Rightarrow> u32 \<Rightarrow> nat \<Rightarrow> u32 \<times> u32) \<times> u32 \<times> nat \<Rightarrow> ripemd160_vars \<Rightarrow> ripemd160_vars" where
  "line_app (R, x, r) (a, b, c, d, e) = (e, fst (R a b c d e x r), b, snd (R a b c d e x r), d)"

lemma line_step_app: "line_step v p \<kappa> = \<kappa> (line_app p v)"
  by (cases v rule: prod_cases5; cases p) (simp add: case_prod_unfold Let_def)

lemma run_pair_lines: "run_pair K ps v1 v2 = K (fold line_app (map fst ps) v1) (fold line_app (map snd ps) v2)"
  by (induction ps arbitrary: v1 v2) (auto simp: line_step_app)

lemma ripemd160_unroll_0:
  "ripemd160_rounds_0 ((a1, b1, c1, d1, e1), (a2, b2, c2, d2, e2)) (w0, w1, w2, w3, w4, w5, w6, w7, w8, w9, w10, w11, w12, w13, w14, w15) =
     run_pair (\<lambda>v1 v2. ((unturn v1), (unturn v2)))
       [((ripemd160_R11, w0, 11), (ripemd160_R12, w5, 8)),
        ((ripemd160_R11, w1, 14), (ripemd160_R12, w14, 9)),
        ((ripemd160_R11, w2, 15), (ripemd160_R12, w7, 9)),
        ((ripemd160_R11, w3, 12), (ripemd160_R12, w0, 11)),
        ((ripemd160_R11, w4, 5), (ripemd160_R12, w9, 13)),
        ((ripemd160_R11, w5, 8), (ripemd160_R12, w2, 15)),
        ((ripemd160_R11, w6, 7), (ripemd160_R12, w11, 15)),
        ((ripemd160_R11, w7, 9), (ripemd160_R12, w4, 5)),
        ((ripemd160_R11, w8, 11), (ripemd160_R12, w13, 7)),
        ((ripemd160_R11, w9, 13), (ripemd160_R12, w6, 7)),
        ((ripemd160_R11, w10, 14), (ripemd160_R12, w15, 8)),
        ((ripemd160_R11, w11, 15), (ripemd160_R12, w8, 11)),
        ((ripemd160_R11, w12, 6), (ripemd160_R12, w1, 14)),
        ((ripemd160_R11, w13, 7), (ripemd160_R12, w10, 14)),
        ((ripemd160_R11, w14, 9), (ripemd160_R12, w3, 12)),
        ((ripemd160_R11, w15, 8), (ripemd160_R12, w12, 6))]
       (a1, b1, c1, d1, e1) (a2, b2, c2, d2, e2)"
  unfolding ripemd160_rounds_0_def prod.case run_pair.simps line_step.simps unturn.simps by (rule refl)

lemma ripemd160_unroll_1:
  "ripemd160_rounds_1 ((a1, b1, c1, d1, e1), (a2, b2, c2, d2, e2)) (w0, w1, w2, w3, w4, w5, w6, w7, w8, w9, w10, w11, w12, w13, w14, w15) =
     run_pair (\<lambda>v1 v2. ((unturn (unturn v1)), (unturn (unturn v2))))
       [((ripemd160_R21, w7, 7), (ripemd160_R22, w6, 9)),
        ((ripemd160_R21, w4, 6), (ripemd160_R22, w11, 13)),
        ((ripemd160_R21, w13, 8), (ripemd160_R22, w3, 15)),
        ((ripemd160_R21, w1, 13), (ripemd160_R22, w7, 7)),
        ((ripemd160_R21, w10, 11), (ripemd160_R22, w0, 12)),
        ((ripemd160_R21, w6, 9), (ripemd160_R22, w13, 8)),
        ((ripemd160_R21, w15, 7), (ripemd160_R22, w5, 9)),
        ((ripemd160_R21, w3, 15), (ripemd160_R22, w10, 11)),
        ((ripemd160_R21, w12, 7), (ripemd160_R22, w14, 7)),
        ((ripemd160_R21, w0, 12), (ripemd160_R22, w15, 7)),
        ((ripemd160_R21, w9, 15), (ripemd160_R22, w8, 12)),
        ((ripemd160_R21, w5, 9), (ripemd160_R22, w12, 7)),
        ((ripemd160_R21, w2, 11), (ripemd160_R22, w4, 6)),
        ((ripemd160_R21, w14, 7), (ripemd160_R22, w9, 15)),
        ((ripemd160_R21, w11, 13), (ripemd160_R22, w1, 13)),
        ((ripemd160_R21, w8, 12), (ripemd160_R22, w2, 11))]
       (e1, a1, b1, c1, d1) (e2, a2, b2, c2, d2)"
  unfolding ripemd160_rounds_1_def prod.case run_pair.simps line_step.simps unturn.simps by (rule refl)

lemma ripemd160_unroll_2:
  "ripemd160_rounds_2 ((a1, b1, c1, d1, e1), (a2, b2, c2, d2, e2)) (w0, w1, w2, w3, w4, w5, w6, w7, w8, w9, w10, w11, w12, w13, w14, w15) =
     run_pair (\<lambda>v1 v2. ((unturn (unturn (unturn v1))), (unturn (unturn (unturn v2)))))
       [((ripemd160_R31, w3, 11), (ripemd160_R32, w15, 9)),
        ((ripemd160_R31, w10, 13), (ripemd160_R32, w5, 7)),
        ((ripemd160_R31, w14, 6), (ripemd160_R32, w1, 15)),
        ((ripemd160_R31, w4, 7), (ripemd160_R32, w3, 11)),
        ((ripemd160_R31, w9, 14), (ripemd160_R32, w7, 8)),
        ((ripemd160_R31, w15, 9), (ripemd160_R32, w14, 6)),
        ((ripemd160_R31, w8, 13), (ripemd160_R32, w6, 6)),
        ((ripemd160_R31, w1, 15), (ripemd160_R32, w9, 14)),
        ((ripemd160_R31, w2, 14), (ripemd160_R32, w11, 12)),
        ((ripemd160_R31, w7, 8), (ripemd160_R32, w8, 13)),
        ((ripemd160_R31, w0, 13), (ripemd160_R32, w12, 5)),
        ((ripemd160_R31, w6, 6), (ripemd160_R32, w2, 14)),
        ((ripemd160_R31, w13, 5), (ripemd160_R32, w10, 13)),
        ((ripemd160_R31, w11, 12), (ripemd160_R32, w0, 13)),
        ((ripemd160_R31, w5, 7), (ripemd160_R32, w4, 7)),
        ((ripemd160_R31, w12, 5), (ripemd160_R32, w13, 5))]
       (d1, e1, a1, b1, c1) (d2, e2, a2, b2, c2)"
  unfolding ripemd160_rounds_2_def prod.case run_pair.simps line_step.simps unturn.simps by (rule refl)

lemma ripemd160_unroll_3:
  "ripemd160_rounds_3 ((a1, b1, c1, d1, e1), (a2, b2, c2, d2, e2)) (w0, w1, w2, w3, w4, w5, w6, w7, w8, w9, w10, w11, w12, w13, w14, w15) =
     run_pair (\<lambda>v1 v2. ((unturn (unturn (unturn (unturn v1)))), (unturn (unturn (unturn (unturn v2))))))
       [((ripemd160_R41, w1, 11), (ripemd160_R42, w8, 15)),
        ((ripemd160_R41, w9, 12), (ripemd160_R42, w6, 5)),
        ((ripemd160_R41, w11, 14), (ripemd160_R42, w4, 8)),
        ((ripemd160_R41, w10, 15), (ripemd160_R42, w1, 11)),
        ((ripemd160_R41, w0, 14), (ripemd160_R42, w3, 14)),
        ((ripemd160_R41, w8, 15), (ripemd160_R42, w11, 14)),
        ((ripemd160_R41, w12, 9), (ripemd160_R42, w15, 6)),
        ((ripemd160_R41, w4, 8), (ripemd160_R42, w0, 14)),
        ((ripemd160_R41, w13, 9), (ripemd160_R42, w5, 6)),
        ((ripemd160_R41, w3, 14), (ripemd160_R42, w12, 9)),
        ((ripemd160_R41, w7, 5), (ripemd160_R42, w2, 12)),
        ((ripemd160_R41, w15, 6), (ripemd160_R42, w13, 9)),
        ((ripemd160_R41, w14, 8), (ripemd160_R42, w9, 12)),
        ((ripemd160_R41, w5, 6), (ripemd160_R42, w7, 5)),
        ((ripemd160_R41, w6, 5), (ripemd160_R42, w10, 15)),
        ((ripemd160_R41, w2, 12), (ripemd160_R42, w14, 8))]
       (c1, d1, e1, a1, b1) (c2, d2, e2, a2, b2)"
  unfolding ripemd160_rounds_3_def prod.case run_pair.simps line_step.simps unturn.simps by (rule refl)

lemma ripemd160_unroll_4:
  "ripemd160_rounds_4 ((a1, b1, c1, d1, e1), (a2, b2, c2, d2, e2)) (w0, w1, w2, w3, w4, w5, w6, w7, w8, w9, w10, w11, w12, w13, w14, w15) =
     run_pair (\<lambda>v1 v2. (v1, v2))
       [((ripemd160_R51, w4, 9), (ripemd160_R52, w12, 8)),
        ((ripemd160_R51, w0, 15), (ripemd160_R52, w15, 5)),
        ((ripemd160_R51, w5, 5), (ripemd160_R52, w10, 12)),
        ((ripemd160_R51, w9, 11), (ripemd160_R52, w4, 9)),
        ((ripemd160_R51, w7, 6), (ripemd160_R52, w1, 12)),
        ((ripemd160_R51, w12, 8), (ripemd160_R52, w5, 5)),
        ((ripemd160_R51, w2, 13), (ripemd160_R52, w8, 14)),
        ((ripemd160_R51, w10, 12), (ripemd160_R52, w7, 6)),
        ((ripemd160_R51, w14, 5), (ripemd160_R52, w6, 8)),
        ((ripemd160_R51, w1, 12), (ripemd160_R52, w2, 13)),
        ((ripemd160_R51, w3, 13), (ripemd160_R52, w13, 6)),
        ((ripemd160_R51, w8, 14), (ripemd160_R52, w14, 5)),
        ((ripemd160_R51, w11, 11), (ripemd160_R52, w0, 15)),
        ((ripemd160_R51, w6, 8), (ripemd160_R52, w3, 13)),
        ((ripemd160_R51, w15, 5), (ripemd160_R52, w9, 11)),
        ((ripemd160_R51, w13, 6), (ripemd160_R52, w11, 11))]
       (b1, c1, d1, e1, a1) (b2, c2, d2, e2, a2)"
  unfolding ripemd160_rounds_4_def prod.case run_pair.simps line_step.simps unturn.simps by (rule refl)

lemma ripemd160_paragraph_0:
  "ripemd160_rounds_0 (v1, v2) (window ws) =
     ((unturn (fold line_app [(ripemd160_R11, ws ! 0, 11), (ripemd160_R11, ws ! 1, 14), (ripemd160_R11, ws ! 2, 15), (ripemd160_R11, ws ! 3, 12), (ripemd160_R11, ws ! 4, 5), (ripemd160_R11, ws ! 5, 8), (ripemd160_R11, ws ! 6, 7), (ripemd160_R11, ws ! 7, 9), (ripemd160_R11, ws ! 8, 11), (ripemd160_R11, ws ! 9, 13), (ripemd160_R11, ws ! 10, 14), (ripemd160_R11, ws ! 11, 15), (ripemd160_R11, ws ! 12, 6), (ripemd160_R11, ws ! 13, 7), (ripemd160_R11, ws ! 14, 9), (ripemd160_R11, ws ! 15, 8)] v1)),
      (unturn (fold line_app [(ripemd160_R12, ws ! 5, 8), (ripemd160_R12, ws ! 14, 9), (ripemd160_R12, ws ! 7, 9), (ripemd160_R12, ws ! 0, 11), (ripemd160_R12, ws ! 9, 13), (ripemd160_R12, ws ! 2, 15), (ripemd160_R12, ws ! 11, 15), (ripemd160_R12, ws ! 4, 5), (ripemd160_R12, ws ! 13, 7), (ripemd160_R12, ws ! 6, 7), (ripemd160_R12, ws ! 15, 8), (ripemd160_R12, ws ! 8, 11), (ripemd160_R12, ws ! 1, 14), (ripemd160_R12, ws ! 10, 14), (ripemd160_R12, ws ! 3, 12), (ripemd160_R12, ws ! 12, 6)] v2)))"
  by (cases v1 rule: prod_cases5, cases v2 rule: prod_cases5)
    (simp only: window_def ripemd160_unroll_0 run_pair_lines list.map fst_conv snd_conv turn.simps)

lemma ripemd160_paragraph_1:
  "ripemd160_rounds_1 (v1, v2) (window ws) =
     ((unturn (unturn (fold line_app [(ripemd160_R21, ws ! 7, 7), (ripemd160_R21, ws ! 4, 6), (ripemd160_R21, ws ! 13, 8), (ripemd160_R21, ws ! 1, 13), (ripemd160_R21, ws ! 10, 11), (ripemd160_R21, ws ! 6, 9), (ripemd160_R21, ws ! 15, 7), (ripemd160_R21, ws ! 3, 15), (ripemd160_R21, ws ! 12, 7), (ripemd160_R21, ws ! 0, 12), (ripemd160_R21, ws ! 9, 15), (ripemd160_R21, ws ! 5, 9), (ripemd160_R21, ws ! 2, 11), (ripemd160_R21, ws ! 14, 7), (ripemd160_R21, ws ! 11, 13), (ripemd160_R21, ws ! 8, 12)] (turn v1)))),
      (unturn (unturn (fold line_app [(ripemd160_R22, ws ! 6, 9), (ripemd160_R22, ws ! 11, 13), (ripemd160_R22, ws ! 3, 15), (ripemd160_R22, ws ! 7, 7), (ripemd160_R22, ws ! 0, 12), (ripemd160_R22, ws ! 13, 8), (ripemd160_R22, ws ! 5, 9), (ripemd160_R22, ws ! 10, 11), (ripemd160_R22, ws ! 14, 7), (ripemd160_R22, ws ! 15, 7), (ripemd160_R22, ws ! 8, 12), (ripemd160_R22, ws ! 12, 7), (ripemd160_R22, ws ! 4, 6), (ripemd160_R22, ws ! 9, 15), (ripemd160_R22, ws ! 1, 13), (ripemd160_R22, ws ! 2, 11)] (turn v2)))))"
  by (cases v1 rule: prod_cases5, cases v2 rule: prod_cases5)
    (simp only: window_def ripemd160_unroll_1 run_pair_lines list.map fst_conv snd_conv turn.simps)

lemma ripemd160_paragraph_2:
  "ripemd160_rounds_2 (v1, v2) (window ws) =
     ((unturn (unturn (unturn (fold line_app [(ripemd160_R31, ws ! 3, 11), (ripemd160_R31, ws ! 10, 13), (ripemd160_R31, ws ! 14, 6), (ripemd160_R31, ws ! 4, 7), (ripemd160_R31, ws ! 9, 14), (ripemd160_R31, ws ! 15, 9), (ripemd160_R31, ws ! 8, 13), (ripemd160_R31, ws ! 1, 15), (ripemd160_R31, ws ! 2, 14), (ripemd160_R31, ws ! 7, 8), (ripemd160_R31, ws ! 0, 13), (ripemd160_R31, ws ! 6, 6), (ripemd160_R31, ws ! 13, 5), (ripemd160_R31, ws ! 11, 12), (ripemd160_R31, ws ! 5, 7), (ripemd160_R31, ws ! 12, 5)] (turn (turn v1)))))),
      (unturn (unturn (unturn (fold line_app [(ripemd160_R32, ws ! 15, 9), (ripemd160_R32, ws ! 5, 7), (ripemd160_R32, ws ! 1, 15), (ripemd160_R32, ws ! 3, 11), (ripemd160_R32, ws ! 7, 8), (ripemd160_R32, ws ! 14, 6), (ripemd160_R32, ws ! 6, 6), (ripemd160_R32, ws ! 9, 14), (ripemd160_R32, ws ! 11, 12), (ripemd160_R32, ws ! 8, 13), (ripemd160_R32, ws ! 12, 5), (ripemd160_R32, ws ! 2, 14), (ripemd160_R32, ws ! 10, 13), (ripemd160_R32, ws ! 0, 13), (ripemd160_R32, ws ! 4, 7), (ripemd160_R32, ws ! 13, 5)] (turn (turn v2)))))))"
  by (cases v1 rule: prod_cases5, cases v2 rule: prod_cases5)
    (simp only: window_def ripemd160_unroll_2 run_pair_lines list.map fst_conv snd_conv turn.simps)

lemma ripemd160_paragraph_3:
  "ripemd160_rounds_3 (v1, v2) (window ws) =
     ((unturn (unturn (unturn (unturn (fold line_app [(ripemd160_R41, ws ! 1, 11), (ripemd160_R41, ws ! 9, 12), (ripemd160_R41, ws ! 11, 14), (ripemd160_R41, ws ! 10, 15), (ripemd160_R41, ws ! 0, 14), (ripemd160_R41, ws ! 8, 15), (ripemd160_R41, ws ! 12, 9), (ripemd160_R41, ws ! 4, 8), (ripemd160_R41, ws ! 13, 9), (ripemd160_R41, ws ! 3, 14), (ripemd160_R41, ws ! 7, 5), (ripemd160_R41, ws ! 15, 6), (ripemd160_R41, ws ! 14, 8), (ripemd160_R41, ws ! 5, 6), (ripemd160_R41, ws ! 6, 5), (ripemd160_R41, ws ! 2, 12)] (turn (turn (turn v1)))))))),
      (unturn (unturn (unturn (unturn (fold line_app [(ripemd160_R42, ws ! 8, 15), (ripemd160_R42, ws ! 6, 5), (ripemd160_R42, ws ! 4, 8), (ripemd160_R42, ws ! 1, 11), (ripemd160_R42, ws ! 3, 14), (ripemd160_R42, ws ! 11, 14), (ripemd160_R42, ws ! 15, 6), (ripemd160_R42, ws ! 0, 14), (ripemd160_R42, ws ! 5, 6), (ripemd160_R42, ws ! 12, 9), (ripemd160_R42, ws ! 2, 12), (ripemd160_R42, ws ! 13, 9), (ripemd160_R42, ws ! 9, 12), (ripemd160_R42, ws ! 7, 5), (ripemd160_R42, ws ! 10, 15), (ripemd160_R42, ws ! 14, 8)] (turn (turn (turn v2)))))))))"
  by (cases v1 rule: prod_cases5, cases v2 rule: prod_cases5)
    (simp only: window_def ripemd160_unroll_3 run_pair_lines list.map fst_conv snd_conv turn.simps)

lemma ripemd160_paragraph_4:
  "ripemd160_rounds_4 (v1, v2) (window ws) =
     ((fold line_app [(ripemd160_R51, ws ! 4, 9), (ripemd160_R51, ws ! 0, 15), (ripemd160_R51, ws ! 5, 5), (ripemd160_R51, ws ! 9, 11), (ripemd160_R51, ws ! 7, 6), (ripemd160_R51, ws ! 12, 8), (ripemd160_R51, ws ! 2, 13), (ripemd160_R51, ws ! 10, 12), (ripemd160_R51, ws ! 14, 5), (ripemd160_R51, ws ! 1, 12), (ripemd160_R51, ws ! 3, 13), (ripemd160_R51, ws ! 8, 14), (ripemd160_R51, ws ! 11, 11), (ripemd160_R51, ws ! 6, 8), (ripemd160_R51, ws ! 15, 5), (ripemd160_R51, ws ! 13, 6)] (turn (turn (turn (turn v1))))),
      (fold line_app [(ripemd160_R52, ws ! 12, 8), (ripemd160_R52, ws ! 15, 5), (ripemd160_R52, ws ! 10, 12), (ripemd160_R52, ws ! 4, 9), (ripemd160_R52, ws ! 1, 12), (ripemd160_R52, ws ! 5, 5), (ripemd160_R52, ws ! 8, 14), (ripemd160_R52, ws ! 7, 6), (ripemd160_R52, ws ! 6, 8), (ripemd160_R52, ws ! 2, 13), (ripemd160_R52, ws ! 13, 6), (ripemd160_R52, ws ! 14, 5), (ripemd160_R52, ws ! 0, 15), (ripemd160_R52, ws ! 3, 13), (ripemd160_R52, ws ! 9, 11), (ripemd160_R52, ws ! 11, 11)] (turn (turn (turn (turn v2))))))"
  by (cases v1 rule: prod_cases5, cases v2 rule: prod_cases5)
    (simp only: window_def ripemd160_unroll_4 run_pair_lines list.map fst_conv snd_conv turn.simps)

subsection \<open>The compression function is the published one\<close>

lemma word_orders:
  "word_order (\<lambda>i. i) = [0, 1, 2, 3, 4, 5, 6, 7, 8, 9, 10, 11, 12, 13, 14, 15, 7, 4, 13, 1, 10, 6, 15, 3, 12, 0, 9, 5, 2, 14, 11, 8, 3, 10, 14, 4, 9, 15, 8, 1, 2, 7, 0, 6, 13, 11, 5, 12, 1, 9, 11, 10, 0, 8, 12, 4, 13, 3, 7, 15, 14, 5, 6, 2, 4, 0, 5, 9, 7, 12, 2, 10, 14, 1, 3, 8, 11, 6, 15, 13]"
  "word_order (\<lambda>i. (9 * i + 5) mod 16) = [5, 14, 7, 0, 9, 2, 11, 4, 13, 6, 15, 8, 1, 10, 3, 12, 6, 11, 3, 7, 0, 13, 5, 10, 14, 15, 8, 12, 4, 9, 1, 2, 15, 5, 1, 3, 7, 14, 6, 9, 11, 8, 12, 2, 10, 0, 4, 13, 8, 6, 4, 1, 3, 11, 15, 0, 5, 12, 2, 13, 9, 7, 10, 14, 12, 15, 10, 4, 1, 5, 8, 7, 6, 2, 13, 14, 0, 3, 9, 11]"
  by code_simp+

lemma replicate_sixteen: "replicate 16 x = [x, x, x, x, x, x, x, x, x, x, x, x, x, x, x, x]"
  by (simp add: numeral_eq_Suc)

lemma line_app_step:
  assumes "0 < r" and "r < 32"
  shows
    "line_app (ripemd160_R11, x, r) = ripemd160_step (ripemd160_f1, 0) x r"
    "line_app (ripemd160_R21, x, r) = ripemd160_step (ripemd160_f2, 0x5A827999) x r"
    "line_app (ripemd160_R31, x, r) = ripemd160_step (ripemd160_f3, 0x6ED9EBA1) x r"
    "line_app (ripemd160_R41, x, r) = ripemd160_step (ripemd160_f4, 0x8F1BBCDC) x r"
    "line_app (ripemd160_R51, x, r) = ripemd160_step (ripemd160_f5, 0xA953FD4E) x r"
    "line_app (ripemd160_R12, x, r) = ripemd160_step (ripemd160_f5, 0x50A28BE6) x r"
    "line_app (ripemd160_R22, x, r) = ripemd160_step (ripemd160_f4, 0x5C4DD124) x r"
    "line_app (ripemd160_R32, x, r) = ripemd160_step (ripemd160_f3, 0x6D703EF3) x r"
    "line_app (ripemd160_R42, x, r) = ripemd160_step (ripemd160_f2, 0x7A6D76E9) x r"
    "line_app (ripemd160_R52, x, r) = ripemd160_step (ripemd160_f1, 0) x r"
  using assms by (auto simp: fun_eq_iff ripemd160_Round_def ripemd160_rol_def rotate_left_shifts ripemd160_R11_def ripemd160_R21_def ripemd160_R31_def ripemd160_R41_def ripemd160_R51_def ripemd160_R12_def ripemd160_R22_def ripemd160_R32_def ripemd160_R42_def ripemd160_R52_def)

lemma ripemd160_lines:
  "ripemd160_line [(ripemd160_f1, 0), (ripemd160_f2, 0x5A827999), (ripemd160_f3, 0x6ED9EBA1), (ripemd160_f4, 0x8F1BBCDC), (ripemd160_f5, 0xA953FD4E)] (word_order (\<lambda>i. i)) left_shifts ws v =
     fold line_app ([(ripemd160_R11, ws ! 0, 11), (ripemd160_R11, ws ! 1, 14), (ripemd160_R11, ws ! 2, 15), (ripemd160_R11, ws ! 3, 12), (ripemd160_R11, ws ! 4, 5), (ripemd160_R11, ws ! 5, 8), (ripemd160_R11, ws ! 6, 7), (ripemd160_R11, ws ! 7, 9), (ripemd160_R11, ws ! 8, 11), (ripemd160_R11, ws ! 9, 13), (ripemd160_R11, ws ! 10, 14), (ripemd160_R11, ws ! 11, 15), (ripemd160_R11, ws ! 12, 6), (ripemd160_R11, ws ! 13, 7), (ripemd160_R11, ws ! 14, 9), (ripemd160_R11, ws ! 15, 8)] @ [(ripemd160_R21, ws ! 7, 7), (ripemd160_R21, ws ! 4, 6), (ripemd160_R21, ws ! 13, 8), (ripemd160_R21, ws ! 1, 13), (ripemd160_R21, ws ! 10, 11), (ripemd160_R21, ws ! 6, 9), (ripemd160_R21, ws ! 15, 7), (ripemd160_R21, ws ! 3, 15), (ripemd160_R21, ws ! 12, 7), (ripemd160_R21, ws ! 0, 12), (ripemd160_R21, ws ! 9, 15), (ripemd160_R21, ws ! 5, 9), (ripemd160_R21, ws ! 2, 11), (ripemd160_R21, ws ! 14, 7), (ripemd160_R21, ws ! 11, 13), (ripemd160_R21, ws ! 8, 12)] @ [(ripemd160_R31, ws ! 3, 11), (ripemd160_R31, ws ! 10, 13), (ripemd160_R31, ws ! 14, 6), (ripemd160_R31, ws ! 4, 7), (ripemd160_R31, ws ! 9, 14), (ripemd160_R31, ws ! 15, 9), (ripemd160_R31, ws ! 8, 13), (ripemd160_R31, ws ! 1, 15), (ripemd160_R31, ws ! 2, 14), (ripemd160_R31, ws ! 7, 8), (ripemd160_R31, ws ! 0, 13), (ripemd160_R31, ws ! 6, 6), (ripemd160_R31, ws ! 13, 5), (ripemd160_R31, ws ! 11, 12), (ripemd160_R31, ws ! 5, 7), (ripemd160_R31, ws ! 12, 5)] @ [(ripemd160_R41, ws ! 1, 11), (ripemd160_R41, ws ! 9, 12), (ripemd160_R41, ws ! 11, 14), (ripemd160_R41, ws ! 10, 15), (ripemd160_R41, ws ! 0, 14), (ripemd160_R41, ws ! 8, 15), (ripemd160_R41, ws ! 12, 9), (ripemd160_R41, ws ! 4, 8), (ripemd160_R41, ws ! 13, 9), (ripemd160_R41, ws ! 3, 14), (ripemd160_R41, ws ! 7, 5), (ripemd160_R41, ws ! 15, 6), (ripemd160_R41, ws ! 14, 8), (ripemd160_R41, ws ! 5, 6), (ripemd160_R41, ws ! 6, 5), (ripemd160_R41, ws ! 2, 12)] @ [(ripemd160_R51, ws ! 4, 9), (ripemd160_R51, ws ! 0, 15), (ripemd160_R51, ws ! 5, 5), (ripemd160_R51, ws ! 9, 11), (ripemd160_R51, ws ! 7, 6), (ripemd160_R51, ws ! 12, 8), (ripemd160_R51, ws ! 2, 13), (ripemd160_R51, ws ! 10, 12), (ripemd160_R51, ws ! 14, 5), (ripemd160_R51, ws ! 1, 12), (ripemd160_R51, ws ! 3, 13), (ripemd160_R51, ws ! 8, 14), (ripemd160_R51, ws ! 11, 11), (ripemd160_R51, ws ! 6, 8), (ripemd160_R51, ws ! 15, 5), (ripemd160_R51, ws ! 13, 6)]) v"
  "ripemd160_line [(ripemd160_f5, 0x50A28BE6), (ripemd160_f4, 0x5C4DD124), (ripemd160_f3, 0x6D703EF3), (ripemd160_f2, 0x7A6D76E9), (ripemd160_f1, 0)] (word_order (\<lambda>i. (9 * i + 5) mod 16)) right_shifts ws v =
     fold line_app ([(ripemd160_R12, ws ! 5, 8), (ripemd160_R12, ws ! 14, 9), (ripemd160_R12, ws ! 7, 9), (ripemd160_R12, ws ! 0, 11), (ripemd160_R12, ws ! 9, 13), (ripemd160_R12, ws ! 2, 15), (ripemd160_R12, ws ! 11, 15), (ripemd160_R12, ws ! 4, 5), (ripemd160_R12, ws ! 13, 7), (ripemd160_R12, ws ! 6, 7), (ripemd160_R12, ws ! 15, 8), (ripemd160_R12, ws ! 8, 11), (ripemd160_R12, ws ! 1, 14), (ripemd160_R12, ws ! 10, 14), (ripemd160_R12, ws ! 3, 12), (ripemd160_R12, ws ! 12, 6)] @ [(ripemd160_R22, ws ! 6, 9), (ripemd160_R22, ws ! 11, 13), (ripemd160_R22, ws ! 3, 15), (ripemd160_R22, ws ! 7, 7), (ripemd160_R22, ws ! 0, 12), (ripemd160_R22, ws ! 13, 8), (ripemd160_R22, ws ! 5, 9), (ripemd160_R22, ws ! 10, 11), (ripemd160_R22, ws ! 14, 7), (ripemd160_R22, ws ! 15, 7), (ripemd160_R22, ws ! 8, 12), (ripemd160_R22, ws ! 12, 7), (ripemd160_R22, ws ! 4, 6), (ripemd160_R22, ws ! 9, 15), (ripemd160_R22, ws ! 1, 13), (ripemd160_R22, ws ! 2, 11)] @ [(ripemd160_R32, ws ! 15, 9), (ripemd160_R32, ws ! 5, 7), (ripemd160_R32, ws ! 1, 15), (ripemd160_R32, ws ! 3, 11), (ripemd160_R32, ws ! 7, 8), (ripemd160_R32, ws ! 14, 6), (ripemd160_R32, ws ! 6, 6), (ripemd160_R32, ws ! 9, 14), (ripemd160_R32, ws ! 11, 12), (ripemd160_R32, ws ! 8, 13), (ripemd160_R32, ws ! 12, 5), (ripemd160_R32, ws ! 2, 14), (ripemd160_R32, ws ! 10, 13), (ripemd160_R32, ws ! 0, 13), (ripemd160_R32, ws ! 4, 7), (ripemd160_R32, ws ! 13, 5)] @ [(ripemd160_R42, ws ! 8, 15), (ripemd160_R42, ws ! 6, 5), (ripemd160_R42, ws ! 4, 8), (ripemd160_R42, ws ! 1, 11), (ripemd160_R42, ws ! 3, 14), (ripemd160_R42, ws ! 11, 14), (ripemd160_R42, ws ! 15, 6), (ripemd160_R42, ws ! 0, 14), (ripemd160_R42, ws ! 5, 6), (ripemd160_R42, ws ! 12, 9), (ripemd160_R42, ws ! 2, 12), (ripemd160_R42, ws ! 13, 9), (ripemd160_R42, ws ! 9, 12), (ripemd160_R42, ws ! 7, 5), (ripemd160_R42, ws ! 10, 15), (ripemd160_R42, ws ! 14, 8)] @ [(ripemd160_R52, ws ! 12, 8), (ripemd160_R52, ws ! 15, 5), (ripemd160_R52, ws ! 10, 12), (ripemd160_R52, ws ! 4, 9), (ripemd160_R52, ws ! 1, 12), (ripemd160_R52, ws ! 5, 5), (ripemd160_R52, ws ! 8, 14), (ripemd160_R52, ws ! 7, 6), (ripemd160_R52, ws ! 6, 8), (ripemd160_R52, ws ! 2, 13), (ripemd160_R52, ws ! 13, 6), (ripemd160_R52, ws ! 14, 5), (ripemd160_R52, ws ! 0, 15), (ripemd160_R52, ws ! 3, 13), (ripemd160_R52, ws ! 9, 11), (ripemd160_R52, ws ! 11, 11)]) v"
  unfolding ripemd160_line_def word_orders left_shifts_def right_shifts_def list.map concat.simps replicate_sixteen
    append.simps zip_Cons_Cons zip_Nil fold_simps prod.case
  by (simp_all only: line_app_step zero_less_numeral numeral_less_iff semiring_norm)

lemma ripemd160_window:
  "(ReadLE32 (drop 0 chunk), ReadLE32 (drop 4 chunk), ReadLE32 (drop 8 chunk), ReadLE32 (drop 12 chunk), ReadLE32 (drop 16 chunk), ReadLE32 (drop 20 chunk), ReadLE32 (drop 24 chunk), ReadLE32 (drop 28 chunk), ReadLE32 (drop 32 chunk), ReadLE32 (drop 36 chunk), ReadLE32 (drop 40 chunk), ReadLE32 (drop 44 chunk), ReadLE32 (drop 48 chunk), ReadLE32 (drop 52 chunk), ReadLE32 (drop 56 chunk), ReadLE32 (drop 60 chunk)) = window (map (\<lambda>i. ReadLE32 (drop (4 * i) chunk)) [0..<16])"
  by (simp add: window_def)

lemma ripemd160_Transform_eq: "ripemd160_Transform = ripemd160_compress"
proof (intro ext)
  fix s :: ripemd160_vars and chunk :: bytes
  let ?M = "map (\<lambda>i. ReadLE32 (drop (4 * i) chunk)) [0..<16]"
  have "ripemd160_Transform s chunk = ripemd160_combine s
     (ripemd160_line [(ripemd160_f1, 0), (ripemd160_f2, 0x5A827999), (ripemd160_f3, 0x6ED9EBA1), (ripemd160_f4, 0x8F1BBCDC), (ripemd160_f5, 0xA953FD4E)] (word_order (\<lambda>i. i)) left_shifts ?M s,
      ripemd160_line [(ripemd160_f5, 0x50A28BE6), (ripemd160_f4, 0x5C4DD124), (ripemd160_f3, 0x6D703EF3), (ripemd160_f2, 0x7A6D76E9), (ripemd160_f1, 0)] (word_order (\<lambda>i. (9 * i + 5) mod 16)) right_shifts ?M s)"
    unfolding ripemd160_lines ripemd160_Transform_def Let_def ripemd160_window ripemd160_paragraph_0 ripemd160_paragraph_1
      ripemd160_paragraph_2 ripemd160_paragraph_3 ripemd160_paragraph_4 turn_unturn fold_append comp_apply
    by (rule refl)
  then show "ripemd160_Transform s chunk = ripemd160_compress s chunk"
    unfolding ripemd160_compress_def Let_def ripemd160_f1_def [abs_def] ripemd160_f2_def [abs_def]
      ripemd160_f3_def [abs_def] ripemd160_f4_def [abs_def] ripemd160_f5_def [abs_def] .
qed

subsection \<open>The hasher\<close>

interpretation ripemd160: block_hash ripemd160_Transform 64 119 8
  by unfold_locales simp_all

lemma length_ripemd160_output [simp]: "length (ripemd160_output s) = 20"
  by (cases s rule: prod_cases5) simp

lemma CRIPEMD160_digest_fold:
  assumes "length mem = 64"
  shows "fst (CRIPEMD160_Finalize (fold (\<lambda>d h. CRIPEMD160_Write h d) ds (CRIPEMD160_init mem))) =
    ripemd160_output (absorb ripemd160_compress 64 ripemd160_Initialize (padded 64 119 WriteLE64 (concat ds)))"
  using ripemd160.digest [OF assms, where sizedesc = WriteLE64 and i = ripemd160_Initialize and ds = ds]
  by (simp add: CRIPEMD160_Finalize_def CRIPEMD160_Write_def CRIPEMD160_init_def Let_def ripemd160_Transform_eq)

end
