(* ===== verification/Hashes.thy ===== *)
theory Hashes
  imports Sha1 Sha256 Sha512 Ripemd160
begin

text \<open>
  The hash classes and functions built on the compression functions: \<^verbatim>\<open>hash.h\<close> and
  \<^verbatim>\<open>crypto/hmac_sha256.cpp\<close>, \<^verbatim>\<open>crypto/hmac_sha512.cpp\<close>. Arguments named \<open>mem\<close> are the
  uninitialised buffers of the hasher objects involved; no result depends on them.
\<close>

unbundle bit_operations_syntax

subsection \<open>Definitions\<close>

text \<open>One-shot use of a hasher object, \<^verbatim>\<open>C().Write(data).Finalize(hash)\<close>.\<close>

definition SHA256 :: "bytes \<Rightarrow> bytes" where
  "SHA256 d = fst (CSHA256_Finalize (CSHA256_Write (CSHA256_init (replicate 64 0)) d))"

definition SHA512 :: "bytes \<Rightarrow> bytes" where
  "SHA512 d = fst (CSHA512_Finalize (CSHA512_Write (CSHA512_init (replicate 128 0)) d))"

definition SHA1 :: "bytes \<Rightarrow> bytes" where
  "SHA1 d = fst (CSHA1_Finalize (CSHA1_Write (CSHA1_init (replicate 64 0)) d))"

definition RIPEMD160 :: "bytes \<Rightarrow> bytes" where
  "RIPEMD160 d = fst (CRIPEMD160_Finalize (CRIPEMD160_Write (CRIPEMD160_init (replicate 64 0)) d))"

type_synonym CHash256 = CSHA256

definition CHash256_Finalize :: "CHash256 \<Rightarrow> bytes" where
  "CHash256_Finalize sha =
     (let (buf, sha) = CSHA256_Finalize sha
      in fst (CSHA256_Finalize (CSHA256_Write (CSHA256_Reset sha) buf)))"

type_synonym CHash160 = CSHA256

definition CHash160_Finalize :: "CHash160 \<Rightarrow> bytes \<Rightarrow> bytes" where
  "CHash160_Finalize sha mem =
     (let (buf, sha) = CSHA256_Finalize sha
      in fst (CRIPEMD160_Finalize (CRIPEMD160_Write (CRIPEMD160_init mem) buf)))"

type_synonym CHash512 = CSHA512

definition CHash512_Finalize :: "CHash512 \<Rightarrow> bytes" where
  "CHash512_Finalize sha =
     (let (buf, sha) = CSHA512_Finalize sha
      in fst (CSHA512_Finalize (CSHA512_Write (CSHA512_Reset sha) buf)))"

text \<open>The functions of one, two or three byte ranges, as functions of the list of ranges.\<close>

definition Hash_ranges :: "bytes list \<Rightarrow> bytes" where
  "Hash_ranges ps = CHash256_Finalize (fold (\<lambda>p h. CSHA256_Write h p) ps (CSHA256_init (replicate 64 0)))"

definition Hash512_ranges :: "bytes list \<Rightarrow> bytes" where
  "Hash512_ranges ps = CHash512_Finalize (fold (\<lambda>p h. CSHA512_Write h p) ps (CSHA512_init (replicate 128 0)))"

definition Hash160 :: "bytes \<Rightarrow> bytes" where
  "Hash160 p = CHash160_Finalize (CSHA256_Write (CSHA256_init (replicate 64 0)) p) (replicate 64 0)"

text \<open>The stream \<^verbatim>\<open>CHashWriter\<close>.\<close>

definition CHashWriter_init :: "bytes \<Rightarrow> CHash256" where
  "CHashWriter_init mem = CSHA256_init mem"

definition CHashWriter_write :: "CHash256 \<Rightarrow> bytes \<Rightarrow> CHash256" where
  "CHashWriter_write ctx pch = CSHA256_Write ctx pch"

definition CHashWriter_GetHash :: "CHash256 \<Rightarrow> bytes" where
  "CHashWriter_GetHash ctx = CHash256_Finalize ctx"

text \<open>HMAC.\<close>

record 'h hmac =
  outer :: 'h
  inner :: 'h

definition CHMAC_SHA256_init :: "bytes \<Rightarrow> bytes \<Rightarrow> bytes \<Rightarrow> bytes \<Rightarrow> CSHA256 hmac" where
  "CHMAC_SHA256_init mem1 mem2 mem3 key =
     (let rkey = (if length key \<le> 64 then key @ replicate (64 - length key) 0
                  else fst (CSHA256_Finalize (CSHA256_Write (CSHA256_init mem3) key)) @ replicate 32 0);
          rkey = map (\<lambda>b. b XOR 0x5c) rkey;
          out = CSHA256_Write (CSHA256_init mem1) rkey;
          rkey = map (\<lambda>b. b XOR (0x5c XOR 0x36)) rkey
      in \<lparr>outer = out, inner = CSHA256_Write (CSHA256_init mem2) rkey\<rparr>)"

definition CHMAC_SHA256_Write :: "CSHA256 hmac \<Rightarrow> bytes \<Rightarrow> CSHA256 hmac" where
  "CHMAC_SHA256_Write h d = h\<lparr>inner := CSHA256_Write (inner h) d\<rparr>"

definition CHMAC_SHA256_Finalize :: "CSHA256 hmac \<Rightarrow> bytes" where
  "CHMAC_SHA256_Finalize h =
     fst (CSHA256_Finalize (CSHA256_Write (outer h) (fst (CSHA256_Finalize (inner h)))))"

definition CHMAC_SHA512_init :: "bytes \<Rightarrow> bytes \<Rightarrow> bytes \<Rightarrow> bytes \<Rightarrow> CSHA512 hmac" where
  "CHMAC_SHA512_init mem1 mem2 mem3 key =
     (let rkey = (if length key \<le> 128 then key @ replicate (128 - length key) 0
                  else fst (CSHA512_Finalize (CSHA512_Write (CSHA512_init mem3) key)) @ replicate 64 0);
          rkey = map (\<lambda>b. b XOR 0x5c) rkey;
          out = CSHA512_Write (CSHA512_init mem1) rkey;
          rkey = map (\<lambda>b. b XOR (0x5c XOR 0x36)) rkey
      in \<lparr>outer = out, inner = CSHA512_Write (CSHA512_init mem2) rkey\<rparr>)"

definition CHMAC_SHA512_Write :: "CSHA512 hmac \<Rightarrow> bytes \<Rightarrow> CSHA512 hmac" where
  "CHMAC_SHA512_Write h d = h\<lparr>inner := CSHA512_Write (inner h) d\<rparr>"

definition CHMAC_SHA512_Finalize :: "CSHA512 hmac \<Rightarrow> bytes" where
  "CHMAC_SHA512_Finalize h =
     fst (CSHA512_Finalize (CSHA512_Write (outer h) (fst (CSHA512_Finalize (inner h)))))"

subsection \<open>Digests of split messages\<close>

text \<open>The digest of a message is the digest of one write of it, for any split and any initial buffer.\<close>

lemma CSHA256_fold:
  assumes "length mem = 64"
  shows "fst (CSHA256_Finalize (fold (\<lambda>d h. CSHA256_Write h d) ds (CSHA256_init mem))) = SHA256 (concat ds)"
  using CSHA256_digest_fold [OF assms] CSHA256_digest_fold [of "replicate 64 0" "[concat ds]"]
  by (simp add: SHA256_def)

lemma CSHA512_fold:
  assumes "length mem = 128"
  shows "fst (CSHA512_Finalize (fold (\<lambda>d h. CSHA512_Write h d) ds (CSHA512_init mem))) = SHA512 (concat ds)"
  using CSHA512_digest_fold [OF assms] CSHA512_digest_fold [of "replicate 128 0" "[concat ds]"]
  by (simp add: SHA512_def)

lemma CSHA256_Finalize_buf:
  assumes "length mem = 64"
  shows "length (buf (snd (CSHA256_Finalize (fold (\<lambda>d h. CSHA256_Write h d) ds (CSHA256_init mem))))) = 64"
  using sha256.digest [OF assms, where sizedesc = WriteBE64 and i = sha256_Initialize and ds = ds]
  by (simp add: CSHA256_Finalize_def CSHA256_Write_def CSHA256_init_def Let_def)

lemma CSHA512_Finalize_buf:
  assumes "length mem = 128"
  shows "length (buf (snd (CSHA512_Finalize (fold (\<lambda>d h. CSHA512_Write h d) ds (CSHA512_init mem))))) = 128"
  using sha512.digest [OF assms, where sizedesc = "\<lambda>n. replicate 8 0 @ WriteBE64 n" and i = sha512_Initialize and ds = ds]
  by (simp add: CSHA512_Finalize_def CSHA512_Write_def CSHA512_init_def Let_def)

lemma SHA_lengths [simp]:
  "length (SHA256 d) = 32" "length (SHA512 d) = 64" "length (SHA1 d) = 20" "length (RIPEMD160 d) = 20"
  by (simp_all add: SHA256_def SHA512_def SHA1_def RIPEMD160_def Let_def CSHA256_Finalize_def CSHA512_Finalize_def
    CSHA1_Finalize_def CRIPEMD160_Finalize_def)

lemma CHash256_fold:
  assumes "length mem = 64"
  shows "CHash256_Finalize (fold (\<lambda>d h. CSHA256_Write h d) ds (CSHA256_init mem)) = SHA256 (SHA256 (concat ds))"
proof -
  let ?h = "fold (\<lambda>d h. CSHA256_Write h d) ds (CSHA256_init mem)"
  have "CHash256_Finalize ?h =
      fst (CSHA256_Finalize (fold (\<lambda>d h. CSHA256_Write h d) [fst (CSHA256_Finalize ?h)] (CSHA256_init (buf (snd (CSHA256_Finalize ?h))))))"
    by (simp add: CHash256_Finalize_def case_prod_unfold Let_def CSHA256_Reset_init)
  also have "\<dots> = SHA256 (SHA256 (concat ds))"
    using CSHA256_fold [OF CSHA256_Finalize_buf [OF assms], of "[SHA256 (concat ds)]" ds] CSHA256_fold [OF assms, of ds]
    by simp
  finally show ?thesis .
qed

lemma CHash512_fold:
  assumes "length mem = 128"
  shows "CHash512_Finalize (fold (\<lambda>d h. CSHA512_Write h d) ds (CSHA512_init mem)) = SHA512 (SHA512 (concat ds))"
proof -
  let ?h = "fold (\<lambda>d h. CSHA512_Write h d) ds (CSHA512_init mem)"
  have "CHash512_Finalize ?h =
      fst (CSHA512_Finalize (fold (\<lambda>d h. CSHA512_Write h d) [fst (CSHA512_Finalize ?h)] (CSHA512_init (buf (snd (CSHA512_Finalize ?h))))))"
    by (simp add: CHash512_Finalize_def case_prod_unfold Let_def CSHA512_Reset_init)
  also have "\<dots> = SHA512 (SHA512 (concat ds))"
    using CSHA512_fold [OF CSHA512_Finalize_buf [OF assms], of "[SHA512 (concat ds)]" ds] CSHA512_fold [OF assms, of ds]
    by simp
  finally show ?thesis .
qed

lemma CHash160_fold:
  assumes "length mem = 64" and "length mem' = 64"
  shows "CHash160_Finalize (fold (\<lambda>d h. CSHA256_Write h d) ds (CSHA256_init mem)) mem' = RIPEMD160 (SHA256 (concat ds))"
  using CSHA256_fold [OF assms(1), of ds]
    CRIPEMD160_digest_fold [OF assms(2), of "[SHA256 (concat ds)]"]
    CRIPEMD160_digest_fold [of "replicate 64 0" "[SHA256 (concat ds)]"]
  by (simp add: CHash160_Finalize_def case_prod_unfold Let_def RIPEMD160_def)

subsection \<open>HMAC\<close>

text \<open>Reference: RFC 2104 for a hash \<open>H\<close> with blocks of \<open>B\<close> bytes.\<close>

definition hmac_key :: "(bytes \<Rightarrow> bytes) \<Rightarrow> nat \<Rightarrow> bytes \<Rightarrow> bytes" where
  "hmac_key H B key = (let k = (if length key \<le> B then key else H key) in k @ replicate (B - length k) 0)"

definition HMAC :: "(bytes \<Rightarrow> bytes) \<Rightarrow> nat \<Rightarrow> bytes \<Rightarrow> bytes \<Rightarrow> bytes" where
  "HMAC H B key m =
     (let k = hmac_key H B key
      in H (map (\<lambda>b. b XOR 0x5c) k @ H (map (\<lambda>b. b XOR 0x36) k @ m)))"

lemma xor_pads: "(b XOR 0x5c) XOR 0x6a = (b XOR 0x36 :: u8)"
  by (simp add: xor.assoc)

lemma HMAC_inner_fold: "inner (fold (\<lambda>d h. CHMAC_SHA256_Write h d) ds h) = fold (\<lambda>d h. CSHA256_Write h d) ds (inner h)"
  "outer (fold (\<lambda>d h. CHMAC_SHA256_Write h d) ds h) = outer h"
  by (induction ds arbitrary: h) (simp_all add: CHMAC_SHA256_Write_def)

lemma HMAC512_inner_fold: "inner (fold (\<lambda>d h. CHMAC_SHA512_Write h d) ds h') = fold (\<lambda>d h. CSHA512_Write h d) ds (inner h')"
  "outer (fold (\<lambda>d h. CHMAC_SHA512_Write h d) ds h') = outer h'"
  by (induction ds arbitrary: h') (simp_all add: CHMAC_SHA512_Write_def)

lemma HMAC_SHA256_eq:
  assumes "length mem1 = 64" and "length mem2 = 64" and "length mem3 = 64"
  shows "CHMAC_SHA256_Finalize (fold (\<lambda>d h. CHMAC_SHA256_Write h d) ds (CHMAC_SHA256_init mem1 mem2 mem3 key)) =
    HMAC SHA256 64 key (concat ds)"
proof -
  define k where "k = hmac_key SHA256 64 key"
  define h where "h = CHMAC_SHA256_init mem1 mem2 mem3 key"
  have "fst (CSHA256_Finalize (CSHA256_Write (CSHA256_init mem3) key)) = SHA256 key"
    using CSHA256_fold [OF assms(3), of "[key]"] by simp
  then have h: "h = \<lparr>outer = CSHA256_Write (CSHA256_init mem1) (map (\<lambda>b. b XOR 0x5c) k),
      inner = CSHA256_Write (CSHA256_init mem2) (map (\<lambda>b. b XOR 0x36) k)\<rparr>"
    by (simp add: h_def CHMAC_SHA256_init_def k_def hmac_key_def Let_def comp_def xor_pads)
  have "fst (CSHA256_Finalize (fold (\<lambda>d h. CSHA256_Write h d) ds (inner h))) = SHA256 (map (\<lambda>b. b XOR 0x36) k @ concat ds)"
    using CSHA256_fold [OF assms(2), of "map (\<lambda>b. b XOR 0x36) k # ds"] by (simp add: h)
  moreover have "fst (CSHA256_Finalize (CSHA256_Write (outer h) d)) = SHA256 (map (\<lambda>b. b XOR 0x5c) k @ d)" for d
    using CSHA256_fold [OF assms(1), of "[map (\<lambda>b. b XOR 0x5c) k, d]"] by (simp add: h)
  ultimately show ?thesis
    by (simp add: CHMAC_SHA256_Finalize_def HMAC_inner_fold HMAC_def Let_def flip: h_def k_def)
qed

lemma HMAC_SHA512_eq:
  assumes "length mem1 = 128" and "length mem2 = 128" and "length mem3 = 128"
  shows "CHMAC_SHA512_Finalize (fold (\<lambda>d h. CHMAC_SHA512_Write h d) ds (CHMAC_SHA512_init mem1 mem2 mem3 key)) =
    HMAC SHA512 128 key (concat ds)"
proof -
  define k where "k = hmac_key SHA512 128 key"
  define h where "h = CHMAC_SHA512_init mem1 mem2 mem3 key"
  have "fst (CSHA512_Finalize (CSHA512_Write (CSHA512_init mem3) key)) = SHA512 key"
    using CSHA512_fold [OF assms(3), of "[key]"] by simp
  then have h: "h = \<lparr>outer = CSHA512_Write (CSHA512_init mem1) (map (\<lambda>b. b XOR 0x5c) k),
      inner = CSHA512_Write (CSHA512_init mem2) (map (\<lambda>b. b XOR 0x36) k)\<rparr>"
    by (simp add: h_def CHMAC_SHA512_init_def k_def hmac_key_def Let_def comp_def xor_pads)
  have "fst (CSHA512_Finalize (fold (\<lambda>d h. CSHA512_Write h d) ds (inner h))) = SHA512 (map (\<lambda>b. b XOR 0x36) k @ concat ds)"
    using CSHA512_fold [OF assms(2), of "map (\<lambda>b. b XOR 0x36) k # ds"] by (simp add: h)
  moreover have "fst (CSHA512_Finalize (CSHA512_Write (outer h) d)) = SHA512 (map (\<lambda>b. b XOR 0x5c) k @ d)" for d
    using CSHA512_fold [OF assms(1), of "[map (\<lambda>b. b XOR 0x5c) k, d]"] by (simp add: h)
  ultimately show ?thesis
    by (simp add: CHMAC_SHA512_Finalize_def HMAC512_inner_fold HMAC_def Let_def flip: h_def k_def)
qed

section \<open>Properties\<close>

text \<open>
  C39. The four streaming hashers compute the digests of the standards: however the message is split
  into writes, and whatever the uninitialised buffer holds, the result is the standard's compression function
  iterated over the blocks of the padded message. The unrolled, in-place compression functions of the sources
  are equal to those of the standards.
\<close>

theorem hashers_correct:
  assumes "length mem = 64" and "length mem' = 128"
  shows
    "fst (CSHA256_Finalize (fold (\<lambda>d h. CSHA256_Write h d) ds (CSHA256_init mem))) =
       sha256_output (absorb sha256_compress 64 sha256_Initialize (padded 64 119 WriteBE64 (concat ds))) \<and>
     fst (CSHA512_Finalize (fold (\<lambda>d h. CSHA512_Write h d) ds (CSHA512_init mem'))) =
       sha512_output (absorb sha512_compress 128 sha512_Initialize
         (padded 128 239 (\<lambda>n. replicate 8 0 @ WriteBE64 n) (concat ds))) \<and>
     fst (CSHA1_Finalize (fold (\<lambda>d h. CSHA1_Write h d) ds (CSHA1_init mem))) =
       sha1_output (absorb sha1_compress 64 sha1_Initialize (padded 64 119 WriteBE64 (concat ds))) \<and>
     fst (CRIPEMD160_Finalize (fold (\<lambda>d h. CRIPEMD160_Write h d) ds (CRIPEMD160_init mem))) =
       ripemd160_output (absorb ripemd160_compress 64 ripemd160_Initialize (padded 64 119 WriteLE64 (concat ds)))"
  using CSHA256_digest_fold [OF assms(1)] CSHA512_digest_fold [OF assms(2)] CSHA1_digest_fold [OF assms(1)]
    CRIPEMD160_digest_fold [OF assms(1)] by blast

theorem hashers_correct_witness:
  "fst (CSHA256_Finalize (fold (\<lambda>d h. CSHA256_Write h d) [[0x61], [0x62, 0x63]] (CSHA256_init (replicate 64 7)))) =
     sha256_output (absorb sha256_compress 64 sha256_Initialize (padded 64 119 WriteBE64 [0x61, 0x62, 0x63]))"
  using hashers_correct [of "replicate 64 7" "replicate 128 7" "[[0x61], [0x62, 0x63]]"] by simp

text \<open>
  The hash functions of \<^verbatim>\<open>hash.h\<close> are what their comments say: \<open>Hash\<close> of any byte ranges is the
  double SHA-256 of their concatenation, although the second pass reuses the hasher with its stale buffer;
  \<open>Hash512\<close> is the double SHA-512, \<open>Hash160\<close> is RIPEMD-160 of SHA-256, and a \<open>CHashWriter\<close> hashes
  everything written to it.
\<close>

theorem hash_functions_correct:
  "Hash_ranges ps = SHA256 (SHA256 (concat ps)) \<and> Hash512_ranges ps = SHA512 (SHA512 (concat ps)) \<and>
   Hash160 p = RIPEMD160 (SHA256 p) \<and>
   (length mem = 64 \<longrightarrow>
     CHashWriter_GetHash (fold (\<lambda>d h. CHashWriter_write h d) ps (CHashWriter_init mem)) = SHA256 (SHA256 (concat ps)))"
  using CHash256_fold [of "replicate 64 0" ps] CHash512_fold [of "replicate 128 0" ps]
    CHash160_fold [of "replicate 64 0" "replicate 64 0" "[p]"] CHash256_fold [of mem ps]
  by (simp add: Hash_ranges_def Hash512_ranges_def Hash160_def CHashWriter_GetHash_def CHashWriter_write_def
    CHashWriter_init_def)

theorem hash_functions_correct_witness:
  "CHashWriter_GetHash (fold (\<lambda>d h. CHashWriter_write h d) [[1], [2]] (CHashWriter_init (replicate 64 9))) =
     SHA256 (SHA256 [1, 2])"
  using hash_functions_correct [of "[[1], [2]]" "[]" "replicate 64 9"] by simp

text \<open>
  The HMAC classes compute RFC 2104 HMAC for every key length, keys longer than a block being hashed
  first, and every split of the message into writes.
\<close>

theorem HMAC_correct:
  assumes "length m1 = 64" and "length m2 = 64" and "length m3 = 64"
    and "length n1 = 128" and "length n2 = 128" and "length n3 = 128"
  shows "CHMAC_SHA256_Finalize (fold (\<lambda>d h. CHMAC_SHA256_Write h d) ds (CHMAC_SHA256_init m1 m2 m3 key)) =
      HMAC SHA256 64 key (concat ds) \<and>
    CHMAC_SHA512_Finalize (fold (\<lambda>d h. CHMAC_SHA512_Write h d) ds (CHMAC_SHA512_init n1 n2 n3 key)) =
      HMAC SHA512 128 key (concat ds)"
  using HMAC_SHA256_eq [OF assms(1-3)] HMAC_SHA512_eq [OF assms(4-6)] by blast

theorem HMAC_correct_witness:
  "CHMAC_SHA256_Finalize (fold (\<lambda>d h. CHMAC_SHA256_Write h d) [[1], [2]]
     (CHMAC_SHA256_init (replicate 64 0) (replicate 64 1) (replicate 64 2) (replicate 65 5))) =
   HMAC SHA256 64 (replicate 65 5) [1, 2]"
  using HMAC_correct [of "replicate 64 0" "replicate 64 1" "replicate 64 2"
    "replicate 128 0" "replicate 128 0" "replicate 128 0" "[[1], [2]]" "replicate 65 5"] by simp

end
