(* ===== verification/Serialize.thy ===== *)
theory Serialize
  imports Byte_Order "HOL-Library.Monad_Syntax"
begin

text \<open>
  The serialization primitives of \<^verbatim>\<open>serialize.h\<close>. Writing an object yields the bytes appended to the
  stream; reading takes the rest of the stream and returns the object and what is left, or \<open>None\<close> when the
  source throws. The locale \<open>codec\<close> is the contract between a writer and its reader; containers are shown to
  satisfy it once for every element type.
\<close>

unbundle bit_operations_syntax

subsection \<open>Definitions\<close>

text \<open>Reading \<open>n\<close> bytes throws at the end of the data.\<close>

definition stream_read :: "nat \<Rightarrow> bytes \<Rightarrow> (bytes \<times> bytes) option" where
  "stream_read n s = (if n \<le> length s then Some (take n s, drop n s) else None)"

definition ser_writedata8 :: "u8 \<Rightarrow> bytes" where "ser_writedata8 x = [x]"
definition ser_writedata16 :: "u16 \<Rightarrow> bytes" where "ser_writedata16 x = WriteLE16 x"
definition ser_writedata32 :: "u32 \<Rightarrow> bytes" where "ser_writedata32 x = WriteLE32 x"
definition ser_writedata64 :: "u64 \<Rightarrow> bytes" where "ser_writedata64 x = WriteLE64 x"

definition ser_readdata8 :: "bytes \<Rightarrow> (u8 \<times> bytes) option" where
  "ser_readdata8 s = do { (x, s) \<leftarrow> stream_read 1 s; Some (hd x, s) }"
definition ser_readdata16 :: "bytes \<Rightarrow> (u16 \<times> bytes) option" where
  "ser_readdata16 s = do { (x, s) \<leftarrow> stream_read 2 s; Some (ReadLE16 x, s) }"
definition ser_readdata32 :: "bytes \<Rightarrow> (u32 \<times> bytes) option" where
  "ser_readdata32 s = do { (x, s) \<leftarrow> stream_read 4 s; Some (ReadLE32 x, s) }"
definition ser_readdata64 :: "bytes \<Rightarrow> (u64 \<times> bytes) option" where
  "ser_readdata64 s = do { (x, s) \<leftarrow> stream_read 8 s; Some (ReadLE64 x, s) }"

definition MAX_SIZE :: u64 where "MAX_SIZE = 0x02000000"

definition GetSizeOfCompactSize :: "u64 \<Rightarrow> nat" where
  "GetSizeOfCompactSize nSize =
     (if nSize < 253 then 1 else if nSize \<le> 0xFFFF then 1 + 2 else if nSize \<le> 0xFFFFFFFF then 1 + 4 else 1 + 8)"

definition WriteCompactSize :: "u64 \<Rightarrow> bytes" where
  "WriteCompactSize nSize =
     (if nSize < 253 then ser_writedata8 (ucast nSize)
      else if nSize \<le> 0xFFFF then ser_writedata8 253 @ ser_writedata16 (ucast nSize)
      else if nSize \<le> 0xFFFFFFFF then ser_writedata8 254 @ ser_writedata32 (ucast nSize)
      else ser_writedata8 255 @ ser_writedata64 nSize)"

definition ReadCompactSize :: "bytes \<Rightarrow> (u64 \<times> bytes) option" where
  "ReadCompactSize s = do {
     (chSize, s) \<leftarrow> ser_readdata8 s;
     (nSizeRet, s) \<leftarrow>
       (if chSize < 253 then Some (ucast chSize, s)
        else if chSize = 253 then do {
          (x, s) \<leftarrow> ser_readdata16 s;
          let n = (ucast x :: u64);
          if n < 253 then None else Some (n, s)
        }
        else if chSize = 254 then do {
          (x, s) \<leftarrow> ser_readdata32 s;
          let n = (ucast x :: u64);
          if n < 0x10000 then None else Some (n, s)
        }
        else do {
          (n, s) \<leftarrow> ser_readdata64 s;
          if n < 0x100000000 then None else Some (n, s)
        });
     if nSizeRet > MAX_SIZE then None else Some (nSizeRet, s)
   }"

lemma varint_high:
  fixes n :: "'a::len word"
  assumes "\<not> n \<le> 0x7F"
  shows "drop_bit 7 n \<noteq> 0"
proof
  assume z: "drop_bit 7 n = 0"
  have "n \<le> 0x7F"
  proof (cases "7 < LENGTH('a)")
    case True
    have "unat (drop_bit 7 n) = 0" using z by simp
    then have "unat n < 128" unfolding unat_drop_bit_eq unfolding drop_bit_eq_div by simp
    moreover have "(127 :: nat) < 2 ^ LENGTH('a)"
      using True power_increasing [of 7 "LENGTH('a)" "2 :: nat"] by simp
    ultimately show ?thesis by (simp add: word_le_nat_alt take_bit_nat_eq_self)
  next
    case False
    have "(0x7F :: 'a word) = mask 7" by (simp add: mask_eq_exp_minus_1)
    also have "\<dots> = - 1" using False by (intro bit_word_eqI) (auto simp: bit_mask_iff)
    finally have e: "(0x7F :: 'a word) = - 1" .
    show ?thesis unfolding e by (rule word_order.extremum)
  qed
  with assms show False by contradiction
qed

lemma varint_shift:
  fixes n :: "'a::len word"
  assumes "\<not> n \<le> 0x7F"
  shows "unat (drop_bit 7 n - 1) = unat n div 128 - 1" and "0 < unat n div 128"
proof -
  have d: "unat (drop_bit 7 n) = unat n div 128"
    unfolding unat_drop_bit_eq unfolding drop_bit_eq_div by simp
  show "unat (drop_bit 7 n - 1) = unat n div 128 - 1"
    using unat_minus_one [OF varint_high [OF assms]] by (simp only: d)
  have "unat (drop_bit 7 n) \<noteq> 0" using varint_high [OF assms] by (simp only: unat_eq_zero not_False_eq_True)
  then show "0 < unat n div 128" by (simp only: d neq0_conv)
qed

lemma varint_shift_less: "\<not> n \<le> 0x7F \<Longrightarrow> unat (drop_bit 7 n - 1) < unat (n :: 'a::len word)"
  using varint_shift [of n] by (metis Suc_pred' div_le_dividend le_trans lessI linorder_not_le not_less_eq_eq)

text \<open>
  Variable-length integers, for any unsigned type. \<open>varint_tmp\<close> is the array the writer fills, last digit
  first; the flag says whether \<^verbatim>\<open>len\<close> is past zero.
\<close>

function varint_tmp :: "'a::len word \<Rightarrow> bool \<Rightarrow> bytes" where
  "varint_tmp n more =
     (let b = ucast (n AND 0x7F) OR (if more then 0x80 else 0x00)
      in if n \<le> 0x7F then [b] else b # varint_tmp (drop_bit 7 n - 1) True)"
  by pat_completeness auto
termination by (relation "measure (\<lambda>(n, more). unat n)") (auto simp: varint_shift_less)

declare varint_tmp.simps [simp del]

definition WriteVarInt :: "'a::len word \<Rightarrow> bytes" where
  "WriteVarInt n = rev (varint_tmp n False)"

definition GetSizeOfVarInt :: "'a::len word \<Rightarrow> nat" where
  "GetSizeOfVarInt n = length (varint_tmp n False)"

fun ReadVarInt_loop :: "'a::len word \<Rightarrow> bytes \<Rightarrow> ('a word \<times> bytes) option" where
  "ReadVarInt_loop n [] = None"
| "ReadVarInt_loop n (chData # s) =
     (let n = push_bit 7 n OR ucast (chData AND 0x7F)
      in if chData AND 0x80 \<noteq> 0 then ReadVarInt_loop (n + 1) s else Some (n, s))"

definition ReadVarInt :: "bytes \<Rightarrow> ('a::len word \<times> bytes) option" where
  "ReadVarInt s = ReadVarInt_loop 0 s"

text \<open>Vectors of bytes are one blob; other vectors are written element by element.\<close>

definition Serialize_blob :: "bytes \<Rightarrow> bytes" where
  "Serialize_blob v = WriteCompactSize (of_nat (length v)) @ v"

definition Unserialize_blob :: "bytes \<Rightarrow> (bytes \<times> bytes) option" where
  "Unserialize_blob s = do { (nSize, s) \<leftarrow> ReadCompactSize s; stream_read (unat nSize) s }"

definition Serialize_vector :: "('a \<Rightarrow> bytes) \<Rightarrow> 'a list \<Rightarrow> bytes" where
  "Serialize_vector enc v = WriteCompactSize (of_nat (length v)) @ concat (map enc v)"

fun Unserialize_items :: "(bytes \<Rightarrow> ('a \<times> bytes) option) \<Rightarrow> nat \<Rightarrow> bytes \<Rightarrow> ('a list \<times> bytes) option" where
  "Unserialize_items dec 0 s = Some ([], s)"
| "Unserialize_items dec (Suc n) s = do {
     (x, s) \<leftarrow> dec s;
     (xs, s) \<leftarrow> Unserialize_items dec n s;
     Some (x # xs, s)
   }"

definition Unserialize_vector :: "(bytes \<Rightarrow> ('a \<times> bytes) option) \<Rightarrow> bytes \<Rightarrow> ('a list \<times> bytes) option" where
  "Unserialize_vector dec s = do { (nSize, s) \<leftarrow> ReadCompactSize s; Unserialize_items dec (unat nSize) s }"

text \<open>
  Bit sets. Reading a set given by its indices may index the vector with a negative number, which C++ leaves
  undefined; \<open>outcome\<close> tells this from an exception.
\<close>

definition CFixedBitSet_Serialize :: "bool list \<Rightarrow> nat \<Rightarrow> bytes" where
  "CFixedBitSet_Serialize vec sz =
     fold (\<lambda>p vBytes. vBytes[p div 8 := vBytes ! (p div 8) OR push_bit (p mod 8) (if vec ! p then 1 else 0)])
       [0..<min sz (length vec)] (replicate ((sz + 7) div 8) 0)"

definition CFixedBitSet_Unserialize :: "nat \<Rightarrow> bytes \<Rightarrow> (bool list \<times> bytes) option" where
  "CFixedBitSet_Unserialize sz s = do {
     (vBytes, s) \<leftarrow> stream_read ((sz + 7) div 8) s;
     let vec = map (\<lambda>p. vBytes ! (p div 8) AND push_bit (p mod 8) 1 \<noteq> 0) [0..<sz];
     let rem = length vBytes * 8 - sz;
     if length vBytes * 8 \<noteq> sz \<and> vBytes ! (length vBytes - 1) AND NOT (drop_bit rem 0xff) \<noteq> 0
     then None else Some (vec, s)
   }"

definition CDynamicBitSet_Serialize :: "bool list \<Rightarrow> bytes" where
  "CDynamicBitSet_Serialize vec = WriteCompactSize (of_nat (length vec)) @ CFixedBitSet_Serialize vec (length vec)"

definition CDynamicBitSet_Unserialize :: "bytes \<Rightarrow> (bool list \<times> bytes) option" where
  "CDynamicBitSet_Unserialize s = do { (n, s) \<leftarrow> ReadCompactSize s; CFixedBitSet_Unserialize (unat n) s }"

fun CFixedVarIntsBitSet_loop :: "bool list \<Rightarrow> int \<Rightarrow> int \<Rightarrow> bytes" where
  "CFixedVarIntsBitSet_loop [] i prev = WriteVarInt (0 :: u32)"
| "CFixedVarIntsBitSet_loop (b # bs) i prev =
     (if b then WriteVarInt (of_int (i - prev) :: u32) @ CFixedVarIntsBitSet_loop bs (i + 1) i
      else CFixedVarIntsBitSet_loop bs (i + 1) prev)"

definition CFixedVarIntsBitSet_Serialize :: "bool list \<Rightarrow> bytes" where
  "CFixedVarIntsBitSet_Serialize vec = CFixedVarIntsBitSet_loop vec 0 (- 1)"

datatype 'a outcome = Returns 'a | Throws | Undefined

lemma ReadVarInt_loop_shorter: "ReadVarInt_loop n s = Some (m, r) \<Longrightarrow> length r < length s"
proof (induction n s rule: ReadVarInt_loop.induct)
  case (2 n ch s)
  then show ?case by (auto simp: Let_def split: if_splits)
qed simp

function varints_loop :: "nat \<Rightarrow> bool list \<Rightarrow> int \<Rightarrow> bytes \<Rightarrow> (bool list \<times> bytes) outcome" where
  "varints_loop sz vec prev s =
     (case ReadVarInt s of
        None \<Rightarrow> Throws
      | Some (offset :: u32, s) \<Rightarrow>
          if offset = 0 then Returns (vec, s)
          else (let idx = sint (of_int prev + offset)
                in if idx \<ge> sint (of_nat sz :: u32) then Throws
                   else if prev \<noteq> - 1 \<and> idx \<le> prev then Throws
                   else if idx < 0 then Undefined
                   else varints_loop sz (vec[nat idx := True]) idx s))"
  by pat_completeness auto
termination
  by (relation "measure (\<lambda>(sz, vec, prev, s). length s)") (auto simp: ReadVarInt_def dest: ReadVarInt_loop_shorter)

declare varints_loop.simps [simp del]

definition CFixedVarIntsBitSet_Unserialize :: "nat \<Rightarrow> bytes \<Rightarrow> (bool list \<times> bytes) outcome" where
  "CFixedVarIntsBitSet_Unserialize sz s = varints_loop sz (replicate sz False) (- 1) s"

definition CAutoBitSet_Serialize :: "bool list \<Rightarrow> nat \<Rightarrow> bytes option" where
  "CAutoBitSet_Serialize vec sz =
     (if length vec \<noteq> sz then None
      else (let size1 = length (CFixedBitSet_Serialize vec sz); size2 = length (CFixedVarIntsBitSet_Serialize vec)
            in Some (if size1 < size2 then ser_writedata8 0 @ CFixedBitSet_Serialize vec (length vec)
                     else ser_writedata8 1 @ CFixedVarIntsBitSet_Serialize vec)))"

definition CAutoBitSet_Unserialize :: "nat \<Rightarrow> bytes \<Rightarrow> (bool list \<times> bytes) outcome" where
  "CAutoBitSet_Unserialize sz s =
     (case ser_readdata8 s of
        None \<Rightarrow> Throws
      | Some (isVarInts, s) \<Rightarrow>
          if isVarInts \<noteq> 0 \<and> isVarInts \<noteq> 1 then Throws
          else if isVarInts = 0
          then (case CFixedBitSet_Unserialize sz s of None \<Rightarrow> Throws | Some r \<Rightarrow> Returns r)
          else CFixedVarIntsBitSet_Unserialize sz s)"

subsection \<open>The contract of a writer and its reader\<close>

locale codec =
  fixes enc :: "'a \<Rightarrow> bytes" and dec :: "bytes \<Rightarrow> ('a \<times> bytes) option" and ok :: "'a \<Rightarrow> bool"
  assumes dec_enc: "ok x \<Longrightarrow> dec (enc x @ r) = Some (x, r)"
begin

lemma enc_unique: "ok x \<Longrightarrow> ok y \<Longrightarrow> enc x @ r = enc y @ r' \<Longrightarrow> x = y \<and> r = r'"
  by (metis dec_enc option.inject prod.inject)

lemma items: "list_all ok xs \<Longrightarrow> Unserialize_items dec (length xs) (concat (map enc xs) @ r) = Some (xs, r)"
  by (induction xs arbitrary: r) (simp_all add: dec_enc)

end

lemma read_written [simp]:
  "ser_readdata8 (ser_writedata8 a @ r) = Some (a, r)" "ser_readdata16 (ser_writedata16 b @ r) = Some (b, r)"
  "ser_readdata32 (ser_writedata32 c @ r) = Some (c, r)" "ser_readdata64 (ser_writedata64 d @ r) = Some (d, r)"
  using Read_Write [where r = "[]"]
  by (simp_all add: ser_readdata8_def ser_readdata16_def ser_readdata32_def ser_readdata64_def
    ser_writedata8_def ser_writedata16_def ser_writedata32_def ser_writedata64_def stream_read_def)

interpretation ser8: codec ser_writedata8 ser_readdata8 "\<lambda>_. True" by unfold_locales simp
interpretation ser16: codec ser_writedata16 ser_readdata16 "\<lambda>_. True" by unfold_locales simp
interpretation ser32: codec ser_writedata32 ser_readdata32 "\<lambda>_. True" by unfold_locales simp
interpretation ser64: codec ser_writedata64 ser_readdata64 "\<lambda>_. True" by unfold_locales simp

subsection \<open>Compact sizes\<close>

lemma unat_ucast_small: "unat n < 2 ^ LENGTH('b::len) \<Longrightarrow> unat (ucast (n :: u64) :: 'b word) = unat n"
  by (simp add: unsigned_ucast_eq take_bit_nat_eq_self)

lemma ucast_ucast_small: "unat n < 2 ^ LENGTH('b::len) \<Longrightarrow> ucast (ucast (n :: u64) :: 'b word) = n"
  by (simp add: word_unat_eq_iff unsigned_ucast_eq unsigned_take_bit_eq take_bit_nat_eq_self)

lemma ReadCompactSize_Write:
  assumes "n \<le> MAX_SIZE"
  shows "ReadCompactSize (WriteCompactSize n @ r) = Some (n, r)"
proof -
  have big: "n \<le> 0xFFFFFFFF" using assms by (simp add: MAX_SIZE_def word_le_nat_alt)
  consider "n < 253" | "\<not> n < 253" "n \<le> 0xFFFF" | "\<not> n < 253" "\<not> n \<le> 0xFFFF" by blast
  then show ?thesis
  proof cases
    case 1
    then have "unat n < 2 ^ LENGTH(8)" by (simp add: word_less_nat_alt)
    note u = ucast_ucast_small [OF this] unat_ucast_small [OF this]
    then have "(ucast n :: u8) < 253" using 1 by (simp add: word_less_nat_alt)
    with 1 assms u show ?thesis by (simp add: WriteCompactSize_def ReadCompactSize_def)
  next
    case 2
    then have "unat n < 2 ^ LENGTH(16)" by (simp add: word_le_nat_alt)
    note u = ucast_ucast_small [OF this]
    with 2 assms show ?thesis by (simp add: WriteCompactSize_def ReadCompactSize_def)
  next
    case 3
    then have "unat n < 2 ^ LENGTH(32)" using big by (simp add: word_le_nat_alt)
    note u = ucast_ucast_small [OF this]
    moreover have "\<not> n < 0x10000" using 3 by (simp add: word_le_nat_alt word_less_nat_alt)
    ultimately show ?thesis using 3 assms big by (simp add: WriteCompactSize_def ReadCompactSize_def)
  qed
qed

interpretation compact: codec WriteCompactSize ReadCompactSize "\<lambda>n. n \<le> MAX_SIZE"
  by unfold_locales (rule ReadCompactSize_Write)

text \<open>Only the shortest encoding of a size is accepted.\<close>

lemma stream_read_Some: "stream_read n s = Some (x, r) \<longleftrightarrow> s = x @ r \<and> length x = n"
  by (auto simp: stream_read_def)

lemma readdata_Some:
  "ser_readdata8 s = Some (a, r) \<longleftrightarrow> s = ser_writedata8 a @ r"
  "ser_readdata16 s = Some (b, r) \<longleftrightarrow> s = ser_writedata16 b @ r"
  "ser_readdata32 s = Some (c, r) \<longleftrightarrow> s = ser_writedata32 c @ r"
  "ser_readdata64 s = Some (d, r) \<longleftrightarrow> s = ser_writedata64 d @ r"
proof -
  show "ser_readdata8 s = Some (a, r) \<longleftrightarrow> s = ser_writedata8 a @ r"
    by (cases s) (auto simp: ser_readdata8_def ser_writedata8_def stream_read_def)
  show "ser_readdata16 s = Some (b, r) \<longleftrightarrow> s = ser_writedata16 b @ r"
    using Write_Read(1) Read_Write(1) [where r = "[]"]
    by (fastforce simp: ser_readdata16_def ser_writedata16_def stream_read_Some bind_eq_Some_conv)
  show "ser_readdata32 s = Some (c, r) \<longleftrightarrow> s = ser_writedata32 c @ r"
    using Write_Read(2) Read_Write(2) [where r = "[]"]
    by (fastforce simp: ser_readdata32_def ser_writedata32_def stream_read_Some bind_eq_Some_conv)
  show "ser_readdata64 s = Some (d, r) \<longleftrightarrow> s = ser_writedata64 d @ r"
    using Write_Read(3) Read_Write(3) [where r = "[]"]
    by (fastforce simp: ser_readdata64_def ser_writedata64_def stream_read_Some bind_eq_Some_conv)
qed

lemma ucast_bounds:
  "unat (ucast (x :: u8) :: u64) = unat x" "unat (ucast (y :: u16) :: u64) = unat y" "unat (ucast (z :: u32) :: u64) = unat z"
  "unat x < 256" "unat y < 65536" "unat z < 4294967296"
  using unsigned_less [of x, where ?'a = nat] unsigned_less [of y, where ?'a = nat] unsigned_less [of z, where ?'a = nat]
  by (simp_all add: unsigned_ucast_eq take_bit_nat_eq_self_iff)

lemma ucast_up_down [simp]:
  "ucast (ucast (x :: u8) :: u64) = x" "ucast (ucast (y :: u16) :: u64) = y" "ucast (ucast (z :: u32) :: u64) = z"
  using ucast_bounds(4) [of x] ucast_bounds(5) [of y] ucast_bounds(6) [of z]
  by (simp_all add: word_unat_eq_iff unsigned_ucast_eq unsigned_take_bit_eq take_bit_nat_eq_self_iff)

lemma ReadCompactSize_canonical:
  assumes "ReadCompactSize s = Some (n, r)"
  shows "s = WriteCompactSize n @ r \<and> n \<le> MAX_SIZE"
proof -
  from assms obtain ch t where s: "s = ser_writedata8 ch @ t"
    by (auto simp: ReadCompactSize_def bind_eq_Some_conv readdata_Some)
  have le: "n \<le> MAX_SIZE" using assms by (auto simp: ReadCompactSize_def bind_eq_Some_conv split: if_splits)
  consider "ch < 253" | "ch = 253" | "ch = 254" | "\<not> ch < 253" "ch \<noteq> 253" "ch \<noteq> 254" by blast
  then show ?thesis
  proof cases
    case 1
    with assms have "n = ucast ch" "r = t" by (auto simp: s ReadCompactSize_def split: if_splits)
    moreover have "n < 253" using 1 calculation by (simp add: word_less_nat_alt ucast_bounds)
    ultimately show ?thesis using le by (simp add: WriteCompactSize_def s)
  next
    case 2
    with assms obtain x where x: "t = ser_writedata16 x @ r" "n = ucast x" "\<not> n < 253"
      by (auto simp: s ReadCompactSize_def bind_eq_Some_conv readdata_Some Let_def split: if_splits)
    moreover have "n \<le> 0xFFFF" using ucast_bounds(5) [of x] by (simp add: x word_le_nat_alt ucast_bounds(2))
    ultimately show ?thesis using le 2 by (simp add: WriteCompactSize_def s)
  next
    case 3
    with assms obtain x where x: "t = ser_writedata32 x @ r" "n = ucast x" "\<not> n < 0x10000"
      by (auto simp: s ReadCompactSize_def bind_eq_Some_conv readdata_Some Let_def split: if_splits)
    moreover have "n \<le> 0xFFFFFFFF" using ucast_bounds(6) [of x] by (simp add: x word_le_nat_alt ucast_bounds(3))
    moreover have "\<not> n < 253" "\<not> n \<le> 0xFFFF" using x(3) by (simp_all add: word_le_nat_alt word_less_nat_alt)
    ultimately show ?thesis using le 3 by (simp add: WriteCompactSize_def s)
  next
    case 4
    with assms have x: "t = ser_writedata64 n @ r" "\<not> n < 0x100000000"
      by (auto simp: s ReadCompactSize_def bind_eq_Some_conv readdata_Some split: if_splits)
    have "ch = 255" using 4 ucast_bounds(4) [of ch] by (simp add: word_less_nat_alt word_unat_eq_iff)
    then show ?thesis using le x by (simp add: WriteCompactSize_def s word_le_nat_alt word_less_nat_alt)
  qed
qed

lemma WriteCompactSize_length: "length (WriteCompactSize n) = GetSizeOfCompactSize n"
  by (simp add: WriteCompactSize_def GetSizeOfCompactSize_def ser_writedata8_def ser_writedata16_def
    ser_writedata32_def ser_writedata64_def)

subsection \<open>Variable-length integers\<close>

lemma low_seven: "n AND 0x7F = take_bit 7 (n :: 'a::len word)"
  by (simp add: take_bit_eq_mask mask_eq_exp_minus_1)

lemma varint_join: "push_bit 7 (drop_bit 7 n) OR (n AND 0x7F) = (n :: 'a::len word)"
  unfolding low_seven by (rule bit_word_eqI) (auto simp: bit_or_iff bit_push_bit_iff bit_drop_bit_eq bit_take_bit_iff)

lemma varint_small: "n \<le> 0x7F \<Longrightarrow> n AND 0x7F = (n :: 'a::len word)"
proof (cases "7 < LENGTH('a)")
  case True
  assume le: "n \<le> 0x7F"
  have "(127 :: nat) < 2 ^ LENGTH('a)"
    using True power_increasing [of 7 "LENGTH('a)" "2 :: nat"] by simp
  then have "unat n \<le> 127" using le by (simp add: word_le_nat_alt take_bit_nat_eq_self)
  then show ?thesis unfolding low_seven by (simp add: word_unat_eq_iff unsigned_take_bit_eq take_bit_nat_eq_self_iff)
next
  case False
  then show ?thesis unfolding low_seven
    by (intro bit_word_eqI) (auto simp: bit_take_bit_iff)
qed

lemma varint_bytes:
  fixes n :: "'a::len word"
  shows "ucast ((ucast (n AND 0x7F) :: u8) AND 0x7F) = n AND 0x7F"
    and "ucast (((ucast (n AND 0x7F) :: u8) OR 0x80) AND 0x7F) = n AND 0x7F"
    and "(ucast (n AND 0x7F) :: u8) AND 0x80 = 0"
    and "((ucast (n AND 0x7F) :: u8) OR 0x80) AND 0x80 \<noteq> 0"
proof -
  let ?t = "ucast (take_bit 7 n) :: u8"
  have t: "ucast (take_bit 7 ?t) = take_bit 7 n"
    by (rule bit_word_eqI) (auto simp: bit_ucast_iff bit_take_bit_iff)
  have h: "bit (0x80 :: u8) k \<longleftrightarrow> k = 7" for k
    using bit_exp_iff [of 7 k, where ?'a = u8] by auto
  have z: "?t AND 0x80 = 0"
    by (rule bit_word_eqI) (simp only: bit_and_iff bit_ucast_iff bit_take_bit_iff h, simp)
  show "ucast ((ucast (n AND 0x7F) :: u8) AND 0x7F) = n AND 0x7F" unfolding low_seven by (rule t)
  show "ucast (((ucast (n AND 0x7F) :: u8) OR 0x80) AND 0x7F) = n AND 0x7F"
    unfolding low_seven take_bit_or using t by simp
  show "(ucast (n AND 0x7F) :: u8) AND 0x80 = 0" unfolding low_seven by (rule z)
  have "(?t OR 0x80) AND 0x80 = 0x80" by (simp only: and.commute [of _ "0x80"] bit.conj_disj_distrib and.idem) (simp add: z and.commute)
  then show "((ucast (n AND 0x7F) :: u8) OR 0x80) AND 0x80 \<noteq> 0" unfolding low_seven by simp
qed

lemma ReadVarInt_loop_more:
  "ReadVarInt_loop 0 (rev (varint_tmp n True) @ r) = ReadVarInt_loop (n + 1 :: 'a::len word) r"
proof (induction n "True" arbitrary: r rule: varint_tmp.induct)
  case (1 n)
  let ?b = "ucast (n AND 0x7F) OR 0x80 :: u8"
  show ?case
  proof (cases "n \<le> 0x7F")
    case True
    then show ?thesis
      by (subst varint_tmp.simps) (simp add: varint_bytes, simp add: varint_small)
  next
    case False
    with 1 [OF refl, of "?b # r"] show ?thesis
      by (subst varint_tmp.simps) (simp add: varint_bytes varint_join)
  qed
qed

lemma ReadVarInt_Write: "ReadVarInt (WriteVarInt n @ r) = Some (n :: 'a::len word, r)"
proof (cases "n \<le> 0x7F")
  case True
  then show ?thesis
    unfolding ReadVarInt_def WriteVarInt_def
    by (subst varint_tmp.simps) (simp add: varint_bytes, simp add: varint_small)
next
  case False
  then show ?thesis
    unfolding ReadVarInt_def WriteVarInt_def
    by (subst varint_tmp.simps) (simp add: varint_bytes varint_join ReadVarInt_loop_more)
qed

interpretation varint32: codec "WriteVarInt :: u32 \<Rightarrow> bytes" ReadVarInt "\<lambda>_. True"
  by unfold_locales (rule ReadVarInt_Write)

interpretation varint64: codec "WriteVarInt :: u64 \<Rightarrow> bytes" ReadVarInt "\<lambda>_. True"
  by unfold_locales (rule ReadVarInt_Write)

subsection \<open>Vectors\<close>

lemma of_nat_MAX_SIZE: "n \<le> 0x02000000 \<Longrightarrow> (of_nat n :: u64) \<le> MAX_SIZE \<and> unat (of_nat n :: u64) = n"
  by (simp add: MAX_SIZE_def word_le_nat_alt unat_of_nat)

interpretation blob: codec Serialize_blob Unserialize_blob "\<lambda>v. length v \<le> 0x02000000"
  by unfold_locales
    (simp add: Serialize_blob_def Unserialize_blob_def ReadCompactSize_Write of_nat_MAX_SIZE stream_read_def)

context codec begin

lemma vector:
  assumes "list_all ok xs" and "length xs \<le> 0x02000000"
  shows "Unserialize_vector dec (Serialize_vector enc xs @ r) = Some (xs, r)"
  using assms by (simp add: Serialize_vector_def Unserialize_vector_def ReadCompactSize_Write of_nat_MAX_SIZE items)

end

subsection \<open>Bit sets\<close>

lemma fixed_bits_length:
  "length (fold (\<lambda>p vb. vb[p div 8 := vb ! (p div 8) OR push_bit (p mod 8) (if vec ! p then 1 else 0)]) ps vb) = length vb"
  by (induction ps arbitrary: vb) simp_all

lemma fixed_bits:
  assumes "m \<le> 8 * length vb" and "j < length vb" and "k < 8"
  shows "bit (fold (\<lambda>p vb. vb[p div 8 := vb ! (p div 8) OR push_bit (p mod 8) (if vec ! p then 1 else 0)]) [0..<m] vb ! j) k
    \<longleftrightarrow> bit (vb ! j :: u8) k \<or> (8 * j + k < m \<and> vec ! (8 * j + k))"
  using assms(1)
proof (induction m)
  case (Suc m)
  define F where "F = fold (\<lambda>p vb. vb[p div 8 := vb ! (p div 8) OR push_bit (p mod 8) (if vec ! p then 1 else 0)]) [0..<m] vb"
  have len: "length F = length vb" unfolding F_def by (rule fixed_bits_length)
  have IH: "bit (F ! j) k \<longleftrightarrow> bit (vb ! j) k \<or> (8 * j + k < m \<and> vec ! (8 * j + k))"
    using Suc by (simp add: F_def)
  have "bit (F[m div 8 := F ! (m div 8) OR push_bit (m mod 8) (if vec ! m then 1 else 0)] ! j) k \<longleftrightarrow>
      bit (F ! j) k \<or> (8 * j + k = m \<and> vec ! m)"
  proof (cases "j = m div 8")
    case True
    then have "k = m mod 8 \<longleftrightarrow> 8 * j + k = m" using mult_div_mod_eq [of 8 m] by linarith
    then show ?thesis using True assms(2,3) len by (auto simp: bit_or_iff bit_push_bit_iff bit_1_iff)
  qed (use assms(3) in auto)
  then show ?case using IH by (auto simp: less_Suc_eq simp flip: F_def)
qed simp

lemma CFixedBitSet_roundtrip:
  assumes "length vec = sz"
  shows "CFixedBitSet_Unserialize sz (CFixedBitSet_Serialize vec sz @ r) = Some (vec, r)"
proof -
  define B where "B = (sz + 7) div 8"
  define V where "V = CFixedBitSet_Serialize vec sz"
  have B: "sz \<le> 8 * B" "8 * B < sz + 8" by (auto simp: B_def)
  have V: "length V = B" by (simp add: V_def CFixedBitSet_Serialize_def fixed_bits_length B_def)
  have bits: "bit (V ! j) k \<longleftrightarrow> 8 * j + k < sz \<and> vec ! (8 * j + k)" if "j < B" "k < 8" for j k
    using fixed_bits [of sz "replicate B 0" j k vec] that B assms
    by (simp add: V_def CFixedBitSet_Serialize_def flip: B_def)
  have and1: "x AND 2 ^ k \<noteq> 0 \<longleftrightarrow> bit x k" for x :: u8 and k
    using bit_iff_and_push_bit_not_eq_0 [of x k] by simp
  have "map (\<lambda>p. V ! (p div 8) AND push_bit (p mod 8) 1 \<noteq> 0) [0..<sz] = vec"
    using B assms by (intro nth_equalityI) (simp_all add: and1 bits div_less_iff_less_mult)
  moreover have "V ! (B - 1) AND NOT (drop_bit (B * 8 - sz) 0xff) = 0" if "B * 8 \<noteq> sz"
  proof (rule bit_word_eqI)
    fix k assume k: "k < LENGTH(8)"
    have B1: "8 * (B - 1) + k = 8 * B - 8 + k" "B - 1 < B" using that B by auto
    have ff: "(0xff :: u8) = - 1" by simp
    have "bit (drop_bit (B * 8 - sz) (0xff :: u8)) k \<longleftrightarrow> k + (B * 8 - sz) < 8"
      unfolding ff bit_drop_bit_eq comp_apply bit_minus_1_iff by (auto simp: possible_bit_def)
    then show "bit (V ! (B - 1) AND NOT (drop_bit (B * 8 - sz) 0xff)) k = bit (0 :: u8) k"
      using bits [of "B - 1" k] B1 B k that by (auto simp: bit_and_iff bit_not_iff)
  qed
  ultimately show ?thesis
    unfolding V_def [symmetric] CFixedBitSet_Unserialize_def B_def [symmetric] by (auto simp: stream_read_def V)
qed

lemma sint_size: "sz < 2 ^ 31 \<Longrightarrow> sint (of_nat sz :: u32) = int sz"
  by (simp add: signed_of_nat signed_take_bit_int_eq_self_iff)

lemma later_entries_safe: "0 \<le> prev \<Longrightarrow> varints_loop sz vec prev s \<noteq> Undefined"
proof (induction sz vec prev s rule: varints_loop.induct)
  case (1 sz vec prev s)
  show ?case
  proof (cases "ReadVarInt s :: (u32 \<times> bytes) option")
    case None
    then show ?thesis by (simp add: varints_loop.simps)
  next
    case (Some x)
    obtain offset r where x: "x = (offset, r)" by (cases x)
    show ?thesis
      using 1 Some x by (subst varints_loop.simps) (auto simp: Let_def)
  qed
qed

text \<open>The first index, where \<open>last\<close> is -1.\<close>

lemma first_index:
  assumes "offset \<noteq> (0 :: u32)"
  shows "sint (of_int (- 1) + offset) = (if 0x80000000 < offset then uint offset - 1 - 2 ^ 32 else uint offset - 1)"
proof -
  have b: "0 \<le> uint offset" "uint offset < 2 ^ 32" "uint offset \<noteq> 0"
    using uint_bounded [of offset] assms by (simp_all add: unsigned_eq_0_iff)
  have "of_int (- 1) + offset = (of_int (uint offset - 1) :: u32)" by simp
  then have "sint (of_int (- 1) + offset) = (uint offset - 1 + 2 ^ 31) mod 2 ^ 32 - 2 ^ 31"
    using int_word_sint [of "uint offset - 1", where ?'a = 32] by (simp only:) simp
  moreover have "(x - 1 + 2 ^ 31) mod 2 ^ 32 - 2 ^ 31 = (if 2 ^ 31 < x then x - 1 - 2 ^ 32 else x - 1)"
    if "0 < x" "x < 2 ^ 32" for x :: int
  proof (cases "2 ^ 31 < x")
    case True
    have "(x - 1 + 2 ^ 31) mod 2 ^ 32 = (x - 1 + 2 ^ 31 - 2 ^ 32) mod 2 ^ 32" by (simp only: minus_mod_self2)
    then show ?thesis using True that by simp
  qed (use that in simp)
  moreover have "0x80000000 < offset \<longleftrightarrow> 2 ^ 31 < uint offset" by (simp add: word_less_def)
  ultimately show ?thesis using b by simp
qed

lemma varints_loop_written:
  assumes "sz = length pre + length bs" and "int sz < 2 ^ 31" and "- 1 \<le> prev" and "prev < int (length pre)"
  shows "varints_loop sz (pre @ replicate (length bs) False) prev
      (CFixedVarIntsBitSet_loop bs (int (length pre)) prev @ r) = Returns (pre @ bs, r)"
  using assms
proof (induction bs arbitrary: pre prev)
  case Nil
  then show ?case by (subst varints_loop.simps) (simp add: ReadVarInt_Write)
next
  case (Cons b bs)
  let ?i = "int (length pre)"
  show ?case
  proof (cases b)
    case False
    with Cons.prems Cons.IH [of "pre @ [False]" prev] show ?thesis by (simp add: add.commute)
  next
    case True
    have off: "(of_int (?i - prev) :: u32) \<noteq> 0"
    proof
      assume "(of_int (?i - prev) :: u32) = 0"
      then have z: "uint (of_int (?i - prev) :: u32) = 0" by (simp only: unsigned_0)
      have "uint (of_int x :: u32) = x" if "0 \<le> x" "x < 2 ^ 32" for x
        using that by (simp add: uint_word_of_int)
      moreover have "0 < ?i - prev" "?i - prev < 2 ^ 32" using Cons.prems by simp_all
      ultimately show False using z by (metis less_imp_le less_irrefl)
    qed
    have idx: "sint (of_int prev + of_int (?i - prev) :: u32) = ?i"
      using Cons.prems by (simp add: signed_of_nat signed_take_bit_int_eq_self_iff)
    from Cons.prems Cons.IH [of "pre @ [True]" ?i]
    have "varints_loop sz (pre @ True # replicate (length bs) False) ?i
        (CFixedVarIntsBitSet_loop bs (?i + 1) ?i @ r) = Returns (pre @ True # bs, r)"
      by (simp add: add.commute)
    moreover have "(pre @ replicate (length (b # bs)) False)[nat ?i := True] = pre @ True # replicate (length bs) False"
      by (simp add: list_update_append)
    ultimately show ?thesis
      using True off idx Cons.prems sint_size [of sz]
      by (subst varints_loop.simps) (simp add: ReadVarInt_Write Let_def)
  qed
qed

lemma varint_tmp_length:
  fixes n :: "'a::len word"
  shows "unat n < 128 ^ Suc k \<Longrightarrow> length (varint_tmp n more) \<le> Suc k"
proof (induction k arbitrary: n more)
  case 0
  then have "n \<le> 0x7F" using varint_shift(2) [of n] by fastforce
  then show ?case by (subst varint_tmp.simps) simp
next
  case (Suc k)
  show ?case
  proof (cases "n \<le> 0x7F")
    case False
    have "unat n div 128 < 128 ^ Suc k" using Suc.prems by (simp add: div_less_iff_less_mult)
    then have "unat (drop_bit 7 n - 1) < 128 ^ Suc k" unfolding varint_shift(1) [OF False] by linarith
    with False Suc.IH show ?thesis by (subst varint_tmp.simps) (simp add: Let_def)
  qed (subst varint_tmp.simps, simp)
qed

lemma CAutoBitSet_written:
  assumes "length vec < 2 ^ 31"
  shows "\<exists>b. CAutoBitSet_Serialize vec (length vec) = Some b \<and>
    CAutoBitSet_Unserialize (length vec) (b @ r) = Returns (vec, r)"
proof -
  have "CFixedVarIntsBitSet_Unserialize (length vec) (CFixedVarIntsBitSet_Serialize vec @ r) = Returns (vec, r)"
    using varints_loop_written [of "length vec" "[]" vec "- 1" r] assms
    by (simp add: CFixedVarIntsBitSet_Unserialize_def CFixedVarIntsBitSet_Serialize_def)
  then show ?thesis
    by (simp add: CAutoBitSet_Serialize_def CAutoBitSet_Unserialize_def Let_def CFixedBitSet_roundtrip)
qed

section \<open>Properties\<close>

text \<open>
  Compact sizes are canonical: a byte sequence is read as the size \<open>n\<close> exactly if it starts with the one
  encoding the writer produces for \<open>n\<close>, and \<open>n\<close> is within the limit; that encoding has the announced length.
\<close>

theorem compact_size_canonical:
  "(ReadCompactSize s = Some (n, r) \<longleftrightarrow> n \<le> MAX_SIZE \<and> s = WriteCompactSize n @ r) \<and>
   length (WriteCompactSize n) = GetSizeOfCompactSize n"
  using ReadCompactSize_canonical [of s n r] ReadCompactSize_Write [of n r] WriteCompactSize_length [of n] by blast

text \<open>
  Variable-length integers of 32 and 64 bits are read back as written, whatever follows, and the
  writer's temporary array, of 5 or 10 bytes, is never overrun.
\<close>

theorem varint_roundtrip:
  "ReadVarInt (WriteVarInt n @ r) = Some (n :: u32, r) \<and> length (varint_tmp n False) \<le> (32 + 6) div 7 \<and>
   ReadVarInt (WriteVarInt m @ r) = Some (m :: u64, r) \<and> length (varint_tmp m False) \<le> (64 + 6) div 7"
  using varint_tmp_length [of n 4 False] varint_tmp_length [of m 9 False]
    unsigned_less [of n, where ?'a = nat] unsigned_less [of m, where ?'a = nat]
  by (simp add: ReadVarInt_Write)

text \<open>
  A bit set written in the shorter of its two formats is read back: the set of bits, its size and the
  rest of the stream are recovered.
\<close>

theorem CAutoBitSet_roundtrip:
  assumes "length vec < 2 ^ 31"
  shows "\<exists>b. CAutoBitSet_Serialize vec (length vec) = Some b \<and>
    CAutoBitSet_Unserialize (length vec) (b @ r) = Returns (vec, r)"
  by (rule CAutoBitSet_written [OF assms])

theorem CAutoBitSet_roundtrip_witness:
  "\<exists>b. CAutoBitSet_Serialize [True, False, False, True] 4 = Some b \<and>
    CAutoBitSet_Unserialize 4 (b @ [7]) = Returns ([True, False, False, True], [7])"
proof -
  have "length [True, False, False, True] = 4"
    by simp
  then show ?thesis
    using CAutoBitSet_roundtrip [of "[True, False, False, True]" "[7]"] by (simp only:) simp
qed

text \<open>
  C40. Exactly when reading an index-coded bit set of untrusted bytes leaves its vector: for a set of fewer than \<open>2 ^ 31\<close>
  bits, whatever the stream holds, the reader writes outside the vector if and only if the first offset in the stream is
  above \<open>2 ^ 31\<close>. The first index is then negative, which is neither too large nor, since the overflow check is
  skipped for the first entry, an overflow. Every other stream is read or refused with an exception, however many
  entries follow.
\<close>

theorem CFixedVarIntsBitSet_negative_index:
  assumes "sz < 2 ^ 31"
  shows "CFixedVarIntsBitSet_Unserialize sz s = Undefined \<longleftrightarrow>
    (\<exists>offset r. ReadVarInt s = Some (offset :: u32, r) \<and> 0x80000000 < offset)"
proof (cases "ReadVarInt s :: (u32 \<times> bytes) option")
  case None
  then show ?thesis by (simp add: CFixedVarIntsBitSet_Unserialize_def varints_loop.simps)
next
  case (Some x)
  obtain offset r where x: "x = (offset, r)" by (cases x)
  have size: "sint (of_nat sz :: u32) = int sz" using assms by (rule sint_size)
  show ?thesis
  proof (cases "offset = 0")
    case True
    then show ?thesis using Some x by (simp add: CFixedVarIntsBitSet_Unserialize_def varints_loop.simps)
  next
    case False
    note first = first_index [OF False]
    have lt: "0 < uint offset" "uint offset < 2 ^ 32"
      using uint_bounded [of offset] False by (simp_all add: order_less_le unsigned_eq_0_iff)
    have "varints_loop sz vec' (sint (of_int (- 1) + offset)) r \<noteq> Undefined" if "\<not> 0x80000000 < offset" for vec'
      using that first lt by (intro later_entries_safe) simp
    moreover have "\<not> sint (of_int (- 1) + offset) \<ge> int sz" if "0x80000000 < offset" using that first lt by simp
    ultimately show ?thesis
      using Some x False first lt unfolding CFixedVarIntsBitSet_Unserialize_def
      by (subst varints_loop.simps) (auto simp: Let_def size)
  qed
qed

theorem CFixedVarIntsBitSet_negative_index_witness:
  "CFixedVarIntsBitSet_Unserialize 100 (WriteVarInt (0xdeadbeef :: u32) @ [7]) = Undefined"
  using CFixedVarIntsBitSet_negative_index [of 100 "WriteVarInt (0xdeadbeef :: u32) @ [7]"]
    ReadVarInt_Write [of "0xdeadbeef :: u32" "[7]"] by simp

end
