(* ===== verification/Script.thy ===== *)
theory Script
  imports Script_Num Hashes Serialize
begin

text \<open>
  Scripts, \<^verbatim>\<open>script/script.h\<close> and \<^verbatim>\<open>script/script.cpp\<close>: the opcodes, building a script
  and decoding it, and the tests that recognise the standard forms. A script is
  its list of bytes, and an iterator \<^verbatim>\<open>pc\<close> into it is the part of the script from there to the end; so
  \<^verbatim>\<open>pc == end()\<close> is \<open>pc = []\<close> and the bytes between two iterators are a prefix of the first. Scripts are
  shorter than \<open>2 ^ 32\<close> bytes, where \<^verbatim>\<open>(unsigned int)(end() - pc)\<close> is exact.
\<close>

unbundle bit_operations_syntax

subsection \<open>Opcodes and limits\<close>

type_synonym opcodetype = u8
type_synonym CScript = bytes

abbreviation OP_0 :: opcodetype where "OP_0 \<equiv> 0"
abbreviation OP_FALSE :: opcodetype where "OP_FALSE \<equiv> OP_0"
abbreviation OP_PUSHDATA1 :: opcodetype where "OP_PUSHDATA1 \<equiv> 0x4c"
abbreviation OP_PUSHDATA2 :: opcodetype where "OP_PUSHDATA2 \<equiv> 0x4d"
abbreviation OP_PUSHDATA4 :: opcodetype where "OP_PUSHDATA4 \<equiv> 0x4e"
abbreviation OP_1NEGATE :: opcodetype where "OP_1NEGATE \<equiv> 0x4f"
abbreviation OP_RESERVED :: opcodetype where "OP_RESERVED \<equiv> 0x50"
abbreviation OP_1 :: opcodetype where "OP_1 \<equiv> 0x51"
abbreviation OP_TRUE :: opcodetype where "OP_TRUE \<equiv> OP_1"
abbreviation OP_2 :: opcodetype where "OP_2 \<equiv> 0x52"
abbreviation OP_3 :: opcodetype where "OP_3 \<equiv> 0x53"
abbreviation OP_4 :: opcodetype where "OP_4 \<equiv> 0x54"
abbreviation OP_5 :: opcodetype where "OP_5 \<equiv> 0x55"
abbreviation OP_6 :: opcodetype where "OP_6 \<equiv> 0x56"
abbreviation OP_7 :: opcodetype where "OP_7 \<equiv> 0x57"
abbreviation OP_8 :: opcodetype where "OP_8 \<equiv> 0x58"
abbreviation OP_9 :: opcodetype where "OP_9 \<equiv> 0x59"
abbreviation OP_10 :: opcodetype where "OP_10 \<equiv> 0x5a"
abbreviation OP_11 :: opcodetype where "OP_11 \<equiv> 0x5b"
abbreviation OP_12 :: opcodetype where "OP_12 \<equiv> 0x5c"
abbreviation OP_13 :: opcodetype where "OP_13 \<equiv> 0x5d"
abbreviation OP_14 :: opcodetype where "OP_14 \<equiv> 0x5e"
abbreviation OP_15 :: opcodetype where "OP_15 \<equiv> 0x5f"
abbreviation OP_16 :: opcodetype where "OP_16 \<equiv> 0x60"
abbreviation OP_NOP :: opcodetype where "OP_NOP \<equiv> 0x61"
abbreviation OP_VER :: opcodetype where "OP_VER \<equiv> 0x62"
abbreviation OP_IF :: opcodetype where "OP_IF \<equiv> 0x63"
abbreviation OP_NOTIF :: opcodetype where "OP_NOTIF \<equiv> 0x64"
abbreviation OP_VERIF :: opcodetype where "OP_VERIF \<equiv> 0x65"
abbreviation OP_VERNOTIF :: opcodetype where "OP_VERNOTIF \<equiv> 0x66"
abbreviation OP_ELSE :: opcodetype where "OP_ELSE \<equiv> 0x67"
abbreviation OP_ENDIF :: opcodetype where "OP_ENDIF \<equiv> 0x68"
abbreviation OP_VERIFY :: opcodetype where "OP_VERIFY \<equiv> 0x69"
abbreviation OP_RETURN :: opcodetype where "OP_RETURN \<equiv> 0x6a"
abbreviation OP_TOALTSTACK :: opcodetype where "OP_TOALTSTACK \<equiv> 0x6b"
abbreviation OP_FROMALTSTACK :: opcodetype where "OP_FROMALTSTACK \<equiv> 0x6c"
abbreviation OP_2DROP :: opcodetype where "OP_2DROP \<equiv> 0x6d"
abbreviation OP_2DUP :: opcodetype where "OP_2DUP \<equiv> 0x6e"
abbreviation OP_3DUP :: opcodetype where "OP_3DUP \<equiv> 0x6f"
abbreviation OP_2OVER :: opcodetype where "OP_2OVER \<equiv> 0x70"
abbreviation OP_2ROT :: opcodetype where "OP_2ROT \<equiv> 0x71"
abbreviation OP_2SWAP :: opcodetype where "OP_2SWAP \<equiv> 0x72"
abbreviation OP_IFDUP :: opcodetype where "OP_IFDUP \<equiv> 0x73"
abbreviation OP_DEPTH :: opcodetype where "OP_DEPTH \<equiv> 0x74"
abbreviation OP_DROP :: opcodetype where "OP_DROP \<equiv> 0x75"
abbreviation OP_DUP :: opcodetype where "OP_DUP \<equiv> 0x76"
abbreviation OP_NIP :: opcodetype where "OP_NIP \<equiv> 0x77"
abbreviation OP_OVER :: opcodetype where "OP_OVER \<equiv> 0x78"
abbreviation OP_PICK :: opcodetype where "OP_PICK \<equiv> 0x79"
abbreviation OP_ROLL :: opcodetype where "OP_ROLL \<equiv> 0x7a"
abbreviation OP_ROT :: opcodetype where "OP_ROT \<equiv> 0x7b"
abbreviation OP_SWAP :: opcodetype where "OP_SWAP \<equiv> 0x7c"
abbreviation OP_TUCK :: opcodetype where "OP_TUCK \<equiv> 0x7d"
abbreviation OP_CAT :: opcodetype where "OP_CAT \<equiv> 0x7e"
abbreviation OP_SUBSTR :: opcodetype where "OP_SUBSTR \<equiv> 0x7f"
abbreviation OP_LEFT :: opcodetype where "OP_LEFT \<equiv> 0x80"
abbreviation OP_RIGHT :: opcodetype where "OP_RIGHT \<equiv> 0x81"
abbreviation OP_SIZE :: opcodetype where "OP_SIZE \<equiv> 0x82"
abbreviation OP_INVERT :: opcodetype where "OP_INVERT \<equiv> 0x83"
abbreviation OP_AND :: opcodetype where "OP_AND \<equiv> 0x84"
abbreviation OP_OR :: opcodetype where "OP_OR \<equiv> 0x85"
abbreviation OP_XOR :: opcodetype where "OP_XOR \<equiv> 0x86"
abbreviation OP_EQUAL :: opcodetype where "OP_EQUAL \<equiv> 0x87"
abbreviation OP_EQUALVERIFY :: opcodetype where "OP_EQUALVERIFY \<equiv> 0x88"
abbreviation OP_RESERVED1 :: opcodetype where "OP_RESERVED1 \<equiv> 0x89"
abbreviation OP_RESERVED2 :: opcodetype where "OP_RESERVED2 \<equiv> 0x8a"
abbreviation OP_1ADD :: opcodetype where "OP_1ADD \<equiv> 0x8b"
abbreviation OP_1SUB :: opcodetype where "OP_1SUB \<equiv> 0x8c"
abbreviation OP_2MUL :: opcodetype where "OP_2MUL \<equiv> 0x8d"
abbreviation OP_2DIV :: opcodetype where "OP_2DIV \<equiv> 0x8e"
abbreviation OP_NEGATE :: opcodetype where "OP_NEGATE \<equiv> 0x8f"
abbreviation OP_ABS :: opcodetype where "OP_ABS \<equiv> 0x90"
abbreviation OP_NOT :: opcodetype where "OP_NOT \<equiv> 0x91"
abbreviation OP_0NOTEQUAL :: opcodetype where "OP_0NOTEQUAL \<equiv> 0x92"
abbreviation OP_ADD :: opcodetype where "OP_ADD \<equiv> 0x93"
abbreviation OP_SUB :: opcodetype where "OP_SUB \<equiv> 0x94"
abbreviation OP_MUL :: opcodetype where "OP_MUL \<equiv> 0x95"
abbreviation OP_DIV :: opcodetype where "OP_DIV \<equiv> 0x96"
abbreviation OP_MOD :: opcodetype where "OP_MOD \<equiv> 0x97"
abbreviation OP_LSHIFT :: opcodetype where "OP_LSHIFT \<equiv> 0x98"
abbreviation OP_RSHIFT :: opcodetype where "OP_RSHIFT \<equiv> 0x99"
abbreviation OP_BOOLAND :: opcodetype where "OP_BOOLAND \<equiv> 0x9a"
abbreviation OP_BOOLOR :: opcodetype where "OP_BOOLOR \<equiv> 0x9b"
abbreviation OP_NUMEQUAL :: opcodetype where "OP_NUMEQUAL \<equiv> 0x9c"
abbreviation OP_NUMEQUALVERIFY :: opcodetype where "OP_NUMEQUALVERIFY \<equiv> 0x9d"
abbreviation OP_NUMNOTEQUAL :: opcodetype where "OP_NUMNOTEQUAL \<equiv> 0x9e"
abbreviation OP_LESSTHAN :: opcodetype where "OP_LESSTHAN \<equiv> 0x9f"
abbreviation OP_GREATERTHAN :: opcodetype where "OP_GREATERTHAN \<equiv> 0xa0"
abbreviation OP_LESSTHANOREQUAL :: opcodetype where "OP_LESSTHANOREQUAL \<equiv> 0xa1"
abbreviation OP_GREATERTHANOREQUAL :: opcodetype where "OP_GREATERTHANOREQUAL \<equiv> 0xa2"
abbreviation OP_MIN :: opcodetype where "OP_MIN \<equiv> 0xa3"
abbreviation OP_MAX :: opcodetype where "OP_MAX \<equiv> 0xa4"
abbreviation OP_WITHIN :: opcodetype where "OP_WITHIN \<equiv> 0xa5"
abbreviation OP_RIPEMD160 :: opcodetype where "OP_RIPEMD160 \<equiv> 0xa6"
abbreviation OP_SHA1 :: opcodetype where "OP_SHA1 \<equiv> 0xa7"
abbreviation OP_SHA256 :: opcodetype where "OP_SHA256 \<equiv> 0xa8"
abbreviation OP_HASH160 :: opcodetype where "OP_HASH160 \<equiv> 0xa9"
abbreviation OP_HASH256 :: opcodetype where "OP_HASH256 \<equiv> 0xaa"
abbreviation OP_CODESEPARATOR :: opcodetype where "OP_CODESEPARATOR \<equiv> 0xab"
abbreviation OP_CHECKSIG :: opcodetype where "OP_CHECKSIG \<equiv> 0xac"
abbreviation OP_CHECKSIGVERIFY :: opcodetype where "OP_CHECKSIGVERIFY \<equiv> 0xad"
abbreviation OP_CHECKMULTISIG :: opcodetype where "OP_CHECKMULTISIG \<equiv> 0xae"
abbreviation OP_CHECKMULTISIGVERIFY :: opcodetype where "OP_CHECKMULTISIGVERIFY \<equiv> 0xaf"
abbreviation OP_NOP1 :: opcodetype where "OP_NOP1 \<equiv> 0xb0"
abbreviation OP_CHECKLOCKTIMEVERIFY :: opcodetype where "OP_CHECKLOCKTIMEVERIFY \<equiv> 0xb1"
abbreviation OP_NOP2 :: opcodetype where "OP_NOP2 \<equiv> OP_CHECKLOCKTIMEVERIFY"
abbreviation OP_CHECKSEQUENCEVERIFY :: opcodetype where "OP_CHECKSEQUENCEVERIFY \<equiv> 0xb2"
abbreviation OP_NOP3 :: opcodetype where "OP_NOP3 \<equiv> OP_CHECKSEQUENCEVERIFY"
abbreviation OP_NOP4 :: opcodetype where "OP_NOP4 \<equiv> 0xb3"
abbreviation OP_NOP5 :: opcodetype where "OP_NOP5 \<equiv> 0xb4"
abbreviation OP_NOP6 :: opcodetype where "OP_NOP6 \<equiv> 0xb5"
abbreviation OP_NOP7 :: opcodetype where "OP_NOP7 \<equiv> 0xb6"
abbreviation OP_NOP8 :: opcodetype where "OP_NOP8 \<equiv> 0xb7"
abbreviation OP_NOP9 :: opcodetype where "OP_NOP9 \<equiv> 0xb8"
abbreviation OP_NOP10 :: opcodetype where "OP_NOP10 \<equiv> 0xb9"
abbreviation OP_SMALLINTEGER :: opcodetype where "OP_SMALLINTEGER \<equiv> 0xfa"
abbreviation OP_PUBKEYS :: opcodetype where "OP_PUBKEYS \<equiv> 0xfb"
abbreviation OP_PUBKEYHASH :: opcodetype where "OP_PUBKEYHASH \<equiv> 0xfd"
abbreviation OP_PUBKEY :: opcodetype where "OP_PUBKEY \<equiv> 0xfe"
abbreviation OP_INVALIDOPCODE :: opcodetype where "OP_INVALIDOPCODE \<equiv> 0xff"
abbreviation OP_ZEROCOINMINT :: opcodetype where "OP_ZEROCOINMINT \<equiv> 0xc1"
abbreviation OP_ZEROCOINSPEND :: opcodetype where "OP_ZEROCOINSPEND \<equiv> 0xc2"
abbreviation OP_SIGMAMINT :: opcodetype where "OP_SIGMAMINT \<equiv> 0xc3"
abbreviation OP_SIGMASPEND :: opcodetype where "OP_SIGMASPEND \<equiv> 0xc4"
abbreviation OP_ZEROCOINTOSIGMAREMINT :: opcodetype where "OP_ZEROCOINTOSIGMAREMINT \<equiv> 0xc8"

definition MAX_SCRIPT_ELEMENT_SIZE :: nat where "MAX_SCRIPT_ELEMENT_SIZE = 520"
definition MAX_OPS_PER_SCRIPT :: int where "MAX_OPS_PER_SCRIPT = 201"
definition MAX_PUBKEYS_PER_MULTISIG :: int where "MAX_PUBKEYS_PER_MULTISIG = 20"
definition MAX_SCRIPT_SIZE :: nat where "MAX_SCRIPT_SIZE = 10000"
definition LOCKTIME_THRESHOLD :: int where "LOCKTIME_THRESHOLD = 500000000"

lemmas script_limits = MAX_SCRIPT_ELEMENT_SIZE_def MAX_OPS_PER_SCRIPT_def MAX_PUBKEYS_PER_MULTISIG_def
  MAX_SCRIPT_SIZE_def LOCKTIME_THRESHOLD_def

definition opcode_names :: "(opcodetype \<times> string) list" where
  "opcode_names =
    [(OP_0, ''0''), (OP_PUSHDATA1, ''OP_PUSHDATA1''), (OP_PUSHDATA2, ''OP_PUSHDATA2''),
     (OP_PUSHDATA4, ''OP_PUSHDATA4''), (OP_1NEGATE, ''-1''), (OP_RESERVED, ''OP_RESERVED''), (OP_1, ''1''),
     (OP_2, ''2''), (OP_3, ''3''), (OP_4, ''4''), (OP_5, ''5''), (OP_6, ''6''), (OP_7, ''7''), (OP_8, ''8''),
     (OP_9, ''9''), (OP_10, ''10''), (OP_11, ''11''), (OP_12, ''12''), (OP_13, ''13''), (OP_14, ''14''),
     (OP_15, ''15''), (OP_16, ''16''), (OP_NOP, ''OP_NOP''), (OP_VER, ''OP_VER''), (OP_IF, ''OP_IF''),
     (OP_NOTIF, ''OP_NOTIF''), (OP_VERIF, ''OP_VERIF''), (OP_VERNOTIF, ''OP_VERNOTIF''), (OP_ELSE, ''OP_ELSE''),
     (OP_ENDIF, ''OP_ENDIF''), (OP_VERIFY, ''OP_VERIFY''), (OP_RETURN, ''OP_RETURN''),
     (OP_TOALTSTACK, ''OP_TOALTSTACK''), (OP_FROMALTSTACK, ''OP_FROMALTSTACK''), (OP_2DROP, ''OP_2DROP''),
     (OP_2DUP, ''OP_2DUP''), (OP_3DUP, ''OP_3DUP''), (OP_2OVER, ''OP_2OVER''), (OP_2ROT, ''OP_2ROT''),
     (OP_2SWAP, ''OP_2SWAP''), (OP_IFDUP, ''OP_IFDUP''), (OP_DEPTH, ''OP_DEPTH''), (OP_DROP, ''OP_DROP''),
     (OP_DUP, ''OP_DUP''), (OP_NIP, ''OP_NIP''), (OP_OVER, ''OP_OVER''), (OP_PICK, ''OP_PICK''),
     (OP_ROLL, ''OP_ROLL''), (OP_ROT, ''OP_ROT''), (OP_SWAP, ''OP_SWAP''), (OP_TUCK, ''OP_TUCK''),
     (OP_CAT, ''OP_CAT''), (OP_SUBSTR, ''OP_SUBSTR''), (OP_LEFT, ''OP_LEFT''), (OP_RIGHT, ''OP_RIGHT''),
     (OP_SIZE, ''OP_SIZE''), (OP_INVERT, ''OP_INVERT''), (OP_AND, ''OP_AND''), (OP_OR, ''OP_OR''),
     (OP_XOR, ''OP_XOR''), (OP_EQUAL, ''OP_EQUAL''), (OP_EQUALVERIFY, ''OP_EQUALVERIFY''),
     (OP_RESERVED1, ''OP_RESERVED1''), (OP_RESERVED2, ''OP_RESERVED2''), (OP_1ADD, ''OP_1ADD''),
     (OP_1SUB, ''OP_1SUB''), (OP_2MUL, ''OP_2MUL''), (OP_2DIV, ''OP_2DIV''), (OP_NEGATE, ''OP_NEGATE''),
     (OP_ABS, ''OP_ABS''), (OP_NOT, ''OP_NOT''), (OP_0NOTEQUAL, ''OP_0NOTEQUAL''), (OP_ADD, ''OP_ADD''),
     (OP_SUB, ''OP_SUB''), (OP_MUL, ''OP_MUL''), (OP_DIV, ''OP_DIV''), (OP_MOD, ''OP_MOD''),
     (OP_LSHIFT, ''OP_LSHIFT''), (OP_RSHIFT, ''OP_RSHIFT''), (OP_BOOLAND, ''OP_BOOLAND''), (OP_BOOLOR, ''OP_BOOLOR''),
     (OP_NUMEQUAL, ''OP_NUMEQUAL''), (OP_NUMEQUALVERIFY, ''OP_NUMEQUALVERIFY''), (OP_NUMNOTEQUAL, ''OP_NUMNOTEQUAL''),
     (OP_LESSTHAN, ''OP_LESSTHAN''), (OP_GREATERTHAN, ''OP_GREATERTHAN''),
     (OP_LESSTHANOREQUAL, ''OP_LESSTHANOREQUAL''), (OP_GREATERTHANOREQUAL, ''OP_GREATERTHANOREQUAL''),
     (OP_MIN, ''OP_MIN''), (OP_MAX, ''OP_MAX''), (OP_WITHIN, ''OP_WITHIN''), (OP_RIPEMD160, ''OP_RIPEMD160''),
     (OP_SHA1, ''OP_SHA1''), (OP_SHA256, ''OP_SHA256''), (OP_HASH160, ''OP_HASH160''), (OP_HASH256, ''OP_HASH256''),
     (OP_CODESEPARATOR, ''OP_CODESEPARATOR''), (OP_CHECKSIG, ''OP_CHECKSIG''),
     (OP_CHECKSIGVERIFY, ''OP_CHECKSIGVERIFY''), (OP_CHECKMULTISIG, ''OP_CHECKMULTISIG''),
     (OP_CHECKMULTISIGVERIFY, ''OP_CHECKMULTISIGVERIFY''), (OP_NOP1, ''OP_NOP1''),
     (OP_CHECKLOCKTIMEVERIFY, ''OP_CHECKLOCKTIMEVERIFY''), (OP_CHECKSEQUENCEVERIFY, ''OP_CHECKSEQUENCEVERIFY''),
     (OP_NOP4, ''OP_NOP4''), (OP_NOP5, ''OP_NOP5''), (OP_NOP6, ''OP_NOP6''), (OP_NOP7, ''OP_NOP7''),
     (OP_NOP8, ''OP_NOP8''), (OP_NOP9, ''OP_NOP9''), (OP_NOP10, ''OP_NOP10''),
     (OP_INVALIDOPCODE, ''OP_INVALIDOPCODE''), (OP_ZEROCOINMINT, ''OP_ZEROCOINMINT''),
     (OP_ZEROCOINSPEND, ''OP_ZEROCOINSPEND''), (OP_SIGMAMINT, ''OP_SIGMAMINT''), (OP_SIGMASPEND, ''OP_SIGMASPEND''),
     (OP_ZEROCOINTOSIGMAREMINT, ''OP_ZEROCOINTOSIGMAREMINT'')]"

definition GetOpName :: "opcodetype \<Rightarrow> string" where
  "GetOpName opcode = (case map_of opcode_names opcode of Some s \<Rightarrow> s | None \<Rightarrow> ''OP_UNKNOWN'')"

subsection \<open>Building scripts\<close>

definition push_opcode :: "CScript \<Rightarrow> opcodetype \<Rightarrow> CScript" where
  "push_opcode script opcode = script @ [opcode]"

definition push_vch :: "CScript \<Rightarrow> bytes \<Rightarrow> CScript" where
  "push_vch script b =
     (if length b < unat OP_PUSHDATA1 then script @ [of_nat (length b)]
      else if length b \<le> 0xff then script @ [OP_PUSHDATA1] @ [of_nat (length b)]
      else if length b \<le> 0xffff then script @ [OP_PUSHDATA2] @ WriteLE16 (of_nat (length b))
      else script @ [OP_PUSHDATA4] @ WriteLE32 (of_nat (length b))) @ b"

definition push_int64 :: "CScript \<Rightarrow> int \<Rightarrow> CScript" where
  "push_int64 script n =
     (if n = - 1 \<or> (n \<ge> 1 \<and> n \<le> 16) then script @ [of_int (n + (uint OP_1 - 1))]
      else if n = 0 then script @ [OP_0]
      else push_vch script (CScriptNum_serialize n))"

definition push_CScriptNum :: "CScript \<Rightarrow> int \<Rightarrow> CScript" where
  "push_CScriptNum script b = push_vch script (CScriptNum_serialize b)"

subsection \<open>Decoding scripts\<close>

text \<open>
  \<open>GetOp2\<close> returns the result, the new \<^verbatim>\<open>pc\<close>, \<^verbatim>\<open>opcodeRet\<close> and \<^verbatim>\<open>*pvchRet\<close>. The size of an immediate
  operand is read by \<open>operand_size\<close>.
\<close>

definition operand_size :: "opcodetype \<Rightarrow> bytes \<Rightarrow> (nat \<times> bytes) option" where
  "operand_size opcode pc =
     (if opcode < OP_PUSHDATA1 then Some (unat opcode, pc)
      else if opcode = OP_PUSHDATA1 then (if length pc < 1 then None else Some (unat (pc ! 0), drop 1 pc))
      else if opcode = OP_PUSHDATA2 then (if length pc < 2 then None else Some (unat (ReadLE16 pc), drop 2 pc))
      else if opcode = OP_PUSHDATA4 then (if length pc < 4 then None else Some (unat (ReadLE32 pc), drop 4 pc))
      else Some (0, pc))"

definition sigma_rest :: "opcodetype \<Rightarrow> bytes \<Rightarrow> bytes \<Rightarrow> bool \<times> bytes \<times> opcodetype \<times> bytes" where
  "sigma_rest opcode vch pc =
     (if opcode = OP_SIGMASPEND \<or> opcode = OP_SIGMAMINT then (True, [], opcode, pc) else (True, pc, opcode, vch))"

fun GetOp2 :: "bytes \<Rightarrow> bool \<times> bytes \<times> opcodetype \<times> bytes" where
  "GetOp2 [] = (False, [], OP_INVALIDOPCODE, [])"
| "GetOp2 (opcode # pc) =
     (if opcode \<le> OP_PUSHDATA4 then
        (case operand_size opcode pc of
           None \<Rightarrow> (False, pc, OP_INVALIDOPCODE, [])
         | Some (nSize, pc) \<Rightarrow>
             if length pc < nSize then (False, pc, OP_INVALIDOPCODE, [])
             else sigma_rest opcode (take nSize pc) (drop nSize pc))
      else sigma_rest opcode [] pc)"

lemma GetOp2_shorter: "pc \<noteq> [] \<Longrightarrow> length (fst (snd (GetOp2 pc))) < length pc"
  by (cases pc) (auto simp: operand_size_def sigma_rest_def)

lemma GetOp2_shorterI: "(ret, pc', opcode, vch) = GetOp2 pc \<Longrightarrow> pc \<noteq> [] \<Longrightarrow> length pc' < length pc"
  using GetOp2_shorter [of pc] by (metis fst_conv snd_conv)

lemma GetOp2_suffix: "GetOp2 pc = (ret, pc', opcode, vch) \<Longrightarrow> take (length pc - length pc') pc @ pc' = pc"
proof -
  assume g: "GetOp2 pc = (ret, pc', opcode, vch)"
  have "\<exists>n. fst (snd (GetOp2 pc)) = drop n pc"
  proof (cases pc)
    case (Cons x xs)
    have "\<exists>n. drop k xs = drop n pc" for k
      by (rule exI [of _ "Suc k"]) (simp add: Cons)
    from this this [of 0] show ?thesis
      by (auto simp: Cons operand_size_def sigma_rest_def intro: exI [of _ "Suc (length xs)"])
  qed simp
  then obtain n where "pc' = drop n pc" using g by auto
  then show ?thesis by (cases "n \<le> length pc") auto
qed

lemma GetOp2_Nil_iff: "fst (GetOp2 pc) \<Longrightarrow> pc \<noteq> []"
  by auto

lemma GetOp2_True_shorter: "(True, pc', opcode, vch) = GetOp2 pc \<Longrightarrow> length pc' < length pc"
  using GetOp2_shorterI [of True pc' opcode vch pc] GetOp2_Nil_iff [of pc] by (metis fst_conv)

definition DecodeOP_N :: "opcodetype \<Rightarrow> nat option" where
  "DecodeOP_N opcode =
     (if opcode = OP_0 then Some 0
      else if opcode \<ge> OP_1 \<and> opcode \<le> OP_16 then Some (unat opcode - (unat OP_1 - 1))
      else None)"

definition EncodeOP_N :: "int \<Rightarrow> opcodetype option" where
  "EncodeOP_N n =
     (if n \<ge> 0 \<and> n \<le> 16 then (if n = 0 then Some OP_0 else Some (OP_1 + of_int n - 1)) else None)"

subsection \<open>Searching and classifying scripts\<close>

text \<open>
  \<open>FindAndDelete\<close> skips copies of \<open>b\<close> at the start of each operation; the caller has made sure that \<open>b\<close> is
  not empty. The loop keeps \<^verbatim>\<open>pc2\<close>, \<^verbatim>\<open>pc\<close>, \<^verbatim>\<open>result\<close> and \<^verbatim>\<open>nFound\<close>, and ends with \<^verbatim>\<open>pc2\<close>.
\<close>

function skip_matches :: "bytes \<Rightarrow> bytes \<Rightarrow> nat \<Rightarrow> bytes \<times> nat" where
  "skip_matches b pc nFound =
     (if b \<noteq> [] \<and> length pc \<ge> length b \<and> take (length b) pc = b then skip_matches b (drop (length b) pc) (nFound + 1)
      else (pc, nFound))"
  by pat_completeness auto
termination by (relation "measure (\<lambda>(b, pc, nFound). length pc)") (auto intro!: diff_less)

declare skip_matches.simps [simp del]

lemma skip_matches_shorter: "length (fst (skip_matches b pc n)) \<le> length pc"
  by (induction b pc n rule: skip_matches.induct) (subst skip_matches.simps, auto intro: le_trans)

lemma skip_GetOp2_shorter:
  assumes "(pc1, n1) = skip_matches b pc n" and "(True, pc', opcode, vch) = GetOp2 pc1"
  shows "length pc' < length pc"
  using assms skip_matches_shorter [of b pc n] GetOp2_shorterI [OF assms(2)] GetOp2_Nil_iff [of pc1]
  by (metis fst_conv order_less_le_trans)

function find_and_delete_loop :: "bytes \<Rightarrow> bytes \<Rightarrow> bytes \<Rightarrow> bytes \<Rightarrow> nat \<Rightarrow> bytes \<times> bytes \<times> nat" where
  "find_and_delete_loop b pc2 pc result nFound =
     (let result = result @ take (length pc2 - length pc) pc2;
          (pc, nFound) = skip_matches b pc nFound
      in case GetOp2 pc of (ret, pc', _, _) \<Rightarrow>
           if ret then find_and_delete_loop b pc pc' result nFound else (result, pc, nFound))"
  by pat_completeness auto
termination
  by (relation "measure (\<lambda>(b, pc2, pc, result, nFound). length pc)") (auto dest: skip_GetOp2_shorter)

declare find_and_delete_loop.simps [simp del]

definition FindAndDelete :: "CScript \<Rightarrow> CScript \<Rightarrow> CScript \<times> nat" where
  "FindAndDelete script b =
     (if b = [] then (script, 0)
      else let (result, pc2, nFound) = find_and_delete_loop b script script [] 0
           in if nFound > 0 then (result @ pc2, nFound) else (script, nFound))"

function Find_loop :: "bytes \<Rightarrow> opcodetype \<Rightarrow> nat \<Rightarrow> nat" where
  "Find_loop pc oper nFound =
     (if pc = [] then nFound
      else case GetOp2 pc of (ret, pc', opcode, _) \<Rightarrow>
        if ret then Find_loop pc' oper (if opcode = oper then nFound + 1 else nFound) else nFound)"
  by pat_completeness auto
termination by (relation "measure (\<lambda>(pc, oper, nFound). length pc)") (auto dest: GetOp2_shorterI)

declare Find_loop.simps [simp del]

definition Find :: "CScript \<Rightarrow> opcodetype \<Rightarrow> nat" where
  "Find script oper = Find_loop script oper 0"

definition IsUnspendable :: "CScript \<Rightarrow> bool" where
  "IsUnspendable script \<longleftrightarrow> (length script > 0 \<and> script ! 0 = OP_RETURN) \<or> length script > MAX_SCRIPT_SIZE"

function sigop_loop :: "bool \<Rightarrow> bytes \<Rightarrow> opcodetype \<Rightarrow> nat \<Rightarrow> nat" where
  "sigop_loop fAccurate pc lastOpcode n =
     (if pc = [] then n
      else case GetOp2 pc of (ret, pc', opcode, _) \<Rightarrow>
        if \<not> ret then n
        else sigop_loop fAccurate pc' opcode
          (if opcode = OP_CHECKSIG \<or> opcode = OP_CHECKSIGVERIFY then n + 1
           else if opcode = OP_CHECKMULTISIG \<or> opcode = OP_CHECKMULTISIGVERIFY then
             (if fAccurate \<and> lastOpcode \<ge> OP_1 \<and> lastOpcode \<le> OP_16 then n + the (DecodeOP_N lastOpcode)
              else n + nat MAX_PUBKEYS_PER_MULTISIG)
           else n))"
  by pat_completeness auto
termination by (relation "measure (\<lambda>(fAccurate, pc, lastOpcode, n). length pc)") (auto dest: GetOp2_shorterI)

declare sigop_loop.simps [simp del]

definition GetSigOpCount :: "CScript \<Rightarrow> bool \<Rightarrow> nat" where
  "GetSigOpCount script fAccurate = sigop_loop fAccurate script OP_INVALIDOPCODE 0"

definition IsPayToPublicKeyHash :: "CScript \<Rightarrow> bool" where
  "IsPayToPublicKeyHash s \<longleftrightarrow> length s = 25 \<and> s ! 0 = OP_DUP \<and> s ! 1 = OP_HASH160 \<and> s ! 2 = 0x14 \<and>
     s ! 23 = OP_EQUALVERIFY \<and> s ! 24 = OP_CHECKSIG"

definition IsPayToScriptHash :: "CScript \<Rightarrow> bool" where
  "IsPayToScriptHash s \<longleftrightarrow> length s = 23 \<and> s ! 0 = OP_HASH160 \<and> s ! 1 = 0x14 \<and> s ! 22 = OP_EQUAL"

definition IsPayToWitnessScriptHash :: "CScript \<Rightarrow> bool" where
  "IsPayToWitnessScriptHash s \<longleftrightarrow> length s = 34 \<and> s ! 0 = OP_0 \<and> s ! 1 = 0x20"

text \<open>The last item pushed by a script signature; None where the function returns early with zero.\<close>

function last_push :: "bytes \<Rightarrow> bytes \<Rightarrow> bytes option" where
  "last_push pc dat =
     (if pc = [] then Some dat
      else case GetOp2 pc of (ret, pc', opcode, vch) \<Rightarrow>
        if \<not> ret then None else if opcode > OP_16 then None else last_push pc' vch)"
  by pat_completeness auto
termination by (relation "measure (\<lambda>(pc, dat). length pc)") (auto dest: GetOp2_shorterI)

declare last_push.simps [simp del]

definition GetSigOpCount_scriptSig :: "CScript \<Rightarrow> CScript \<Rightarrow> nat" where
  "GetSigOpCount_scriptSig script scriptSig =
     (if \<not> IsPayToScriptHash script then GetSigOpCount script True
      else case last_push scriptSig [] of None \<Rightarrow> 0 | Some subscript \<Rightarrow> GetSigOpCount subscript True)"

text \<open>\<open>IsNormalPaymentScript\<close> ignores whether \<open>GetOp\<close> succeeds.\<close>

function normal_payment_loop :: "nat \<Rightarrow> bytes \<Rightarrow> bool" where
  "normal_payment_loop i pc =
     (if pc = [] then True
      else case GetOp2 pc of (_, pc', opcode, _) \<Rightarrow>
        if i = 0 \<and> opcode \<noteq> OP_DUP then False
        else if i = 1 \<and> opcode \<noteq> OP_HASH160 then False
        else if i = 3 \<and> opcode \<noteq> OP_EQUALVERIFY then False
        else if i = 4 \<and> opcode \<noteq> OP_CHECKSIG then False
        else if i = 5 then False
        else normal_payment_loop (i + 1) pc')"
  by pat_completeness auto
termination by (relation "measure (\<lambda>(i, pc). length pc)") (auto dest: GetOp2_shorterI)

declare normal_payment_loop.simps [simp del]

definition IsNormalPaymentScript :: "CScript \<Rightarrow> bool" where
  "IsNormalPaymentScript s = (if length s \<noteq> 25 then False else normal_payment_loop 0 s)"

definition IsWitnessProgram :: "CScript \<Rightarrow> (nat \<times> bytes) option" where
  "IsWitnessProgram s =
     (if length s < 4 \<or> length s > 42 then None
      else if s ! 0 \<noteq> OP_0 \<and> (s ! 0 < OP_1 \<or> s ! 0 > OP_16) then None
      else if unat (s ! 1) + 2 = length s then map_option (\<lambda>version. (version, drop 2 s)) (DecodeOP_N (s ! 0))
      else None)"

definition IsZerocoinMint :: "CScript \<Rightarrow> bool" where
  "IsZerocoinMint s \<longleftrightarrow> length s > 0 \<and> s ! 0 = OP_ZEROCOINMINT"
definition IsZerocoinSpend :: "CScript \<Rightarrow> bool" where
  "IsZerocoinSpend s \<longleftrightarrow> length s > 0 \<and> s ! 0 = OP_ZEROCOINSPEND"
definition IsSigmaMint :: "CScript \<Rightarrow> bool" where
  "IsSigmaMint s \<longleftrightarrow> length s > 0 \<and> s ! 0 = OP_SIGMAMINT"
definition IsSigmaSpend :: "CScript \<Rightarrow> bool" where
  "IsSigmaSpend s \<longleftrightarrow> length s > 0 \<and> s ! 0 = OP_SIGMASPEND"
definition IsZerocoinRemint :: "CScript \<Rightarrow> bool" where
  "IsZerocoinRemint s \<longleftrightarrow> length s > 0 \<and> s ! 0 = OP_ZEROCOINTOSIGMAREMINT"

definition noncanonical_push :: "opcodetype \<Rightarrow> bytes \<Rightarrow> bool" where
  "noncanonical_push opcode dat \<longleftrightarrow>
     (opcode < OP_PUSHDATA1 \<and> opcode > OP_0 \<and> length dat = 1 \<and> dat ! 0 \<le> 16) \<or>
     (opcode = OP_PUSHDATA1 \<and> length dat < unat OP_PUSHDATA1) \<or>
     (opcode = OP_PUSHDATA2 \<and> length dat \<le> 0xFF) \<or>
     (opcode = OP_PUSHDATA4 \<and> length dat \<le> 0xFFFF)"

function HasCanonicalPushes :: "bytes \<Rightarrow> bool" where
  "HasCanonicalPushes pc =
     (if pc = [] then True
      else case GetOp2 pc of (ret, pc', opcode, dat) \<Rightarrow>
        if \<not> ret then False
        else if opcode > OP_16 then HasCanonicalPushes pc'
        else if noncanonical_push opcode dat then False
        else HasCanonicalPushes pc')"
  by pat_completeness auto
termination by (relation "measure length") (auto dest: GetOp2_shorterI)

declare HasCanonicalPushes.simps [simp del]

function IsPushOnly :: "bytes \<Rightarrow> bool" where
  "IsPushOnly pc =
     (if pc = [] then True
      else case GetOp2 pc of (ret, pc', opcode, _) \<Rightarrow>
        if \<not> ret then False else if opcode > OP_16 then False else IsPushOnly pc')"
  by pat_completeness auto
termination by (relation "measure length") (auto dest: GetOp2_shorterI)

declare IsPushOnly.simps [simp del]

subsection \<open>Pushes are decoded as written\<close>

definition push_code :: "bytes \<Rightarrow> opcodetype" where
  "push_code b =
     (if length b < 76 then of_nat (length b) else if length b \<le> 255 then OP_PUSHDATA1
      else if length b \<le> 65535 then OP_PUSHDATA2 else OP_PUSHDATA4)"

lemma unat_push_code: "length b < 76 \<Longrightarrow> unat (push_code b) = length b"
  by (simp add: push_code_def unat_of_nat)

lemma push_code_le: "push_code b \<le> OP_PUSHDATA4"
  using unat_push_code [of b] by (cases "length b < 76") (simp_all add: word_le_nat_alt, simp add: push_code_def)

lemma GetOp2_push:
  assumes "length b < 2 ^ 32"
  shows "GetOp2 (push_vch [] b @ rest) = (True, rest, push_code b, b)"
proof -
  have nosigma: "sigma_rest (push_code b) vch pc = (True, pc, push_code b, vch)" for vch pc
  proof -
    have "push_code b \<noteq> OP_SIGMASPEND \<and> push_code b \<noteq> OP_SIGMAMINT"
      using push_code_le [of b] by (auto simp: word_le_nat_alt)
    then show ?thesis by (simp add: sigma_rest_def)
  qed
  consider (direct) "length b < 76" | (one) "76 \<le> length b" "length b \<le> 255"
    | (two) "255 < length b" "length b \<le> 65535" | (four) "65535 < length b"
    by linarith
  then show ?thesis
  proof cases
    case direct
    have "push_vch [] b = push_code b # b" using direct by (simp add: push_vch_def push_code_def)
    moreover have "push_code b < OP_PUSHDATA1"
      using unat_push_code [OF direct] direct by (simp add: word_less_nat_alt)
    ultimately show ?thesis
      using push_code_le [of b] unat_push_code [OF direct] by (simp add: operand_size_def nosigma)
  next
    case one
    then have "unat (of_nat (length b) :: u8) = length b" and "push_code b = OP_PUSHDATA1"
      by (simp_all add: unat_of_nat push_code_def)
    with one nosigma show ?thesis by (simp add: push_vch_def operand_size_def)
  next
    case two
    then have "unat (of_nat (length b) :: u16) = length b" and "push_code b = OP_PUSHDATA2"
      by (simp_all add: unat_of_nat push_code_def)
    with two nosigma show ?thesis by (simp add: push_vch_def operand_size_def)
  next
    case four
    then have "unat (of_nat (length b) :: u32) = length b" and "push_code b = OP_PUSHDATA4"
      using assms by (simp_all add: unat_of_nat push_code_def)
    with four nosigma show ?thesis by (simp add: push_vch_def operand_size_def)
  qed
qed

subsection \<open>Reference: the operations of a script\<close>

text \<open>The operations up to the end or the first one that cannot be decoded, and whether the end was reached.\<close>

function script_ops :: "bytes \<Rightarrow> (opcodetype \<times> bytes) list \<times> bool" where
  "script_ops pc =
     (if pc = [] then ([], True)
      else case GetOp2 pc of (ret, pc', opcode, vch) \<Rightarrow>
        if ret then (case script_ops pc' of (ops, ok) \<Rightarrow> ((opcode, vch) # ops, ok)) else ([], False))"
  by pat_completeness auto
termination by (relation "measure length") (auto dest: GetOp2_shorterI)

declare script_ops.simps [simp del]

text \<open>Induction along the operations of a script.\<close>

lemma script_induct [case_names Nil Op Bad]:
  assumes "P []"
    and "\<And>pc pc' opcode vch. pc \<noteq> [] \<Longrightarrow> GetOp2 pc = (True, pc', opcode, vch) \<Longrightarrow> P pc' \<Longrightarrow> P pc"
    and "\<And>pc pc' opcode vch. pc \<noteq> [] \<Longrightarrow> GetOp2 pc = (False, pc', opcode, vch) \<Longrightarrow> P pc"
  shows "P pc"
proof (induction pc rule: length_induct)
  case (1 pc)
  obtain ret pc' opcode vch where g: "GetOp2 pc = (ret, pc', opcode, vch)" by (cases "GetOp2 pc")
  then show ?case
    using assms 1 GetOp2_shorterI [OF g [symmetric]] by (cases "pc = []"; cases ret) auto
qed

lemma script_ops_simps:
  "script_ops [] = ([], True)"
  "pc \<noteq> [] \<Longrightarrow> GetOp2 pc = (True, pc', opcode, vch) \<Longrightarrow>
     script_ops pc = ((opcode, vch) # fst (script_ops pc'), snd (script_ops pc'))"
  "pc \<noteq> [] \<Longrightarrow> GetOp2 pc = (False, pc', opcode, vch) \<Longrightarrow> script_ops pc = ([], False)"
  by (subst script_ops.simps, simp split: prod.splits)+

text \<open>Each scan of a script is a fold over its operations.\<close>

lemma IsPushOnly_ops: "IsPushOnly pc \<longleftrightarrow> snd (script_ops pc) \<and> (\<forall>(opcode, _) \<in> set (fst (script_ops pc)). opcode \<le> OP_16)"
proof (induction pc rule: script_induct)
  case (Op pc pc' opcode vch)
  then show ?case by (subst IsPushOnly.simps) (auto simp: script_ops_simps(2) [OF Op(1,2)] not_less)
qed (subst IsPushOnly.simps, simp add: script_ops_simps)+

fun count_sigops :: "bool \<Rightarrow> opcodetype \<Rightarrow> (opcodetype \<times> bytes) list \<Rightarrow> nat" where
  "count_sigops fAccurate prev [] = 0"
| "count_sigops fAccurate prev ((opcode, _) # ops) =
     (if opcode = OP_CHECKSIG \<or> opcode = OP_CHECKSIGVERIFY then 1
      else if opcode = OP_CHECKMULTISIG \<or> opcode = OP_CHECKMULTISIGVERIFY then
        (if fAccurate \<and> OP_1 \<le> prev \<and> prev \<le> OP_16 then unat prev - 80 else 20)
      else 0) + count_sigops fAccurate opcode ops"

lemma sigop_loop_ops: "sigop_loop acc pc prev n = n + count_sigops acc prev (fst (script_ops pc))"
proof (induction pc arbitrary: prev n rule: script_induct)
  case (Op pc pc' opcode vch)
  then show ?case
    by (subst sigop_loop.simps)
      (simp add: script_ops_simps(2) [OF Op(1,2)] DecodeOP_N_def MAX_PUBKEYS_PER_MULTISIG_def)
qed (subst sigop_loop.simps, simp add: script_ops_simps)+

lemma GetSigOpCount_ops: "GetSigOpCount s acc = count_sigops acc OP_INVALIDOPCODE (fst (script_ops s))"
  by (simp add: GetSigOpCount_def sigop_loop_ops)

lemma count_sigops_bounds:
  "count_sigops acc prev ops \<le> count_sigops False prev ops" "count_sigops acc prev ops \<le> 20 * length ops"
proof -
  have le: "prev \<le> OP_16 \<Longrightarrow> unat prev \<le> 96" for prev :: u8 by (simp add: word_le_nat_alt)
  show "count_sigops acc prev ops \<le> count_sigops False prev ops"
  proof (induction acc prev ops rule: count_sigops.induct)
    case (2 acc prev opcode v ops)
    then show ?case using le [of prev] by auto
  qed simp
  show "count_sigops acc prev ops \<le> 20 * length ops"
  proof (induction acc prev ops rule: count_sigops.induct)
    case (2 acc prev opcode v ops)
    then show ?case using le [of prev] by auto
  qed simp
qed

lemma script_ops_length: "length (fst (script_ops pc)) \<le> length pc"
proof (induction pc rule: script_induct)
  case (Op pc pc' opcode vch)
  then show ?case using GetOp2_shorterI [OF Op(2) [symmetric]] by (simp add: script_ops_simps(2) [OF Op(1,2)])
qed (simp_all add: script_ops_simps)

lemma push_vch_append: "push_vch s b = s @ push_vch [] b"
  by (simp add: push_vch_def)

lemma push_vch_neq: "push_vch s b \<noteq> []"
  by (simp add: push_vch_def)

lemma foldl_push_append: "foldl push_vch s bs = s @ foldl push_vch [] bs"
proof (induction bs arbitrary: s)
  case (Cons b bs)
  show ?case
    using Cons [of "push_vch s b"] Cons [of "push_vch [] b"] push_vch_append [of s b] by simp
qed simp

lemma script_ops_pushes:
  assumes "\<forall>b\<in>set bs. length b < 2 ^ 32"
  shows "map snd (fst (script_ops (foldl push_vch [] bs))) = bs \<and> snd (script_ops (foldl push_vch [] bs)) \<and>
    (\<forall>(opcode, _) \<in> set (fst (script_ops (foldl push_vch [] bs))). opcode \<le> OP_PUSHDATA4)"
  using assms
proof (induction bs)
  case (Cons b bs)
  have sp: "foldl push_vch [] (b # bs) = push_vch [] b @ foldl push_vch [] bs"
    using foldl_push_append [of "push_vch [] b" bs] by simp
  have g: "GetOp2 (push_vch [] b @ foldl push_vch [] bs) = (True, foldl push_vch [] bs, push_code b, b)"
    using GetOp2_push [of b] Cons.prems by simp
  have "push_vch [] b @ foldl push_vch [] bs \<noteq> []" by (simp add: push_vch_neq)
  with Cons push_code_le [of b] show ?case
    unfolding sp script_ops_simps(2) [OF \<open>_ \<noteq> []\<close> g] by simp
qed (simp add: script_ops_simps)

subsection \<open>Deleting a script from a script\<close>

text \<open>
  Reference for \<open>FindAndDelete\<close>: copies of \<open>b\<close> that start where an operation starts are left out; what follows
  the last operation that can be decoded stays.
\<close>

function delete_ops :: "bytes \<Rightarrow> bytes \<Rightarrow> bytes" where
  "delete_ops b pc =
     (if b \<noteq> [] \<and> length pc \<ge> length b \<and> take (length b) pc = b then delete_ops b (drop (length b) pc)
      else case GetOp2 pc of (ret, pc', _, _) \<Rightarrow>
        if ret then take (length pc - length pc') pc @ delete_ops b pc' else pc)"
  by pat_completeness auto
termination
  by (relation "measure (\<lambda>(b, pc). length pc)") (auto intro!: diff_less dest: GetOp2_True_shorter)

declare delete_ops.simps [simp del]

lemma delete_ops_skip: "skip_matches b pc n = (pc1, n1) \<Longrightarrow> delete_ops b pc = delete_ops b pc1 \<and>
    \<not> (b \<noteq> [] \<and> length pc1 \<ge> length b \<and> take (length b) pc1 = b) \<and> n \<le> n1 \<and> (n1 = n \<longrightarrow> pc1 = pc) \<and>
    length pc + n * length b = length pc1 + n1 * length b"
proof (induction b pc n rule: skip_matches.induct)
  case (1 b pc n)
  show ?case
  proof (cases "b \<noteq> [] \<and> length pc \<ge> length b \<and> take (length b) pc = b")
    case True
    then have "skip_matches b (drop (length b) pc) (n + 1) = (pc1, n1)"
      using "1.prems" by (subst (asm) skip_matches.simps) simp
    from 1(1) [OF True this] True show ?thesis
      by (subst delete_ops.simps) auto
  next
    case False
    with "1.prems" show ?thesis by (subst (asm) skip_matches.simps) auto
  qed
qed

lemma find_and_delete_loop_ops:
  assumes "find_and_delete_loop b pc2 pc result n = (result', pc2', n')"
  shows "result' @ pc2' = result @ take (length pc2 - length pc) pc2 @ delete_ops b pc \<and> n \<le> n' \<and>
    (n' = n \<longrightarrow> delete_ops b pc = pc) \<and> length pc + n * length b = length (delete_ops b pc) + n' * length b"
  using assms
proof (induction b pc2 pc result n rule: find_and_delete_loop.induct)
  case (1 b pc2 pc result n)
  obtain pc1 n1 where sk: "skip_matches b pc n = (pc1, n1)" by (cases "skip_matches b pc n")
  obtain ret pc' opcode vch where g: "GetOp2 pc1 = (ret, pc', opcode, vch)" by (cases "GetOp2 pc1")
  note d = delete_ops_skip [OF sk]
  show ?case
  proof (cases ret)
    case True
    from "1.prems" sk g True
    have l: "find_and_delete_loop b pc1 pc' (result @ take (length pc2 - length pc) pc2) n1 = (result', pc2', n')"
      by (subst (asm) find_and_delete_loop.simps) simp
    define xs where "xs = take (length pc1 - length pc') pc1"
    have xs: "pc1 = xs @ pc'" using GetOp2_suffix [OF g] by (simp add: xs_def)
    have del: "delete_ops b pc1 = xs @ delete_ops b pc'"
      using d g True by (subst delete_ops.simps) (auto simp: xs_def)
    have ih: "result' @ pc2' = (result @ take (length pc2 - length pc) pc2) @ xs @ delete_ops b pc' \<and> n1 \<le> n' \<and>
        (n' = n1 \<longrightarrow> delete_ops b pc' = pc') \<and> length pc' + n1 * length b = length (delete_ops b pc') + n' * length b"
      unfolding xs_def by (rule 1(1) [OF refl sk [symmetric] refl g [symmetric] refl refl True l])
    have e: "delete_ops b pc = xs @ delete_ops b pc'" "n \<le> n1" "n1 = n \<Longrightarrow> pc1 = pc"
        "length pc + n * length b = length pc1 + n1 * length b"
      using d del by simp_all
    have "delete_ops b pc = pc" if "n' = n"
    proof -
      have "n1 = n" "n' = n1" using that ih e(2) by linarith+
      with ih e(1,3) xs show ?thesis by (simp only:)
    qed
    moreover have "length pc + n * length b = length (delete_ops b pc) + n' * length b"
      using ih e(1,4) xs by simp
    ultimately show ?thesis using ih e(1,2) by simp
  next
    case False
    from "1.prems" sk g False
    have "result' = result @ take (length pc2 - length pc) pc2" "pc2' = pc1" "n' = n1"
      by (subst (asm) find_and_delete_loop.simps, simp)+
    moreover have "delete_ops b pc1 = pc1"
      using d g False by (subst delete_ops.simps) auto
    ultimately show ?thesis using d by auto
  qed
qed

lemma FindAndDelete_ops:
  assumes "FindAndDelete s b = (s', n)"
  shows "s' = (if b = [] then s else delete_ops b s)" and "length s = length s' + n * length b"
    and "n = 0 \<Longrightarrow> s' = s"
proof -
  obtain result pc2 m where l: "find_and_delete_loop b s s [] 0 = (result, pc2, m)"
    by (cases "find_and_delete_loop b s s [] 0")
  show "s' = (if b = [] then s else delete_ops b s)" "length s = length s' + n * length b" "n = 0 \<Longrightarrow> s' = s"
    using assms l find_and_delete_loop_ops [OF l]
    by (auto simp: FindAndDelete_def split: if_splits)
qed

subsection \<open>Standard forms\<close>

lemma split_list: "i + n = k \<Longrightarrow> xs = take i xs @ take n (drop i xs) @ drop k xs"
  by (metis append.assoc append_take_drop_id take_add)

lemma IsPayToPublicKeyHash_iff:
  "IsPayToPublicKeyHash s \<longleftrightarrow> (\<exists>h. length h = 20 \<and> s = [OP_DUP, OP_HASH160, 0x14] @ h @ [OP_EQUALVERIFY, OP_CHECKSIG])"
proof
  assume p: "IsPayToPublicKeyHash s"
  then have "take 3 s = [s ! 0, s ! 1, s ! 2]" "drop 23 s = [s ! 23, s ! 24]"
    using Cons_nth_drop_Suc [of 23 s] Cons_nth_drop_Suc [of 24 s]
    by (simp_all add: IsPayToPublicKeyHash_def take_Suc_conv_app_nth numeral_3_eq_3 numeral_2_eq_2)
  with p split_list [of 3 20 23 s]
  show "\<exists>h. length h = 20 \<and> s = [OP_DUP, OP_HASH160, 0x14] @ h @ [OP_EQUALVERIFY, OP_CHECKSIG]"
    by (intro exI [of _ "take 20 (drop 3 s)"]) (simp add: IsPayToPublicKeyHash_def)
qed (auto simp: IsPayToPublicKeyHash_def nth_append)

lemma IsPayToScriptHash_iff:
  "IsPayToScriptHash s \<longleftrightarrow> (\<exists>h. length h = 20 \<and> s = [OP_HASH160, 0x14] @ h @ [OP_EQUAL])"
proof
  assume p: "IsPayToScriptHash s"
  then have "take 2 s = [s ! 0, s ! 1]" "drop 22 s = [s ! 22]"
    using Cons_nth_drop_Suc [of 22 s]
    by (simp_all add: IsPayToScriptHash_def take_Suc_conv_app_nth numeral_2_eq_2)
  with p split_list [of 2 20 22 s]
  show "\<exists>h. length h = 20 \<and> s = [OP_HASH160, 0x14] @ h @ [OP_EQUAL]"
    by (intro exI [of _ "take 20 (drop 2 s)"]) (simp add: IsPayToScriptHash_def)
qed (auto simp: IsPayToScriptHash_def nth_append)

lemma GetOp2_hash: "length h = 20 \<Longrightarrow> GetOp2 (0x14 # h @ rest) = (True, rest, 0x14, h)"
  by (simp add: operand_size_def sigma_rest_def)

section \<open>Properties\<close>

text \<open>
  A script built by pushing data decodes to the data: \<open>GetOp\<close> yields the pushed vectors in order and
  reaches the end, and the script is recognised as push-only with no signature operation.
\<close>

theorem pushes_roundtrip:
  assumes "\<forall>b\<in>set bs. length b < 2 ^ 32"
  shows "map snd (fst (script_ops (foldl push_vch [] bs))) = bs \<and> snd (script_ops (foldl push_vch [] bs)) \<and>
    IsPushOnly (foldl push_vch [] bs) \<and> GetSigOpCount (foldl push_vch [] bs) acc = 0"
proof -
  have "count_sigops acc prev ops = 0" if "\<forall>(opcode, _) \<in> set ops. opcode \<le> OP_PUSHDATA4" for prev ops
    using that by (induction acc prev ops rule: count_sigops.induct) (auto simp: word_le_nat_alt)
  moreover have "opcode \<le> OP_16" if "opcode \<le> OP_PUSHDATA4" for opcode :: u8
    using that by (simp add: word_le_nat_alt)
  ultimately show ?thesis
    using script_ops_pushes [OF assms] by (auto simp: IsPushOnly_ops GetSigOpCount_ops)
qed

theorem pushes_roundtrip_witness:
  "map snd (fst (script_ops (foldl push_vch [] [[1, 2], [], [3]]))) = [[1, 2], [], [3]] \<and>
   IsPushOnly (foldl push_vch [] [[1, 2], [], [3]])"
  using pushes_roundtrip [of "[[1, 2], [], [3]]" True] by simp

text \<open>
  C20. \<open>FindAndDelete\<close> removes exactly the copies of \<open>b\<close> that start at an operation, and its result is the
  number of copies removed; an empty \<open>b\<close> leaves the script as it is.
\<close>

theorem FindAndDelete_correct:
  "fst (FindAndDelete s b) = (if b = [] then s else delete_ops b s) \<and>
   length s = length (fst (FindAndDelete s b)) + snd (FindAndDelete s b) * length b"
  using FindAndDelete_ops(1,2) [OF surjective_pairing [of "FindAndDelete s b"]] by blast

end
