(* ===== verification/Interpreter.thy ===== *)
theory Interpreter
  imports Script
begin

text \<open>
  The script interpreter, \<^verbatim>\<open>script/interpreter.cpp\<close>: the encoding checks on signatures and keys, the opcodes,
  \<open>EvalScript\<close> and \<open>VerifyScript\<close>. A stack is a list with its top at the end, as the vectors of the source. A
  function that returns false with an error code yields \<open>Inl\<close> of the code; exceptions, which
  \<open>EvalScript\<close> catches, are \<open>SCRIPT_ERR_UNKNOWN_ERROR\<close>. The signature checker, a virtual class of the source, and
  the static \<^verbatim>\<open>CPubKey::CheckLowS\<close>, which is a call into libsecp256k1, are functions the interpreter is given.
\<close>

unbundle bit_operations_syntax

subsection \<open>Errors, flags and the signature checker\<close>

datatype ScriptError
  = SCRIPT_ERR_OK | SCRIPT_ERR_UNKNOWN_ERROR | SCRIPT_ERR_EVAL_FALSE | SCRIPT_ERR_OP_RETURN
  | SCRIPT_ERR_SCRIPT_SIZE | SCRIPT_ERR_PUSH_SIZE | SCRIPT_ERR_OP_COUNT | SCRIPT_ERR_STACK_SIZE
  | SCRIPT_ERR_SIG_COUNT | SCRIPT_ERR_PUBKEY_COUNT | SCRIPT_ERR_VERIFY | SCRIPT_ERR_EQUALVERIFY
  | SCRIPT_ERR_CHECKMULTISIGVERIFY | SCRIPT_ERR_CHECKSIGVERIFY | SCRIPT_ERR_NUMEQUALVERIFY
  | SCRIPT_ERR_BAD_OPCODE | SCRIPT_ERR_DISABLED_OPCODE | SCRIPT_ERR_INVALID_STACK_OPERATION
  | SCRIPT_ERR_INVALID_ALTSTACK_OPERATION | SCRIPT_ERR_UNBALANCED_CONDITIONAL | SCRIPT_ERR_NEGATIVE_LOCKTIME
  | SCRIPT_ERR_UNSATISFIED_LOCKTIME | SCRIPT_ERR_SIG_HASHTYPE | SCRIPT_ERR_SIG_DER | SCRIPT_ERR_MINIMALDATA
  | SCRIPT_ERR_SIG_PUSHONLY | SCRIPT_ERR_SIG_HIGH_S | SCRIPT_ERR_SIG_NULLDUMMY | SCRIPT_ERR_PUBKEYTYPE
  | SCRIPT_ERR_CLEANSTACK | SCRIPT_ERR_MINIMALIF | SCRIPT_ERR_SIG_NULLFAIL
  | SCRIPT_ERR_DISCOURAGE_UPGRADABLE_NOPS | SCRIPT_ERR_DISCOURAGE_UPGRADABLE_WITNESS_PROGRAM
  | SCRIPT_ERR_WITNESS_PROGRAM_WRONG_LENGTH | SCRIPT_ERR_WITNESS_PROGRAM_WITNESS_EMPTY
  | SCRIPT_ERR_WITNESS_PROGRAM_MISMATCH | SCRIPT_ERR_WITNESS_MALLEATED | SCRIPT_ERR_WITNESS_MALLEATED_P2SH
  | SCRIPT_ERR_WITNESS_UNEXPECTED | SCRIPT_ERR_WITNESS_PUBKEYTYPE

definition SIGHASH_ALL :: int where "SIGHASH_ALL = 1"
definition SIGHASH_NONE :: int where "SIGHASH_NONE = 2"
definition SIGHASH_SINGLE :: int where "SIGHASH_SINGLE = 3"
definition SIGHASH_ANYONECANPAY :: int where "SIGHASH_ANYONECANPAY = 0x80"

definition SCRIPT_VERIFY_NONE :: u32 where "SCRIPT_VERIFY_NONE = 0"
definition SCRIPT_VERIFY_P2SH :: u32 where "SCRIPT_VERIFY_P2SH = push_bit 0 1"
definition SCRIPT_VERIFY_STRICTENC :: u32 where "SCRIPT_VERIFY_STRICTENC = push_bit 1 1"
definition SCRIPT_VERIFY_DERSIG :: u32 where "SCRIPT_VERIFY_DERSIG = push_bit 2 1"
definition SCRIPT_VERIFY_LOW_S :: u32 where "SCRIPT_VERIFY_LOW_S = push_bit 3 1"
definition SCRIPT_VERIFY_NULLDUMMY :: u32 where "SCRIPT_VERIFY_NULLDUMMY = push_bit 4 1"
definition SCRIPT_VERIFY_SIGPUSHONLY :: u32 where "SCRIPT_VERIFY_SIGPUSHONLY = push_bit 5 1"
definition SCRIPT_VERIFY_MINIMALDATA :: u32 where "SCRIPT_VERIFY_MINIMALDATA = push_bit 6 1"
definition SCRIPT_VERIFY_DISCOURAGE_UPGRADABLE_NOPS :: u32 where "SCRIPT_VERIFY_DISCOURAGE_UPGRADABLE_NOPS = push_bit 7 1"
definition SCRIPT_VERIFY_CLEANSTACK :: u32 where "SCRIPT_VERIFY_CLEANSTACK = push_bit 8 1"
definition SCRIPT_VERIFY_CHECKLOCKTIMEVERIFY :: u32 where "SCRIPT_VERIFY_CHECKLOCKTIMEVERIFY = push_bit 9 1"
definition SCRIPT_VERIFY_CHECKSEQUENCEVERIFY :: u32 where "SCRIPT_VERIFY_CHECKSEQUENCEVERIFY = push_bit 10 1"
definition SCRIPT_VERIFY_WITNESS :: u32 where "SCRIPT_VERIFY_WITNESS = push_bit 11 1"
definition SCRIPT_VERIFY_DISCOURAGE_UPGRADABLE_WITNESS_PROGRAM :: u32 where "SCRIPT_VERIFY_DISCOURAGE_UPGRADABLE_WITNESS_PROGRAM = push_bit 12 1"
definition SCRIPT_VERIFY_MINIMALIF :: u32 where "SCRIPT_VERIFY_MINIMALIF = push_bit 13 1"
definition SCRIPT_VERIFY_NULLFAIL :: u32 where "SCRIPT_VERIFY_NULLFAIL = push_bit 14 1"
definition SCRIPT_VERIFY_WITNESS_PUBKEYTYPE :: u32 where "SCRIPT_VERIFY_WITNESS_PUBKEYTYPE = push_bit 15 1"

definition flag :: "u32 \<Rightarrow> u32 \<Rightarrow> bool" where
  "flag flags f \<longleftrightarrow> flags AND f \<noteq> 0"

datatype SigVersion = SIGVERSION_BASE | SIGVERSION_WITNESS_V0

record BaseSignatureChecker =
  CheckSig :: "bytes \<Rightarrow> bytes \<Rightarrow> CScript \<Rightarrow> SigVersion \<Rightarrow> bool"
  CheckLockTime :: "int \<Rightarrow> bool"
  CheckSequence :: "int \<Rightarrow> bool"
  CheckLowS :: "bytes \<Rightarrow> bool"

definition SEQUENCE_LOCKTIME_DISABLE_FLAG :: int where "SEQUENCE_LOCKTIME_DISABLE_FLAG = 2 ^ 31"

subsection \<open>Encoding checks\<close>

fun CastToBool :: "bytes \<Rightarrow> bool" where
  "CastToBool [] \<longleftrightarrow> False"
| "CastToBool (b # vch) \<longleftrightarrow> (if b \<noteq> 0 then \<not> (vch = [] \<and> b = 0x80) else CastToBool vch)"

definition IsCompressedOrUncompressedPubKey :: "bytes \<Rightarrow> bool" where
  "IsCompressedOrUncompressedPubKey vchPubKey =
     (if length vchPubKey < 33 then False
      else if vchPubKey ! 0 = 0x04 then length vchPubKey = 65
      else if vchPubKey ! 0 = 0x02 \<or> vchPubKey ! 0 = 0x03 then length vchPubKey = 33
      else False)"

definition IsCompressedPubKey :: "bytes \<Rightarrow> bool" where
  "IsCompressedPubKey vchPubKey =
     (if length vchPubKey \<noteq> 33 then False
      else if vchPubKey ! 0 \<noteq> 0x02 \<and> vchPubKey ! 0 \<noteq> 0x03 then False
      else True)"

definition IsValidSignatureEncoding :: "bytes \<Rightarrow> bool" where
  "IsValidSignatureEncoding sig =
     (if length sig < 9 then False
      else if length sig > 73 then False
      else if sig ! 0 \<noteq> 0x30 then False
      else if unat (sig ! 1) \<noteq> length sig - 3 then False
      else let lenR = unat (sig ! 3)
           in if 5 + lenR \<ge> length sig then False
              else let lenS = unat (sig ! (5 + lenR))
                   in if lenR + lenS + 7 \<noteq> length sig then False
                      else if sig ! 2 \<noteq> 0x02 then False
                      else if lenR = 0 then False
                      else if sig ! 4 AND 0x80 \<noteq> 0 then False
                      else if lenR > 1 \<and> sig ! 4 = 0x00 \<and> \<not> (sig ! 5 AND 0x80 \<noteq> 0) then False
                      else if sig ! (lenR + 4) \<noteq> 0x02 then False
                      else if lenS = 0 then False
                      else if sig ! (lenR + 6) AND 0x80 \<noteq> 0 then False
                      else if lenS > 1 \<and> sig ! (lenR + 6) = 0x00 \<and> \<not> (sig ! (lenR + 7) AND 0x80 \<noteq> 0) then False
                      else True)"

text \<open>The checks that set an error return it; None is success.\<close>

definition IsLowDERSignature :: "BaseSignatureChecker \<Rightarrow> bytes \<Rightarrow> ScriptError option" where
  "IsLowDERSignature checker vchSig =
     (if \<not> IsValidSignatureEncoding vchSig then Some SCRIPT_ERR_SIG_DER
      else if \<not> CheckLowS checker (butlast vchSig) then Some SCRIPT_ERR_SIG_HIGH_S
      else None)"

definition IsDefinedHashtypeSignature :: "bytes \<Rightarrow> bool" where
  "IsDefinedHashtypeSignature vchSig =
     (if length vchSig = 0 then False
      else let nHashType = last vchSig AND NOT 0x80
           in if nHashType < 1 \<or> nHashType > 3 then False else True)"

definition CheckSignatureEncoding :: "BaseSignatureChecker \<Rightarrow> bytes \<Rightarrow> u32 \<Rightarrow> ScriptError option" where
  "CheckSignatureEncoding checker vchSig flags =
     (if length vchSig = 0 then None
      else if flag flags (SCRIPT_VERIFY_DERSIG OR SCRIPT_VERIFY_LOW_S OR SCRIPT_VERIFY_STRICTENC) \<and>
              \<not> IsValidSignatureEncoding vchSig then Some SCRIPT_ERR_SIG_DER
      else if flag flags SCRIPT_VERIFY_LOW_S \<and> IsLowDERSignature checker vchSig \<noteq> None then
        IsLowDERSignature checker vchSig
      else if flag flags SCRIPT_VERIFY_STRICTENC \<and> \<not> IsDefinedHashtypeSignature vchSig then
        Some SCRIPT_ERR_SIG_HASHTYPE
      else None)"

definition CheckPubKeyEncoding :: "bytes \<Rightarrow> u32 \<Rightarrow> SigVersion \<Rightarrow> ScriptError option" where
  "CheckPubKeyEncoding vchPubKey flags sigversion =
     (if flag flags SCRIPT_VERIFY_STRICTENC \<and> \<not> IsCompressedOrUncompressedPubKey vchPubKey then
        Some SCRIPT_ERR_PUBKEYTYPE
      else if flag flags SCRIPT_VERIFY_WITNESS_PUBKEYTYPE \<and> sigversion = SIGVERSION_WITNESS_V0 \<and>
              \<not> IsCompressedPubKey vchPubKey then Some SCRIPT_ERR_WITNESS_PUBKEYTYPE
      else None)"

definition CheckMinimalPush :: "bytes \<Rightarrow> opcodetype \<Rightarrow> bool" where
  "CheckMinimalPush dat opcode =
     (if length dat = 0 then opcode = OP_0
      else if length dat = 1 \<and> dat ! 0 \<ge> 1 \<and> dat ! 0 \<le> 16 then opcode = OP_1 + (dat ! 0 - 1)
      else if length dat = 1 \<and> dat ! 0 = 0x81 then opcode = OP_1NEGATE
      else if length dat \<le> 75 then unat opcode = length dat
      else if length dat \<le> 255 then opcode = OP_PUSHDATA1
      else if length dat \<le> 65535 then opcode = OP_PUSHDATA2
      else True)"

subsection \<open>The machine\<close>

type_synonym stack = "bytes list"

record interp =
  main_stack :: stack
  altstack :: stack
  vfExec :: "bool list"
  nOpCount :: int
  pbegincodehash :: bytes

text \<open>\<^verbatim>\<open>stacktop(-i)\<close>, \<^verbatim>\<open>popstack\<close> and exchanging two positions; every use is guarded by a size check.\<close>

definition stacktop :: "stack \<Rightarrow> nat \<Rightarrow> bytes" where
  "stacktop s i = s ! (length s - i)"

definition popstack :: "stack \<Rightarrow> stack" where
  "popstack s = butlast s"

definition swap_top :: "nat \<Rightarrow> nat \<Rightarrow> stack \<Rightarrow> stack" where
  "swap_top i j s = s[length s - i := stacktop s j, length s - j := stacktop s i]"

definition vchFalse :: bytes where "vchFalse = []"
definition vchTrue :: bytes where "vchTrue = [1]"

definition bool_vch :: "bool \<Rightarrow> bytes" where
  "bool_vch b = (if b then vchTrue else vchFalse)"

definition set_stack :: "interp \<Rightarrow> stack \<Rightarrow> ScriptError + interp" where
  "set_stack st s = Inr (st\<lparr>main_stack := s\<rparr>)"

definition script_num :: "u32 \<Rightarrow> bytes \<Rightarrow> nat \<Rightarrow> ScriptError + int" where
  "script_num flags vch n =
     (case CScriptNum vch (flag flags SCRIPT_VERIFY_MINIMALDATA) n of
        None \<Rightarrow> Inl SCRIPT_ERR_UNKNOWN_ERROR | Some v \<Rightarrow> Inr v)"

subsection \<open>Pushes and control\<close>

definition op_push_data :: "u32 \<Rightarrow> opcodetype \<Rightarrow> bytes \<Rightarrow> interp \<Rightarrow> ScriptError + interp" where
  "op_push_data flags opcode vchPushValue st =
     (if flag flags SCRIPT_VERIFY_MINIMALDATA \<and> \<not> CheckMinimalPush vchPushValue opcode then Inl SCRIPT_ERR_MINIMALDATA
      else set_stack st (main_stack st @ [vchPushValue]))"

definition op_push_value :: "opcodetype \<Rightarrow> interp \<Rightarrow> ScriptError + interp" where
  "op_push_value opcode st =
     set_stack st (main_stack st @ [CScriptNum_serialize (uint opcode - (uint OP_1 - 1))])"

definition op_CHECKLOCKTIMEVERIFY :: "u32 \<Rightarrow> BaseSignatureChecker \<Rightarrow> interp \<Rightarrow> ScriptError + interp" where
  "op_CHECKLOCKTIMEVERIFY flags checker st =
     (if \<not> flag flags SCRIPT_VERIFY_CHECKLOCKTIMEVERIFY then
        (if flag flags SCRIPT_VERIFY_DISCOURAGE_UPGRADABLE_NOPS then Inl SCRIPT_ERR_DISCOURAGE_UPGRADABLE_NOPS
         else Inr st)
      else if length (main_stack st) < 1 then Inl SCRIPT_ERR_INVALID_STACK_OPERATION
      else case script_num flags (stacktop (main_stack st) 1) 5 of
        Inl e \<Rightarrow> Inl e
      | Inr nLockTime \<Rightarrow>
          if nLockTime < 0 then Inl SCRIPT_ERR_NEGATIVE_LOCKTIME
          else if \<not> CheckLockTime checker nLockTime then Inl SCRIPT_ERR_UNSATISFIED_LOCKTIME
          else Inr st)"

definition op_CHECKSEQUENCEVERIFY :: "u32 \<Rightarrow> BaseSignatureChecker \<Rightarrow> interp \<Rightarrow> ScriptError + interp" where
  "op_CHECKSEQUENCEVERIFY flags checker st =
     (if \<not> flag flags SCRIPT_VERIFY_CHECKSEQUENCEVERIFY then
        (if flag flags SCRIPT_VERIFY_DISCOURAGE_UPGRADABLE_NOPS then Inl SCRIPT_ERR_DISCOURAGE_UPGRADABLE_NOPS
         else Inr st)
      else if length (main_stack st) < 1 then Inl SCRIPT_ERR_INVALID_STACK_OPERATION
      else case script_num flags (stacktop (main_stack st) 1) 5 of
        Inl e \<Rightarrow> Inl e
      | Inr nSequence \<Rightarrow>
          if nSequence < 0 then Inl SCRIPT_ERR_NEGATIVE_LOCKTIME
          else if nSequence AND SEQUENCE_LOCKTIME_DISABLE_FLAG \<noteq> 0 then Inr st
          else if \<not> CheckSequence checker nSequence then Inl SCRIPT_ERR_UNSATISFIED_LOCKTIME
          else Inr st)"

definition op_NOPn :: "u32 \<Rightarrow> interp \<Rightarrow> ScriptError + interp" where
  "op_NOPn flags st =
     (if flag flags SCRIPT_VERIFY_DISCOURAGE_UPGRADABLE_NOPS then Inl SCRIPT_ERR_DISCOURAGE_UPGRADABLE_NOPS else Inr st)"

definition op_IF :: "u32 \<Rightarrow> SigVersion \<Rightarrow> opcodetype \<Rightarrow> bool \<Rightarrow> interp \<Rightarrow> ScriptError + interp" where
  "op_IF flags sigversion opcode fExec st =
     (if fExec then
        (if length (main_stack st) < 1 then Inl SCRIPT_ERR_UNBALANCED_CONDITIONAL
         else let vch = stacktop (main_stack st) 1
              in if sigversion = SIGVERSION_WITNESS_V0 \<and> flag flags SCRIPT_VERIFY_MINIMALIF \<and>
                    (length vch > 1 \<or> (length vch = 1 \<and> vch ! 0 \<noteq> 1)) then Inl SCRIPT_ERR_MINIMALIF
                 else let fValue = (if opcode = OP_NOTIF then \<not> CastToBool vch else CastToBool vch)
                      in Inr (st\<lparr>main_stack := popstack (main_stack st), vfExec := vfExec st @ [fValue]\<rparr>))
      else Inr (st\<lparr>vfExec := vfExec st @ [False]\<rparr>))"

definition op_ELSE :: "interp \<Rightarrow> ScriptError + interp" where
  "op_ELSE st =
     (if vfExec st = [] then Inl SCRIPT_ERR_UNBALANCED_CONDITIONAL
      else Inr (st\<lparr>vfExec := butlast (vfExec st) @ [\<not> last (vfExec st)]\<rparr>))"

definition op_ENDIF :: "interp \<Rightarrow> ScriptError + interp" where
  "op_ENDIF st =
     (if vfExec st = [] then Inl SCRIPT_ERR_UNBALANCED_CONDITIONAL
      else Inr (st\<lparr>vfExec := butlast (vfExec st)\<rparr>))"

definition op_VERIFY :: "interp \<Rightarrow> ScriptError + interp" where
  "op_VERIFY st =
     (if length (main_stack st) < 1 then Inl SCRIPT_ERR_INVALID_STACK_OPERATION
      else if CastToBool (stacktop (main_stack st) 1) then set_stack st (popstack (main_stack st))
      else Inl SCRIPT_ERR_VERIFY)"

subsection \<open>Stack operations\<close>

definition op_TOALTSTACK :: "interp \<Rightarrow> ScriptError + interp" where
  "op_TOALTSTACK st =
     (if length (main_stack st) < 1 then Inl SCRIPT_ERR_INVALID_STACK_OPERATION
      else Inr (st\<lparr>altstack := altstack st @ [stacktop (main_stack st) 1], main_stack := popstack (main_stack st)\<rparr>))"

definition op_FROMALTSTACK :: "interp \<Rightarrow> ScriptError + interp" where
  "op_FROMALTSTACK st =
     (if length (altstack st) < 1 then Inl SCRIPT_ERR_INVALID_ALTSTACK_OPERATION
      else Inr (st\<lparr>main_stack := main_stack st @ [stacktop (altstack st) 1], altstack := popstack (altstack st)\<rparr>))"

definition op_2DROP :: "interp \<Rightarrow> ScriptError + interp" where
  "op_2DROP st =
     (if length (main_stack st) < 2 then Inl SCRIPT_ERR_INVALID_STACK_OPERATION
      else set_stack st (popstack (popstack (main_stack st))))"

definition op_2DUP :: "interp \<Rightarrow> ScriptError + interp" where
  "op_2DUP st =
     (let s = main_stack st
      in if length s < 2 then Inl SCRIPT_ERR_INVALID_STACK_OPERATION
         else set_stack st (s @ [stacktop s 2] @ [stacktop s 1]))"

definition op_3DUP :: "interp \<Rightarrow> ScriptError + interp" where
  "op_3DUP st =
     (let s = main_stack st
      in if length s < 3 then Inl SCRIPT_ERR_INVALID_STACK_OPERATION
         else set_stack st (s @ [stacktop s 3] @ [stacktop s 2] @ [stacktop s 1]))"

definition op_2OVER :: "interp \<Rightarrow> ScriptError + interp" where
  "op_2OVER st =
     (let s = main_stack st
      in if length s < 4 then Inl SCRIPT_ERR_INVALID_STACK_OPERATION
         else set_stack st (s @ [stacktop s 4] @ [stacktop s 3]))"

definition op_2ROT :: "interp \<Rightarrow> ScriptError + interp" where
  "op_2ROT st =
     (let s = main_stack st
      in if length s < 6 then Inl SCRIPT_ERR_INVALID_STACK_OPERATION
         else let vch1 = stacktop s 6; vch2 = stacktop s 5;
                  s = take (length s - 6) s @ drop (length s - 4) s
              in set_stack st (s @ [vch1] @ [vch2]))"

definition op_2SWAP :: "interp \<Rightarrow> ScriptError + interp" where
  "op_2SWAP st =
     (let s = main_stack st
      in if length s < 4 then Inl SCRIPT_ERR_INVALID_STACK_OPERATION
         else set_stack st (swap_top 3 1 (swap_top 4 2 s)))"

definition op_IFDUP :: "interp \<Rightarrow> ScriptError + interp" where
  "op_IFDUP st =
     (let s = main_stack st
      in if length s < 1 then Inl SCRIPT_ERR_INVALID_STACK_OPERATION
         else if CastToBool (stacktop s 1) then set_stack st (s @ [stacktop s 1])
         else Inr st)"

definition op_DEPTH :: "interp \<Rightarrow> ScriptError + interp" where
  "op_DEPTH st = set_stack st (main_stack st @ [CScriptNum_serialize (int (length (main_stack st)))])"

definition op_DROP :: "interp \<Rightarrow> ScriptError + interp" where
  "op_DROP st =
     (if length (main_stack st) < 1 then Inl SCRIPT_ERR_INVALID_STACK_OPERATION
      else set_stack st (popstack (main_stack st)))"

definition op_DUP :: "interp \<Rightarrow> ScriptError + interp" where
  "op_DUP st =
     (let s = main_stack st
      in if length s < 1 then Inl SCRIPT_ERR_INVALID_STACK_OPERATION
         else set_stack st (s @ [stacktop s 1]))"

definition op_NIP :: "interp \<Rightarrow> ScriptError + interp" where
  "op_NIP st =
     (let s = main_stack st
      in if length s < 2 then Inl SCRIPT_ERR_INVALID_STACK_OPERATION
         else set_stack st (take (length s - 2) s @ drop (length s - 1) s))"

definition op_OVER :: "interp \<Rightarrow> ScriptError + interp" where
  "op_OVER st =
     (let s = main_stack st
      in if length s < 2 then Inl SCRIPT_ERR_INVALID_STACK_OPERATION
         else set_stack st (s @ [stacktop s 2]))"

definition op_PICK_ROLL :: "u32 \<Rightarrow> opcodetype \<Rightarrow> interp \<Rightarrow> ScriptError + interp" where
  "op_PICK_ROLL flags opcode st =
     (let s = main_stack st
      in if length s < 2 then Inl SCRIPT_ERR_INVALID_STACK_OPERATION
         else case script_num flags (stacktop s 1) nDefaultMaxNumSize of
           Inl e \<Rightarrow> Inl e
         | Inr v \<Rightarrow>
             let n = getint v; s = popstack s
             in if n < 0 \<or> n \<ge> int (length s) then Inl SCRIPT_ERR_INVALID_STACK_OPERATION
                else let vch = stacktop s (nat n + 1);
                         s = (if opcode = OP_ROLL then take (length s - nat n - 1) s @ drop (length s - nat n) s else s)
                     in set_stack st (s @ [vch]))"

definition op_ROT :: "interp \<Rightarrow> ScriptError + interp" where
  "op_ROT st =
     (let s = main_stack st
      in if length s < 3 then Inl SCRIPT_ERR_INVALID_STACK_OPERATION
         else set_stack st (swap_top 2 1 (swap_top 3 2 s)))"

definition op_SWAP :: "interp \<Rightarrow> ScriptError + interp" where
  "op_SWAP st =
     (let s = main_stack st
      in if length s < 2 then Inl SCRIPT_ERR_INVALID_STACK_OPERATION
         else set_stack st (swap_top 2 1 s))"

definition op_TUCK :: "interp \<Rightarrow> ScriptError + interp" where
  "op_TUCK st =
     (let s = main_stack st
      in if length s < 2 then Inl SCRIPT_ERR_INVALID_STACK_OPERATION
         else set_stack st (take (length s - 2) s @ [stacktop s 1] @ drop (length s - 2) s))"

definition op_SIZE :: "interp \<Rightarrow> ScriptError + interp" where
  "op_SIZE st =
     (let s = main_stack st
      in if length s < 1 then Inl SCRIPT_ERR_INVALID_STACK_OPERATION
         else set_stack st (s @ [CScriptNum_serialize (int (length (stacktop s 1)))]))"

subsection \<open>Comparison, arithmetic and hashing\<close>

definition op_EQUAL :: "opcodetype \<Rightarrow> interp \<Rightarrow> ScriptError + interp" where
  "op_EQUAL opcode st =
     (let s = main_stack st
      in if length s < 2 then Inl SCRIPT_ERR_INVALID_STACK_OPERATION
         else let fEqual = (stacktop s 2 = stacktop s 1);
                  s = popstack (popstack s) @ [bool_vch fEqual]
              in if opcode = OP_EQUALVERIFY then
                   (if fEqual then set_stack st (popstack s) else Inl SCRIPT_ERR_EQUALVERIFY)
                 else set_stack st s)"

definition unary_num :: "opcodetype \<Rightarrow> int \<Rightarrow> int" where
  "unary_num opcode bn =
     (if opcode = OP_1ADD then bn + 1
      else if opcode = OP_1SUB then bn - 1
      else if opcode = OP_NEGATE then - bn
      else if opcode = OP_ABS then (if bn < 0 then - bn else bn)
      else if opcode = OP_NOT then of_bool (bn = 0)
      else of_bool (bn \<noteq> 0))"

definition op_unary_num :: "u32 \<Rightarrow> opcodetype \<Rightarrow> interp \<Rightarrow> ScriptError + interp" where
  "op_unary_num flags opcode st =
     (let s = main_stack st
      in if length s < 1 then Inl SCRIPT_ERR_INVALID_STACK_OPERATION
         else case script_num flags (stacktop s 1) nDefaultMaxNumSize of
           Inl e \<Rightarrow> Inl e
         | Inr bn \<Rightarrow> set_stack st (popstack s @ [CScriptNum_serialize (unary_num opcode bn)]))"

definition binary_num :: "opcodetype \<Rightarrow> int \<Rightarrow> int \<Rightarrow> int" where
  "binary_num opcode bn1 bn2 =
     (if opcode = OP_ADD then bn1 + bn2
      else if opcode = OP_SUB then bn1 - bn2
      else if opcode = OP_BOOLAND then of_bool (bn1 \<noteq> 0 \<and> bn2 \<noteq> 0)
      else if opcode = OP_BOOLOR then of_bool (bn1 \<noteq> 0 \<or> bn2 \<noteq> 0)
      else if opcode = OP_NUMEQUAL then of_bool (bn1 = bn2)
      else if opcode = OP_NUMEQUALVERIFY then of_bool (bn1 = bn2)
      else if opcode = OP_NUMNOTEQUAL then of_bool (bn1 \<noteq> bn2)
      else if opcode = OP_LESSTHAN then of_bool (bn1 < bn2)
      else if opcode = OP_GREATERTHAN then of_bool (bn1 > bn2)
      else if opcode = OP_LESSTHANOREQUAL then of_bool (bn1 \<le> bn2)
      else if opcode = OP_GREATERTHANOREQUAL then of_bool (bn1 \<ge> bn2)
      else if opcode = OP_MIN then (if bn1 < bn2 then bn1 else bn2)
      else (if bn1 > bn2 then bn1 else bn2))"

definition op_binary_num :: "u32 \<Rightarrow> opcodetype \<Rightarrow> interp \<Rightarrow> ScriptError + interp" where
  "op_binary_num flags opcode st =
     (let s = main_stack st
      in if length s < 2 then Inl SCRIPT_ERR_INVALID_STACK_OPERATION
         else case script_num flags (stacktop s 2) nDefaultMaxNumSize of
           Inl e \<Rightarrow> Inl e
         | Inr bn1 \<Rightarrow>
             (case script_num flags (stacktop s 1) nDefaultMaxNumSize of
                Inl e \<Rightarrow> Inl e
              | Inr bn2 \<Rightarrow>
                  let s = popstack (popstack s) @ [CScriptNum_serialize (binary_num opcode bn1 bn2)]
                  in if opcode = OP_NUMEQUALVERIFY then
                       (if CastToBool (stacktop s 1) then set_stack st (popstack s) else Inl SCRIPT_ERR_NUMEQUALVERIFY)
                     else set_stack st s))"

definition op_WITHIN :: "u32 \<Rightarrow> interp \<Rightarrow> ScriptError + interp" where
  "op_WITHIN flags st =
     (let s = main_stack st
      in if length s < 3 then Inl SCRIPT_ERR_INVALID_STACK_OPERATION
         else case script_num flags (stacktop s 3) nDefaultMaxNumSize of
           Inl e \<Rightarrow> Inl e
         | Inr bn1 \<Rightarrow>
             (case script_num flags (stacktop s 2) nDefaultMaxNumSize of
                Inl e \<Rightarrow> Inl e
              | Inr bn2 \<Rightarrow>
                  (case script_num flags (stacktop s 1) nDefaultMaxNumSize of
                     Inl e \<Rightarrow> Inl e
                   | Inr bn3 \<Rightarrow>
                       set_stack st (popstack (popstack (popstack s)) @ [bool_vch (bn2 \<le> bn1 \<and> bn1 < bn3)]))))"

definition hash_opcode :: "opcodetype \<Rightarrow> bytes \<Rightarrow> bytes" where
  "hash_opcode opcode vch =
     (if opcode = OP_RIPEMD160 then RIPEMD160 vch
      else if opcode = OP_SHA1 then SHA1 vch
      else if opcode = OP_SHA256 then SHA256 vch
      else if opcode = OP_HASH160 then Hash160 vch
      else Hash_ranges [vch])"

definition op_HASH :: "opcodetype \<Rightarrow> interp \<Rightarrow> ScriptError + interp" where
  "op_HASH opcode st =
     (let s = main_stack st
      in if length s < 1 then Inl SCRIPT_ERR_INVALID_STACK_OPERATION
         else set_stack st (popstack s @ [hash_opcode opcode (stacktop s 1)]))"

definition op_CODESEPARATOR :: "bytes \<Rightarrow> interp \<Rightarrow> ScriptError + interp" where
  "op_CODESEPARATOR pc st = Inr (st\<lparr>pbegincodehash := pc\<rparr>)"

subsection \<open>Signatures\<close>

text \<open>\<^verbatim>\<open>scriptCode.FindAndDelete(CScript(vchSig))\<close> before segregated witness.\<close>

definition drop_signature :: "SigVersion \<Rightarrow> CScript \<Rightarrow> bytes \<Rightarrow> CScript" where
  "drop_signature sigversion scriptCode vchSig =
     (if sigversion = SIGVERSION_BASE then fst (FindAndDelete scriptCode (push_vch [] vchSig)) else scriptCode)"

text \<open>The encoding checks of a signature and a key, in this order.\<close>

definition check_encodings :: "u32 \<Rightarrow> BaseSignatureChecker \<Rightarrow> SigVersion \<Rightarrow> bytes \<Rightarrow> bytes \<Rightarrow> ScriptError option" where
  "check_encodings flags checker sigversion vchSig vchPubKey =
     (case CheckSignatureEncoding checker vchSig flags of
        Some e \<Rightarrow> Some e
      | None \<Rightarrow> CheckPubKeyEncoding vchPubKey flags sigversion)"

definition op_CHECKSIG ::
  "u32 \<Rightarrow> BaseSignatureChecker \<Rightarrow> SigVersion \<Rightarrow> opcodetype \<Rightarrow> interp \<Rightarrow> ScriptError + interp" where
  "op_CHECKSIG flags checker sigversion opcode st =
     (let s = main_stack st
      in if length s < 2 then Inl SCRIPT_ERR_INVALID_STACK_OPERATION
         else let vchSig = stacktop s 2; vchPubKey = stacktop s 1;
                  scriptCode = drop_signature sigversion (pbegincodehash st) vchSig
              in case check_encodings flags checker sigversion vchSig vchPubKey of
                   Some e \<Rightarrow> Inl e
                 | None \<Rightarrow>
                     let fSuccess = CheckSig checker vchSig vchPubKey scriptCode sigversion
                     in if \<not> fSuccess \<and> flag flags SCRIPT_VERIFY_NULLFAIL \<and> length vchSig \<noteq> 0 then
                          Inl SCRIPT_ERR_SIG_NULLFAIL
                        else let s = popstack (popstack s) @ [bool_vch fSuccess]
                             in if opcode = OP_CHECKSIGVERIFY then
                                  (if fSuccess then set_stack st (popstack s) else Inl SCRIPT_ERR_CHECKSIGVERIFY)
                                else set_stack st s)"

text \<open>
  The matching loop of \<^verbatim>\<open>CHECKMULTISIG\<close>: positions from the top of the stack and the counts that remain; the
  result is \<^verbatim>\<open>fSuccess\<close>.
\<close>

function multisig_loop ::
  "u32 \<Rightarrow> BaseSignatureChecker \<Rightarrow> SigVersion \<Rightarrow> stack \<Rightarrow> CScript \<Rightarrow> nat \<Rightarrow> nat \<Rightarrow> int \<Rightarrow> int \<Rightarrow> ScriptError + bool" where
  "multisig_loop flags checker sigversion s scriptCode isig ikey nSigsCount nKeysCount =
     (if nSigsCount > 0 then
        (let vchSig = stacktop s isig; vchPubKey = stacktop s ikey
         in case check_encodings flags checker sigversion vchSig vchPubKey of
              Some e \<Rightarrow> Inl e
            | None \<Rightarrow>
                let fOk = CheckSig checker vchSig vchPubKey scriptCode sigversion;
                    isig = (if fOk then isig + 1 else isig);
                    nSigsCount = (if fOk then nSigsCount - 1 else nSigsCount);
                    nKeysCount = nKeysCount - 1
                in if nSigsCount > nKeysCount then Inr False
                   else multisig_loop flags checker sigversion s scriptCode isig (ikey + 1) nSigsCount nKeysCount)
      else Inr True)"
  by pat_completeness auto
termination
  by (relation "measure (\<lambda>(flags, checker, sigversion, s, scriptCode, isig, ikey, nSigsCount, nKeysCount). nat nKeysCount)")
    (auto split: if_splits)

declare multisig_loop.simps [simp del]

text \<open>\<^verbatim>\<open>while (i-- > 1)\<close>: the arguments are popped, \<^verbatim>\<open>ikey2\<close> counting down the items above the signatures.\<close>

fun multisig_cleanup :: "u32 \<Rightarrow> bool \<Rightarrow> nat \<Rightarrow> nat \<Rightarrow> stack \<Rightarrow> ScriptError + stack" where
  "multisig_cleanup flags fSuccess 0 ikey2 s = Inr s"
| "multisig_cleanup flags fSuccess (Suc n) ikey2 s =
     (if \<not> fSuccess \<and> flag flags SCRIPT_VERIFY_NULLFAIL \<and> ikey2 = 0 \<and> length (stacktop s 1) \<noteq> 0 then
        Inl SCRIPT_ERR_SIG_NULLFAIL
      else multisig_cleanup flags fSuccess n (if ikey2 > 0 then ikey2 - 1 else ikey2) (popstack s))"

text \<open>The end of the operation: clean up, drop the extra argument and leave the result.\<close>

definition multisig_finish :: "u32 \<Rightarrow> opcodetype \<Rightarrow> bool \<Rightarrow> nat \<Rightarrow> nat \<Rightarrow> interp \<Rightarrow> ScriptError + interp" where
  "multisig_finish flags opcode fSuccess i ikey2 st =
     (case multisig_cleanup flags fSuccess (i - 1) ikey2 (main_stack st) of
        Inl e \<Rightarrow> Inl e
      | Inr s \<Rightarrow>
          if length s < 1 then Inl SCRIPT_ERR_INVALID_STACK_OPERATION
          else if flag flags SCRIPT_VERIFY_NULLDUMMY \<and> length (stacktop s 1) \<noteq> 0 then Inl SCRIPT_ERR_SIG_NULLDUMMY
          else let s = popstack s @ [bool_vch fSuccess]
               in if opcode = OP_CHECKMULTISIGVERIFY then
                    (if fSuccess then set_stack st (popstack s) else Inl SCRIPT_ERR_CHECKMULTISIGVERIFY)
                  else set_stack st s)"

definition multisig_run ::
  "u32 \<Rightarrow> BaseSignatureChecker \<Rightarrow> SigVersion \<Rightarrow> opcodetype \<Rightarrow> nat \<Rightarrow> nat \<Rightarrow> interp \<Rightarrow> ScriptError + interp" where
  "multisig_run flags checker sigversion opcode nKeysCount nSigsCount st =
     (let s = main_stack st;
          ikey = 2; isig = nKeysCount + 3; i = nKeysCount + 3 + nSigsCount
      in if length s < i then Inl SCRIPT_ERR_INVALID_STACK_OPERATION
         else let scriptCode = fold (\<lambda>k code. drop_signature sigversion code (stacktop s (isig + k))) [0..<nSigsCount]
                    (pbegincodehash st)
              in case multisig_loop flags checker sigversion s scriptCode isig ikey (int nSigsCount) (int nKeysCount) of
                   Inl e \<Rightarrow> Inl e
                 | Inr fSuccess \<Rightarrow> multisig_finish flags opcode fSuccess i (nKeysCount + 2) st)"

definition op_CHECKMULTISIG ::
  "u32 \<Rightarrow> BaseSignatureChecker \<Rightarrow> SigVersion \<Rightarrow> opcodetype \<Rightarrow> interp \<Rightarrow> ScriptError + interp" where
  "op_CHECKMULTISIG flags checker sigversion opcode st =
     (let s = main_stack st
      in if length s < 1 then Inl SCRIPT_ERR_INVALID_STACK_OPERATION
         else case script_num flags (stacktop s 1) nDefaultMaxNumSize of
           Inl e \<Rightarrow> Inl e
         | Inr v \<Rightarrow>
             let nKeysCount = getint v
             in if nKeysCount < 0 \<or> nKeysCount > MAX_PUBKEYS_PER_MULTISIG then Inl SCRIPT_ERR_PUBKEY_COUNT
                else let st = st\<lparr>nOpCount := nOpCount st + nKeysCount\<rparr>
                     in if nOpCount st > MAX_OPS_PER_SCRIPT then Inl SCRIPT_ERR_OP_COUNT
                        else if length s < nat nKeysCount + 2 then Inl SCRIPT_ERR_INVALID_STACK_OPERATION
                        else case script_num flags (stacktop s (nat nKeysCount + 2)) nDefaultMaxNumSize of
                          Inl e \<Rightarrow> Inl e
                        | Inr w \<Rightarrow>
                            let nSigsCount = getint w
                            in if nSigsCount < 0 \<or> nSigsCount > nKeysCount then Inl SCRIPT_ERR_SIG_COUNT
                               else multisig_run flags checker sigversion opcode (nat nKeysCount) (nat nSigsCount) st)"

subsection \<open>Evaluation\<close>

definition disabled_opcode :: "opcodetype \<Rightarrow> bool" where
  "disabled_opcode opcode \<longleftrightarrow>
     opcode \<in> {OP_CAT, OP_SUBSTR, OP_LEFT, OP_RIGHT, OP_INVERT, OP_AND, OP_OR, OP_XOR, OP_2MUL, OP_2DIV, OP_MUL,
       OP_DIV, OP_MOD, OP_LSHIFT, OP_RSHIFT}"

text \<open>The switch over the opcodes, in four parts.\<close>

definition exec_control ::
  "u32 \<Rightarrow> BaseSignatureChecker \<Rightarrow> SigVersion \<Rightarrow> opcodetype \<Rightarrow> bool \<Rightarrow> interp \<Rightarrow> (ScriptError + interp) option" where
  "exec_control flags checker sigversion opcode fExec st =
     (if opcode = OP_1NEGATE \<or> (OP_1 \<le> opcode \<and> opcode \<le> OP_16) then Some (op_push_value opcode st)
      else if opcode = OP_NOP then Some (Inr st)
      else if opcode = OP_CHECKLOCKTIMEVERIFY then Some (op_CHECKLOCKTIMEVERIFY flags checker st)
      else if opcode = OP_CHECKSEQUENCEVERIFY then Some (op_CHECKSEQUENCEVERIFY flags checker st)
      else if opcode \<in> {OP_NOP1, OP_NOP4, OP_NOP5, OP_NOP6, OP_NOP7, OP_NOP8, OP_NOP9, OP_NOP10} then
        Some (op_NOPn flags st)
      else if opcode = OP_IF \<or> opcode = OP_NOTIF then Some (op_IF flags sigversion opcode fExec st)
      else if opcode = OP_ELSE then Some (op_ELSE st)
      else if opcode = OP_ENDIF then Some (op_ENDIF st)
      else if opcode = OP_VERIFY then Some (op_VERIFY st)
      else if opcode = OP_RETURN then Some (Inl SCRIPT_ERR_OP_RETURN)
      else None)"

definition exec_stack :: "u32 \<Rightarrow> opcodetype \<Rightarrow> interp \<Rightarrow> (ScriptError + interp) option" where
  "exec_stack flags opcode st =
     (if opcode = OP_TOALTSTACK then Some (op_TOALTSTACK st)
      else if opcode = OP_FROMALTSTACK then Some (op_FROMALTSTACK st)
      else if opcode = OP_2DROP then Some (op_2DROP st)
      else if opcode = OP_2DUP then Some (op_2DUP st)
      else if opcode = OP_3DUP then Some (op_3DUP st)
      else if opcode = OP_2OVER then Some (op_2OVER st)
      else if opcode = OP_2ROT then Some (op_2ROT st)
      else if opcode = OP_2SWAP then Some (op_2SWAP st)
      else if opcode = OP_IFDUP then Some (op_IFDUP st)
      else if opcode = OP_DEPTH then Some (op_DEPTH st)
      else if opcode = OP_DROP then Some (op_DROP st)
      else if opcode = OP_DUP then Some (op_DUP st)
      else if opcode = OP_NIP then Some (op_NIP st)
      else if opcode = OP_OVER then Some (op_OVER st)
      else if opcode = OP_PICK \<or> opcode = OP_ROLL then Some (op_PICK_ROLL flags opcode st)
      else if opcode = OP_ROT then Some (op_ROT st)
      else if opcode = OP_SWAP then Some (op_SWAP st)
      else if opcode = OP_TUCK then Some (op_TUCK st)
      else if opcode = OP_SIZE then Some (op_SIZE st)
      else None)"

definition exec_num :: "u32 \<Rightarrow> opcodetype \<Rightarrow> interp \<Rightarrow> (ScriptError + interp) option" where
  "exec_num flags opcode st =
     (if opcode = OP_EQUAL \<or> opcode = OP_EQUALVERIFY then Some (op_EQUAL opcode st)
      else if opcode \<in> {OP_1ADD, OP_1SUB, OP_NEGATE, OP_ABS, OP_NOT, OP_0NOTEQUAL} then
        Some (op_unary_num flags opcode st)
      else if opcode \<in> {OP_ADD, OP_SUB, OP_BOOLAND, OP_BOOLOR, OP_NUMEQUAL, OP_NUMEQUALVERIFY, OP_NUMNOTEQUAL,
        OP_LESSTHAN, OP_GREATERTHAN, OP_LESSTHANOREQUAL, OP_GREATERTHANOREQUAL, OP_MIN, OP_MAX} then
        Some (op_binary_num flags opcode st)
      else if opcode = OP_WITHIN then Some (op_WITHIN flags st)
      else None)"

definition exec_crypto ::
  "u32 \<Rightarrow> BaseSignatureChecker \<Rightarrow> SigVersion \<Rightarrow> opcodetype \<Rightarrow> bytes \<Rightarrow> interp \<Rightarrow> (ScriptError + interp) option" where
  "exec_crypto flags checker sigversion opcode pc st =
     (if opcode \<in> {OP_RIPEMD160, OP_SHA1, OP_SHA256, OP_HASH160, OP_HASH256} then Some (op_HASH opcode st)
      else if opcode = OP_CODESEPARATOR then Some (op_CODESEPARATOR pc st)
      else if opcode = OP_CHECKSIG \<or> opcode = OP_CHECKSIGVERIFY then Some (op_CHECKSIG flags checker sigversion opcode st)
      else if opcode = OP_CHECKMULTISIG \<or> opcode = OP_CHECKMULTISIGVERIFY then
        Some (op_CHECKMULTISIG flags checker sigversion opcode st)
      else None)"

definition exec_opcode ::
  "u32 \<Rightarrow> BaseSignatureChecker \<Rightarrow> SigVersion \<Rightarrow> opcodetype \<Rightarrow> bool \<Rightarrow> bytes \<Rightarrow> interp \<Rightarrow> ScriptError + interp" where
  "exec_opcode flags checker sigversion opcode fExec pc st =
     (case exec_control flags checker sigversion opcode fExec st of
        Some r \<Rightarrow> r
      | None \<Rightarrow>
          (case exec_stack flags opcode st of
             Some r \<Rightarrow> r
           | None \<Rightarrow>
               (case exec_num flags opcode st of
                  Some r \<Rightarrow> r
                | None \<Rightarrow>
                    (case exec_crypto flags checker sigversion opcode pc st of
                       Some r \<Rightarrow> r
                     | None \<Rightarrow> Inl SCRIPT_ERR_BAD_OPCODE))))"

text \<open>One turn of the loop of \<open>EvalScript\<close>: the new \<^verbatim>\<open>pc\<close> and state, or the error.\<close>

definition eval_step ::
  "u32 \<Rightarrow> BaseSignatureChecker \<Rightarrow> SigVersion \<Rightarrow> bytes \<Rightarrow> interp \<Rightarrow> ScriptError + (bytes \<times> interp)" where
  "eval_step flags checker sigversion pc st =
     (let fExec = (False \<notin> set (vfExec st))
      in case GetOp2 pc of (ret, pc, opcode, vchPushValue) \<Rightarrow>
        if \<not> ret then Inl SCRIPT_ERR_BAD_OPCODE
        else if length vchPushValue > MAX_SCRIPT_ELEMENT_SIZE then Inl SCRIPT_ERR_PUSH_SIZE
        else let st = (if opcode > OP_16 then st\<lparr>nOpCount := nOpCount st + 1\<rparr> else st)
             in if opcode > OP_16 \<and> nOpCount st > MAX_OPS_PER_SCRIPT then Inl SCRIPT_ERR_OP_COUNT
                else if disabled_opcode opcode then Inl SCRIPT_ERR_DISABLED_OPCODE
                else case (if fExec \<and> 0 \<le> opcode \<and> opcode \<le> OP_PUSHDATA4 then op_push_data flags opcode vchPushValue st
                           else if fExec \<or> (OP_IF \<le> opcode \<and> opcode \<le> OP_ENDIF) then
                             exec_opcode flags checker sigversion opcode fExec pc st
                           else Inr st) of
                  Inl e \<Rightarrow> Inl e
                | Inr st \<Rightarrow>
                    if length (main_stack st) + length (altstack st) > 1000 then Inl SCRIPT_ERR_STACK_SIZE
                    else Inr (pc, st))"

lemma eval_step_shorter: "eval_step flags checker sigversion pc st = Inr (pc', st') \<Longrightarrow> pc \<noteq> [] \<Longrightarrow> length pc' < length pc"
  using GetOp2_shorter [of pc]
  by (auto simp: eval_step_def Let_def split: prod.splits if_splits sum.splits)

function eval_loop :: "u32 \<Rightarrow> BaseSignatureChecker \<Rightarrow> SigVersion \<Rightarrow> bytes \<Rightarrow> interp \<Rightarrow> ScriptError + interp" where
  "eval_loop flags checker sigversion pc st =
     (if pc = [] then Inr st
      else case eval_step flags checker sigversion pc st of
        Inl e \<Rightarrow> Inl e
      | Inr (pc', st') \<Rightarrow> eval_loop flags checker sigversion pc' st')"
  by pat_completeness auto
termination
  by (relation "measure (\<lambda>(flags, checker, sigversion, pc, st). length pc)") (auto dest: eval_step_shorter)

declare eval_loop.simps [simp del]

definition EvalScript ::
  "stack \<Rightarrow> CScript \<Rightarrow> u32 \<Rightarrow> BaseSignatureChecker \<Rightarrow> SigVersion \<Rightarrow> ScriptError + stack" where
  "EvalScript stack script flags checker sigversion =
     (if length script > MAX_SCRIPT_SIZE then Inl SCRIPT_ERR_SCRIPT_SIZE
      else case eval_loop flags checker sigversion script
             \<lparr>main_stack = stack, altstack = [], vfExec = [], nOpCount = 0, pbegincodehash = script\<rparr> of
        Inl e \<Rightarrow> Inl e
      | Inr st \<Rightarrow> if vfExec st \<noteq> [] then Inl SCRIPT_ERR_UNBALANCED_CONDITIONAL else Inr (main_stack st))"

subsection \<open>Stack effects\<close>

text \<open>The effects of the stack opcodes as their comments in the source give them, top of the stack at the right.\<close>

lemma stacktop_snoc [simp]: "stacktop (s @ [x]) 1 = x" "stacktop (s @ [x]) (Suc 0) = x"
  by (simp_all add: stacktop_def)

lemma stacktop_append:
  assumes "0 < i" and "i \<le> length t"
  shows "stacktop (s @ t) i = t ! (length t - i)"
proof -
  have "length s + length t - i = length s + (length t - i)"
    using assms by simp
  then show ?thesis
    by (simp only: stacktop_def length_append nth_append_length_plus)
qed

lemma list_update_append_plus: "(xs @ ys)[length xs + n := v] = xs @ ys[n := v]"
  by (simp add: list_update_append)

lemma swap_top_append:
  assumes "0 < i" "i \<le> length t" "0 < j" "j \<le> length t"
  shows "swap_top i j (s @ t) = s @ t[length t - i := t ! (length t - j), length t - j := t ! (length t - i)]"
proof -
  have "length s + length t - i = length s + (length t - i)" "length s + length t - j = length s + (length t - j)"
    using assms by simp_all
  then show ?thesis
    using assms
    by (simp only: swap_top_def stacktop_append length_append list_update_append_plus)
qed

lemma popstack_snoc [simp]: "popstack (s @ [x]) = s"
  by (simp add: popstack_def)

lemma popstack_append: "t \<noteq> [] \<Longrightarrow> popstack (s @ t) = s @ popstack t"
  by (simp add: popstack_def butlast_append)

lemma numeral_nat_list: "(6 :: nat) = Suc (Suc (Suc (Suc (Suc (Suc 0)))))" "(5 :: nat) = Suc (Suc (Suc (Suc (Suc 0))))"
  "(4 :: nat) = Suc (Suc (Suc (Suc 0)))" "(3 :: nat) = Suc (Suc (Suc 0))" "(2 :: nat) = Suc (Suc 0)"
  by simp_all

lemma stack_effects:
  fixes s :: stack
  shows
    "op_2DROP (st\<lparr>main_stack := s @ [x1, x2]\<rparr>) = Inr (st\<lparr>main_stack := s\<rparr>)"
    "op_2DUP (st\<lparr>main_stack := s @ [x1, x2]\<rparr>) = Inr (st\<lparr>main_stack := s @ [x1, x2, x1, x2]\<rparr>)"
    "op_3DUP (st\<lparr>main_stack := s @ [x1, x2, x3]\<rparr>) = Inr (st\<lparr>main_stack := s @ [x1, x2, x3, x1, x2, x3]\<rparr>)"
    "op_2OVER (st\<lparr>main_stack := s @ [x1, x2, x3, x4]\<rparr>) = Inr (st\<lparr>main_stack := s @ [x1, x2, x3, x4, x1, x2]\<rparr>)"
    "op_2ROT (st\<lparr>main_stack := s @ [x1, x2, x3, x4, x5, x6]\<rparr>) = Inr (st\<lparr>main_stack := s @ [x3, x4, x5, x6, x1, x2]\<rparr>)"
    "op_2SWAP (st\<lparr>main_stack := s @ [x1, x2, x3, x4]\<rparr>) = Inr (st\<lparr>main_stack := s @ [x3, x4, x1, x2]\<rparr>)"
    "op_DROP (st\<lparr>main_stack := s @ [x1]\<rparr>) = Inr (st\<lparr>main_stack := s\<rparr>)"
    "op_DUP (st\<lparr>main_stack := s @ [x1]\<rparr>) = Inr (st\<lparr>main_stack := s @ [x1, x1]\<rparr>)"
    "op_NIP (st\<lparr>main_stack := s @ [x1, x2]\<rparr>) = Inr (st\<lparr>main_stack := s @ [x2]\<rparr>)"
    "op_OVER (st\<lparr>main_stack := s @ [x1, x2]\<rparr>) = Inr (st\<lparr>main_stack := s @ [x1, x2, x1]\<rparr>)"
    "op_ROT (st\<lparr>main_stack := s @ [x1, x2, x3]\<rparr>) = Inr (st\<lparr>main_stack := s @ [x2, x3, x1]\<rparr>)"
    "op_SWAP (st\<lparr>main_stack := s @ [x1, x2]\<rparr>) = Inr (st\<lparr>main_stack := s @ [x2, x1]\<rparr>)"
    "op_TUCK (st\<lparr>main_stack := s @ [x1, x2]\<rparr>) = Inr (st\<lparr>main_stack := s @ [x2, x1, x2]\<rparr>)"
  by (simp_all add: op_2DROP_def op_2DUP_def op_3DUP_def op_2OVER_def op_2ROT_def op_2SWAP_def op_DROP_def op_DUP_def
    op_NIP_def op_OVER_def op_ROT_def op_SWAP_def op_TUCK_def set_stack_def stacktop_append swap_top_append
    popstack_def butlast_append Let_def numeral_nat_list del: One_nat_def)

end
