(* ===== verification/Script_Machine.thy ===== *)
theory Script_Machine
  imports Interpreter
begin

text \<open>
  Invariants of the interpreter: what bounds the two stacks, the items on them and the operation count, and
  what a script that evaluates successfully must look like whatever branches it takes.
\<close>

unbundle bit_operations_syntax

subsection \<open>Size limits of the stack items\<close>

text \<open>All items of both stacks have at most \<open>MAX_SCRIPT_ELEMENT_SIZE\<close> bytes.\<close>

definition small :: "bytes set" where
  "small = {x. length x \<le> MAX_SCRIPT_ELEMENT_SIZE}"

definition items :: "interp \<Rightarrow> bytes set" where
  "items st = set (main_stack st) \<union> set (altstack st)"

lemma stacktop_in: "0 < i \<Longrightarrow> i \<le> length s \<Longrightarrow> stacktop s i \<in> set s"
  by (simp add: stacktop_def)

lemma stacktop_in_1: "s \<noteq> [] \<Longrightarrow> stacktop s (Suc 0) \<in> set s"
  by (rule stacktop_in) (auto simp: Suc_le_eq)

lemma set_popstack: "set (popstack s) \<subseteq> set s"
  by (auto simp: popstack_def dest: in_set_butlastD)

lemma in_popstack: "x \<in> set (popstack s) \<Longrightarrow> x \<in> set s"
  using set_popstack by blast

lemma set_swap_top: "0 < i \<Longrightarrow> i \<le> length s \<Longrightarrow> 0 < j \<Longrightarrow> j \<le> length s \<Longrightarrow> set (swap_top i j s) \<subseteq> set s"
  unfolding swap_top_def
  by (intro subset_trans [OF set_update_subset_insert] insert_subsetI subset_trans [OF set_update_subset_insert]
    stacktop_in subset_refl)

lemma in_swap_top: "x \<in> set (swap_top i j s) \<Longrightarrow> 0 < i \<Longrightarrow> i \<le> length s \<Longrightarrow> 0 < j \<Longrightarrow> j \<le> length s \<Longrightarrow> x \<in> set s"
  using set_swap_top by blast

lemma length_swap_top [simp]: "length (swap_top i j s) = length s"
  by (simp add: swap_top_def)

lemmas from_stack = in_popstack in_swap_top in_set_takeD in_set_dropD

lemma stacktop_small: "items st \<subseteq> small \<Longrightarrow> 0 < i \<Longrightarrow> i \<le> length (main_stack st) \<Longrightarrow> stacktop (main_stack st) i \<in> small"
  using stacktop_in [of i "main_stack st"] by (auto simp: items_def)

text \<open>An operation that rearranges items.\<close>

lemma op_TOALTSTACK_items: "op_TOALTSTACK st = Inr st' \<Longrightarrow> items st' \<subseteq> items st"
  by (auto simp: op_TOALTSTACK_def items_def set_stack_def Let_def not_less Suc_le_eq split: if_splits intro!: stacktop_in dest!: from_stack)

lemma op_FROMALTSTACK_items: "op_FROMALTSTACK st = Inr st' \<Longrightarrow> items st' \<subseteq> items st"
  by (auto simp: op_FROMALTSTACK_def items_def set_stack_def Let_def not_less Suc_le_eq split: if_splits intro!: stacktop_in dest!: from_stack)

lemma op_2DROP_items: "op_2DROP st = Inr st' \<Longrightarrow> items st' \<subseteq> items st"
  by (auto simp: op_2DROP_def items_def set_stack_def Let_def not_less Suc_le_eq split: if_splits intro!: stacktop_in dest!: from_stack)

lemma op_2DUP_items: "op_2DUP st = Inr st' \<Longrightarrow> items st' \<subseteq> items st"
  by (auto simp: op_2DUP_def items_def set_stack_def Let_def not_less Suc_le_eq split: if_splits intro!: stacktop_in dest!: from_stack)

lemma op_3DUP_items: "op_3DUP st = Inr st' \<Longrightarrow> items st' \<subseteq> items st"
  by (auto simp: op_3DUP_def items_def set_stack_def Let_def not_less Suc_le_eq split: if_splits intro!: stacktop_in dest!: from_stack)

lemma op_2OVER_items: "op_2OVER st = Inr st' \<Longrightarrow> items st' \<subseteq> items st"
  by (auto simp: op_2OVER_def items_def set_stack_def Let_def not_less Suc_le_eq split: if_splits intro!: stacktop_in dest!: from_stack)

lemma op_2ROT_items: "op_2ROT st = Inr st' \<Longrightarrow> items st' \<subseteq> items st"
  by (auto simp: op_2ROT_def items_def set_stack_def Let_def not_less Suc_le_eq split: if_splits intro!: stacktop_in dest!: from_stack)

lemma op_2SWAP_items: "op_2SWAP st = Inr st' \<Longrightarrow> items st' \<subseteq> items st"
  by (auto simp: op_2SWAP_def items_def set_stack_def Let_def not_less Suc_le_eq split: if_splits intro!: stacktop_in dest!: from_stack)

lemma op_IFDUP_items: "op_IFDUP st = Inr st' \<Longrightarrow> items st' \<subseteq> items st"
  by (auto simp: op_IFDUP_def items_def set_stack_def Let_def not_less Suc_le_eq split: if_splits intro!: stacktop_in dest!: from_stack)

lemma op_DROP_items: "op_DROP st = Inr st' \<Longrightarrow> items st' \<subseteq> items st"
  by (auto simp: op_DROP_def items_def set_stack_def Let_def not_less Suc_le_eq split: if_splits intro!: stacktop_in dest!: from_stack)

lemma op_DUP_items: "op_DUP st = Inr st' \<Longrightarrow> items st' \<subseteq> items st"
  by (auto simp: op_DUP_def items_def set_stack_def Let_def not_less Suc_le_eq split: if_splits intro!: stacktop_in dest!: from_stack)

lemma op_NIP_items: "op_NIP st = Inr st' \<Longrightarrow> items st' \<subseteq> items st"
  by (auto simp: op_NIP_def items_def set_stack_def Let_def not_less Suc_le_eq split: if_splits intro!: stacktop_in dest!: from_stack)

lemma op_OVER_items: "op_OVER st = Inr st' \<Longrightarrow> items st' \<subseteq> items st"
  by (auto simp: op_OVER_def items_def set_stack_def Let_def not_less Suc_le_eq split: if_splits intro!: stacktop_in dest!: from_stack)

lemma op_PICK_ROLL_items: "op_PICK_ROLL flags opcode st = Inr st' \<Longrightarrow> items st' \<subseteq> items st"
  by (auto simp: op_PICK_ROLL_def items_def set_stack_def Let_def not_less Suc_le_eq split: if_splits sum.splits
    intro!: in_popstack [OF stacktop_in] dest!: from_stack)

lemma op_ROT_items: "op_ROT st = Inr st' \<Longrightarrow> items st' \<subseteq> items st"
  by (auto simp: op_ROT_def items_def set_stack_def Let_def not_less Suc_le_eq split: if_splits intro!: stacktop_in dest!: from_stack)

lemma op_SWAP_items: "op_SWAP st = Inr st' \<Longrightarrow> items st' \<subseteq> items st"
  by (auto simp: op_SWAP_def items_def set_stack_def Let_def not_less Suc_le_eq split: if_splits intro!: stacktop_in dest!: from_stack)

lemma op_TUCK_items: "op_TUCK st = Inr st' \<Longrightarrow> items st' \<subseteq> items st"
  by (auto simp: op_TUCK_def items_def set_stack_def Let_def not_less Suc_le_eq split: if_splits intro!: stacktop_in dest!: from_stack)

subsection \<open>Numbers and hashes are small\<close>

lemma serialize_small: "\<bar>v\<bar> < 2 ^ 39 \<Longrightarrow> CScriptNum_serialize v \<in> small"
  using serialize_length [of v 5] by (cases "v = 0") (auto simp: small_def MAX_SCRIPT_ELEMENT_SIZE_def CScriptNum_serialize_def)

lemma script_num_bound:
  assumes "script_num flags vch n = Inr v" and "0 < n" and "n \<le> 7"
  shows "\<bar>v\<bar> < 2 ^ (8 * n - 1)"
proof -
  from assms(1) have v: "v = set_vch vch" "length vch \<le> n"
    by (auto simp: script_num_def CScriptNum_def split: option.splits if_splits)
  show ?thesis
  proof (cases "vch = []")
    case False
    with v assms(3) have "\<bar>v\<bar> = uint (from_le (magnitude vch) :: u64)"
      using set_vch_value [of vch] by (simp add: abs_mult)
    then show ?thesis using magnitude_bound [OF False v(2) assms(3)] by simp
  qed (simp add: v set_vch_def)
qed

lemma script_num_4: "script_num flags vch nDefaultMaxNumSize = Inr v \<Longrightarrow> \<bar>v\<bar> < 2 ^ 31"
  using script_num_bound [of flags vch nDefaultMaxNumSize v] by (simp add: nDefaultMaxNumSize_def)

lemma unary_num_small: "\<bar>bn\<bar> < 2 ^ 31 \<Longrightarrow> \<bar>unary_num opcode bn\<bar> < 2 ^ 39"
  by (auto simp: unary_num_def)

lemma binary_num_small: "\<bar>bn1\<bar> < 2 ^ 31 \<Longrightarrow> \<bar>bn2\<bar> < 2 ^ 31 \<Longrightarrow> \<bar>binary_num opcode bn1 bn2\<bar> < 2 ^ 39"
  by (auto simp: binary_num_def)

lemma bool_vch_small [simp]: "bool_vch b \<in> small"
  by (simp add: bool_vch_def vchTrue_def vchFalse_def small_def MAX_SCRIPT_ELEMENT_SIZE_def)

lemma Hash160_eq: "Hash160 p = RIPEMD160 (SHA256 p)"
  using CHash160_fold [of "replicate 64 0" "replicate 64 0" "[p]"] by (simp add: Hash160_def)

lemma Hash256_eq: "Hash_ranges [p] = SHA256 (SHA256 p)"
  using CHash256_fold [of "replicate 64 0" "[p]"] by (simp add: Hash_ranges_def)

lemma hash_opcode_small: "hash_opcode opcode vch \<in> small"
  by (simp add: hash_opcode_def small_def MAX_SCRIPT_ELEMENT_SIZE_def Hash160_eq Hash256_eq)

subsection \<open>The opcodes keep items small\<close>

lemma op_EQUAL_small: "op_EQUAL opcode st = Inr st' \<Longrightarrow> items st \<subseteq> small \<Longrightarrow> items st' \<subseteq> small"
  by (auto simp: op_EQUAL_def Let_def set_stack_def items_def split: if_splits dest!: from_stack)

lemma op_unary_small: "op_unary_num flags opcode st = Inr st' \<Longrightarrow> items st \<subseteq> small \<Longrightarrow> items st' \<subseteq> small"
  by (auto simp: op_unary_num_def Let_def set_stack_def items_def split: if_splits sum.splits
    dest!: script_num_4 from_stack intro!: serialize_small unary_num_small)

lemma op_binary_small: "op_binary_num flags opcode st = Inr st' \<Longrightarrow> items st \<subseteq> small \<Longrightarrow> items st' \<subseteq> small"
  by (auto simp: op_binary_num_def Let_def set_stack_def items_def split: if_splits sum.splits
    dest!: script_num_4 from_stack intro!: serialize_small binary_num_small)

lemma op_WITHIN_small: "op_WITHIN flags st = Inr st' \<Longrightarrow> items st \<subseteq> small \<Longrightarrow> items st' \<subseteq> small"
  by (auto simp: op_WITHIN_def Let_def set_stack_def items_def split: if_splits sum.splits dest!: from_stack)

lemma op_HASH_small: "op_HASH opcode st = Inr st' \<Longrightarrow> items st \<subseteq> small \<Longrightarrow> items st' \<subseteq> small"
  by (auto simp: op_HASH_def Let_def set_stack_def items_def hash_opcode_small split: if_splits dest!: from_stack)

lemma op_CHECKSIG_small: "op_CHECKSIG flags checker sigversion opcode st = Inr st' \<Longrightarrow> items st \<subseteq> small \<Longrightarrow> items st' \<subseteq> small"
  by (auto simp: op_CHECKSIG_def Let_def set_stack_def items_def split: if_splits option.splits dest!: from_stack)

lemma cleanup_small: "multisig_cleanup flags fSuccess n ikey2 s = Inr s' \<Longrightarrow> set s' \<subseteq> set s"
  by (induction flags fSuccess n ikey2 s rule: multisig_cleanup.induct) (auto split: if_splits dest!: from_stack)

lemma multisig_finish_small:
  "multisig_finish flags opcode fSuccess i ikey2 st = Inr st' \<Longrightarrow> items st \<subseteq> small \<Longrightarrow> items st' \<subseteq> small"
  by (auto simp: multisig_finish_def Let_def set_stack_def items_def split: if_splits sum.splits
    dest!: from_stack cleanup_small) blast+

lemma op_CHECKMULTISIG_small:
  "op_CHECKMULTISIG flags checker sigversion opcode st = Inr st' \<Longrightarrow> items st \<subseteq> small \<Longrightarrow> items st' \<subseteq> small"
  by (auto simp: op_CHECKMULTISIG_def multisig_run_def Let_def items_def split: if_splits sum.splits
    dest!: multisig_finish_small)

lemma op_push_value_small: "op_push_value opcode st = Inr st' \<Longrightarrow> items st \<subseteq> small \<Longrightarrow> items st' \<subseteq> small"
proof -
  have "\<bar>x - 80\<bar> < 2 ^ 39" if "0 \<le> x" "x < 256" for x :: int
    using that by simp
  then have "\<bar>uint (opcode :: u8) - 80\<bar> < 2 ^ 39"
    using unsigned_less [of opcode, where ?'a = int] by simp
  then show "op_push_value opcode st = Inr st' \<Longrightarrow> items st \<subseteq> small \<Longrightarrow> items st' \<subseteq> small"
    by (auto simp: op_push_value_def set_stack_def items_def intro!: serialize_small)
qed

lemma op_push_data_small:
  "op_push_data flags opcode vch st = Inr st' \<Longrightarrow> vch \<in> small \<Longrightarrow> items st \<subseteq> small \<Longrightarrow> items st' \<subseteq> small"
  by (auto simp: op_push_data_def set_stack_def items_def split: if_splits)

lemma op_DEPTH_small:
  "op_DEPTH st = Inr st' \<Longrightarrow> length (main_stack st) \<le> 1000 \<Longrightarrow> items st \<subseteq> small \<Longrightarrow> items st' \<subseteq> small"
  by (auto simp: op_DEPTH_def set_stack_def items_def intro!: serialize_small)

lemma op_SIZE_small: "op_SIZE st = Inr st' \<Longrightarrow> items st \<subseteq> small \<Longrightarrow> items st' \<subseteq> small"
proof -
  assume op: "op_SIZE st = Inr st'" and st: "items st \<subseteq> small"
  then have "main_stack st \<noteq> []" by (auto simp: op_SIZE_def)
  then have "stacktop (main_stack st) 1 \<in> small" using stacktop_small [OF st, of 1] by (simp add: Suc_le_eq)
  then have "CScriptNum_serialize (int (length (stacktop (main_stack st) 1))) \<in> small"
    by (intro serialize_small) (simp add: small_def MAX_SCRIPT_ELEMENT_SIZE_def)
  then show ?thesis using op st by (auto simp: op_SIZE_def Let_def set_stack_def items_def split: if_splits)
qed

subsection \<open>What the opcodes leave alone\<close>

lemma op_frame:
  "op_push_data flags opcode vch st = Inr st' \<Longrightarrow> vfExec st' = vfExec st \<and> nOpCount st' = nOpCount st"
  "op_push_value opcode st = Inr st' \<Longrightarrow> vfExec st' = vfExec st \<and> nOpCount st' = nOpCount st"
  "op_CHECKLOCKTIMEVERIFY flags checker st = Inr st' \<Longrightarrow> vfExec st' = vfExec st \<and> nOpCount st' = nOpCount st"
  "op_CHECKSEQUENCEVERIFY flags checker st = Inr st' \<Longrightarrow> vfExec st' = vfExec st \<and> nOpCount st' = nOpCount st"
  "op_NOPn flags st = Inr st' \<Longrightarrow> vfExec st' = vfExec st \<and> nOpCount st' = nOpCount st"
  "op_VERIFY st = Inr st' \<Longrightarrow> vfExec st' = vfExec st \<and> nOpCount st' = nOpCount st"
  "op_TOALTSTACK st = Inr st' \<Longrightarrow> vfExec st' = vfExec st \<and> nOpCount st' = nOpCount st"
  "op_FROMALTSTACK st = Inr st' \<Longrightarrow> vfExec st' = vfExec st \<and> nOpCount st' = nOpCount st"
  "op_2DROP st = Inr st' \<Longrightarrow> vfExec st' = vfExec st \<and> nOpCount st' = nOpCount st"
  "op_2DUP st = Inr st' \<Longrightarrow> vfExec st' = vfExec st \<and> nOpCount st' = nOpCount st"
  "op_3DUP st = Inr st' \<Longrightarrow> vfExec st' = vfExec st \<and> nOpCount st' = nOpCount st"
  "op_2OVER st = Inr st' \<Longrightarrow> vfExec st' = vfExec st \<and> nOpCount st' = nOpCount st"
  "op_2ROT st = Inr st' \<Longrightarrow> vfExec st' = vfExec st \<and> nOpCount st' = nOpCount st"
  "op_2SWAP st = Inr st' \<Longrightarrow> vfExec st' = vfExec st \<and> nOpCount st' = nOpCount st"
  "op_IFDUP st = Inr st' \<Longrightarrow> vfExec st' = vfExec st \<and> nOpCount st' = nOpCount st"
  "op_DEPTH st = Inr st' \<Longrightarrow> vfExec st' = vfExec st \<and> nOpCount st' = nOpCount st"
  "op_DROP st = Inr st' \<Longrightarrow> vfExec st' = vfExec st \<and> nOpCount st' = nOpCount st"
  "op_DUP st = Inr st' \<Longrightarrow> vfExec st' = vfExec st \<and> nOpCount st' = nOpCount st"
  "op_NIP st = Inr st' \<Longrightarrow> vfExec st' = vfExec st \<and> nOpCount st' = nOpCount st"
  "op_OVER st = Inr st' \<Longrightarrow> vfExec st' = vfExec st \<and> nOpCount st' = nOpCount st"
  "op_PICK_ROLL flags opcode st = Inr st' \<Longrightarrow> vfExec st' = vfExec st \<and> nOpCount st' = nOpCount st"
  "op_ROT st = Inr st' \<Longrightarrow> vfExec st' = vfExec st \<and> nOpCount st' = nOpCount st"
  "op_SWAP st = Inr st' \<Longrightarrow> vfExec st' = vfExec st \<and> nOpCount st' = nOpCount st"
  "op_TUCK st = Inr st' \<Longrightarrow> vfExec st' = vfExec st \<and> nOpCount st' = nOpCount st"
  "op_SIZE st = Inr st' \<Longrightarrow> vfExec st' = vfExec st \<and> nOpCount st' = nOpCount st"
  "op_EQUAL opcode st = Inr st' \<Longrightarrow> vfExec st' = vfExec st \<and> nOpCount st' = nOpCount st"
  "op_unary_num flags opcode st = Inr st' \<Longrightarrow> vfExec st' = vfExec st \<and> nOpCount st' = nOpCount st"
  "op_binary_num flags opcode st = Inr st' \<Longrightarrow> vfExec st' = vfExec st \<and> nOpCount st' = nOpCount st"
  "op_WITHIN flags st = Inr st' \<Longrightarrow> vfExec st' = vfExec st \<and> nOpCount st' = nOpCount st"
  "op_HASH opcode st = Inr st' \<Longrightarrow> vfExec st' = vfExec st \<and> nOpCount st' = nOpCount st"
  "op_CHECKSIG flags checker sigversion opcode st = Inr st' \<Longrightarrow> vfExec st' = vfExec st \<and> nOpCount st' = nOpCount st"
  "op_CODESEPARATOR pc st = Inr st' \<Longrightarrow> vfExec st' = vfExec st \<and> nOpCount st' = nOpCount st"
  by (auto simp: op_push_data_def op_push_value_def op_CHECKLOCKTIMEVERIFY_def op_CHECKSEQUENCEVERIFY_def op_NOPn_def
    op_VERIFY_def op_TOALTSTACK_def op_FROMALTSTACK_def op_2DROP_def op_2DUP_def op_3DUP_def op_2OVER_def
    op_2ROT_def op_2SWAP_def op_IFDUP_def op_DEPTH_def op_DROP_def op_DUP_def op_NIP_def op_OVER_def
    op_PICK_ROLL_def op_ROT_def op_SWAP_def op_TUCK_def op_SIZE_def op_EQUAL_def op_unary_num_def
    op_binary_num_def op_WITHIN_def op_HASH_def op_CHECKSIG_def op_CODESEPARATOR_def Let_def set_stack_def
    split: if_splits sum.splits option.splits)

lemma op_CHECKMULTISIG_frame:
  "op_CHECKMULTISIG flags checker sigversion opcode st = Inr st' \<Longrightarrow>
     vfExec st' = vfExec st \<and> nOpCount st \<le> nOpCount st' \<and> nOpCount st' \<le> MAX_OPS_PER_SCRIPT"
  by (auto simp: op_CHECKMULTISIG_def multisig_run_def multisig_finish_def set_stack_def Let_def
    split: if_splits sum.splits)

lemma op_IF_frame:
  "op_IF flags sigversion opcode fExec st = Inr st' \<Longrightarrow> items st' \<subseteq> items st \<and> nOpCount st' = nOpCount st \<and>
     (\<exists>b. vfExec st' = vfExec st @ [b])"
  by (auto simp: op_IF_def items_def Let_def split: if_splits dest!: from_stack)

lemma op_ELSE_frame: "op_ELSE st = Inr st' \<Longrightarrow> items st' = items st \<and> nOpCount st' = nOpCount st \<and>
    vfExec st \<noteq> [] \<and> length (vfExec st') = length (vfExec st)"
  by (auto simp: op_ELSE_def items_def split: if_splits)

lemma op_ENDIF_frame: "op_ENDIF st = Inr st' \<Longrightarrow> items st' = items st \<and> nOpCount st' = nOpCount st \<and>
    vfExec st \<noteq> [] \<and> vfExec st' = butlast (vfExec st)"
  by (auto simp: op_ENDIF_def items_def split: if_splits)

subsection \<open>One opcode\<close>

text \<open>The nesting depth of conditionals: None where a branch has no conditional to belong to.\<close>

definition depth_step :: "opcodetype \<Rightarrow> nat \<Rightarrow> nat option" where
  "depth_step opcode n =
     (if opcode = OP_IF \<or> opcode = OP_NOTIF then Some (n + 1)
      else if opcode = OP_ELSE then (if n = 0 then None else Some n)
      else if opcode = OP_ENDIF then (if n = 0 then None else Some (n - 1))
      else Some n)"

lemma depth_step_other: "opcode \<noteq> OP_IF \<Longrightarrow> opcode \<noteq> OP_NOTIF \<Longrightarrow> opcode \<noteq> OP_ELSE \<Longrightarrow> opcode \<noteq> OP_ENDIF \<Longrightarrow>
    depth_step opcode n = Some n"
  by (simp add: depth_step_def)

text \<open>What every opcode guarantees: small items, the operation count and the depth.\<close>

definition step_ok :: "opcodetype \<Rightarrow> interp \<Rightarrow> interp \<Rightarrow> bool" where
  "step_ok opcode st st' \<longleftrightarrow>
     (items st \<subseteq> small \<longrightarrow> length (main_stack st) \<le> 1000 \<longrightarrow> items st' \<subseteq> small) \<and>
     nOpCount st \<le> nOpCount st' \<and> (nOpCount st \<le> MAX_OPS_PER_SCRIPT \<longrightarrow> nOpCount st' \<le> MAX_OPS_PER_SCRIPT) \<and>
     depth_step opcode (length (vfExec st)) = Some (length (vfExec st'))"

lemma step_okI:
  assumes "vfExec st' = vfExec st \<and> nOpCount st' = nOpCount st"
    and "opcode \<noteq> OP_IF" "opcode \<noteq> OP_NOTIF" "opcode \<noteq> OP_ELSE" "opcode \<noteq> OP_ENDIF"
    and "items st \<subseteq> small \<Longrightarrow> length (main_stack st) \<le> 1000 \<Longrightarrow> items st' \<subseteq> small"
  shows "step_ok opcode st st'"
  using assms by (auto simp: step_ok_def depth_step_other)

lemma exec_control_ok:
  assumes "exec_control flags checker sigversion opcode fExec st = Some (Inr st')"
  shows "step_ok opcode st st'"
proof -
  consider (push) "opcode = OP_1NEGATE \<or> (OP_1 \<le> opcode \<and> opcode \<le> OP_16)" "op_push_value opcode st = Inr st'"
    | (same) "opcode \<notin> {OP_IF, OP_NOTIF, OP_ELSE, OP_ENDIF}" "st' = st"
    | (verify) "opcode = OP_VERIFY" "op_VERIFY st = Inr st'"
    | (cond) "opcode = OP_IF \<or> opcode = OP_NOTIF" "op_IF flags sigversion opcode fExec st = Inr st'"
    | (els) "opcode = OP_ELSE" "op_ELSE st = Inr st'"
    | (endif) "opcode = OP_ENDIF" "op_ENDIF st = Inr st'"
    using assms
    by (auto simp: exec_control_def op_CHECKLOCKTIMEVERIFY_def op_CHECKSEQUENCEVERIFY_def op_NOPn_def
      split: if_splits sum.splits)
  then show ?thesis
  proof cases
    case push
    then have "opcode \<notin> {OP_IF, OP_NOTIF, OP_ELSE, OP_ENDIF}" by (auto simp: word_le_nat_alt)
    then show ?thesis
      using op_frame(2) [OF push(2)] op_push_value_small [OF push(2)] by (intro step_okI) auto
  next
    case same
    then show ?thesis by (intro step_okI) auto
  next
    case verify
    moreover have "items st' \<subseteq> items st"
      using verify(2) by (auto simp: op_VERIFY_def set_stack_def items_def split: if_splits dest!: from_stack)
    ultimately show ?thesis using op_frame(6) by (intro step_okI) auto
  next
    case cond
    then show ?thesis using op_IF_frame [OF cond(2)] by (auto simp: step_ok_def depth_step_def)
  next
    case els
    then show ?thesis using op_ELSE_frame [OF els(2)] by (auto simp: step_ok_def depth_step_def)
  next
    case endif
    then show ?thesis using op_ENDIF_frame [OF endif(2)] by (auto simp: step_ok_def depth_step_def)
  qed
qed

lemmas stack_items = op_TOALTSTACK_items op_FROMALTSTACK_items op_2DROP_items op_2DUP_items op_3DUP_items
  op_2OVER_items op_2ROT_items op_2SWAP_items op_IFDUP_items op_DROP_items op_DUP_items op_NIP_items op_OVER_items
  op_PICK_ROLL_items op_ROT_items op_SWAP_items op_TUCK_items

lemma exec_stack_ok:
  assumes "exec_stack flags opcode st = Some (Inr st')"
  shows "step_ok opcode st st'"
proof (rule step_okI)
  show "vfExec st' = vfExec st \<and> nOpCount st' = nOpCount st"
    using assms unfolding exec_stack_def by (auto split: if_splits dest: op_frame)
  show "opcode \<noteq> OP_IF" "opcode \<noteq> OP_NOTIF" "opcode \<noteq> OP_ELSE" "opcode \<noteq> OP_ENDIF"
    using assms unfolding exec_stack_def by (auto split: if_splits)
  assume "items st \<subseteq> small" "length (main_stack st) \<le> 1000"
  then show "items st' \<subseteq> small"
    using assms op_DEPTH_small [of st st'] op_SIZE_small [of st st'] unfolding exec_stack_def
    by (auto split: if_splits dest!: stack_items)
qed

lemma exec_num_ok:
  assumes "exec_num flags opcode st = Some (Inr st')"
  shows "step_ok opcode st st'"
proof (rule step_okI)
  show "vfExec st' = vfExec st \<and> nOpCount st' = nOpCount st"
    using assms unfolding exec_num_def by (auto split: if_splits dest: op_frame)
  show "opcode \<noteq> OP_IF" "opcode \<noteq> OP_NOTIF" "opcode \<noteq> OP_ELSE" "opcode \<noteq> OP_ENDIF"
    using assms unfolding exec_num_def by (auto split: if_splits)
  assume "items st \<subseteq> small" "length (main_stack st) \<le> 1000"
  then show "items st' \<subseteq> small"
    using assms op_EQUAL_small [of opcode st st'] op_unary_small [of flags opcode st st']
      op_binary_small [of flags opcode st st'] op_WITHIN_small [of flags st st']
    unfolding exec_num_def by (simp split: if_splits)
qed

lemma exec_crypto_ok:
  assumes "exec_crypto flags checker sigversion opcode pc st = Some (Inr st')"
  shows "step_ok opcode st st'"
proof -
  have other: "opcode \<notin> {OP_IF, OP_NOTIF, OP_ELSE, OP_ENDIF}"
    using assms by (auto simp: exec_crypto_def split: if_splits)
  consider "op_HASH opcode st = Inr st'" | "op_CODESEPARATOR pc st = Inr st'"
    | "op_CHECKSIG flags checker sigversion opcode st = Inr st'"
    | "op_CHECKMULTISIG flags checker sigversion opcode st = Inr st'"
    using assms by (auto simp: exec_crypto_def split: if_splits)
  then show ?thesis
  proof cases
    case 1
    then show ?thesis using other op_frame(30) [OF 1] op_HASH_small [OF 1] by (intro step_okI) auto
  next
    case 2
    then show ?thesis using other op_frame(32) [OF 2]
      by (intro step_okI) (auto simp: op_CODESEPARATOR_def items_def)
  next
    case 3
    then show ?thesis using other op_frame(31) [OF 3] op_CHECKSIG_small [OF 3] by (intro step_okI) auto
  next
    case 4
    then show ?thesis
      using other op_CHECKMULTISIG_frame [OF 4] op_CHECKMULTISIG_small [OF 4]
      by (auto simp: step_ok_def depth_step_other)
  qed
qed

lemma exec_opcode_ok:
  "exec_opcode flags checker sigversion opcode fExec pc st = Inr st' \<Longrightarrow> step_ok opcode st st'"
  using exec_control_ok exec_stack_ok exec_num_ok exec_crypto_ok
  by (auto simp: exec_opcode_def split: option.splits)

subsection \<open>Evaluation\<close>

text \<open>The invariant of the loop.\<close>

definition interp_ok :: "interp \<Rightarrow> bool" where
  "interp_ok st \<longleftrightarrow> length (main_stack st) + length (altstack st) \<le> 1000 \<and> items st \<subseteq> small"

text \<open>What a turn of the loop shows about the operation it executed.\<close>

lemma if_chain: "(if a then x else if b then y else Inr z) = Inr w \<Longrightarrow> (a \<and> x = Inr w) \<or> (b \<and> y = Inr w) \<or> (\<not> b \<and> w = z)"
  by (simp split: if_splits)

lemma eval_step_op:
  assumes "eval_step flags checker sigversion pc st = Inr (pc', st')"
  obtains opcode vch where "GetOp2 pc = (True, pc', opcode, vch)" and "vch \<in> small" and "\<not> disabled_opcode opcode"
    and "nOpCount st + of_bool (opcode > OP_16) \<le> nOpCount st'"
    and "depth_step opcode (length (vfExec st)) = Some (length (vfExec st'))"
    and "nOpCount st \<le> MAX_OPS_PER_SCRIPT \<Longrightarrow> nOpCount st' \<le> MAX_OPS_PER_SCRIPT"
    and "interp_ok st \<Longrightarrow> interp_ok st'"
proof -
  obtain ret pc1 opcode vch where g: "GetOp2 pc = (ret, pc1, opcode, vch)" by (cases "GetOp2 pc")
  define st1 where "st1 = (if opcode > OP_16 then st\<lparr>nOpCount := nOpCount st + 1\<rparr> else st)"
  define fExec where "fExec = (False \<notin> set (vfExec st))"
  define r where "r = (if fExec \<and> 0 \<le> opcode \<and> opcode \<le> OP_PUSHDATA4 then op_push_data flags opcode vch st1
    else if fExec \<or> (OP_IF \<le> opcode \<and> opcode \<le> OP_ENDIF) then exec_opcode flags checker sigversion opcode fExec pc1 st1
    else Inr st1)"
  have e: "ret" "pc1 = pc'" "vch \<in> small" "\<not> (opcode > OP_16 \<and> nOpCount st1 > MAX_OPS_PER_SCRIPT)"
      "\<not> disabled_opcode opcode" "r = Inr st'" "length (main_stack st') + length (altstack st') \<le> 1000"
    using assms
    by (auto simp: eval_step_def g Let_def small_def r_def st1_def fExec_def split: if_splits sum.splits)
  have ok: "step_ok opcode st1 st'" if "vch \<in> small"
  proof -
    have d: "depth_step opcode n = Some n" if "opcode \<le> OP_PUSHDATA4 \<or> \<not> (OP_IF \<le> opcode \<and> opcode \<le> OP_ENDIF)" for n
      using that by (auto simp: depth_step_def word_le_nat_alt)
    consider "opcode \<le> OP_PUSHDATA4" "op_push_data flags opcode vch st1 = Inr st'"
      | "exec_opcode flags checker sigversion opcode fExec pc1 st1 = Inr st'"
      | "\<not> (OP_IF \<le> opcode \<and> opcode \<le> OP_ENDIF)" "st' = st1"
      using if_chain [OF e(6) [unfolded r_def]] by blast
    then show ?thesis
    proof cases
      case 1
      then show ?thesis
        using op_frame(1) [OF 1(2)] op_push_data_small [OF 1(2) that] d by (auto simp: step_ok_def)
    next
      case 2
      then show ?thesis by (rule exec_opcode_ok)
    next
      case 3
      then show ?thesis using d by (auto simp: step_ok_def)
    qed
  qed
  have st1: "items st1 = items st" "main_stack st1 = main_stack st" "vfExec st1 = vfExec st"
      "nOpCount st1 = nOpCount st + of_bool (opcode > OP_16)"
    by (simp_all add: st1_def items_def)
  show thesis
  proof (rule that)
    show "GetOp2 pc = (True, pc', opcode, vch)" using e g by simp
    show "nOpCount st + of_bool (opcode > OP_16) \<le> nOpCount st'"
      "depth_step opcode (length (vfExec st)) = Some (length (vfExec st'))"
      using ok e(3) st1 by (simp_all add: step_ok_def)
    show "nOpCount st \<le> MAX_OPS_PER_SCRIPT \<Longrightarrow> nOpCount st' \<le> MAX_OPS_PER_SCRIPT"
      using ok e st1 by (cases "opcode > OP_16") (auto simp: step_ok_def)
    show "interp_ok st \<Longrightarrow> interp_ok st'"
      using ok e st1 by (auto simp: step_ok_def interp_ok_def)
  qed (use e in simp_all)
qed

text \<open>The depth after the operations of a script.\<close>

fun nesting :: "nat \<Rightarrow> (opcodetype \<times> bytes) list \<Rightarrow> nat option" where
  "nesting n [] = Some n"
| "nesting n ((opcode, _) # ops) = (case depth_step opcode n of None \<Rightarrow> None | Some n \<Rightarrow> nesting n ops)"

definition counted_ops :: "(opcodetype \<times> bytes) list \<Rightarrow> int" where
  "counted_ops ops = int (length (filter (\<lambda>(opcode, _). opcode > OP_16) ops))"

lemma eval_loop_ok:
  "eval_loop flags checker sigversion pc st = Inr st' \<Longrightarrow>
     snd (script_ops pc) \<and>
     (\<forall>(opcode, vch) \<in> set (fst (script_ops pc)). \<not> disabled_opcode opcode \<and> vch \<in> small) \<and>
     nOpCount st + counted_ops (fst (script_ops pc)) \<le> nOpCount st' \<and>
     nesting (length (vfExec st)) (fst (script_ops pc)) = Some (length (vfExec st')) \<and>
     (nOpCount st \<le> MAX_OPS_PER_SCRIPT \<longrightarrow> nOpCount st' \<le> MAX_OPS_PER_SCRIPT) \<and> (interp_ok st \<longrightarrow> interp_ok st')"
proof (induction flags checker sigversion pc st rule: eval_loop.induct)
  case (1 flags checker sigversion pc st)
  show ?case
  proof (cases "pc = []")
    case True
    with "1.prems" show ?thesis
      by (simp add: eval_loop.simps script_ops_simps counted_ops_def)
  next
    case False
    then obtain pc1 st1 where s: "eval_step flags checker sigversion pc st = Inr (pc1, st1)"
        and l: "eval_loop flags checker sigversion pc1 st1 = Inr st'"
      using "1.prems" by (subst (asm) eval_loop.simps) (auto split: sum.splits)
    note ih = 1(1) [OF False s refl l]
    obtain opcode vch where g: "GetOp2 pc = (True, pc1, opcode, vch)" "vch \<in> small" "\<not> disabled_opcode opcode"
        "nOpCount st + of_bool (opcode > OP_16) \<le> nOpCount st1"
        "depth_step opcode (length (vfExec st)) = Some (length (vfExec st1))"
        "nOpCount st \<le> MAX_OPS_PER_SCRIPT \<Longrightarrow> nOpCount st1 \<le> MAX_OPS_PER_SCRIPT" "interp_ok st \<Longrightarrow> interp_ok st1"
      using eval_step_op [OF s] by metis
    have c: "counted_ops ((opcode, vch) # ops) = of_bool (opcode > OP_16) + counted_ops ops" for ops
      by (simp add: counted_ops_def)
    show ?thesis
      unfolding script_ops_simps(2) [OF False g(1)] fst_conv snd_conv c nesting.simps g(5)
      using ih g(2-4,6,7) by (simp add: Ball_def)
  qed
qed

lemma eval_script_loop:
  assumes "EvalScript stack script flags checker sigversion = Inr stack'"
  obtains st where "eval_loop flags checker sigversion script
      \<lparr>main_stack = stack, altstack = [], vfExec = [], nOpCount = 0, pbegincodehash = script\<rparr> = Inr st"
    and "main_stack st = stack'" and "vfExec st = []" and "length script \<le> MAX_SCRIPT_SIZE"
  using assms by (auto simp: EvalScript_def split: if_splits sum.splits)

text \<open>A run of the interpreter.\<close>

definition no_checker :: BaseSignatureChecker where
  "no_checker = \<lparr>CheckSig = \<lambda>_ _ _ _. False, CheckLockTime = \<lambda>_. False, CheckSequence = \<lambda>_. False, CheckLowS = \<lambda>_. False\<rparr>"

lemma eval_nop: "EvalScript [[1]] [OP_NOP] 0 no_checker SIGVERSION_BASE = Inr [[1]]"
  by (simp add: EvalScript_def eval_loop.simps eval_step_def sigma_rest_def script_limits disabled_opcode_def
    exec_opcode_def exec_control_def Let_def)

section \<open>Properties\<close>

text \<open>
  C21. The stack discipline: started on a stack of at most 1000 items of at most 520 bytes each, a successful
  evaluation of any script leaves such a stack.
\<close>

theorem EvalScript_stack_bounds:
  assumes "EvalScript stack script flags checker sigversion = Inr stack'"
    and "length stack \<le> 1000" and "\<forall>x\<in>set stack. length x \<le> MAX_SCRIPT_ELEMENT_SIZE"
  shows "length stack' \<le> 1000 \<and> (\<forall>x\<in>set stack'. length x \<le> MAX_SCRIPT_ELEMENT_SIZE)"
proof -
  obtain st where st: "eval_loop flags checker sigversion script
      \<lparr>main_stack = stack, altstack = [], vfExec = [], nOpCount = 0, pbegincodehash = script\<rparr> = Inr st"
    "main_stack st = stack'"
    using eval_script_loop [OF assms(1)] by metis
  have "interp_ok \<lparr>main_stack = stack, altstack = [], vfExec = [], nOpCount = 0, pbegincodehash = script\<rparr>"
    using assms(2,3) by (auto simp: interp_ok_def items_def small_def)
  with eval_loop_ok [OF st(1)] st(2) show ?thesis
    by (auto simp: interp_ok_def items_def small_def)
qed

theorem EvalScript_stack_bounds_witness:
  "length [[1 :: u8]] \<le> 1000 \<and> length [1 :: u8] \<le> MAX_SCRIPT_ELEMENT_SIZE"
  using EvalScript_stack_bounds [OF eval_nop] by (simp add: script_limits)

text \<open>
  C6. Limits that hold whatever branches are taken: a script that evaluates successfully decodes to its end, is
  within the script size, contains no disabled opcode and no oversized push even in branches not executed,
  counts at most 201 operations and has balanced conditionals.
\<close>

theorem EvalScript_accepts_only_wellformed:
  assumes "EvalScript stack script flags checker sigversion = Inr stack'"
  shows "length script \<le> MAX_SCRIPT_SIZE \<and> snd (script_ops script) \<and>
    (\<forall>(opcode, vch) \<in> set (fst (script_ops script)). \<not> disabled_opcode opcode \<and> length vch \<le> MAX_SCRIPT_ELEMENT_SIZE) \<and>
    counted_ops (fst (script_ops script)) \<le> MAX_OPS_PER_SCRIPT \<and> nesting 0 (fst (script_ops script)) = Some 0"
proof -
  obtain st where st: "eval_loop flags checker sigversion script
      \<lparr>main_stack = stack, altstack = [], vfExec = [], nOpCount = 0, pbegincodehash = script\<rparr> = Inr st"
    "vfExec st = []" "length script \<le> MAX_SCRIPT_SIZE"
    using eval_script_loop [OF assms(1)] by metis
  show ?thesis
    using eval_loop_ok [OF st(1)] st(2,3) by (auto simp: small_def MAX_OPS_PER_SCRIPT_def)
qed

theorem EvalScript_accepts_only_wellformed_witness:
  "snd (script_ops [OP_NOP]) \<and> counted_ops (fst (script_ops [OP_NOP])) \<le> MAX_OPS_PER_SCRIPT \<and>
   nesting 0 (fst (script_ops [OP_NOP])) = Some 0"
  using EvalScript_accepts_only_wellformed [OF eval_nop] by simp

end
