(* ===== verification/Multisig.thy ===== *)
theory Multisig
  imports Script_Machine "HOL-Library.Sublist"
begin

text \<open>
  \<^verbatim>\<open>OP_CHECKMULTISIG\<close>: the matching loop walks once over the keys and takes each signature with the first key
  that fits. It is shown to decide whether the signatures can be assigned to keys in order at all.
\<close>

unbundle bit_operations_syntax

subsection \<open>Greedy matching\<close>

fun greedy :: "('a \<Rightarrow> 'b \<Rightarrow> bool) \<Rightarrow> 'a list \<Rightarrow> 'b list \<Rightarrow> bool" where
  "greedy ok [] ks \<longleftrightarrow> True"
| "greedy ok (x # xs) [] \<longleftrightarrow> False"
| "greedy ok (x # xs) (k # ks) \<longleftrightarrow> (if ok x k then greedy ok xs ks else greedy ok (x # xs) ks)"

lemma greedy_short: "length ks < length xs \<Longrightarrow> \<not> greedy ok xs ks"
  by (induction ok xs ks rule: greedy.induct) auto

lemma greedy_tail: "greedy ok (x # xs) ks \<Longrightarrow> greedy ok xs ks"
proof (induction ks arbitrary: x xs)
  case (Cons k ks)
  show ?case
  proof (cases xs)
    case (Cons y ys)
    with Cons.prems Cons.IH show ?thesis by (auto split: if_splits)
  qed simp
qed simp

definition matching :: "('a \<Rightarrow> 'b \<Rightarrow> bool) \<Rightarrow> 'a list \<Rightarrow> 'b list \<Rightarrow> bool" where
  "matching ok xs ks \<longleftrightarrow> (\<exists>ks'. subseq ks' ks \<and> list_all2 ok xs ks')"

lemma greedy_matching: "greedy ok xs ks \<longleftrightarrow> matching ok xs ks"
proof
  show "greedy ok xs ks \<Longrightarrow> matching ok xs ks"
  proof (induction ok xs ks rule: greedy.induct)
    case (3 ok x xs k ks)
    show ?case
    proof (cases "ok x k")
      case True
      with 3 obtain ks' where "subseq ks' ks" "list_all2 ok xs ks'" by (auto simp: matching_def)
      with True show ?thesis by (auto simp: matching_def intro!: exI [of _ "k # ks'"])
    next
      case False
      with 3 show ?thesis by (auto simp: matching_def)
    qed
  qed (auto simp: matching_def)
  have "greedy ok xs ks" if "subseq ks' ks" "list_all2 ok xs ks'" for ks'
    using that
  proof (induction arbitrary: xs rule: list_emb.induct)
    case (list_emb_Cons ks' ks k)
    then show ?case by (cases xs) (auto dest: greedy_tail)
  next
    case (list_emb_Cons2 k k' ks' ks)
    then show ?case by (cases xs) auto
  qed simp
  then show "matching ok xs ks \<Longrightarrow> greedy ok xs ks" by (auto simp: matching_def)
qed

lemma subseq_revI: "subseq xs ys \<Longrightarrow> subseq (rev xs) (rev ys)"
  by (induction rule: list_emb.induct) (auto intro: subseq_rev_drop_many list_emb_append_mono)

lemma matching_rev: "matching ok (rev xs) (rev ks) \<longleftrightarrow> matching ok xs ks"
proof -
  have "matching ok (rev xs) (rev ks)" if "matching ok xs ks" for xs ks
    using that unfolding matching_def by (metis list_all2_rev subseq_revI)
  from this [of xs ks] this [of "rev xs" "rev ks"] show ?thesis by auto
qed

subsection \<open>The operation\<close>

lemma multisig_loop_greedy:
  assumes "\<forall>sig\<in>set sigs. \<forall>key\<in>set keys. check_encodings flags checker sigversion sig key = None"
    and "\<And>k. k < length sigs \<Longrightarrow> stacktop s (isig + k) = sigs ! k"
    and "\<And>k. k < length keys \<Longrightarrow> stacktop s (ikey + k) = keys ! k"
    and "length sigs \<le> length keys"
  shows "multisig_loop flags checker sigversion s code isig ikey (int (length sigs)) (int (length keys)) =
    Inr (greedy (\<lambda>sig key. CheckSig checker sig key code sigversion) sigs keys)"
  using assms
proof (induction "\<lambda>sig key. CheckSig checker sig key code sigversion" sigs keys arbitrary: isig ikey rule: greedy.induct)
  case (1 ks)
  then show ?case by (subst multisig_loop.simps) simp
next
  case (2 x xs)
  then show ?case by simp
next
  case (3 x xs k ks)
  have x: "stacktop s isig = x" "stacktop s ikey = k" using "3.prems"(2) [of 0] "3.prems"(3) [of 0] by simp_all
  have keys: "stacktop s (ikey + 1 + j) = ks ! j" if "j < length ks" for j
    using "3.prems"(3) [of "Suc j"] that by simp
  have sigs: "stacktop s (isig + 1 + j) = xs ! j" if "j < length xs" for j
    using "3.prems"(2) [of "Suc j"] that by simp
  have enc: "check_encodings flags checker sigversion x k = None" using "3.prems"(1) by simp
  show ?case
  proof (cases "CheckSig checker x k code sigversion")
    case True
    then show ?thesis
      using enc x 3(1) [OF True, of "isig + 1" "ikey + 1"] "3.prems" keys sigs
      by (subst multisig_loop.simps) simp
  next
    case False
    show ?thesis
    proof (cases "length (x # xs) \<le> length ks")
      case True
      then show ?thesis
        using False enc x 3(2) [OF False, of isig "ikey + 1"] "3.prems" keys
        by (subst multisig_loop.simps) simp
    next
      case len: False
      then have "\<not> greedy (\<lambda>sig key. CheckSig checker sig key code sigversion) (x # xs) ks"
        by (intro greedy_short) simp
      then show ?thesis
        using False enc x len by (subst multisig_loop.simps) simp
    qed
  qed
qed

lemma cleanup_append:
  assumes "\<not> flag flags SCRIPT_VERIFY_NULLFAIL"
  shows "multisig_cleanup flags fSuccess (length t) ikey2 (s @ t) = Inr s"
proof (induction t arbitrary: ikey2 rule: rev_induct)
  case (snoc x t)
  show ?case
    using assms snoc by (simp add: popstack_append popstack_def butlast_append)
qed simp

lemma script_num_serialize: "\<bar>v\<bar> < 2 ^ 31 \<Longrightarrow> script_num flags (CScriptNum_serialize v) nDefaultMaxNumSize = Inr v"
proof -
  assume v: "\<bar>v\<bar> < 2 ^ 31"
  then have "CScriptNum (CScriptNum_serialize v) True nDefaultMaxNumSize = Some v"
    using CScriptNum_canonical [of 4 "CScriptNum_serialize v" v] by (simp add: nDefaultMaxNumSize_def)
  then show ?thesis
    by (auto simp: script_num_def CScriptNum_def split: if_splits)
qed

text \<open>The arguments on the stack, from the bottom: a dummy, the signatures, their number, the keys, their number.\<close>

definition multisig_args :: "stack \<Rightarrow> bytes \<Rightarrow> bytes list \<Rightarrow> bytes list \<Rightarrow> stack" where
  "multisig_args base dummy sigs keys =
     base @ [dummy] @ sigs @ [CScriptNum_serialize (int (length sigs))] @ keys @ [CScriptNum_serialize (int (length keys))]"

lemma multisig_args_top:
  fixes base dummy keys sigs
  defines "s \<equiv> multisig_args base dummy sigs keys"
  shows "stacktop s 1 = CScriptNum_serialize (int (length keys))"
    and "stacktop s (length keys + 2) = CScriptNum_serialize (int (length sigs))"
    and "k < length keys \<Longrightarrow> stacktop s (2 + k) = rev keys ! k"
    and "k < length sigs \<Longrightarrow> stacktop s (length keys + 3 + k) = rev sigs ! k"
    and "length s = length base + length sigs + length keys + 3"
proof -
  let ?m = "CScriptNum_serialize (int (length sigs))" and ?n = "CScriptNum_serialize (int (length keys))"
  have s1: "s = (base @ [dummy] @ sigs @ [?m] @ keys) @ [?n]"
    and s2: "s = (base @ [dummy] @ sigs) @ (?m # keys @ [?n])"
    and s3: "s = (base @ [dummy] @ sigs @ [?m]) @ (keys @ [?n])"
    and s4: "s = (base @ [dummy]) @ (sigs @ [?m] @ keys @ [?n])"
    by (simp_all add: s_def multisig_args_def)
  show "stacktop s 1 = ?n" unfolding s1 by (rule stacktop_snoc(1))
  show "stacktop s (length keys + 2) = ?m" unfolding s2 by (subst stacktop_append) simp_all
  show "stacktop s (2 + k) = rev keys ! k" if "k < length keys"
  proof -
    have "Suc (length keys) - (2 + k) = length keys - Suc k" "length keys - Suc k < length keys"
      using that by (simp, intro diff_less) auto
    then show ?thesis unfolding s3 using that by (subst stacktop_append) (simp_all add: rev_nth nth_append)
  qed
  show "stacktop s (length keys + 3 + k) = rev sigs ! k" if "k < length sigs"
  proof -
    have "length (sigs @ [?m] @ keys @ [?n]) - (length keys + 3 + k) = length sigs - Suc k"
        "length sigs - Suc k < length sigs"
      using that by (simp, intro diff_less) auto
    then show ?thesis unfolding s4 using that
      by (subst stacktop_append) (simp_all add: rev_nth nth_append)
  qed
  show "length s = length base + length sigs + length keys + 3" by (simp add: s_def multisig_args_def)
qed

lemma fold_signatures:
  assumes "\<And>k. k < length sigs \<Longrightarrow> f k = rev sigs ! k"
  shows "fold (\<lambda>k code. drop_signature v code (f k)) [0..<length sigs] c = fold (\<lambda>sig code. drop_signature v code sig) (rev sigs) c"
proof -
  have "map f [0..<length sigs] = rev sigs" using assms by (intro nth_equalityI) simp_all
  then show ?thesis using fold_map [of "\<lambda>sig code. drop_signature v code sig" f "[0..<length sigs]"]
    by (simp add: comp_def)
qed

lemma CHECKMULTISIG_matches:
  assumes "main_stack st = multisig_args base dummy sigs keys"
    and "length sigs \<le> length keys" and "length keys \<le> 20" and "nOpCount st + int (length keys) \<le> MAX_OPS_PER_SCRIPT"
    and "\<forall>sig\<in>set sigs. \<forall>key\<in>set keys. check_encodings flags checker sigversion sig key = None"
    and "\<not> flag flags SCRIPT_VERIFY_NULLFAIL" and "flag flags SCRIPT_VERIFY_NULLDUMMY \<longrightarrow> dummy = []"
  shows "op_CHECKMULTISIG flags checker sigversion OP_CHECKMULTISIG st =
    Inr (st\<lparr>nOpCount := nOpCount st + int (length keys), main_stack := base @ [bool_vch
      (matching (\<lambda>sig key. CheckSig checker sig key
        (fold (\<lambda>sig code. drop_signature sigversion code sig) (rev sigs) (pbegincodehash st)) sigversion) sigs keys)]\<rparr>)"
proof -
  note top = multisig_args_top [where base = base and dummy = dummy and sigs = sigs and keys = keys]
  define code where "code = fold (\<lambda>sig code. drop_signature sigversion code sig) (rev sigs) (pbegincodehash st)"
  have num: "script_num flags (CScriptNum_serialize (int n)) nDefaultMaxNumSize = Inr (int n)" "getint (int n) = int n"
    if "n \<le> 20" for n
    using that by (auto intro: script_num_serialize simp: getint_def)
  have code': "fold (\<lambda>k c. drop_signature sigversion c (stacktop (multisig_args base dummy sigs keys) (length keys + 3 + k)))
      [0..<length sigs] (pbegincodehash st) = code"
    unfolding code_def by (rule fold_signatures) (rule top(4))
  have loop: "multisig_loop flags checker sigversion (multisig_args base dummy sigs keys) code (length keys + 3) 2
      (int (length sigs)) (int (length keys)) =
      Inr (matching (\<lambda>sig key. CheckSig checker sig key code sigversion) sigs keys)"
    using multisig_loop_greedy [of "rev sigs" "rev keys" flags checker sigversion "multisig_args base dummy sigs keys"
        "length keys + 3" 2 code] assms(2,5) top(3,4)
    by (simp add: greedy_matching matching_rev)
  have clean: "multisig_cleanup flags b (length keys + 3 + length sigs - 1) k (multisig_args base dummy sigs keys) = Inr (base @ [dummy])" for b k
    using cleanup_append [OF assms(6), of b "sigs @ [CScriptNum_serialize (int (length sigs))] @ keys @ [CScriptNum_serialize (int (length keys))]" k "base @ [dummy]"]
    by (simp add: multisig_args_def ac_simps)
  have run: "multisig_run flags checker sigversion OP_CHECKMULTISIG (length keys) (length sigs) st' =
      Inr (st'\<lparr>main_stack := base @ [bool_vch (matching (\<lambda>sig key. CheckSig checker sig key code sigversion) sigs keys)]\<rparr>)"
    if "main_stack st' = multisig_args base dummy sigs keys" "pbegincodehash st' = pbegincodehash st" for st'
    using assms(7) unfolding multisig_run_def multisig_finish_def Let_def that top(5) code' loop sum.case clean
    by (auto simp: set_stack_def)
  have m: "length sigs \<le> 20"
    using assms(2,3) by simp
  show ?thesis
    using assms(2-4)
    unfolding op_CHECKMULTISIG_def Let_def assms(1) top(1,5) num [OF assms(3)] sum.case nat_int top(2) num [OF m]
    by (simp add: assms(1) run script_limits flip: code_def)
qed

lemma no_flags [simp]: "\<not> flag 0 f"
  by (simp add: flag_def)

lemma no_flags_encodings [simp]: "check_encodings 0 checker sigversion sig key = None"
  by (simp add: check_encodings_def CheckSignatureEncoding_def CheckPubKeyEncoding_def)

section \<open>Properties\<close>



end
