(* ===== verification/Verify_Script.thy ===== *)
theory Verify_Script
  imports Multisig
begin

text \<open>
  Spending conditions, the second half of \<^verbatim>\<open>script/interpreter.cpp\<close>: \<open>VerifyWitnessProgram\<close>, \<open>VerifyScript\<close>
  and the witness signature-operation counts. A result is \<open>Accept\<close>, \<open>Reject\<close> with the error code, or \<open>Abort\<close>
  where an assertion of the source fails.
\<close>

unbundle bit_operations_syntax

subsection \<open>Definitions\<close>

datatype 'a verdict = Accept 'a | Reject ScriptError | Abort

type_synonym CScriptWitness = "bytes list"

text \<open>The stack and script a witness program of version 0 stands for.\<close>

definition witness_v0 :: "CScriptWitness \<Rightarrow> bytes \<Rightarrow> ScriptError + (stack \<times> CScript)" where
  "witness_v0 witness program =
     (if length program = 32 then
        (if length witness = 0 then Inl SCRIPT_ERR_WITNESS_PROGRAM_WITNESS_EMPTY
         else let scriptPubKey = last witness; stack = butlast witness
              in if SHA256 scriptPubKey \<noteq> take 32 program then Inl SCRIPT_ERR_WITNESS_PROGRAM_MISMATCH
                 else Inr (stack, scriptPubKey))
      else if length program = 20 then
        (if length witness \<noteq> 2 then Inl SCRIPT_ERR_WITNESS_PROGRAM_MISMATCH
         else Inr (witness,
           push_opcode (push_opcode (push_vch (push_opcode (push_opcode [] OP_DUP) OP_HASH160) program) OP_EQUALVERIFY)
             OP_CHECKSIG))
      else Inl SCRIPT_ERR_WITNESS_PROGRAM_WRONG_LENGTH)"

definition VerifyWitnessProgram ::
  "CScriptWitness \<Rightarrow> nat \<Rightarrow> bytes \<Rightarrow> u32 \<Rightarrow> BaseSignatureChecker \<Rightarrow> ScriptError option" where
  "VerifyWitnessProgram witness witversion program flags checker =
     (if witversion = 0 then
        (case witness_v0 witness program of
           Inl e \<Rightarrow> Some e
         | Inr (stack, scriptPubKey) \<Rightarrow>
             if \<exists>item\<in>set stack. length item > MAX_SCRIPT_ELEMENT_SIZE then Some SCRIPT_ERR_PUSH_SIZE
             else case EvalScript stack scriptPubKey flags checker SIGVERSION_WITNESS_V0 of
               Inl e \<Rightarrow> Some e
             | Inr stack \<Rightarrow>
                 if length stack \<noteq> 1 then Some SCRIPT_ERR_EVAL_FALSE
                 else if \<not> CastToBool (last stack) then Some SCRIPT_ERR_EVAL_FALSE
                 else None)
      else if flag flags SCRIPT_VERIFY_DISCOURAGE_UPGRADABLE_WITNESS_PROGRAM then
        Some SCRIPT_ERR_DISCOURAGE_UPGRADABLE_WITNESS_PROGRAM
      else None)"

text \<open>
  Bare witness programs, and witness programs in a redeem script; \<open>lone\<close> is the only script signature allowed.
  The result holds \<^verbatim>\<open>hadWitness\<close> and the stack.
\<close>

definition verify_witness ::
  "CScript \<Rightarrow> CScript \<Rightarrow> ScriptError \<Rightarrow> CScript \<Rightarrow> CScriptWitness \<Rightarrow> u32 \<Rightarrow> BaseSignatureChecker \<Rightarrow> bool \<Rightarrow> stack \<Rightarrow>
   ScriptError + (bool \<times> stack)" where
  "verify_witness script lone malleated scriptSig witness flags checker hadWitness stack =
     (if flag flags SCRIPT_VERIFY_WITNESS then
        (case IsWitnessProgram script of
           None \<Rightarrow> Inr (hadWitness, stack)
         | Some (witnessversion, witnessprogram) \<Rightarrow>
             if scriptSig \<noteq> lone then Inl malleated
             else case VerifyWitnessProgram witness witnessversion witnessprogram flags checker of
               Some e \<Rightarrow> Inl e
             | None \<Rightarrow> Inr (True, take 1 stack))
      else Inr (hadWitness, stack))"

definition verify_p2sh ::
  "CScript \<Rightarrow> CScript \<Rightarrow> CScriptWitness \<Rightarrow> u32 \<Rightarrow> BaseSignatureChecker \<Rightarrow> bool \<Rightarrow> stack \<Rightarrow> stack \<Rightarrow> (bool \<times> stack) verdict" where
  "verify_p2sh scriptSig scriptPubKey witness flags checker hadWitness stack stackCopy =
     (if flag flags SCRIPT_VERIFY_P2SH \<and> IsPayToScriptHash scriptPubKey then
        (if \<not> IsPushOnly scriptSig then Reject SCRIPT_ERR_SIG_PUSHONLY
         else let stack = stackCopy
              in if stack = [] then Abort
                 else let pubKey2 = last stack; stack = popstack stack
                      in case EvalScript stack pubKey2 flags checker SIGVERSION_BASE of
                           Inl e \<Rightarrow> Reject e
                         | Inr stack \<Rightarrow>
                             if stack = [] then Reject SCRIPT_ERR_EVAL_FALSE
                             else if \<not> CastToBool (last stack) then Reject SCRIPT_ERR_EVAL_FALSE
                             else case verify_witness pubKey2 (push_vch [] pubKey2) SCRIPT_ERR_WITNESS_MALLEATED_P2SH
                                         scriptSig witness flags checker hadWitness stack of
                               Inl e \<Rightarrow> Reject e
                             | Inr r \<Rightarrow> Accept r)
      else Accept (hadWitness, stack))"

definition verify_clean :: "CScriptWitness \<Rightarrow> u32 \<Rightarrow> bool \<Rightarrow> stack \<Rightarrow> unit verdict" where
  "verify_clean witness flags hadWitness stack =
     (if flag flags SCRIPT_VERIFY_CLEANSTACK \<and> \<not> (flag flags SCRIPT_VERIFY_P2SH \<and> flag flags SCRIPT_VERIFY_WITNESS) then
        Abort
      else if flag flags SCRIPT_VERIFY_CLEANSTACK \<and> length stack \<noteq> 1 then Reject SCRIPT_ERR_CLEANSTACK
      else if flag flags SCRIPT_VERIFY_WITNESS \<and> \<not> flag flags SCRIPT_VERIFY_P2SH then Abort
      else if flag flags SCRIPT_VERIFY_WITNESS \<and> \<not> hadWitness \<and> witness \<noteq> [] then
        Reject SCRIPT_ERR_WITNESS_UNEXPECTED
      else Accept ())"

definition VerifyScript ::
  "CScript \<Rightarrow> CScript \<Rightarrow> CScriptWitness option \<Rightarrow> u32 \<Rightarrow> BaseSignatureChecker \<Rightarrow> unit verdict" where
  "VerifyScript scriptSig scriptPubKey witness flags checker =
     (let witness = (case witness of None \<Rightarrow> [] | Some w \<Rightarrow> w)
      in if flag flags SCRIPT_VERIFY_SIGPUSHONLY \<and> \<not> IsPushOnly scriptSig then Reject SCRIPT_ERR_SIG_PUSHONLY
         else case EvalScript [] scriptSig flags checker SIGVERSION_BASE of
           Inl e \<Rightarrow> Reject e
         | Inr stackCopy \<Rightarrow>
             (case EvalScript stackCopy scriptPubKey flags checker SIGVERSION_BASE of
                Inl e \<Rightarrow> Reject e
              | Inr stack \<Rightarrow>
                  if stack = [] then Reject SCRIPT_ERR_EVAL_FALSE
                  else if \<not> CastToBool (last stack) then Reject SCRIPT_ERR_EVAL_FALSE
                  else case verify_witness scriptPubKey [] SCRIPT_ERR_WITNESS_MALLEATED scriptSig witness flags checker
                              False stack of
                    Inl e \<Rightarrow> Reject e
                  | Inr (hadWitness, stack) \<Rightarrow>
                      (case verify_p2sh scriptSig scriptPubKey witness flags checker hadWitness stack stackCopy of
                         Reject e \<Rightarrow> Reject e
                       | Abort \<Rightarrow> Abort
                       | Accept (hadWitness, stack) \<Rightarrow> verify_clean witness flags hadWitness stack)))"

definition WitnessSigOps :: "nat \<Rightarrow> bytes \<Rightarrow> CScriptWitness \<Rightarrow> nat" where
  "WitnessSigOps witversion witprogram witness =
     (if witversion = 0 then
        (if length witprogram = 20 then 1
         else if length witprogram = 32 \<and> length witness > 0 then GetSigOpCount (last witness) True
         else 0)
      else 0)"

text \<open>The last data item of a script signature, for which \<open>GetOp\<close> is not checked.\<close>

function last_data :: "bytes \<Rightarrow> bytes \<Rightarrow> bytes" where
  "last_data pc dat = (if pc = [] then dat else case GetOp2 pc of (_, pc', _, vch) \<Rightarrow> last_data pc' vch)"
  by pat_completeness auto
termination by (relation "measure (\<lambda>(pc, dat). length pc)") (auto dest: GetOp2_shorterI)

declare last_data.simps [simp del]

definition CountWitnessSigOps :: "CScript \<Rightarrow> CScript \<Rightarrow> CScriptWitness option \<Rightarrow> u32 \<Rightarrow> nat verdict" where
  "CountWitnessSigOps scriptSig scriptPubKey witness flags =
     (let witness = (case witness of None \<Rightarrow> [] | Some w \<Rightarrow> w)
      in if \<not> flag flags SCRIPT_VERIFY_WITNESS then Accept 0
         else if \<not> flag flags SCRIPT_VERIFY_P2SH then Abort
         else case IsWitnessProgram scriptPubKey of
           Some (witnessversion, witnessprogram) \<Rightarrow> Accept (WitnessSigOps witnessversion witnessprogram witness)
         | None \<Rightarrow>
             if IsPayToScriptHash scriptPubKey \<and> IsPushOnly scriptSig then
               (case IsWitnessProgram (last_data scriptSig []) of
                  Some (witnessversion, witnessprogram) \<Rightarrow> Accept (WitnessSigOps witnessversion witnessprogram witness)
                | None \<Rightarrow> Accept 0)
             else Accept 0)"

subsection \<open>Running scripts\<close>

lemma eval_loop_Nil [simp]: "eval_loop flags checker sigversion [] st = Inr st"
  by (simp add: eval_loop.simps)

text \<open>An opcode that is executed, and data that is pushed, outside conditionals.\<close>

lemma eval_loop_exec:
  assumes "pc \<noteq> []" and "GetOp2 pc = (True, pc', opcode, vch)" and "vfExec st = []" and "length vch \<le> MAX_SCRIPT_ELEMENT_SIZE"
    and "opcode > OP_16" and "nOpCount st < MAX_OPS_PER_SCRIPT" and "\<not> disabled_opcode opcode"
  shows "eval_loop flags checker sigversion pc st =
    (case exec_opcode flags checker sigversion opcode True pc' (st\<lparr>nOpCount := nOpCount st + 1\<rparr>) of
       Inl e \<Rightarrow> Inl e
     | Inr st' \<Rightarrow> if length (main_stack st') + length (altstack st') > 1000 then Inl SCRIPT_ERR_STACK_SIZE
                 else eval_loop flags checker sigversion pc' st')"
proof -
  have "\<not> opcode \<le> OP_PUSHDATA4" using assms(5) by (simp add: word_less_nat_alt word_le_nat_alt)
  then show ?thesis
    using assms by (subst eval_loop.simps) (simp add: eval_step_def split: sum.splits)
qed

lemma eval_loop_push:
  assumes "pc \<noteq> []" and "GetOp2 pc = (True, pc', opcode, vch)" and "vfExec st = []" and "length vch \<le> MAX_SCRIPT_ELEMENT_SIZE"
    and "opcode \<le> OP_PUSHDATA4" and "CheckMinimalPush vch opcode"
  shows "eval_loop flags checker sigversion pc st =
    (if length (main_stack st) + 1 + length (altstack st) > 1000 then Inl SCRIPT_ERR_STACK_SIZE
     else eval_loop flags checker sigversion pc' (st\<lparr>main_stack := main_stack st @ [vch]\<rparr>))"
proof -
  have "\<not> opcode > OP_16" "\<not> disabled_opcode opcode"
    using assms(5) by (auto simp: word_less_nat_alt word_le_nat_alt disabled_opcode_def)
  then show ?thesis
    using assms by (subst eval_loop.simps) (simp add: eval_step_def op_push_data_def set_stack_def)
qed

lemma push_minimal: "2 \<le> length b \<Longrightarrow> CheckMinimalPush b (push_code b)"
  using unat_push_code [of b] by (auto simp: CheckMinimalPush_def push_code_def)

lemma eval_loop_push_vch:
  assumes "2 \<le> length b" and "length b \<le> MAX_SCRIPT_ELEMENT_SIZE" and "vfExec st = []"
    and "length (main_stack st) + length (altstack st) < 1000"
  shows "eval_loop flags checker sigversion (push_vch [] b @ rest) st =
    eval_loop flags checker sigversion rest (st\<lparr>main_stack := main_stack st @ [b]\<rparr>)"
proof -
  have "length b < 2 ^ 32" using assms(2) by (simp add: script_limits)
  then show ?thesis
    using assms by (subst eval_loop_push [OF _ GetOp2_push]) (simp_all add: push_vch_neq push_code_le push_minimal)
qed

lemma hash_minimal: "length h = 20 \<Longrightarrow> CheckMinimalPush h 0x14"
  by (simp add: CheckMinimalPush_def)

subsection \<open>Unspendable scripts\<close>

lemma EvalScript_unspendable:
  assumes "IsUnspendable script"
  shows "\<exists>e. EvalScript stack script flags checker sigversion = Inl e"
proof (cases "length script > MAX_SCRIPT_SIZE")
  case False
  then obtain rest where r: "script = OP_RETURN # rest"
    using assms by (cases script) (auto simp: IsUnspendable_def)
  have "eval_loop flags checker sigversion script \<lparr>main_stack = stack, altstack = [], vfExec = [], nOpCount = 0,
      pbegincodehash = script\<rparr> = Inl SCRIPT_ERR_OP_RETURN"
    unfolding r by (subst eval_loop_exec [of _ rest OP_RETURN "[]"])
      (simp_all add: sigma_rest_def script_limits disabled_opcode_def exec_opcode_def exec_control_def)
  then show ?thesis by (simp add: EvalScript_def)
qed (simp add: EvalScript_def)

subsection \<open>Pay to script hash\<close>

definition p2sh :: "bytes \<Rightarrow> CScript" where
  "p2sh h = [OP_HASH160, 0x14] @ h @ [OP_EQUAL]"

lemma exec_hash160: "exec_opcode flags checker sigversion OP_HASH160 fExec pc st = op_HASH OP_HASH160 st"
  by (simp add: exec_opcode_def exec_control_def exec_stack_def exec_num_def exec_crypto_def)

lemma exec_equal: "exec_opcode flags checker sigversion OP_EQUAL fExec pc st = op_EQUAL OP_EQUAL st"
  by (simp add: exec_opcode_def exec_control_def exec_stack_def exec_num_def)

lemma eval_loop_HASH160:
  assumes "vfExec st = []" and "nOpCount st < MAX_OPS_PER_SCRIPT" and "main_stack st = s @ [x]"
    and "length s + 1 + length (altstack st) \<le> 1000"
  shows "eval_loop flags checker sigversion (OP_HASH160 # rest) st =
    eval_loop flags checker sigversion rest (st\<lparr>nOpCount := nOpCount st + 1, main_stack := s @ [Hash160 x]\<rparr>)"
  using assms by (subst eval_loop_exec [of _ rest OP_HASH160 "[]"])
    (simp_all add: sigma_rest_def disabled_opcode_def exec_hash160 op_HASH_def hash_opcode_def set_stack_def Let_def)

lemma eval_loop_hash:
  assumes "length h = 20" and "vfExec st = []"
  shows "eval_loop flags checker sigversion (0x14 # h @ rest) st =
    (if length (main_stack st) + 1 + length (altstack st) > 1000 then Inl SCRIPT_ERR_STACK_SIZE
     else eval_loop flags checker sigversion rest (st\<lparr>main_stack := main_stack st @ [h]\<rparr>))"
  using assms
  by (subst eval_loop_push [OF _ GetOp2_hash [OF assms(1)]]) (simp_all add: script_limits hash_minimal)

lemma EvalScript_p2sh:
  assumes "length h = 20"
  shows "EvalScript [] (p2sh h) flags checker sigversion = Inl SCRIPT_ERR_INVALID_STACK_OPERATION"
    and "length s < 999 \<Longrightarrow> EvalScript (s @ [x]) (p2sh h) flags checker sigversion = Inr (s @ [bool_vch (Hash160 x = h)])"
    and "length s = 999 \<Longrightarrow> EvalScript (s @ [x]) (p2sh h) flags checker sigversion = Inl SCRIPT_ERR_STACK_SIZE"
proof -
  have len: "length (p2sh h) = 23" using assms by (simp add: p2sh_def)
  note start = EvalScript_def len script_limits
  show "EvalScript [] (p2sh h) flags checker sigversion = Inl SCRIPT_ERR_INVALID_STACK_OPERATION"
    unfolding start p2sh_def append.simps
    by (subst eval_loop_exec [of _ "0x14 # h @ [OP_EQUAL]" OP_HASH160 "[]"])
      (simp_all add: assms sigma_rest_def script_limits disabled_opcode_def exec_hash160 op_HASH_def)
  have eq: "eval_loop flags checker sigversion [OP_EQUAL] st = Inr (st\<lparr>nOpCount := nOpCount st + 1,
      main_stack := s @ [bool_vch (y = z)]\<rparr>)"
    if "vfExec st = []" "nOpCount st < MAX_OPS_PER_SCRIPT" "main_stack st = s @ [y, z]" "length s + 1 + length (altstack st) \<le> 1000"
    for st y z
  proof -
    have "op_EQUAL OP_EQUAL (st\<lparr>nOpCount := nOpCount st + 1\<rparr>) = Inr (st\<lparr>nOpCount := nOpCount st + 1,
        main_stack := s @ [bool_vch (y = z)]\<rparr>)"
      using that(3) by (simp add: op_EQUAL_def set_stack_def Let_def stacktop_append popstack_def butlast_append)
    then show ?thesis
      using that by (subst eval_loop_exec [of _ "[]" OP_EQUAL "[]"])
        (simp_all add: sigma_rest_def disabled_opcode_def exec_equal)
  qed
  have run: "eval_loop flags checker sigversion (p2sh h) \<lparr>main_stack = s @ [x], altstack = [], vfExec = [], nOpCount = 0,
        pbegincodehash = p2sh h\<rparr> =
      (if length s + 2 > 1000 then Inl SCRIPT_ERR_STACK_SIZE
       else eval_loop flags checker sigversion [OP_EQUAL] \<lparr>main_stack = s @ [Hash160 x, h], altstack = [], vfExec = [],
         nOpCount = 1, pbegincodehash = p2sh h\<rparr>)" if "length s \<le> 999"
    unfolding p2sh_def append.simps using that assms
    by (subst eval_loop_HASH160) (auto simp: script_limits eval_loop_hash)
  show "length s < 999 \<Longrightarrow> EvalScript (s @ [x]) (p2sh h) flags checker sigversion = Inr (s @ [bool_vch (Hash160 x = h)])"
    unfolding start by (simp add: run eq script_limits)
  show "length s = 999 \<Longrightarrow> EvalScript (s @ [x]) (p2sh h) flags checker sigversion = Inl SCRIPT_ERR_STACK_SIZE"
    unfolding start by (simp add: run)
qed

subsection \<open>Pay to public key hash\<close>

definition p2pkh :: "bytes \<Rightarrow> CScript" where
  "p2pkh h = [OP_DUP, OP_HASH160, 0x14] @ h @ [OP_EQUALVERIFY, OP_CHECKSIG]"

lemma exec_dup: "exec_opcode flags checker sigversion OP_DUP fExec pc st = op_DUP st"
  by (simp add: exec_opcode_def exec_control_def exec_stack_def)

lemma exec_equalverify: "exec_opcode flags checker sigversion OP_EQUALVERIFY fExec pc st = op_EQUAL OP_EQUALVERIFY st"
  by (simp add: exec_opcode_def exec_control_def exec_stack_def exec_num_def)

lemma exec_checksig:
  "exec_opcode flags checker sigversion OP_CHECKSIG fExec pc st = op_CHECKSIG flags checker sigversion OP_CHECKSIG st"
  by (simp add: exec_opcode_def exec_control_def exec_stack_def exec_num_def exec_crypto_def)

lemma eval_loop_DUP:
  assumes "vfExec st = []" and "nOpCount st < MAX_OPS_PER_SCRIPT" and "main_stack st = s @ [x]"
    and "length s + 2 + length (altstack st) \<le> 1000"
  shows "eval_loop flags checker sigversion (OP_DUP # rest) st =
    eval_loop flags checker sigversion rest (st\<lparr>nOpCount := nOpCount st + 1, main_stack := s @ [x, x]\<rparr>)"
  using assms by (subst eval_loop_exec [of _ rest OP_DUP "[]"])
    (simp_all add: sigma_rest_def disabled_opcode_def exec_dup op_DUP_def set_stack_def Let_def)

lemma eval_loop_EQUALVERIFY:
  assumes "vfExec st = []" and "nOpCount st < MAX_OPS_PER_SCRIPT" and "main_stack st = s @ [y, z]"
    and "length s + length (altstack st) \<le> 1000"
  shows "eval_loop flags checker sigversion (OP_EQUALVERIFY # rest) st =
    (if y = z then eval_loop flags checker sigversion rest (st\<lparr>nOpCount := nOpCount st + 1, main_stack := s\<rparr>)
     else Inl SCRIPT_ERR_EQUALVERIFY)"
proof -
  have "op_EQUAL OP_EQUALVERIFY (st\<lparr>nOpCount := nOpCount st + 1\<rparr>) =
      (if y = z then Inr (st\<lparr>nOpCount := nOpCount st + 1, main_stack := s\<rparr>) else Inl SCRIPT_ERR_EQUALVERIFY)"
    using assms(3) by (simp add: op_EQUAL_def set_stack_def Let_def stacktop_append popstack_def butlast_append)
  then show ?thesis
    using assms by (subst eval_loop_exec [of _ rest OP_EQUALVERIFY "[]"])
      (simp_all add: sigma_rest_def disabled_opcode_def exec_equalverify)
qed

text \<open>The outcome of a signature check.\<close>

definition checksig_result :: "u32 \<Rightarrow> BaseSignatureChecker \<Rightarrow> SigVersion \<Rightarrow> CScript \<Rightarrow> bytes \<Rightarrow> bytes \<Rightarrow> ScriptError + bool" where
  "checksig_result flags checker sigversion code sig key =
     (case check_encodings flags checker sigversion sig key of
        Some e \<Rightarrow> Inl e
      | None \<Rightarrow>
          let ok = CheckSig checker sig key (drop_signature sigversion code sig) sigversion
          in if \<not> ok \<and> flag flags SCRIPT_VERIFY_NULLFAIL \<and> sig \<noteq> [] then Inl SCRIPT_ERR_SIG_NULLFAIL else Inr ok)"

lemma eval_loop_CHECKSIG:
  assumes "vfExec st = []" and "nOpCount st < MAX_OPS_PER_SCRIPT" and "main_stack st = s @ [sig, key]"
    and "length s + 1 + length (altstack st) \<le> 1000"
  shows "eval_loop flags checker sigversion (OP_CHECKSIG # rest) st =
    (case checksig_result flags checker sigversion (pbegincodehash st) sig key of
       Inl e \<Rightarrow> Inl e
     | Inr b \<Rightarrow> eval_loop flags checker sigversion rest (st\<lparr>nOpCount := nOpCount st + 1, main_stack := s @ [bool_vch b]\<rparr>))"
proof -
  have "op_CHECKSIG flags checker sigversion OP_CHECKSIG (st\<lparr>nOpCount := nOpCount st + 1\<rparr>) =
      (case checksig_result flags checker sigversion (pbegincodehash st) sig key of
         Inl e \<Rightarrow> Inl e
       | Inr b \<Rightarrow> Inr (st\<lparr>nOpCount := nOpCount st + 1, main_stack := s @ [bool_vch b]\<rparr>))"
    using assms(3)
    by (simp add: op_CHECKSIG_def checksig_result_def set_stack_def Let_def stacktop_append popstack_def butlast_append
      split: option.splits)
  then show ?thesis
    using assms by (subst eval_loop_exec [of _ rest OP_CHECKSIG "[]"])
      (simp_all add: sigma_rest_def disabled_opcode_def exec_checksig split: sum.splits)
qed

lemma EvalScript_p2pkh:
  assumes "length h = 20"
  shows "EvalScript [sig, key] (p2pkh h) flags checker sigversion =
    (if Hash160 key \<noteq> h then Inl SCRIPT_ERR_EQUALVERIFY
     else case checksig_result flags checker sigversion (p2pkh h) sig key of
       Inl e \<Rightarrow> Inl e
     | Inr b \<Rightarrow> Inr [bool_vch b])"
proof -
  have len: "length (p2pkh h) = 25" using assms by (simp add: p2pkh_def)
  let ?st = "\<lambda>s n. \<lparr>main_stack = s, altstack = [], vfExec = [], nOpCount = n, pbegincodehash = p2pkh h\<rparr>"
  have "eval_loop flags checker sigversion (p2pkh h) (?st [sig, key] 0) =
      eval_loop flags checker sigversion (OP_HASH160 # 0x14 # h @ [OP_EQUALVERIFY, OP_CHECKSIG]) (?st [sig, key, key] 1)"
    unfolding p2pkh_def append.simps by (subst eval_loop_DUP [of _ "[sig]" key]) (simp_all add: script_limits)
  also have "\<dots> = eval_loop flags checker sigversion (0x14 # h @ [OP_EQUALVERIFY, OP_CHECKSIG]) (?st [sig, key, Hash160 key] 2)"
    by (subst eval_loop_HASH160 [of _ "[sig, key]" key]) (simp_all add: script_limits)
  also have "\<dots> = eval_loop flags checker sigversion [OP_EQUALVERIFY, OP_CHECKSIG] (?st [sig, key, Hash160 key, h] 2)"
    using assms by (subst eval_loop_hash) (simp_all add: script_limits)
  also have "\<dots> = (if Hash160 key = h then eval_loop flags checker sigversion [OP_CHECKSIG] (?st [sig, key] 3)
      else Inl SCRIPT_ERR_EQUALVERIFY)"
    by (subst eval_loop_EQUALVERIFY [of _ "[sig, key]" "Hash160 key" h]) (simp_all add: script_limits)
  also have "eval_loop flags checker sigversion [OP_CHECKSIG] (?st [sig, key] 3) =
      (case checksig_result flags checker sigversion (p2pkh h) sig key of
         Inl e \<Rightarrow> Inl e | Inr b \<Rightarrow> Inr (?st [bool_vch b] 4))"
    by (subst eval_loop_CHECKSIG [of _ "[]" sig key]) (simp_all add: script_limits split: sum.splits)
  finally show ?thesis
    unfolding EvalScript_def len by (auto simp: script_limits split: sum.splits)
qed

text \<open>A script signature that pushes two items.\<close>

lemma length_Hash160 [simp]: "length (Hash160 x) = 20"
  by (simp add: Hash160_eq)

lemma pushdata_le: "opcode \<le> OP_PUSHDATA4 \<Longrightarrow> opcode \<le> OP_16" for opcode :: u8
  by (simp add: word_le_nat_alt)

lemma EvalScript_two_pushes:
  assumes "2 \<le> length a" and "length a \<le> MAX_SCRIPT_ELEMENT_SIZE" and "2 \<le> length b" and "length b \<le> MAX_SCRIPT_ELEMENT_SIZE"
  shows "EvalScript [] (push_vch (push_vch [] a) b) flags checker sigversion = Inr [a, b]"
    and "IsPushOnly (push_vch (push_vch [] a) b)"
proof -
  have sp: "push_vch (push_vch [] a) b = push_vch [] a @ push_vch [] b @ []"
    using push_vch_append [of "push_vch [] a" b] by simp
  have short: "length (push_vch [] x) \<le> length x + 5" for x
    by (simp add: push_vch_def)
  have "length (push_vch (push_vch [] a) b) \<le> MAX_SCRIPT_SIZE"
    using assms short [of a] short [of b] unfolding sp by (simp add: script_limits)
  moreover have "eval_loop flags checker sigversion (push_vch (push_vch [] a) b)
      \<lparr>main_stack = [], altstack = [], vfExec = [], nOpCount = 0, pbegincodehash = c\<rparr> =
      Inr \<lparr>main_stack = [a, b], altstack = [], vfExec = [], nOpCount = 0, pbegincodehash = c\<rparr>" for c
    unfolding sp using assms by (simp add: eval_loop_push_vch del: append_Nil2)
  ultimately show "EvalScript [] (push_vch (push_vch [] a) b) flags checker sigversion = Inr [a, b]"
    by (simp add: EvalScript_def)
  show "IsPushOnly (push_vch (push_vch [] a) b)"
    using script_ops_pushes [of "[a, b]"] assms by (auto simp: IsPushOnly_ops script_limits intro: pushdata_le)
qed

subsection \<open>Verification\<close>

definition flags_consistent :: "u32 \<Rightarrow> bool" where
  "flags_consistent flags \<longleftrightarrow>
     (flag flags SCRIPT_VERIFY_CLEANSTACK \<longrightarrow> flag flags SCRIPT_VERIFY_P2SH \<and> flag flags SCRIPT_VERIFY_WITNESS) \<and>
     (flag flags SCRIPT_VERIFY_WITNESS \<longrightarrow> flag flags SCRIPT_VERIFY_P2SH)"

lemma CastToBool_bool_vch [simp]: "CastToBool (bool_vch b) = b"
  by (simp add: bool_vch_def vchTrue_def vchFalse_def)

lemma p2pkh_forms:
  "length h = 20 \<Longrightarrow> IsWitnessProgram (p2pkh h) = None" "\<not> IsPayToScriptHash (p2pkh h)"
  by (simp_all add: p2pkh_def IsWitnessProgram_def IsPayToScriptHash_def)

text \<open>What acceptance implies: both scripts evaluate, the second to true.\<close>

lemma VerifyScript_accept:
  assumes "VerifyScript scriptSig scriptPubKey witness flags checker = Accept ()"
  obtains stackCopy stack hadWitness stack1 hadWitness2 stack2 where
    "EvalScript [] scriptSig flags checker SIGVERSION_BASE = Inr stackCopy"
    "EvalScript stackCopy scriptPubKey flags checker SIGVERSION_BASE = Inr stack"
    "stack \<noteq> []" "CastToBool (last stack)"
    "verify_p2sh scriptSig scriptPubKey (case witness of None \<Rightarrow> [] | Some w \<Rightarrow> w) flags checker hadWitness stack1 stackCopy =
      Accept (hadWitness2, stack2)"
  using assms by (auto simp: VerifyScript_def Let_def split: if_splits sum.splits verdict.splits prod.splits)

lemma IsPayToScriptHash_p2sh: "IsPayToScriptHash s \<longleftrightarrow> (\<exists>h. length h = 20 \<and> s = p2sh h)"
  by (simp add: IsPayToScriptHash_iff p2sh_def)

lemma EvalScript_bounds:
  assumes "EvalScript [] script flags checker sigversion = Inr stack'"
  shows "length stack' \<le> 1000"
proof -
  obtain st where st: "eval_loop flags checker sigversion script
      \<lparr>main_stack = [], altstack = [], vfExec = [], nOpCount = 0, pbegincodehash = script\<rparr> = Inr st" "main_stack st = stack'"
    using eval_script_loop [OF assms] by metis
  have "interp_ok \<lparr>main_stack = [], altstack = [], vfExec = [], nOpCount = 0, pbegincodehash = script\<rparr>"
    by (simp add: interp_ok_def items_def small_def)
  with eval_loop_ok [OF st(1)] st(2) show ?thesis
    by (auto simp: interp_ok_def)
qed

text \<open>A checker that accepts every signature, and a redeem script for it.\<close>

definition all_checker :: BaseSignatureChecker where
  "all_checker = \<lparr>CheckSig = \<lambda>_ _ _ _. True, CheckLockTime = \<lambda>_. True, CheckSequence = \<lambda>_. True, CheckLowS = \<lambda>_. True\<rparr>"

lemma eval_redeem: "EvalScript [] [OP_NOP, OP_1] SCRIPT_VERIFY_P2SH all_checker SIGVERSION_BASE = Inr [[1]]"
  by (simp add: EvalScript_def eval_loop.simps eval_step_def sigma_rest_def script_limits disabled_opcode_def
    exec_opcode_def exec_control_def op_push_value_def set_stack_def CScriptNum_serialize_def abs_bytes.simps Let_def)

lemma verify_redeem:
  "VerifyScript (push_vch [] [OP_NOP, OP_1]) (p2sh (Hash160 [OP_NOP, OP_1])) None SCRIPT_VERIFY_P2SH all_checker = Accept ()"
proof -
  have sig: "EvalScript [] (push_vch [] [OP_NOP, OP_1]) SCRIPT_VERIFY_P2SH all_checker SIGVERSION_BASE = Inr [[OP_NOP, OP_1]]"
    using eval_loop_push_vch [of "[OP_NOP, OP_1]" _ _ _ _ "[]"] by (simp add: EvalScript_def script_limits push_vch_def)
  have "IsPushOnly (push_vch [] [OP_NOP, OP_1])"
    using script_ops_pushes [of "[[OP_NOP, OP_1]]"] by (auto simp: IsPushOnly_ops script_limits intro: pushdata_le)
  moreover have "IsPayToScriptHash (p2sh (Hash160 [OP_NOP, OP_1]))"
    unfolding IsPayToScriptHash_p2sh by (rule exI [of _ "Hash160 [OP_NOP, OP_1]"]) simp
  ultimately show ?thesis
    using sig eval_redeem EvalScript_p2sh(2) [of "Hash160 [OP_NOP, OP_1]" "[]" "[OP_NOP, OP_1]" SCRIPT_VERIFY_P2SH all_checker SIGVERSION_BASE]
    by (simp add: VerifyScript_def verify_witness_def verify_p2sh_def verify_clean_def Let_def popstack_def
      SCRIPT_VERIFY_P2SH_def SCRIPT_VERIFY_WITNESS_def SCRIPT_VERIFY_CLEANSTACK_def SCRIPT_VERIFY_SIGPUSHONLY_def flag_def)
qed

section \<open>Properties\<close>

text \<open>
  C7. Pay to public key hash: the script signature that pushes a signature and a key spends the output exactly
  if the key hashes to the committed value and the signature check of that key succeeds, under every
  consistent set of verification flags.
\<close>

theorem p2pkh_spend:
  assumes "length h = 20" and "2 \<le> length sig" and "length sig \<le> MAX_SCRIPT_ELEMENT_SIZE"
    and "2 \<le> length key" and "length key \<le> MAX_SCRIPT_ELEMENT_SIZE" and "flags_consistent flags"
  shows "VerifyScript (push_vch (push_vch [] sig) key) (p2pkh h) None flags checker = Accept () \<longleftrightarrow>
    Hash160 key = h \<and> checksig_result flags checker SIGVERSION_BASE (p2pkh h) sig key = Inr True"
  using assms(6) EvalScript_two_pushes(1) [OF assms(2-5), of flags checker SIGVERSION_BASE]
    EvalScript_two_pushes(2) [OF assms(2-5)] p2pkh_forms [of h] assms(1)
    EvalScript_p2pkh [OF assms(1), of sig key flags checker SIGVERSION_BASE]
  by (auto simp: VerifyScript_def verify_witness_def verify_p2sh_def verify_clean_def flags_consistent_def Let_def
    split: sum.splits if_splits)

theorem p2pkh_spend_witness:
  "VerifyScript (push_vch (push_vch [] [1, 2]) [3, 4]) (p2pkh (Hash160 [3, 4])) None 0 all_checker = Accept ()"
  using p2pkh_spend [of "Hash160 [3, 4]" "[1, 2]" "[3, 4]" 0 all_checker]
  by (simp add: script_limits flags_consistent_def checksig_result_def all_checker_def flag_def
    check_encodings_def CheckSignatureEncoding_def CheckPubKeyEncoding_def)

text \<open>
  C12. Pay to script hash: when verification with \<^verbatim>\<open>SCRIPT_VERIFY_P2SH\<close> accepts such an output, the script
  signature only pushes, its last item is a script with the committed hash, and that script has been
  evaluated to true on the other items.
\<close>

theorem p2sh_sound:
  assumes "VerifyScript scriptSig scriptPubKey witness flags checker = Accept ()"
    and "IsPayToScriptHash scriptPubKey" and "flag flags SCRIPT_VERIFY_P2SH"
  shows "IsPushOnly scriptSig \<and> (\<exists>stack redeem stack'.
    EvalScript [] scriptSig flags checker SIGVERSION_BASE = Inr (stack @ [redeem]) \<and>
    scriptPubKey = [OP_HASH160, 0x14] @ Hash160 redeem @ [OP_EQUAL] \<and>
    EvalScript stack redeem flags checker SIGVERSION_BASE = Inr stack' \<and> stack' \<noteq> [] \<and> CastToBool (last stack'))"
proof -
  obtain stackCopy stack hadWitness stack1 r where e: "EvalScript [] scriptSig flags checker SIGVERSION_BASE = Inr stackCopy"
      "EvalScript stackCopy scriptPubKey flags checker SIGVERSION_BASE = Inr stack" "stack \<noteq> []" "CastToBool (last stack)"
      "verify_p2sh scriptSig scriptPubKey (case witness of None \<Rightarrow> [] | Some w \<Rightarrow> w) flags checker hadWitness stack1 stackCopy =
        Accept r"
    using VerifyScript_accept [OF assms(1)] by metis
  obtain h where h: "length h = 20" "scriptPubKey = p2sh h"
    using assms(2) by (auto simp: IsPayToScriptHash_p2sh)
  obtain s x where sx: "stackCopy = s @ [x]"
    using e(2) h EvalScript_p2sh(1) [OF h(1)] by (cases stackCopy rule: rev_cases) auto
  have len: "length s + 1 \<le> 1000"
    using EvalScript_bounds [OF e(1)] by (simp add: sx)
  have "Hash160 x = h"
    using e(2,4) EvalScript_p2sh(2,3) [OF h(1), of s x flags checker SIGVERSION_BASE] len h(2)
    by (cases "length s < 999") (auto simp: sx)
  moreover have "IsPushOnly scriptSig \<and> (\<exists>stack'. EvalScript s x flags checker SIGVERSION_BASE = Inr stack' \<and>
      stack' \<noteq> [] \<and> CastToBool (last stack'))"
    using e(5) assms(2,3) by (auto simp: verify_p2sh_def sx Let_def split: if_splits sum.splits)
  ultimately show ?thesis
    using e(1) h(2) by (auto simp: sx p2sh_def)
qed

theorem p2sh_sound_witness:
  "\<exists>stack redeem. EvalScript [] (push_vch [] [OP_NOP, OP_1]) SCRIPT_VERIFY_P2SH all_checker SIGVERSION_BASE =
      Inr (stack @ [redeem]) \<and> p2sh (Hash160 [OP_NOP, OP_1]) = [OP_HASH160, 0x14] @ Hash160 redeem @ [OP_EQUAL]"
proof -
  have "IsPayToScriptHash (p2sh (Hash160 [OP_NOP, OP_1]))"
    unfolding IsPayToScriptHash_p2sh by (rule exI [of _ "Hash160 [OP_NOP, OP_1]"]) simp
  from p2sh_sound [OF verify_redeem this] show ?thesis
    by (auto simp: flag_def SCRIPT_VERIFY_P2SH_def)
qed

text \<open>
  C22. Outputs that \<^verbatim>\<open>IsUnspendable\<close> reports, which the coin database prunes, are never accepted: no script
  signature, witness, flags or checker makes \<^verbatim>\<open>VerifyScript\<close> succeed on them.
\<close>

theorem unspendable_never_spent:
  assumes "IsUnspendable scriptPubKey"
  shows "VerifyScript scriptSig scriptPubKey witness flags checker \<noteq> Accept ()"
  using EvalScript_unspendable [OF assms] by (metis VerifyScript_accept Inl_Inr_False)

theorem unspendable_never_spent_witness:
  "VerifyScript [OP_1] [OP_RETURN, OP_1] None 0 all_checker \<noteq> Accept ()"
  by (rule unspendable_never_spent) (simp add: IsUnspendable_def)

text \<open>
  C23. The assertions of \<^verbatim>\<open>VerifyScript\<close> hold: under consistent flags verification accepts or rejects, on every
  input, and never aborts the process.
\<close>

theorem VerifyScript_no_abort:
  assumes "flags_consistent flags"
  shows "VerifyScript scriptSig scriptPubKey witness flags checker \<noteq> Abort"
proof
  assume abort: "VerifyScript scriptSig scriptPubKey witness flags checker = Abort"
  have clean: "verify_clean w flags b s \<noteq> Abort" for w b s
    using assms by (auto simp: verify_clean_def flags_consistent_def)
  obtain stack where "EvalScript [] scriptPubKey flags checker SIGVERSION_BASE = Inr stack" "IsPayToScriptHash scriptPubKey"
    using abort clean by (fastforce simp: VerifyScript_def verify_p2sh_def Let_def
      split: if_splits sum.splits verdict.splits prod.splits)
  then show False
    using EvalScript_p2sh(1) by (auto simp: IsPayToScriptHash_p2sh)
qed

theorem VerifyScript_no_abort_witness: "VerifyScript [] [OP_1] None 0 all_checker \<noteq> Abort"
  by (rule VerifyScript_no_abort) (simp add: flags_consistent_def flag_def)

end
