(* ===== verification/Money.thy ===== *)
theory Money
  imports Prelude "HOL-Library.Signed_Division"
begin

text \<open>
  Amounts and rewards: \<^verbatim>\<open>amount.h\<close>, \<^verbatim>\<open>amount.cpp\<close> and the reward functions of \<^verbatim>\<open>validation.cpp\<close>.
  A \<^verbatim>\<open>CAmount\<close> is an integer; that the values stay within 63 bits is part of the properties.
\<close>

subsection \<open>Definitions\<close>

type_synonym CAmount = int

definition COIN :: CAmount where "COIN = 100000000"
definition CENT :: CAmount where "CENT = 1000000"
definition MAX_MONEY :: CAmount where "MAX_MONEY = 210000000 * COIN"

definition MoneyRange :: "CAmount \<Rightarrow> bool" where
  "MoneyRange nValue \<longleftrightarrow> nValue \<ge> 0 \<and> nValue \<le> MAX_MONEY"

text \<open>\<open>CFeeRate(nFeePaid, nBytes)\<close> and \<open>GetFee\<close>; \<open>None\<close> is the failed assertion on the size.\<close>

definition CFeeRate :: "CAmount \<Rightarrow> nat \<Rightarrow> CAmount option" where
  "CFeeRate nFeePaid nBytes =
     (if nBytes > 2 ^ 63 - 1 then None
      else let nSize = int nBytes
           in Some (if nSize > 0 then nFeePaid * 1000 sdiv nSize else 0))"

definition GetFee :: "CAmount \<Rightarrow> nat \<Rightarrow> CAmount option" where
  "GetFee nSatoshisPerK nBytes =
     (if nBytes > 2 ^ 63 - 1 then None
      else let nSize = int nBytes;
               nFee = nSatoshisPerK * nSize sdiv 1000
           in Some (if nFee = 0 \<and> nSize \<noteq> 0
                    then (if nSatoshisPerK < 0 then -1 else if nSatoshisPerK > 0 then 1 else nFee)
                    else nFee))"

record RewardParams =
  nSubsidyHalvingInterval :: int
  nPremineSubsidy :: int
  nTnodePaymentsStartBlock :: int
  rewardsStage2Start :: int
  rewardsStage3Start :: int
  rewardsStage4Start :: int
  rewardsStage5Start :: int
  rewardsStage6Start :: int

definition GetBlockSubsidy :: "int \<Rightarrow> RewardParams \<Rightarrow> CAmount" where
  "GetBlockSubsidy height params =
     (if height = 0 then 0
      else if height = 1 then nPremineSubsidy params * COIN
      else let halvings = height sdiv nSubsidyHalvingInterval params
           in if halvings \<ge> 64 then 0
              else drop_bit (nat halvings) 11250000000)"

definition GetMasternodePayment :: "int \<Rightarrow> CAmount \<Rightarrow> CAmount" where
  "GetMasternodePayment height blockValue =
     (if height < 2520000 then blockValue * 15 sdiv 100
      else if height < 3366000 then blockValue * 2 sdiv 10
      else blockValue * 25 sdiv 100)"

definition GetTnodePayment :: "int \<Rightarrow> RewardParams \<Rightarrow> CAmount" where
  "GetTnodePayment height params =
     (let blockValue = GetBlockSubsidy height params
      in if height < nTnodePaymentsStartBlock params then 0
         else if height < rewardsStage2Start params then blockValue * 39 sdiv 100
         else if height < rewardsStage3Start params then blockValue * 15 sdiv 100
         else if height < rewardsStage4Start params then blockValue * 15 sdiv 100
         else if height < rewardsStage5Start params then blockValue * 20 sdiv 100
         else if height < rewardsStage6Start params then blockValue * 20 sdiv 100
         else blockValue * 25 sdiv 100)"

text \<open>The rewards parameters of the main network; the start of tnode payments is left open.\<close>

definition nDefaultSubsidyHalvingInterval :: int where
  [simp]: "nDefaultSubsidyHalvingInterval = 840000"

definition mainnet_nPremineSubsidy :: int where
  [simp]: "mainnet_nPremineSubsidy = 21000000"

definition mainnet_rewards :: "int \<Rightarrow> RewardParams" where
  "mainnet_rewards start = \<lparr>nSubsidyHalvingInterval = nDefaultSubsidyHalvingInterval, nPremineSubsidy = mainnet_nPremineSubsidy,
     nTnodePaymentsStartBlock = start, rewardsStage2Start = 71000, rewardsStage3Start = 840000,
     rewardsStage4Start = 1680000, rewardsStage5Start = 2520000, rewardsStage6Start = 3366000\<rparr>"

subsection \<open>Issuance\<close>

lemma sdiv_pos: "0 \<le> a \<Longrightarrow> 0 < b \<Longrightarrow> a sdiv b = a div (b :: int)"
  by (cases "a = 0") (simp_all add: signed_divide_int_def)

lemma sum_halvings: "(\<Sum>k<K. S div 2 ^ k) + 2 * (S div 2 ^ K) \<le> 2 * (S :: nat)"
proof (induction K)
  case (Suc K)
  have "2 * (S div 2 ^ Suc K) \<le> S div 2 ^ K" by (simp only: power_Suc2 div_mult2_eq times_div_less_eq_dividend)
  then show ?case using Suc by simp
qed simp

lemma sum_epochs: "(\<Sum>h<K * I. f (h div I)) = I * (\<Sum>k<K. f k)" if "0 < I" for f :: "nat \<Rightarrow> nat"
proof -
  have "(\<Sum>h = k * I..<k * I + I. f (h div I)) = I * f k" for k
  proof -
    have "h div I = k" if "h \<in> {k * I..<k * I + I}" for h
      using that by (intro div_nat_eqI) (simp_all add: mult.commute)
    then show ?thesis by simp
  qed
  then have "(\<Sum>k<K. \<Sum>h = k * I..<k * I + I. f (h div I)) = I * (\<Sum>k<K. f k)"
    by (simp add: sum_distrib_left)
  then show ?thesis by (simp add: sum.nat_group)
qed

lemma sum_epochs_bound:
  assumes "0 < I"
  shows "(\<Sum>h<n. S div 2 ^ (h div I)) \<le> 2 * S * (I :: nat)"
proof -
  have "(\<Sum>h<n. S div 2 ^ (h div I)) \<le> (\<Sum>h<n * I. S div 2 ^ (h div I))"
    using assms by (intro sum_mono2) auto
  also have "\<dots> = I * (\<Sum>k<n. S div 2 ^ k)" using sum_epochs [OF assms, of "\<lambda>k. S div 2 ^ k" n] by simp
  also have "\<dots> \<le> I * (2 * S)" using sum_halvings [of S n] by (intro mult_le_mono) simp_all
  finally show ?thesis by (simp add: mult.commute mult.left_commute)
qed

lemma GetBlockSubsidy_le:
  assumes "0 < nSubsidyHalvingInterval params" and "0 \<le> nPremineSubsidy params"
  shows "0 \<le> GetBlockSubsidy (int h) params"
    and "GetBlockSubsidy (int h) params \<le> (if h = 1 then nPremineSubsidy params * COIN else 0)
      + int (11250000000 div 2 ^ (h div nat (nSubsidyHalvingInterval params)))"
proof -
  define I where "I = nat (nSubsidyHalvingInterval params)"
  have I: "nSubsidyHalvingInterval params = int I" "0 < I" using assms(1) by (simp_all add: I_def)
  have d: "int h sdiv nSubsidyHalvingInterval params = int (h div I)"
    using I by (simp add: sdiv_pos zdiv_int)
  have v: "drop_bit k 11250000000 = int (11250000000 div 2 ^ k)" for k
    by (simp add: drop_bit_eq_div of_nat_div)
  show "0 \<le> GetBlockSubsidy (int h) params"
    using assms(2) by (auto simp: GetBlockSubsidy_def Let_def COIN_def drop_bit_eq_div pos_imp_zdiv_nonneg_iff)
  show "GetBlockSubsidy (int h) params \<le> (if h = 1 then nPremineSubsidy params * COIN else 0)
      + int (11250000000 div 2 ^ (h div nat (nSubsidyHalvingInterval params)))"
    unfolding GetBlockSubsidy_def Let_def d I_def [symmetric] nat_int v
    by (simp del: of_nat_div)
qed

lemma total_issuance:
  assumes "0 < nSubsidyHalvingInterval params" and "0 \<le> nPremineSubsidy params"
  shows "(\<Sum>h<n. GetBlockSubsidy (int h) params)
    \<le> nPremineSubsidy params * COIN + 2 * 11250000000 * nSubsidyHalvingInterval params"
proof -
  define I where "I = nat (nSubsidyHalvingInterval params)"
  define p where "p = nPremineSubsidy params * COIN"
  have p: "0 \<le> p" using assms(2) by (simp add: p_def COIN_def)
  have "(\<Sum>h<n. GetBlockSubsidy (int h) params)
      \<le> (\<Sum>h<n. (if h = 1 then p else 0) + int (11250000000 div 2 ^ (h div I)))"
    unfolding p_def I_def by (intro sum_mono GetBlockSubsidy_le assms)
  also have "\<dots> = (\<Sum>h<n. if h = 1 then p else 0) + int (\<Sum>h<n. 11250000000 div 2 ^ (h div I))"
    by (simp add: sum.distrib)
  also have "(\<Sum>h<n. if h = 1 then p else 0) \<le> p" using p by (simp add: sum.delta)
  also have "int (\<Sum>h<n. 11250000000 div 2 ^ (h div I)) \<le> int (2 * 11250000000 * I)"
    using sum_epochs_bound [of I 11250000000 n] assms(1) by (subst of_nat_le_iff) (simp add: I_def)
  finally show ?thesis using assms(1) by (simp add: p_def I_def)
qed

subsection \<open>Properties\<close>

text \<open>
  C38. The money supply is capped: whatever the height, the subsidies of all blocks up to it add up to a
  valid amount, at most \<open>MAX_MONEY\<close>, on the main network (premine and every halving included).
\<close>

theorem issuance_capped: "MoneyRange (\<Sum>h<n. GetBlockSubsidy (int h) (mainnet_rewards start))"
proof -
  have "0 \<le> (\<Sum>h<n. GetBlockSubsidy (int h) (mainnet_rewards start))"
    by (intro sum_nonneg GetBlockSubsidy_le) (simp_all add: mainnet_rewards_def)
  moreover have "(\<Sum>h<n. GetBlockSubsidy (int h) (mainnet_rewards start)) \<le> MAX_MONEY"
    using total_issuance [of "mainnet_rewards start" n]
    by (simp add: mainnet_rewards_def MAX_MONEY_def COIN_def)
  ultimately show ?thesis by (simp add: MoneyRange_def)
qed

text \<open>
  No reward stage pays out more than there is: the tnode payment and the masternode payment of a block
  lie between zero and the block's value, at every height and for every choice of stage boundaries.
\<close>

theorem payments_within_subsidy:
  assumes "0 < nSubsidyHalvingInterval params" and "0 \<le> nPremineSubsidy params" and "0 \<le> v"
  shows "0 \<le> GetTnodePayment (int h) params \<and> GetTnodePayment (int h) params \<le> GetBlockSubsidy (int h) params
    \<and> 0 \<le> GetMasternodePayment height v \<and> GetMasternodePayment height v \<le> v"
proof -
  have share: "0 \<le> x * k sdiv d \<and> x * k sdiv d \<le> x" if "0 \<le> x" "0 \<le> k" "k \<le> d" "0 < d" for x k d :: int
  proof -
    have "x * k div d \<le> x * d div d" using that by (intro zdiv_mono1 mult_left_mono)
    then show ?thesis using that by (simp add: sdiv_pos pos_imp_zdiv_nonneg_iff)
  qed
  have "0 \<le> GetBlockSubsidy (int h) params" using GetBlockSubsidy_le(1) [OF assms(1,2)] .
  then show ?thesis
    using share [of "GetBlockSubsidy (int h) params" _ 100] share [OF assms(3), of _ 100] share [OF assms(3), of 2 10]
    by (simp add: GetTnodePayment_def GetMasternodePayment_def Let_def)
qed

theorem payments_within_subsidy_witness:
  "GetTnodePayment (int 80000) (mainnet_rewards 900) \<le> GetBlockSubsidy (int 80000) (mainnet_rewards 900)
    \<and> GetMasternodePayment 2600000 5000 \<le> 5000"
  using payments_within_subsidy [of "mainnet_rewards 900" 5000 80000 2600000] by (simp add: mainnet_rewards_def)

text \<open>
  The fee for a size is the rate per 1000 bytes times the size, rounded towards zero but never to
  zero: a positive rate charges at least one satoshi for any non-empty size, and the fee grows with
  the size.
\<close>

theorem GetFee_correct:
  assumes "0 < r" and "0 < m" and "m \<le> n" and "n < 2 ^ 63"
  shows "\<exists>f g. GetFee r m = Some f \<and> GetFee r n = Some g \<and> 1 \<le> f \<and> f \<le> g
    \<and> f = max 1 (r * int m div 1000) \<and> g = max 1 (r * int n div 1000)"
proof -
  have mono: "r * int m div 1000 \<le> r * int n div 1000" using assms by (intro zdiv_mono1 mult_left_mono) simp_all
  have fee: "GetFee r k = Some (max 1 (r * int k div 1000))" if "0 < k" "k < 2 ^ 63" for k
  proof -
    have "0 \<le> r * int k div 1000" using assms(1) by (simp add: pos_imp_zdiv_nonneg_iff)
    then show ?thesis using that assms(1) by (auto simp: GetFee_def Let_def sdiv_pos max_def)
  qed
  show ?thesis using fee [of m] fee [of n] mono assms by auto
qed

theorem GetFee_correct_witness:
  "\<exists>f g. GetFee 1000 (nat 1) = Some f \<and> GetFee 1000 (nat 250) = Some g \<and> 1 \<le> f \<and> f \<le> g"
  using GetFee_correct [of 1000 1 250] by auto

end
