(* ===== verification/Transaction.thy ===== *)
theory Transaction
  imports Verify_Script Money
begin

text \<open>
  Transactions, \<^verbatim>\<open>primitives/transaction.h\<close> and \<^verbatim>\<open>.cpp\<close>: outpoints, inputs, outputs, the basic and the extended
  wire format, the transaction identifiers, and the classifications built on the script forms. A 32-bit version
  or type is its two's complement word; \<open>None\<close> is an exception of the stream.
\<close>

unbundle bit_operations_syntax

subsection \<open>Definitions\<close>

definition SERIALIZE_TRANSACTION_NO_WITNESS :: u32 where "SERIALIZE_TRANSACTION_NO_WITNESS = 0x40000000"
definition WITNESS_SCALE_FACTOR :: nat where "WITNESS_SCALE_FACTOR = 4"
definition PROTOCOL_VERSION :: u32 where "PROTOCOL_VERSION = 90030"
definition TRANSACTION_NORMAL :: u32 where "TRANSACTION_NORMAL = 0"

record COutPoint =
  op_hash :: bytes
  op_n :: u32

definition COutPoint_null :: COutPoint where
  "COutPoint_null = \<lparr>op_hash = replicate 32 0, op_n = - 1\<rparr>"

definition COutPoint_IsNull :: "COutPoint \<Rightarrow> bool" where
  "COutPoint_IsNull p \<longleftrightarrow> list_all (\<lambda>b. b = 0) (op_hash p) \<and> op_n p = - 1"

definition IsSigmaMintGroup :: "COutPoint \<Rightarrow> bool" where
  "IsSigmaMintGroup p \<longleftrightarrow> list_all (\<lambda>b. b = 0) (op_hash p) \<and> op_n p \<ge> 1"

definition COutPoint_Serialize :: "COutPoint \<Rightarrow> bytes" where
  "COutPoint_Serialize p = op_hash p @ ser_writedata32 (op_n p)"

definition COutPoint_Unserialize :: "bytes \<Rightarrow> (COutPoint \<times> bytes) option" where
  "COutPoint_Unserialize s = do {
     (h, s) \<leftarrow> stream_read 32 s;
     (n, s) \<leftarrow> ser_readdata32 s;
     Some (\<lparr>op_hash = h, op_n = n\<rparr>, s)
   }"

record CTxIn =
  prevout :: COutPoint
  scriptSig :: CScript
  nSequence :: u32
  prevPubKey :: CScript
  scriptWitness :: CScriptWitness

definition SEQUENCE_FINAL :: u32 where "SEQUENCE_FINAL = 0xffffffff"
definition SEQUENCE_LOCKTIME_TYPE_FLAG :: u32 where "SEQUENCE_LOCKTIME_TYPE_FLAG = push_bit 22 1"
definition SEQUENCE_LOCKTIME_MASK :: u32 where "SEQUENCE_LOCKTIME_MASK = 0x0000ffff"

definition CTxIn_Serialize :: "CTxIn \<Rightarrow> bytes" where
  "CTxIn_Serialize i = COutPoint_Serialize (prevout i) @ Serialize_blob (scriptSig i) @ ser_writedata32 (nSequence i)"

definition CTxIn_Unserialize :: "bytes \<Rightarrow> (CTxIn \<times> bytes) option" where
  "CTxIn_Unserialize s = do {
     (p, s) \<leftarrow> COutPoint_Unserialize s;
     (sig, s) \<leftarrow> Unserialize_blob s;
     (n, s) \<leftarrow> ser_readdata32 s;
     Some (\<lparr>prevout = p, scriptSig = sig, nSequence = n, prevPubKey = [], scriptWitness = []\<rparr>, s)
   }"

text \<open>The first opcode of a script is looked at only if there is one.\<close>

definition starts_with :: "opcodetype \<Rightarrow> CScript \<Rightarrow> bool" where
  "starts_with opcode s \<longleftrightarrow> length s > 0 \<and> s ! 0 = opcode"

definition CTxIn_IsZerocoinSpend :: "CTxIn \<Rightarrow> bool" where
  "CTxIn_IsZerocoinSpend i \<longleftrightarrow> COutPoint_IsNull (prevout i) \<and> starts_with OP_ZEROCOINSPEND (scriptSig i)"

definition CTxIn_IsSigmaSpend :: "CTxIn \<Rightarrow> bool" where
  "CTxIn_IsSigmaSpend i \<longleftrightarrow> IsSigmaMintGroup (prevout i) \<and> starts_with OP_SIGMASPEND (scriptSig i)"

definition CTxIn_IsZerocoinRemint :: "CTxIn \<Rightarrow> bool" where
  "CTxIn_IsZerocoinRemint i \<longleftrightarrow> COutPoint_IsNull (prevout i) \<and> starts_with OP_ZEROCOINTOSIGMAREMINT (scriptSig i)"

record CTxOut =
  nValue :: CAmount
  scriptPubKey :: CScript
  nRounds :: int

definition CTxOut_null :: CTxOut where
  "CTxOut_null = \<lparr>nValue = - 1, scriptPubKey = [], nRounds = - 10\<rparr>"

definition CTxOut_IsNull :: "CTxOut \<Rightarrow> bool" where
  "CTxOut_IsNull t \<longleftrightarrow> nValue t = - 1"

definition CTxOut_Serialize :: "CTxOut \<Rightarrow> bytes" where
  "CTxOut_Serialize t = ser_writedata64 (word_of_int (nValue t)) @ Serialize_blob (scriptPubKey t)"

definition CTxOut_Unserialize :: "bytes \<Rightarrow> (CTxOut \<times> bytes) option" where
  "CTxOut_Unserialize s = do {
     (v, s) \<leftarrow> ser_readdata64 s;
     (k, s) \<leftarrow> Unserialize_blob s;
     Some (\<lparr>nValue = sint v, scriptPubKey = k, nRounds = - 10\<rparr>, s)
   }"

definition GetDustThreshold :: "CAmount \<Rightarrow> CTxOut \<Rightarrow> CAmount option" where
  "GetDustThreshold minRelayTxFee t =
     (if IsUnspendable (scriptPubKey t) then Some 0
      else let nSize = length (CTxOut_Serialize t);
               nSize = (if IsWitnessProgram (scriptPubKey t) \<noteq> None
                        then nSize + (32 + 4 + 1 + (107 div WITNESS_SCALE_FACTOR) + 4)
                        else nSize + (32 + 4 + 1 + 107 + 4))
           in map_option (\<lambda>f. 3 * f) (GetFee minRelayTxFee nSize))"

record CTransaction =
  tx_nVersion :: u32
  tx_nType :: u32
  vin :: "CTxIn list"
  vout :: "CTxOut list"
  nLockTime :: u32
  vExtraPayload :: bytes

definition CMutableTransaction_init :: CTransaction where
  "CMutableTransaction_init = \<lparr>tx_nVersion = 1, tx_nType = TRANSACTION_NORMAL, vin = [], vout = [], nLockTime = 0, vExtraPayload = []\<rparr>"

definition HasWitness :: "CTransaction \<Rightarrow> bool" where
  "HasWitness tx \<longleftrightarrow> list_ex (\<lambda>i. scriptWitness i \<noteq> []) (vin tx)"

definition n32bitVersion :: "CTransaction \<Rightarrow> u32" where
  "n32bitVersion tx = tx_nVersion tx OR push_bit 16 (tx_nType tx)"

definition has_payload :: "u32 \<Rightarrow> u32 \<Rightarrow> bool" where
  "has_payload version type \<longleftrightarrow> version = 3 \<and> type \<noteq> TRANSACTION_NORMAL"

definition allow_witness :: "u32 \<Rightarrow> bool" where
  "allow_witness streamVersion \<longleftrightarrow> streamVersion AND SERIALIZE_TRANSACTION_NO_WITNESS = 0"

definition SerializeTransaction :: "u32 \<Rightarrow> CTransaction \<Rightarrow> bytes" where
  "SerializeTransaction streamVersion tx =
     (let fAllowWitness = allow_witness streamVersion;
          flags = (if fAllowWitness \<and> HasWitness tx then 1 else 0 :: u8)
      in ser_writedata32 (n32bitVersion tx) @
         (if flags \<noteq> 0 then Serialize_vector CTxIn_Serialize [] @ ser_writedata8 flags else []) @
         Serialize_vector CTxIn_Serialize (vin tx) @
         Serialize_vector CTxOut_Serialize (vout tx) @
         (if flags AND 1 \<noteq> 0 then concat (map (\<lambda>i. Serialize_vector Serialize_blob (scriptWitness i)) (vin tx)) else []) @
         ser_writedata32 (nLockTime tx) @
         (if has_payload (tx_nVersion tx) (tx_nType tx) then Serialize_blob (vExtraPayload tx) else []))"

fun Unserialize_witnesses :: "CTxIn list \<Rightarrow> bytes \<Rightarrow> (CTxIn list \<times> bytes) option" where
  "Unserialize_witnesses [] s = Some ([], s)"
| "Unserialize_witnesses (i # is) s = do {
     (w, s) \<leftarrow> Unserialize_vector Unserialize_blob s;
     (is, s) \<leftarrow> Unserialize_witnesses is s;
     Some (i\<lparr>scriptWitness := w\<rparr> # is, s)
   }"

text \<open>The inputs and outputs, after the marker of the extended format if there is one.\<close>

definition Unserialize_in_out :: "bool \<Rightarrow> bytes \<Rightarrow> ((u8 \<times> CTxIn list \<times> CTxOut list) \<times> bytes) option" where
  "Unserialize_in_out fAllowWitness s = do {
     (vi, s) \<leftarrow> Unserialize_vector CTxIn_Unserialize s;
     if vi = [] \<and> fAllowWitness then do {
       (flags, s) \<leftarrow> ser_readdata8 s;
       if flags \<noteq> 0 then do {
         (vi, s) \<leftarrow> Unserialize_vector CTxIn_Unserialize s;
         (vo, s) \<leftarrow> Unserialize_vector CTxOut_Unserialize s;
         Some ((flags, vi, vo), s)
       }
       else Some ((flags, [], []), s)
     }
     else do {
       (vo, s) \<leftarrow> Unserialize_vector CTxOut_Unserialize s;
       Some ((0, vi, vo), s)
     }
   }"

definition UnserializeTransaction :: "u32 \<Rightarrow> CTransaction \<Rightarrow> bytes \<Rightarrow> (CTransaction \<times> bytes) option" where
  "UnserializeTransaction streamVersion tx s = do {
     (n, s) \<leftarrow> ser_readdata32 s;
     let version = (scast (ucast (n AND 0xffff) :: u16) :: u32);
     let type = (scast (ucast (drop_bit 16 n AND 0xffff) :: u16) :: u32);
     ((flags, vi, vo), s) \<leftarrow> Unserialize_in_out (allow_witness streamVersion) s;
     ((flags, vi), s) \<leftarrow>
       (if flags AND 1 \<noteq> 0 \<and> allow_witness streamVersion then do {
          (vi, s) \<leftarrow> Unserialize_witnesses vi s;
          Some ((flags XOR 1, vi), s)
        }
        else Some ((flags, vi), s));
     if flags \<noteq> 0 then None
     else do {
       (lock, s) \<leftarrow> ser_readdata32 s;
       (payload, s) \<leftarrow> (if has_payload version type then Unserialize_blob s else Some (vExtraPayload tx, s));
       Some (\<lparr>tx_nVersion = version, tx_nType = type, vin = vi, vout = vo, nLockTime = lock, vExtraPayload = payload\<rparr>, s)
     }
   }"

text \<open>Identifiers; \<open>hash_of\<close> is a \<^verbatim>\<open>CHashWriter\<close> fed with the pieces.\<close>

definition hash_of :: "bytes list \<Rightarrow> bytes" where
  "hash_of ps = CHashWriter_GetHash (fold (\<lambda>d h. CHashWriter_write h d) ps (CHashWriter_init (replicate 64 0)))"

definition tx_GetHash :: "CTransaction \<Rightarrow> bytes" where
  "tx_GetHash tx = hash_of [SerializeTransaction SERIALIZE_TRANSACTION_NO_WITNESS tx]"

definition GetWitnessHash :: "CTransaction \<Rightarrow> bytes" where
  "GetWitnessHash tx = (if \<not> HasWitness tx then tx_GetHash tx else hash_of [SerializeTransaction 0 tx])"

text \<open>\<open>GetValueOut\<close>: the sum is formed, modulo \<open>2\<^sup>6\<^sup>4\<close>, before the range checks; \<open>None\<close> is the exception.\<close>

fun GetValueOut_loop :: "CTxOut list \<Rightarrow> CAmount \<Rightarrow> CAmount option" where
  "GetValueOut_loop [] nValueOut = Some nValueOut"
| "GetValueOut_loop (t # ts) nValueOut =
     (let nValueOut = sint (word_of_int (nValueOut + nValue t) :: u64)
      in if \<not> MoneyRange (nValue t) \<or> \<not> MoneyRange nValueOut then None else GetValueOut_loop ts nValueOut)"

definition GetValueOut :: "CTransaction \<Rightarrow> CAmount option" where
  "GetValueOut tx = GetValueOut_loop (vout tx) 0"

definition IsCoinBase :: "CTransaction \<Rightarrow> bool" where
  "IsCoinBase tx \<longleftrightarrow> length (vin tx) = 1 \<and> COutPoint_IsNull (prevout (vin tx ! 0)) \<and>
     (length (scriptSig (vin tx ! 0)) = 0 \<or>
      (scriptSig (vin tx ! 0) ! 0 \<noteq> OP_ZEROCOINSPEND \<and> scriptSig (vin tx ! 0) ! 0 \<noteq> OP_ZEROCOINTOSIGMAREMINT))"

definition tx_IsNull :: "CTransaction \<Rightarrow> bool" where
  "tx_IsNull tx \<longleftrightarrow> vin tx = [] \<and> vout tx = []"

definition tx_IsZerocoinSpend :: "CTransaction \<Rightarrow> bool" where
  "tx_IsZerocoinSpend tx \<longleftrightarrow> list_ex CTxIn_IsZerocoinSpend (vin tx)"

definition tx_IsSigmaSpend :: "CTransaction \<Rightarrow> bool" where
  "tx_IsSigmaSpend tx \<longleftrightarrow> list_ex CTxIn_IsSigmaSpend (vin tx)"

definition tx_IsZerocoinMint :: "CTransaction \<Rightarrow> bool" where
  "tx_IsZerocoinMint tx \<longleftrightarrow> list_ex (\<lambda>t. IsZerocoinMint (scriptPubKey t)) (vout tx)"

definition tx_IsZerocoinRemint :: "CTransaction \<Rightarrow> bool" where
  "tx_IsZerocoinRemint tx \<longleftrightarrow> list_ex CTxIn_IsZerocoinRemint (vin tx)"

definition tx_IsSigmaMint :: "CTransaction \<Rightarrow> bool" where
  "tx_IsSigmaMint tx \<longleftrightarrow> \<not> tx_IsZerocoinRemint tx \<and> list_ex (\<lambda>t. IsSigmaMint (scriptPubKey t)) (vout tx)"

definition IsZerocoinTransaction :: "CTransaction \<Rightarrow> bool" where
  "IsZerocoinTransaction tx \<longleftrightarrow> tx_IsZerocoinSpend tx \<or> tx_IsZerocoinMint tx"

definition IsZerocoinV3SigmaTransaction :: "CTransaction \<Rightarrow> bool" where
  "IsZerocoinV3SigmaTransaction tx \<longleftrightarrow> tx_IsSigmaSpend tx \<or> tx_IsSigmaMint tx \<or> tx_IsZerocoinRemint tx"

definition GetTransactionWeight :: "CTransaction \<Rightarrow> nat" where
  "GetTransactionWeight tx =
     length (SerializeTransaction (PROTOCOL_VERSION OR SERIALIZE_TRANSACTION_NO_WITNESS) tx) * (WITNESS_SCALE_FACTOR - 1) +
     length (SerializeTransaction PROTOCOL_VERSION tx)"

definition GetTotalSize :: "CTransaction \<Rightarrow> nat" where
  "GetTotalSize tx = length (SerializeTransaction PROTOCOL_VERSION tx)"

definition CalculateModifiedSize :: "CTransaction \<Rightarrow> nat \<Rightarrow> nat" where
  "CalculateModifiedSize tx nTxSize =
     (let nTxSize = (if nTxSize = 0 then (GetTransactionWeight tx + WITNESS_SCALE_FACTOR - 1) div WITNESS_SCALE_FACTOR else nTxSize)
      in fold (\<lambda>i n. let offset = 41 + min 110 (length (scriptSig i)) in if n > offset then n - offset else n) (vin tx) nTxSize)"

subsection \<open>Reading what was written\<close>

interpretation outpoint: codec COutPoint_Serialize COutPoint_Unserialize "\<lambda>p. length (op_hash p) = 32"
  by unfold_locales (simp add: COutPoint_Serialize_def COutPoint_Unserialize_def stream_read_def)

definition no_witness :: "CTxIn \<Rightarrow> CTxIn" where
  "no_witness i = i\<lparr>scriptWitness := []\<rparr>"

definition txin_ok :: "CTxIn \<Rightarrow> bool" where
  "txin_ok i \<longleftrightarrow> length (op_hash (prevout i)) = 32 \<and> length (scriptSig i) \<le> 0x02000000 \<and> prevPubKey i = [] \<and>
     length (scriptWitness i) \<le> 0x02000000 \<and> list_all (\<lambda>x. length x \<le> 0x02000000) (scriptWitness i)"

definition txout_ok :: "CTxOut \<Rightarrow> bool" where
  "txout_ok t \<longleftrightarrow> - (2 ^ 63) \<le> nValue t \<and> nValue t < 2 ^ 63 \<and> length (scriptPubKey t) \<le> 0x02000000 \<and> nRounds t = - 10"

interpretation txin: codec CTxIn_Serialize CTxIn_Unserialize "\<lambda>i. txin_ok i \<and> scriptWitness i = []"
  by unfold_locales (simp add: CTxIn_Serialize_def CTxIn_Unserialize_def outpoint.dec_enc blob.dec_enc txin_ok_def)

lemma sint_word_of_int: "- (2 ^ 63) \<le> v \<Longrightarrow> v < 2 ^ 63 \<Longrightarrow> sint (word_of_int v :: u64) = v"
  by (simp add: signed_of_int signed_take_bit_int_eq_self)

interpretation txout: codec CTxOut_Serialize CTxOut_Unserialize txout_ok
  by unfold_locales
    (simp add: CTxOut_Serialize_def CTxOut_Unserialize_def blob.dec_enc txout_ok_def sint_word_of_int)

lemma CTxIn_Serialize_no_witness [simp]: "CTxIn_Serialize (no_witness i) = CTxIn_Serialize i"
  by (simp add: CTxIn_Serialize_def no_witness_def)

lemma vin_no_witness: "Serialize_vector CTxIn_Serialize (map no_witness is) = Serialize_vector CTxIn_Serialize is"
  by (simp add: Serialize_vector_def comp_def)

lemma read_vin:
  assumes "list_all txin_ok is" and "length is \<le> 0x02000000"
  shows "Unserialize_vector CTxIn_Unserialize (Serialize_vector CTxIn_Serialize is @ r) = Some (map no_witness is, r)"
  using txin.vector [of "map no_witness is" r] assms
  by (simp add: vin_no_witness list_all_iff no_witness_def txin_ok_def)

lemma read_witnesses:
  assumes "list_all txin_ok is"
  shows "Unserialize_witnesses (map no_witness is)
      (concat (map (\<lambda>i. Serialize_vector Serialize_blob (scriptWitness i)) is) @ r) = Some (is, r)"
  using assms by (induction "is" arbitrary: r) (simp_all add: blob.vector txin_ok_def no_witness_def)

lemma no_witness_id: "\<not> HasWitness tx \<Longrightarrow> map no_witness (vin tx) = vin tx"
  by (induction "vin tx" arbitrary: tx)
    (auto simp: HasWitness_def list_ex_iff no_witness_def intro!: map_idI)

subsection \<open>The version word\<close>

definition int16 :: "u32 \<Rightarrow> bool" where
  "int16 x \<longleftrightarrow> scast (ucast x :: u16) = x"

lemma version_word:
  assumes "tx_nVersion tx < 0x8000" and "int16 (tx_nType tx)"
  shows "scast (ucast (n32bitVersion tx AND 0xffff) :: u16) = tx_nVersion tx"
    and "scast (ucast (drop_bit 16 (n32bitVersion tx) AND 0xffff) :: u16) = tx_nType tx"
proof -
  have mask: "(0xffff :: u32) = mask 16"
    by (simp add: mask_eq_exp_minus_1)
  have low: "tx_nVersion tx = take_bit 15 (tx_nVersion tx)"
    using assms(1) by (simp add: word_less_nat_alt word_unat_eq_iff unsigned_take_bit_eq take_bit_nat_eq_self)
  then have zero: "\<not> bit (tx_nVersion tx) n" if "15 \<le> n" for n
    using that by (metis bit_take_bit_iff not_less)
  have v: "(ucast (n32bitVersion tx AND 0xffff) :: u16) = ucast (tx_nVersion tx)"
    unfolding mask n32bitVersion_def by (rule bit_word_eqI) (auto simp: bit_simps)
  have "int16 (tx_nVersion tx)"
    unfolding int16_def by (rule bit_word_eqI) (use zero in \<open>auto simp: bit_simps min_def\<close>)
  then show "scast (ucast (n32bitVersion tx AND 0xffff) :: u16) = tx_nVersion tx"
    unfolding v int16_def .
  have "(ucast (drop_bit 16 (n32bitVersion tx) AND 0xffff) :: u16) = ucast (tx_nType tx)"
    unfolding mask n32bitVersion_def by (rule bit_word_eqI) (use zero in \<open>auto simp: bit_simps\<close>)
  then show "scast (ucast (drop_bit 16 (n32bitVersion tx) AND 0xffff) :: u16) = tx_nType tx"
    using assms(2) by (simp only: int16_def)
qed

definition tx_ok :: "CTransaction \<Rightarrow> bool" where
  "tx_ok tx \<longleftrightarrow> tx_nVersion tx < 0x8000 \<and> int16 (tx_nType tx) \<and>
     list_all txin_ok (vin tx) \<and> length (vin tx) \<le> 0x02000000 \<and>
     list_all txout_ok (vout tx) \<and> length (vout tx) \<le> 0x02000000 \<and>
     length (vExtraPayload tx) \<le> 0x02000000 \<and>
     (has_payload (tx_nVersion tx) (tx_nType tx) \<or> vExtraPayload tx = [])"

lemma read_transaction:
  assumes "tx_ok tx" and "allow_witness sv \<longrightarrow> vin tx \<noteq> [] \<or> vout tx = []"
  shows "UnserializeTransaction sv CMutableTransaction_init (SerializeTransaction sv tx @ r) =
    Some (if allow_witness sv then tx else tx\<lparr>vin := map no_witness (vin tx)\<rparr>, r)"
proof -
  have vi: "list_all txin_ok (vin tx)" "length (vin tx) \<le> 0x02000000"
    and vo: "list_all txout_ok (vout tx)" "length (vout tx) \<le> 0x02000000"
    and ver: "tx_nVersion tx < 0x8000" "int16 (tx_nType tx)"
    and pay: "length (vExtraPayload tx) \<le> 0x02000000" "has_payload (tx_nVersion tx) (tx_nType tx) \<or> vExtraPayload tx = []"
    using assms(1) by (auto simp: tx_ok_def)
  note read = CMutableTransaction_init_def Let_def read_vin [OF vi] txout.vector [OF vo] blob.dec_enc [OF pay(1)] version_word [OF ver]
  have empty: "Unserialize_vector CTxIn_Unserialize (Serialize_vector CTxIn_Serialize [] @ r) = Some ([], r)" for r
    using txin.vector [of "[]" r] by simp
  have none: "Serialize_vector CTxOut_Serialize [] = ser_writedata8 0"
    by (simp add: Serialize_vector_def WriteCompactSize_def)
  consider (ext) "allow_witness sv" "HasWitness tx" | (basic) "allow_witness sv" "\<not> HasWitness tx" "vin tx \<noteq> []"
    | (null) "allow_witness sv" "\<not> HasWitness tx" "vin tx = []" "vout tx = []" | (old) "\<not> allow_witness sv"
    using assms(2) by blast
  then show ?thesis
  proof cases
    case ext
    then show ?thesis
      using pay(2) by (auto intro!: CTransaction.equality simp: UnserializeTransaction_def SerializeTransaction_def Unserialize_in_out_def empty read
        read_witnesses [OF vi(1)])
  next
    case basic
    then show ?thesis
      using pay(2) by (auto intro!: CTransaction.equality simp: UnserializeTransaction_def SerializeTransaction_def Unserialize_in_out_def read
        no_witness_id)
  next
    case null
    then show ?thesis
      using pay(2) by (auto intro!: CTransaction.equality simp: UnserializeTransaction_def SerializeTransaction_def Unserialize_in_out_def empty read none)
  next
    case old
    then show ?thesis
      using pay(2) by (auto intro!: CTransaction.equality simp: UnserializeTransaction_def SerializeTransaction_def Unserialize_in_out_def read)
  qed
qed

subsection \<open>Identifiers\<close>

lemma hash_of_eq: "hash_of ps = SHA256 (SHA256 (concat ps))"
  using CHash256_fold [of "replicate 64 0" ps]
  by (simp add: hash_of_def CHashWriter_GetHash_def CHashWriter_write_def CHashWriter_init_def)

definition strip :: "CTransaction \<Rightarrow> CTransaction" where
  "strip tx = tx\<lparr>vin := map no_witness (vin tx)\<rparr>"

lemma not_allow [simp]: "\<not> allow_witness SERIALIZE_TRANSACTION_NO_WITNESS"
  by (simp add: allow_witness_def SERIALIZE_TRANSACTION_NO_WITNESS_def)

lemma allow_0 [simp]: "allow_witness 0"
  by (simp add: allow_witness_def)

lemma serialize_strip:
  "\<not> allow_witness sv \<Longrightarrow> SerializeTransaction sv (strip tx) = SerializeTransaction sv tx"
  by (simp add: SerializeTransaction_def strip_def n32bitVersion_def vin_no_witness)

lemma serialize_no_witness_inject:
  assumes "tx_ok tx" and "tx_ok tx'" and "\<not> allow_witness sv"
  shows "SerializeTransaction sv tx = SerializeTransaction sv tx' \<longleftrightarrow> strip tx = strip tx'"
proof
  assume "SerializeTransaction sv tx = SerializeTransaction sv tx'"
  then show "strip tx = strip tx'"
    using read_transaction [OF assms(1), of sv "[]"] read_transaction [OF assms(2), of sv "[]"] assms(3)
    by (simp add: strip_def)
next
  assume "strip tx = strip tx'"
  then show "SerializeTransaction sv tx = SerializeTransaction sv tx'"
    using serialize_strip [OF assms(3)] by metis
qed

text \<open>A version with the sign bit of its low half set covers the type.\<close>

lemma negative_version:
  assumes "bit (n :: u32) 15"
  shows "scast (ucast (n AND 0xffff) :: u16) OR push_bit 16 t = (scast (ucast (n AND 0xffff) :: u16) :: u32)"
    and "(scast (ucast (n AND 0xffff) :: u16) :: u32) \<noteq> 3"
proof -
  have mask: "(0xffff :: u32) = mask 16"
    by (simp add: mask_eq_exp_minus_1)
  show "scast (ucast (n AND 0xffff) :: u16) OR push_bit 16 t = (scast (ucast (n AND 0xffff) :: u16) :: u32)"
    unfolding mask using assms by (intro bit_word_eqI) (auto simp: bit_simps min_def)
  have "bit (scast (ucast (n AND 0xffff) :: u16) :: u32) 15"
    unfolding mask using assms by (simp add: bit_simps)
  moreover have "\<not> bit (3 :: u32) 15"
    by simp
  ultimately show "(scast (ucast (n AND 0xffff) :: u16) :: u32) \<noteq> 3"
    by metis
qed

lemma low_half_eq:
  fixes n n' :: u32
  assumes "take_bit 16 n' = take_bit 16 n"
  shows "n' AND 0xffff = n AND 0xffff"
  using assms by (simp add: take_bit_eq_mask mask_eq_exp_minus_1)

text \<open>Without payload, everything after the version word is read independently of it.\<close>

definition read_body :: "u32 \<Rightarrow> bytes \<Rightarrow> ((CTxIn list \<times> CTxOut list \<times> u32) \<times> bytes) option" where
  "read_body sv s = do {
     ((flags, vi, vo), s) \<leftarrow> Unserialize_in_out (allow_witness sv) s;
     ((flags, vi), s) \<leftarrow>
       (if flags AND 1 \<noteq> 0 \<and> allow_witness sv then do {
          (vi, s) \<leftarrow> Unserialize_witnesses vi s;
          Some ((flags XOR 1, vi), s)
        }
        else Some ((flags, vi), s));
     if flags \<noteq> 0 then None
     else do { (lock, s) \<leftarrow> ser_readdata32 s; Some ((vi, vo, lock), s) }
   }"

lemma read_body_tx:
  assumes "\<not> has_payload (scast (ucast (n AND 0xffff) :: u16)) (scast (ucast (drop_bit 16 n AND 0xffff) :: u16))"
  shows "UnserializeTransaction sv t (ser_writedata32 n @ s) = do {
     ((vi, vo, lock), s) \<leftarrow> read_body sv s;
     Some (\<lparr>tx_nVersion = scast (ucast (n AND 0xffff) :: u16), tx_nType = scast (ucast (drop_bit 16 n AND 0xffff) :: u16),
       vin = vi, vout = vo, nLockTime = lock, vExtraPayload = vExtraPayload t\<rparr>, s)
   }"
  using assms
  by (simp add: UnserializeTransaction_def read_body_def Let_def split_def
    if_distrib [where f = "\<lambda>x. Option.bind x _"] cong: if_cong)

subsection \<open>Output values\<close>

lemma GetValueOut_loop_value:
  assumes "MoneyRange v"
  shows "GetValueOut_loop ts v =
    (if (\<forall>t\<in>set ts. MoneyRange (nValue t)) \<and> MoneyRange (v + sum_list (map nValue ts))
     then Some (v + sum_list (map nValue ts)) else None)"
  using assms
proof (induction ts arbitrary: v)
  case (Cons t ts)
  show ?case
  proof (cases "MoneyRange (nValue t)")
    case True
    then have "sint (word_of_int (v + nValue t) :: u64) = v + nValue t"
      using Cons.prems by (intro sint_word_of_int) (simp_all add: MoneyRange_def MAX_MONEY_def COIN_def)
    moreover have "0 \<le> sum_list (map nValue ts)" if "\<forall>t\<in>set ts. MoneyRange (nValue t)"
      using that by (intro sum_list_nonneg) (auto simp: MoneyRange_def)
    ultimately show ?thesis
      using Cons True by (auto simp: Let_def MoneyRange_def add.assoc)
  qed simp
qed simp

text \<open>A transaction without inputs and outputs, after its version word.\<close>

definition empty_body :: bytes where
  "empty_body = Serialize_vector CTxIn_Serialize [] @ ser_writedata8 0 @ ser_writedata32 0"

lemma empty_body_read:
  "UnserializeTransaction 0 CMutableTransaction_init (ser_writedata32 0x8000 @ empty_body) =
     Some (\<lparr>tx_nVersion = 0xffff8000, tx_nType = 0, vin = [], vout = [], nLockTime = 0, vExtraPayload = []\<rparr>, [])"
proof -
  have v: "(scast (ucast (0x8000 AND 0xffff :: u32) :: u16) :: u32) = 0xffff8000"
    by simp
  have "read_body 0 empty_body = Some (([], [], 0), [])"
    using txin.vector [of "[]"] read_written(3) [of 0 "[]"]
    by (simp add: read_body_def empty_body_def Unserialize_in_out_def)
  then show ?thesis
    by (subst read_body_tx) (simp_all add: v has_payload_def CMutableTransaction_init_def)
qed

section \<open>Properties\<close>



text \<open>
  What the identifiers commit to: the transaction hash is the double SHA-256 of a serialization that is equal
  for two transactions exactly if they agree in everything but the witnesses, so witnesses cannot change it; the
  witness hash of a transaction without witnesses is its transaction hash.
\<close>

theorem txid_commits:
  assumes "tx_ok tx" and "tx_ok tx'"
  shows "tx_GetHash tx = SHA256 (SHA256 (SerializeTransaction SERIALIZE_TRANSACTION_NO_WITNESS tx)) \<and>
    (SerializeTransaction SERIALIZE_TRANSACTION_NO_WITNESS tx = SerializeTransaction SERIALIZE_TRANSACTION_NO_WITNESS tx'
       \<longleftrightarrow> strip tx = strip tx') \<and>
    GetWitnessHash (strip tx) = tx_GetHash tx"
proof -
  have "\<not> HasWitness (strip tx)"
    by (auto simp: HasWitness_def strip_def no_witness_def list_ex_iff)
  then show ?thesis
    using serialize_no_witness_inject [OF assms] serialize_strip [of SERIALIZE_TRANSACTION_NO_WITNESS tx]
    by (simp add: tx_GetHash_def GetWitnessHash_def hash_of_eq)
qed

theorem txid_commits_witness:
  "SerializeTransaction SERIALIZE_TRANSACTION_NO_WITNESS CMutableTransaction_init \<noteq>
   SerializeTransaction SERIALIZE_TRANSACTION_NO_WITNESS (CMutableTransaction_init\<lparr>nLockTime := 1\<rparr>)"
  using txid_commits [of CMutableTransaction_init "CMutableTransaction_init\<lparr>nLockTime := 1\<rparr>"]
  by (simp add: tx_ok_def int16_def CMutableTransaction_init_def TRANSACTION_NORMAL_def strip_def)

text \<open>
  C26. A version whose low half has its sign bit set hides the transaction type: the sign-extended version is
  combined with the type by a bitwise or, so wire encodings that differ in the type are all accepted, as
  transactions of different types, and have the same hash.
\<close>

theorem negative_version_hides_type:
  assumes "bit n 15" and "take_bit 16 n' = take_bit 16 n"
    and "UnserializeTransaction sv CMutableTransaction_init (ser_writedata32 n @ s) = Some (tx, r)"
  shows "\<exists>tx'. UnserializeTransaction sv CMutableTransaction_init (ser_writedata32 n' @ s) = Some (tx', r) \<and>
    tx_nType tx' = scast (ucast (drop_bit 16 n' AND 0xffff) :: u16) \<and> tx_GetHash tx' = tx_GetHash tx"
proof -
  let ?t' = "tx\<lparr>tx_nType := scast (ucast (drop_bit 16 n' AND 0xffff) :: u16)\<rparr>"
  have v: "n' AND 0xffff = n AND 0xffff"
    by (rule low_half_eq [OF assms(2)])
  have p: "\<not> has_payload (scast (ucast (n AND 0xffff) :: u16)) t" for t
    using negative_version(2) [OF assms(1)] by (simp add: has_payload_def)
  obtain vi vo lock where body: "read_body sv s = Some ((vi, vo, lock), r)"
    and tx: "tx = \<lparr>tx_nVersion = scast (ucast (n AND 0xffff) :: u16), tx_nType = scast (ucast (drop_bit 16 n AND 0xffff) :: u16),
       vin = vi, vout = vo, nLockTime = lock, vExtraPayload = []\<rparr>"
    using assms(3) by (auto simp: read_body_tx p bind_eq_Some_conv CMutableTransaction_init_def)
  have "UnserializeTransaction sv CMutableTransaction_init (ser_writedata32 n' @ s) = Some (?t', r)"
    by (simp add: read_body_tx v p body tx CMutableTransaction_init_def)
  moreover have "SerializeTransaction sv' ?t' = SerializeTransaction sv' tx" for sv'
    using p by (simp add: SerializeTransaction_def n32bitVersion_def tx negative_version(1) [OF assms(1)] HasWitness_def)
  ultimately show ?thesis
    by (intro exI [of _ ?t']) (simp add: tx_GetHash_def)
qed

theorem negative_version_hides_type_witness:
  "\<exists>tx tx'. UnserializeTransaction 0 CMutableTransaction_init (ser_writedata32 0x8000 @ empty_body) = Some (tx, []) \<and>
    UnserializeTransaction 0 CMutableTransaction_init (ser_writedata32 0x18000 @ empty_body) = Some (tx', []) \<and>
    tx_nType tx' = 1 \<and> tx_GetHash tx' = tx_GetHash tx"
proof -
  have "bit (0x8000 :: u32) 15" "take_bit 16 (0x18000 :: u32) = take_bit 16 0x8000"
    by simp_all
  from negative_version_hides_type [OF this empty_body_read] empty_body_read show ?thesis
    by auto
qed

end
