(* ===== verification/Coins.thy ===== *)
theory Coins
  imports Transaction "HOL-Library.AList"
begin

text \<open>
  The set of unspent transaction outputs: coins, the layered caches of \<^verbatim>\<open>coins.h/.cpp\<close>, the coin database of
  \<^verbatim>\<open>txdb.cpp\<close>, and the functions of \<^verbatim>\<open>validation.cpp\<close> that connect and disconnect transactions. The virtual
  methods of \<^verbatim>\<open>CCoinsView\<close> are a record of functions on the state of a view; a cache holds the state of its
  backing view. An \<^verbatim>\<open>unordered_map\<close> is an association list with distinct keys, whose order stands for the order
  of iteration. \<open>None\<close> is a failed assertion or an exception. The memory-usage counter is left out, and so is the
  serialised form of a database entry, which does not hold \<^verbatim>\<open>nRounds\<close>.
\<close>

unbundle bit_operations_syntax

subsection \<open>Coins and views\<close>

record Coin =
  out :: CTxOut
  fCoinBase :: bool
  coin_nHeight :: nat

definition Coin_init :: "CTxOut \<Rightarrow> int \<Rightarrow> bool \<Rightarrow> Coin" where
  "Coin_init outIn nHeightIn fCoinBaseIn = \<lparr>out = outIn, fCoinBase = fCoinBaseIn, coin_nHeight = nat (nHeightIn mod 2 ^ 31)\<rparr>"

definition coinEmpty :: Coin where
  "coinEmpty = \<lparr>out = CTxOut_null, fCoinBase = False, coin_nHeight = 0\<rparr>"

definition IsSpent :: "Coin \<Rightarrow> bool" where
  "IsSpent c \<longleftrightarrow> CTxOut_IsNull (out c)"

record CCoinsCacheEntry =
  ce_coin :: Coin
  ce_flags :: u8

definition DIRTY :: u8 where "DIRTY = push_bit 0 1"
definition FRESH :: u8 where "FRESH = push_bit 1 1"

type_synonym CCoinsMap = "(COutPoint \<times> CCoinsCacheEntry) list"

record 'v CCoinsView =
  view_GetCoin :: "COutPoint \<Rightarrow> 'v \<Rightarrow> Coin option \<times> 'v"
  view_GetBestBlock :: "'v \<Rightarrow> bytes \<times> 'v"
  view_BatchWrite :: "CCoinsMap \<Rightarrow> bytes \<Rightarrow> 'v \<Rightarrow> (bool \<times> 'v) option"

record 'v CCoinsViewCache =
  cc_base :: 'v
  cc_hashBlock :: bytes
  cacheCoins :: CCoinsMap

definition CCoinsViewCache_init :: "'v \<Rightarrow> 'v CCoinsViewCache" where
  "CCoinsViewCache_init baseIn = \<lparr>cc_base = baseIn, cc_hashBlock = replicate 32 0, cacheCoins = []\<rparr>"

subsection \<open>The cache\<close>

definition FetchCoin ::
  "'v CCoinsView \<Rightarrow> COutPoint \<Rightarrow> 'v CCoinsViewCache \<Rightarrow> CCoinsCacheEntry option \<times> 'v CCoinsViewCache" where
  "FetchCoin V outpoint c =
     (case map_of (cacheCoins c) outpoint of
        Some it \<Rightarrow> (Some it, c)
      | None \<Rightarrow>
          (case view_GetCoin V outpoint (cc_base c) of
             (None, b) \<Rightarrow> (None, c\<lparr>cc_base := b\<rparr>)
           | (Some tmp, b) \<Rightarrow>
               let it = \<lparr>ce_coin = tmp, ce_flags = (if IsSpent tmp then FRESH else 0)\<rparr>
               in (Some it, c\<lparr>cc_base := b, cacheCoins := AList.update outpoint it (cacheCoins c)\<rparr>)))"

definition GetCoin :: "'v CCoinsView \<Rightarrow> COutPoint \<Rightarrow> 'v CCoinsViewCache \<Rightarrow> Coin option \<times> 'v CCoinsViewCache" where
  "GetCoin V outpoint c = (case FetchCoin V outpoint c of (it, c) \<Rightarrow> (map_option ce_coin it, c))"

definition AddCoin :: "COutPoint \<Rightarrow> Coin \<Rightarrow> bool \<Rightarrow> 'v CCoinsViewCache \<Rightarrow> 'v CCoinsViewCache option" where
  "AddCoin outpoint coin possible_overwrite c =
     (if IsSpent coin then None
      else if IsUnspendable (scriptPubKey (out coin)) then Some c
      else
        let it = (case map_of (cacheCoins c) outpoint of Some it \<Rightarrow> it | None \<Rightarrow> \<lparr>ce_coin = coinEmpty, ce_flags = 0\<rparr>)
        in if \<not> possible_overwrite \<and> \<not> IsSpent (ce_coin it) then None
           else
             let fresh = (if \<not> possible_overwrite then ce_flags it AND DIRTY = 0 else False);
                 it = \<lparr>ce_coin = coin, ce_flags = ce_flags it OR (DIRTY OR (if fresh then FRESH else 0))\<rparr>
             in Some (c\<lparr>cacheCoins := AList.update outpoint it (cacheCoins c)\<rparr>))"

fun AddCoins_loop :: "bytes \<Rightarrow> int \<Rightarrow> bool \<Rightarrow> nat \<Rightarrow> CTxOut list \<Rightarrow> 'v CCoinsViewCache \<Rightarrow> 'v CCoinsViewCache option" where
  "AddCoins_loop txid nHeight cb i [] c = Some c"
| "AddCoins_loop txid nHeight cb i (t # ts) c =
     (case AddCoin \<lparr>op_hash = txid, op_n = of_nat i\<rparr> (Coin_init t nHeight cb) cb c of
        None \<Rightarrow> None
      | Some c \<Rightarrow> AddCoins_loop txid nHeight cb (Suc i) ts c)"

definition AddCoins :: "CTransaction \<Rightarrow> int \<Rightarrow> 'v CCoinsViewCache \<Rightarrow> 'v CCoinsViewCache option" where
  "AddCoins tx nHeight c = AddCoins_loop (tx_GetHash tx) nHeight (IsCoinBase tx) 0 (vout tx) c"

text \<open>The first result is what \<^verbatim>\<open>*moveout\<close> is assigned, if anything.\<close>

definition SpendCoin :: "'v CCoinsView \<Rightarrow> COutPoint \<Rightarrow> 'v CCoinsViewCache \<Rightarrow> Coin option \<times> 'v CCoinsViewCache" where
  "SpendCoin V outpoint c =
     (case FetchCoin V outpoint c of
        (None, c) \<Rightarrow> (None, c)
      | (Some it, c) \<Rightarrow>
          (Some (ce_coin it),
           if ce_flags it AND FRESH \<noteq> 0 then c\<lparr>cacheCoins := AList.delete outpoint (cacheCoins c)\<rparr>
           else c\<lparr>cacheCoins := AList.update outpoint \<lparr>ce_coin = coinEmpty, ce_flags = ce_flags it OR DIRTY\<rparr> (cacheCoins c)\<rparr>))"

definition AccessCoin :: "'v CCoinsView \<Rightarrow> COutPoint \<Rightarrow> 'v CCoinsViewCache \<Rightarrow> Coin \<times> 'v CCoinsViewCache" where
  "AccessCoin V outpoint c =
     (case FetchCoin V outpoint c of (None, c) \<Rightarrow> (coinEmpty, c) | (Some it, c) \<Rightarrow> (ce_coin it, c))"

definition HaveCoin :: "'v CCoinsView \<Rightarrow> COutPoint \<Rightarrow> 'v CCoinsViewCache \<Rightarrow> bool \<times> 'v CCoinsViewCache" where
  "HaveCoin V outpoint c =
     (case FetchCoin V outpoint c of (None, c) \<Rightarrow> (False, c) | (Some it, c) \<Rightarrow> (\<not> IsSpent (ce_coin it), c))"

definition HaveCoinInCache :: "COutPoint \<Rightarrow> 'v CCoinsViewCache \<Rightarrow> bool" where
  "HaveCoinInCache outpoint c \<longleftrightarrow> map_of (cacheCoins c) outpoint \<noteq> None"

definition GetBestBlock :: "'v CCoinsView \<Rightarrow> 'v CCoinsViewCache \<Rightarrow> bytes \<times> 'v CCoinsViewCache" where
  "GetBestBlock V c =
     (if list_all (\<lambda>b. b = 0) (cc_hashBlock c)
      then (case view_GetBestBlock V (cc_base c) of (h, b) \<Rightarrow> (h, c\<lparr>cc_base := b, cc_hashBlock := h\<rparr>))
      else (cc_hashBlock c, c))"

definition SetBestBlock :: "bytes \<Rightarrow> 'v CCoinsViewCache \<Rightarrow> 'v CCoinsViewCache" where
  "SetBestBlock hashBlockIn c = c\<lparr>cc_hashBlock := hashBlockIn\<rparr>"

definition batch_entry :: "COutPoint \<Rightarrow> CCoinsCacheEntry \<Rightarrow> CCoinsMap \<Rightarrow> CCoinsMap option" where
  "batch_entry p it cc =
     (if ce_flags it AND DIRTY \<noteq> 0 then
        (case map_of cc p of
           None \<Rightarrow>
             if \<not> (ce_flags it AND FRESH \<noteq> 0 \<and> IsSpent (ce_coin it)) then
               Some (AList.update p \<lparr>ce_coin = ce_coin it,
                 ce_flags = (if ce_flags it AND FRESH \<noteq> 0 then DIRTY OR FRESH else DIRTY)\<rparr> cc)
             else Some cc
         | Some itUs \<Rightarrow>
             if ce_flags it AND FRESH \<noteq> 0 \<and> \<not> IsSpent (ce_coin itUs) then None
             else if ce_flags itUs AND FRESH \<noteq> 0 \<and> IsSpent (ce_coin it) then Some (AList.delete p cc)
             else Some (AList.update p \<lparr>ce_coin = ce_coin it, ce_flags = ce_flags itUs OR DIRTY\<rparr> cc))
      else Some cc)"

fun batch_loop :: "CCoinsMap \<Rightarrow> CCoinsMap \<Rightarrow> CCoinsMap option" where
  "batch_loop [] cc = Some cc"
| "batch_loop ((p, it) # m) cc = (case batch_entry p it cc of None \<Rightarrow> None | Some cc \<Rightarrow> batch_loop m cc)"

definition BatchWrite :: "CCoinsMap \<Rightarrow> bytes \<Rightarrow> 'v CCoinsViewCache \<Rightarrow> (bool \<times> 'v CCoinsViewCache) option" where
  "BatchWrite mapCoins hashBlockIn c =
     map_option (\<lambda>cc. (True, c\<lparr>cacheCoins := cc, cc_hashBlock := hashBlockIn\<rparr>)) (batch_loop mapCoins (cacheCoins c))"

definition Flush :: "'v CCoinsView \<Rightarrow> 'v CCoinsViewCache \<Rightarrow> (bool \<times> 'v CCoinsViewCache) option" where
  "Flush V c =
     map_option (\<lambda>(fOk, b). (fOk, c\<lparr>cc_base := b, cacheCoins := []\<rparr>)) (view_BatchWrite V (cacheCoins c) (cc_hashBlock c) (cc_base c))"

definition Uncache :: "COutPoint \<Rightarrow> 'v CCoinsViewCache \<Rightarrow> 'v CCoinsViewCache" where
  "Uncache p c =
     (case map_of (cacheCoins c) p of
        None \<Rightarrow> c
      | Some it \<Rightarrow> if ce_flags it = 0 then c\<lparr>cacheCoins := AList.delete p (cacheCoins c)\<rparr> else c)"

text \<open>A cache is itself a view.\<close>

definition cache_view :: "'v CCoinsView \<Rightarrow> 'v CCoinsViewCache CCoinsView" where
  "cache_view V = \<lparr>view_GetCoin = GetCoin V, view_GetBestBlock = GetBestBlock V, view_BatchWrite = BatchWrite\<rparr>"

subsection \<open>The coin database\<close>

record CCoinsViewDB =
  db_coins :: "COutPoint \<rightharpoonup> Coin"
  db_best :: "bytes option"

definition db_GetCoin :: "COutPoint \<Rightarrow> CCoinsViewDB \<Rightarrow> Coin option \<times> CCoinsViewDB" where
  "db_GetCoin outpoint d = (db_coins d outpoint, d)"

definition db_GetBestBlock :: "CCoinsViewDB \<Rightarrow> bytes \<times> CCoinsViewDB" where
  "db_GetBestBlock d = (case db_best d of None \<Rightarrow> replicate 32 0 | Some h \<Rightarrow> h, d)"

fun db_batch :: "CCoinsMap \<Rightarrow> (COutPoint \<rightharpoonup> Coin) \<Rightarrow> (COutPoint \<rightharpoonup> Coin)" where
  "db_batch [] db = db"
| "db_batch ((p, it) # m) db =
     db_batch m (if ce_flags it AND DIRTY \<noteq> 0
                 then (if IsSpent (ce_coin it) then db(p := None) else db(p \<mapsto> ce_coin it))
                 else db)"

definition db_BatchWrite :: "CCoinsMap \<Rightarrow> bytes \<Rightarrow> CCoinsViewDB \<Rightarrow> (bool \<times> CCoinsViewDB) option" where
  "db_BatchWrite mapCoins hashBlockIn d =
     Some (True, \<lparr>db_coins = db_batch mapCoins (db_coins d),
       db_best = (if list_all (\<lambda>b. b = 0) hashBlockIn then db_best d else Some hashBlockIn)\<rparr>)"

definition db_view :: "CCoinsViewDB CCoinsView" where
  "db_view = \<lparr>view_GetCoin = db_GetCoin, view_GetBestBlock = db_GetBestBlock, view_BatchWrite = db_BatchWrite\<rparr>"

subsection \<open>Flags\<close>

lemma flag_simps [simp]:
  "DIRTY \<noteq> 0" "FRESH \<noteq> 0" "FRESH AND DIRTY = 0" "DIRTY AND FRESH = 0"
  "(DIRTY OR FRESH) AND DIRTY \<noteq> 0" "(DIRTY OR FRESH) AND FRESH \<noteq> 0"
  by (simp_all add: DIRTY_def FRESH_def)

lemma flag_or [simp]: "(f OR DIRTY) AND DIRTY \<noteq> 0" "(f OR DIRTY) AND FRESH = f AND FRESH"
  "(f OR (DIRTY OR g)) AND DIRTY \<noteq> 0" "(f OR (DIRTY OR FRESH)) AND FRESH \<noteq> 0"
  by (simp_all add: bit.conj_disj_distrib2 bit.disj_conj_distrib)

subsection \<open>What a view promises\<close>

text \<open>
  The abstract state of a view is the map of its unspent coins. Entries lie over the coins below them; writing
  a batch replaces the coins of its dirty entries, and may rely on fresh entries being absent below.
\<close>

type_synonym utxo_set = "COutPoint \<rightharpoonup> Coin"

definition unspent :: "Coin \<Rightarrow> Coin option" where
  "unspent c = (if IsSpent c then None else Some c)"

definition layered :: "CCoinsMap \<Rightarrow> utxo_set \<Rightarrow> utxo_set" where
  "layered cc u p = (case map_of cc p of None \<Rightarrow> u p | Some e \<Rightarrow> unspent (ce_coin e))"

definition cc_ok :: "CCoinsMap \<Rightarrow> utxo_set \<Rightarrow> bool" where
  "cc_ok cc u \<longleftrightarrow> distinct (map fst cc) \<and> (\<forall>p e. map_of cc p = Some e \<longrightarrow>
     (ce_flags e AND FRESH \<noteq> 0 \<longrightarrow> u p = None) \<and> (ce_flags e AND DIRTY = 0 \<longrightarrow> u p = unspent (ce_coin e)))"

definition writable :: "CCoinsMap \<Rightarrow> utxo_set \<Rightarrow> bool" where
  "writable m u \<longleftrightarrow> distinct (map fst m) \<and>
     (\<forall>p e. map_of m p = Some e \<longrightarrow> ce_flags e AND DIRTY \<noteq> 0 \<longrightarrow> ce_flags e AND FRESH \<noteq> 0 \<longrightarrow> u p = None)"

definition written :: "CCoinsMap \<Rightarrow> utxo_set \<Rightarrow> utxo_set" where
  "written m u p = (case map_of m p of Some e \<Rightarrow> if ce_flags e AND DIRTY \<noteq> 0 then unspent (ce_coin e) else u p | None \<Rightarrow> u p)"

locale coins_view =
  fixes V :: "'v CCoinsView" and utxo :: "'v \<Rightarrow> utxo_set" and vok :: "'v \<Rightarrow> bool"
  assumes get: "vok v \<Longrightarrow> view_GetCoin V p v = (r, v') \<Longrightarrow> vok v' \<and> utxo v' = utxo v \<and> utxo v p = Option.bind r unspent"
    and best: "vok v \<Longrightarrow> view_GetBestBlock V v = (h, v') \<Longrightarrow> vok v' \<and> utxo v' = utxo v"
    and batch: "vok v \<Longrightarrow> writable m (utxo v) \<Longrightarrow>
      \<exists>v'. view_BatchWrite V m hb v = Some (True, v') \<and> vok v' \<and> utxo v' = written m (utxo v)"

definition cache_utxo :: "('v \<Rightarrow> utxo_set) \<Rightarrow> 'v CCoinsViewCache \<Rightarrow> utxo_set" where
  "cache_utxo utxo c = layered (cacheCoins c) (utxo (cc_base c))"

definition cache_inv :: "('v \<Rightarrow> utxo_set) \<Rightarrow> ('v \<Rightarrow> bool) \<Rightarrow> 'v CCoinsViewCache \<Rightarrow> bool" where
  "cache_inv utxo vok c \<longleftrightarrow> vok (cc_base c) \<and> cc_ok (cacheCoins c) (utxo (cc_base c))"

lemma unspent_Some: "unspent c = Some d \<longleftrightarrow> c = d \<and> \<not> IsSpent d"
  by (auto simp: unspent_def)

lemma coinEmpty_spent [simp]: "IsSpent coinEmpty" "unspent coinEmpty = None"
  by (simp_all add: IsSpent_def coinEmpty_def CTxOut_IsNull_def CTxOut_null_def unspent_def)

lemma cc_ok_written: "cc_ok cc u \<Longrightarrow> writable cc u \<and> written cc u = layered cc u"
  by (auto simp: cc_ok_def writable_def written_def layered_def fun_eq_iff split: option.splits)

lemma cc_ok_update:
  assumes "cc_ok cc u" and "ce_flags e AND FRESH \<noteq> 0 \<Longrightarrow> u p = None"
    and "ce_flags e AND DIRTY = 0 \<Longrightarrow> u p = unspent (ce_coin e)"
  shows "cc_ok (AList.update p e cc) u" and "layered (AList.update p e cc) u = (layered cc u)(p := unspent (ce_coin e))"
  using assms by (auto simp: cc_ok_def layered_def update_conv' distinct_update fun_eq_iff)

lemma cc_ok_delete:
  assumes "cc_ok cc u"
  shows "cc_ok (AList.delete p cc) u" and "layered (AList.delete p cc) u = (layered cc u)(p := u p)"
  using assms by (auto simp: cc_ok_def layered_def delete_conv' distinct_delete fun_eq_iff)

lemma batch_entry_ok:
  assumes "cc_ok cc u" and "ce_flags it AND DIRTY \<noteq> 0 \<Longrightarrow> ce_flags it AND FRESH \<noteq> 0 \<Longrightarrow> layered cc u p = None"
  shows "\<exists>cc'. batch_entry p it cc = Some cc' \<and> cc_ok cc' u \<and>
    layered cc' u = (if ce_flags it AND DIRTY \<noteq> 0 then (layered cc u)(p := unspent (ce_coin it)) else layered cc u)"
proof (cases "ce_flags it AND DIRTY \<noteq> 0")
  case dirty: True
  show ?thesis
  proof (cases "map_of cc p")
    case None
    then have p: "layered cc u p = u p" by (simp add: layered_def)
    let ?e = "\<lparr>ce_coin = ce_coin it, ce_flags = (if ce_flags it AND FRESH \<noteq> 0 then DIRTY OR FRESH else DIRTY)\<rparr>"
    have "cc_ok (AList.update p ?e cc) u"
      "layered (AList.update p ?e cc) u = (layered cc u)(p := unspent (ce_coin it))"
      using cc_ok_update [OF assms(1), of ?e p] assms(2) dirty p by (auto split: if_splits)
    moreover have "(layered cc u)(p := unspent (ce_coin it)) = layered cc u"
      if "ce_flags it AND FRESH \<noteq> 0" "IsSpent (ce_coin it)"
      using assms(2) [OF dirty that(1)] that(2) by (simp add: unspent_def fun_upd_idem)
    ultimately show ?thesis
      using dirty assms(1) by (simp add: batch_entry_def None)
  next
    case (Some itUs)
    have p: "layered cc u p = unspent (ce_coin itUs)" "ce_flags itUs AND FRESH \<noteq> 0 \<Longrightarrow> u p = None"
      using Some assms(1) by (auto simp: layered_def cc_ok_def)
    have "\<not> (ce_flags it AND FRESH \<noteq> 0 \<and> \<not> IsSpent (ce_coin itUs))"
      using assms(2) dirty p(1) by (auto simp: unspent_def split: if_splits)
    then show ?thesis
      using dirty p(2) cc_ok_update [OF assms(1), of "\<lparr>ce_coin = ce_coin it, ce_flags = ce_flags itUs OR DIRTY\<rparr>" p]
        cc_ok_delete [OF assms(1), of p]
      by (auto simp: batch_entry_def Some unspent_def)
  qed
qed (use assms(1) in \<open>simp add: batch_entry_def\<close>)

lemma written_Cons:
  "p \<notin> fst ` set m \<Longrightarrow> written ((p, it) # m) u =
     written m (if ce_flags it AND DIRTY \<noteq> 0 then u(p := unspent (ce_coin it)) else u)"
  by (auto simp: written_def fun_eq_iff map_of_eq_None_iff [symmetric] split: option.splits)

lemma writable_Cons:
  assumes "writable ((p, it) # m) u"
  shows "p \<notin> fst ` set m" and "ce_flags it AND DIRTY \<noteq> 0 \<Longrightarrow> ce_flags it AND FRESH \<noteq> 0 \<Longrightarrow> u p = None"
    and "writable m (u(p := x))" and "writable m u"
proof -
  show p: "p \<notin> fst ` set m" using assms by (auto simp: writable_def)
  then have "map_of m q = Some e \<Longrightarrow> q \<noteq> p" for q e
    by (metis map_of_SomeD fst_conv image_eqI)
  then show "ce_flags it AND DIRTY \<noteq> 0 \<Longrightarrow> ce_flags it AND FRESH \<noteq> 0 \<Longrightarrow> u p = None" "writable m (u(p := x))" "writable m u"
    using assms by (auto simp: writable_def split: if_splits)
qed

lemma batch_loop_ok:
  assumes "cc_ok cc u" and "writable m (layered cc u)"
  shows "\<exists>cc'. batch_loop m cc = Some cc' \<and> cc_ok cc' u \<and> layered cc' u = written m (layered cc u)"
  using assms
proof (induction m arbitrary: cc)
  case Nil
  then show ?case by (simp add: written_def fun_eq_iff)
next
  case (Cons x m)
  obtain p it where x: "x = (p, it)" by (cases x)
  note w = writable_Cons [OF Cons.prems(2) [unfolded x]]
  obtain cc1 where cc1: "batch_entry p it cc = Some cc1" "cc_ok cc1 u"
    "layered cc1 u = (if ce_flags it AND DIRTY \<noteq> 0 then (layered cc u)(p := unspent (ce_coin it)) else layered cc u)"
    using batch_entry_ok [OF Cons.prems(1) w(2)] by auto
  have "writable m (layered cc1 u)"
    using w(3) [of "unspent (ce_coin it)"] w(4) by (simp add: cc1(3))
  from Cons.IH [OF cc1(2) this] show ?case
    by (auto simp: x cc1(1,3) written_Cons [OF w(1)])
qed

context coins_view begin

lemma fetch:
  assumes "cache_inv utxo vok c" and "FetchCoin V p c = (r, c')"
  shows "cache_inv utxo vok c'" and "cache_utxo utxo c' = cache_utxo utxo c" and "map_of (cacheCoins c') p = r"
    and "cache_utxo utxo c p = Option.bind r (\<lambda>e. unspent (ce_coin e))"
proof -
  have ok: "vok (cc_base c)" "cc_ok (cacheCoins c) (utxo (cc_base c))"
    using assms(1) by (auto simp: cache_inv_def)
  have "cache_inv utxo vok c' \<and> cache_utxo utxo c' = cache_utxo utxo c \<and> map_of (cacheCoins c') p = r \<and>
    cache_utxo utxo c p = Option.bind r (\<lambda>e. unspent (ce_coin e))"
  proof (cases "map_of (cacheCoins c) p")
    case None
    obtain g b where g: "view_GetCoin V p (cc_base c) = (g, b)" by fastforce
    note law = get [OF ok(1) g]
    show ?thesis
    proof (cases g)
      case None
      with \<open>map_of (cacheCoins c) p = None\<close> assms(2) g law ok show ?thesis
        by (auto simp: FetchCoin_def cache_inv_def cache_utxo_def layered_def)
    next
      case (Some tmp)
      let ?e = "\<lparr>ce_coin = tmp, ce_flags = if IsSpent tmp then FRESH else 0\<rparr>"
      have "cc_ok (AList.update p ?e (cacheCoins c)) (utxo (cc_base c))"
        "layered (AList.update p ?e (cacheCoins c)) (utxo (cc_base c)) =
          (layered (cacheCoins c) (utxo (cc_base c)))(p := unspent tmp)"
        using cc_ok_update [OF ok(2), of ?e p] law by (auto simp: Some unspent_def split: if_splits)
      moreover have "layered (cacheCoins c) (utxo (cc_base c)) p = unspent tmp"
        using law by (simp add: layered_def None Some)
      ultimately show ?thesis
        using None Some assms(2) g law
        by (auto simp: FetchCoin_def cache_inv_def cache_utxo_def Let_def update_conv' fun_upd_idem)
    qed
  next
    case (Some e)
    with assms(2) have "r = Some e" "c' = c" by (auto simp: FetchCoin_def)
    with Some assms(1) show ?thesis by (simp add: cache_utxo_def layered_def)
  qed
  then show "cache_inv utxo vok c'" "cache_utxo utxo c' = cache_utxo utxo c" "map_of (cacheCoins c') p = r"
    "cache_utxo utxo c p = Option.bind r (\<lambda>e. unspent (ce_coin e))" by simp_all
qed

lemma cache_entry:
  assumes "cache_inv utxo vok c" and "map_of (cacheCoins c) p = Some e"
  shows "ce_flags e AND FRESH \<noteq> 0 \<Longrightarrow> utxo (cc_base c) p = None"
    and "ce_flags e AND DIRTY = 0 \<Longrightarrow> utxo (cc_base c) p = unspent (ce_coin e)"
    and "cache_utxo utxo c p = unspent (ce_coin e)"
  using assms by (auto simp: cache_inv_def cc_ok_def cache_utxo_def layered_def)

lemma cache_update:
  assumes "cache_inv utxo vok c" and "ce_flags e AND FRESH \<noteq> 0 \<Longrightarrow> utxo (cc_base c) p = None"
    and "ce_flags e AND DIRTY \<noteq> 0"
  shows "cache_inv utxo vok (c\<lparr>cacheCoins := AList.update p e (cacheCoins c)\<rparr>)"
    and "cache_utxo utxo (c\<lparr>cacheCoins := AList.update p e (cacheCoins c)\<rparr>) = (cache_utxo utxo c)(p := unspent (ce_coin e))"
  using assms cc_ok_update [of "cacheCoins c" "utxo (cc_base c)" e p] by (auto simp: cache_inv_def cache_utxo_def)

lemma cache_delete:
  assumes "cache_inv utxo vok c"
  shows "cache_inv utxo vok (c\<lparr>cacheCoins := AList.delete p (cacheCoins c)\<rparr>)"
    and "cache_utxo utxo (c\<lparr>cacheCoins := AList.delete p (cacheCoins c)\<rparr>) = (cache_utxo utxo c)(p := utxo (cc_base c) p)"
  using assms cc_ok_delete [of "cacheCoins c" "utxo (cc_base c)" p] by (auto simp: cache_inv_def cache_utxo_def)

text \<open>Reading answers from the map.\<close>

lemma access:
  assumes "cache_inv utxo vok c" and "AccessCoin V p c = (coin, c')"
  shows "cache_inv utxo vok c' \<and> cache_utxo utxo c' = cache_utxo utxo c \<and> cache_utxo utxo c p = unspent coin"
proof -
  obtain it c1 where f: "FetchCoin V p c = (it, c1)" by fastforce
  with fetch [OF assms(1) f] assms(2) show ?thesis by (cases it) (auto simp: AccessCoin_def)
qed

lemma have_coin:
  assumes "cache_inv utxo vok c" and "HaveCoin V p c = (b, c')"
  shows "cache_inv utxo vok c' \<and> cache_utxo utxo c' = cache_utxo utxo c \<and> b = (cache_utxo utxo c p \<noteq> None)"
proof -
  obtain it c1 where f: "FetchCoin V p c = (it, c1)" by fastforce
  with fetch [OF assms(1) f] assms(2) show ?thesis by (cases it) (auto simp: HaveCoin_def unspent_def)
qed

text \<open>Spending removes the coin and yields it.\<close>

lemma spend:
  assumes "cache_inv utxo vok c" and "SpendCoin V p c = (r, c')"
  shows "cache_inv utxo vok c'" and "cache_utxo utxo c' = (cache_utxo utxo c)(p := None)"
    and "cache_utxo utxo c p = Option.bind r unspent"
proof -
  obtain it c1 where f: "FetchCoin V p c = (it, c1)" by fastforce
  note law = fetch [OF assms(1) f]
  have "cache_inv utxo vok c' \<and> cache_utxo utxo c' = (cache_utxo utxo c)(p := None) \<and> cache_utxo utxo c p = Option.bind r unspent"
  proof (cases it)
    case None
    with assms(2) f law show ?thesis by (auto simp: SpendCoin_def fun_upd_idem)
  next
    case (Some e)
    note en = cache_entry [OF law(1) law(3) [unfolded Some]]
    show ?thesis
    proof (cases "ce_flags e AND FRESH \<noteq> 0")
      case True
      with assms(2) f Some law(4) have "r = Some (ce_coin e)" "c' = c1\<lparr>cacheCoins := AList.delete p (cacheCoins c1)\<rparr>"
        by (auto simp: SpendCoin_def)
      with cache_delete [OF law(1), of p] en(1) True law(2,4) Some show ?thesis by simp
    next
      case False
      let ?e = "\<lparr>ce_coin = coinEmpty, ce_flags = ce_flags e OR DIRTY\<rparr>"
      from False assms(2) f Some have "r = Some (ce_coin e)" "c' = c1\<lparr>cacheCoins := AList.update p ?e (cacheCoins c1)\<rparr>"
        by (auto simp: SpendCoin_def)
      with cache_update [OF law(1), of ?e p] False law(2,4) Some show ?thesis by simp
    qed
  qed
  then show "cache_inv utxo vok c'" "cache_utxo utxo c' = (cache_utxo utxo c)(p := None)" "cache_utxo utxo c p = Option.bind r unspent"
    by simp_all
qed

text \<open>Adding stores the coin, unless it can never be spent.\<close>

lemma add:
  assumes "cache_inv utxo vok c" and "\<not> IsSpent coin" and "overwrite \<or> cache_utxo utxo c p = None"
  shows "\<exists>c'. AddCoin p coin overwrite c = Some c' \<and> cache_inv utxo vok c' \<and>
    cache_utxo utxo c' = (if IsUnspendable (scriptPubKey (out coin)) then cache_utxo utxo c else (cache_utxo utxo c)(p \<mapsto> coin))"
proof (cases "IsUnspendable (scriptPubKey (out coin))")
  case True
  then show ?thesis using assms by (simp add: AddCoin_def)
next
  case False
  define it where "it = (case map_of (cacheCoins c) p of Some it \<Rightarrow> it | None \<Rightarrow> \<lparr>ce_coin = coinEmpty, ce_flags = 0\<rparr>)"
  define fresh where "fresh = (if \<not> overwrite then ce_flags it AND DIRTY = 0 else False)"
  let ?e = "\<lparr>ce_coin = coin, ce_flags = ce_flags it OR (DIRTY OR (if fresh then FRESH else 0))\<rparr>"
  have spent: "overwrite \<or> IsSpent (ce_coin it)"
    using assms(3) by (auto simp: it_def cache_utxo_def layered_def unspent_def split: option.splits if_splits)
  have none: "utxo (cc_base c) p = None" if "ce_flags ?e AND FRESH \<noteq> 0"
  proof (cases "map_of (cacheCoins c) p")
    case None
    then have "\<not> overwrite" using that by (auto simp: it_def fresh_def split: if_splits)
    with None assms(3) show ?thesis by (simp add: cache_utxo_def layered_def)
  next
    case (Some e)
    note en = cache_entry [OF assms(1) Some]
    show ?thesis
    proof (cases fresh)
      case True
      then have "\<not> overwrite" "ce_flags e AND DIRTY = 0" by (auto simp: fresh_def it_def Some split: if_splits)
      then show ?thesis using en(2) spent by (simp add: it_def Some unspent_def)
    next
      case False
      then show ?thesis using that en(1) by (simp add: it_def Some)
    qed
  qed
  have "AddCoin p coin overwrite c = Some (c\<lparr>cacheCoins := AList.update p ?e (cacheCoins c)\<rparr>)"
    using assms(2) False spent by (auto simp: AddCoin_def Let_def it_def fresh_def)
  then show ?thesis
    using cache_update [OF assms(1), of ?e p] none False assms(2) by (simp add: unspent_def)
qed

lemma uncache:
  assumes "cache_inv utxo vok c"
  shows "cache_inv utxo vok (Uncache p c) \<and> cache_utxo utxo (Uncache p c) = cache_utxo utxo c"
proof (cases "map_of (cacheCoins c) p")
  case (Some e)
  then show ?thesis
    using assms cache_delete [OF assms, of p] cache_entry [OF assms Some] by (simp add: Uncache_def fun_upd_idem)
qed (use assms in \<open>simp add: Uncache_def\<close>)

lemma best_block:
  assumes "cache_inv utxo vok c" and "GetBestBlock V c = (h, c')"
  shows "cache_inv utxo vok c' \<and> cache_utxo utxo c' = cache_utxo utxo c"
  using assms best by (fastforce simp: GetBestBlock_def cache_inv_def cache_utxo_def split: if_splits prod.splits)

text \<open>Flushing moves the whole layer into the view below.\<close>

lemma flush:
  assumes "cache_inv utxo vok c"
  shows "\<exists>c'. Flush V c = Some (True, c') \<and> cache_inv utxo vok c' \<and> cache_utxo utxo c' = cache_utxo utxo c \<and>
    utxo (cc_base c') = cache_utxo utxo c"
proof -
  have ok: "vok (cc_base c)" "cc_ok (cacheCoins c) (utxo (cc_base c))"
    using assms by (auto simp: cache_inv_def)
  obtain b where b: "view_BatchWrite V (cacheCoins c) (cc_hashBlock c) (cc_base c) = Some (True, b)" "vok b"
      "utxo b = written (cacheCoins c) (utxo (cc_base c))"
    using batch [OF ok(1), of "cacheCoins c" "cc_hashBlock c"] cc_ok_written [OF ok(2)] by blast
  have "cc_ok [] u" "layered [] u = u" for u by (simp_all add: cc_ok_def layered_def fun_eq_iff)
  then show ?thesis
    using b cc_ok_written [OF ok(2)] by (simp add: Flush_def cache_inv_def cache_utxo_def)
qed

text \<open>The promises hold again one layer up.\<close>

lemma cache_is_view: "coins_view (cache_view V) (cache_utxo utxo) (cache_inv utxo vok)"
proof
  fix v p r v'
  assume v: "cache_inv utxo vok v" and "view_GetCoin (cache_view V) p v = (r, v')"
  then obtain it where f: "FetchCoin V p v = (it, v')" "r = map_option ce_coin it"
    by (auto simp: cache_view_def GetCoin_def split: prod.splits)
  with fetch [OF v f(1)] show "cache_inv utxo vok v' \<and> cache_utxo utxo v' = cache_utxo utxo v \<and>
      cache_utxo utxo v p = Option.bind r unspent"
    by (cases it) simp_all
next
  fix v h v'
  assume "cache_inv utxo vok v" and "view_GetBestBlock (cache_view V) v = (h, v')"
  then show "cache_inv utxo vok v' \<and> cache_utxo utxo v' = cache_utxo utxo v"
    using best_block by (simp add: cache_view_def)
next
  fix v m hb
  assume "cache_inv utxo vok v" and "writable m (cache_utxo utxo v)"
  then show "\<exists>v'. view_BatchWrite (cache_view V) m hb v = Some (True, v') \<and> cache_inv utxo vok v' \<and>
      cache_utxo utxo v' = written m (cache_utxo utxo v)"
    using batch_loop_ok [of "cacheCoins v" "utxo (cc_base v)" m]
    by (auto simp: cache_view_def BatchWrite_def cache_inv_def cache_utxo_def)
qed

end

subsection \<open>The layers of the node\<close>

definition db_inv :: "CCoinsViewDB \<Rightarrow> bool" where
  "db_inv d \<longleftrightarrow> (\<forall>p c. db_coins d p = Some c \<longrightarrow> \<not> IsSpent c)"

lemma db_batch_written: "distinct (map fst m) \<Longrightarrow> db_batch m u = written m u"
proof (induction m arbitrary: u)
  case Nil
  then show ?case by (simp add: written_def fun_eq_iff)
next
  case (Cons x m)
  obtain p it where x: "x = (p, it)" by (cases x)
  with Cons show ?case
    by (auto simp: written_Cons unspent_def)
qed

interpretation db: coins_view db_view db_coins db_inv
proof
  fix v :: CCoinsViewDB and p r v'
  assume "db_inv v" and "view_GetCoin db_view p v = (r, v')"
  then show "db_inv v' \<and> db_coins v' = db_coins v \<and> db_coins v p = Option.bind r unspent"
    by (cases r) (auto simp: db_view_def db_GetCoin_def db_inv_def unspent_def)
next
  fix v :: CCoinsViewDB and h v'
  assume "db_inv v" and "view_GetBestBlock db_view v = (h, v')"
  then show "db_inv v' \<and> db_coins v' = db_coins v"
    by (auto simp: db_view_def db_GetBestBlock_def)
next
  fix v :: CCoinsViewDB and m hb
  assume "db_inv v" and "writable m (db_coins v)"
  then show "\<exists>v'. view_BatchWrite db_view m hb v = Some (True, v') \<and> db_inv v' \<and> db_coins v' = written m (db_coins v)"
    by (auto simp: db_view_def db_BatchWrite_def db_batch_written writable_def db_inv_def written_def unspent_def
      split: option.splits if_splits)
qed

text \<open>\<^verbatim>\<open>pcoinsTip\<close> lies over the database, and a block is connected in a cache over \<^verbatim>\<open>pcoinsTip\<close>.\<close>

abbreviation tip_view :: "CCoinsViewDB CCoinsViewCache CCoinsView" where "tip_view \<equiv> cache_view db_view"
abbreviation tip_utxo :: "CCoinsViewDB CCoinsViewCache \<Rightarrow> utxo_set" where "tip_utxo \<equiv> cache_utxo db_coins"
abbreviation tip_inv :: "CCoinsViewDB CCoinsViewCache \<Rightarrow> bool" where "tip_inv \<equiv> cache_inv db_coins db_inv"

interpretation tip: coins_view tip_view tip_utxo tip_inv
  by (rule db.cache_is_view)

interpretation child: coins_view "cache_view tip_view" "cache_utxo tip_utxo" "cache_inv tip_utxo tip_inv"
  by (rule tip.cache_is_view)

subsection \<open>Sequences of operations\<close>

datatype coins_op = OpGet COutPoint | OpAdd COutPoint Coin bool | OpSpend COutPoint | OpUncache COutPoint | OpBest | OpSetBest bytes

fun run_op :: "'v CCoinsView \<Rightarrow> coins_op \<Rightarrow> 'v CCoinsViewCache \<Rightarrow> 'v CCoinsViewCache option" where
  "run_op V (OpGet p) c = Some (snd (GetCoin V p c))"
| "run_op V (OpAdd p coin overwrite) c = AddCoin p coin overwrite c"
| "run_op V (OpSpend p) c = Some (snd (SpendCoin V p c))"
| "run_op V (OpUncache p) c = Some (Uncache p c)"
| "run_op V OpBest c = Some (snd (GetBestBlock V c))"
| "run_op V (OpSetBest h) c = Some (SetBestBlock h c)"

fun run_ops :: "'v CCoinsView \<Rightarrow> coins_op list \<Rightarrow> 'v CCoinsViewCache \<Rightarrow> 'v CCoinsViewCache option" where
  "run_ops V [] c = Some c"
| "run_ops V (oper # ops) c = (case run_op V oper c of None \<Rightarrow> None | Some c \<Rightarrow> run_ops V ops c)"

fun utxo_op :: "coins_op \<Rightarrow> utxo_set \<Rightarrow> utxo_set" where
  "utxo_op (OpAdd p coin overwrite) u = (if IsUnspendable (scriptPubKey (out coin)) then u else u(p \<mapsto> coin))"
| "utxo_op (OpSpend p) u = u(p := None)"
| "utxo_op _ u = u"

fun legal_ops :: "coins_op list \<Rightarrow> utxo_set \<Rightarrow> bool" where
  "legal_ops [] u \<longleftrightarrow> True"
| "legal_ops (oper # ops) u \<longleftrightarrow>
     (case oper of OpAdd p coin overwrite \<Rightarrow> \<not> IsSpent coin \<and> (overwrite \<or> u p = None) | _ \<Rightarrow> True) \<and> legal_ops ops (utxo_op oper u)"

context coins_view begin

lemma run_op_refines:
  assumes "cache_inv utxo vok c" and "legal_ops [oper] (cache_utxo utxo c)"
  shows "\<exists>c'. run_op V oper c = Some c' \<and> cache_inv utxo vok c' \<and> cache_utxo utxo c' = utxo_op oper (cache_utxo utxo c)"
proof (cases oper)
  case (OpGet p)
  obtain r c1 where f: "FetchCoin V p c = (r, c1)" by fastforce
  with fetch [OF assms(1) f] OpGet show ?thesis by (simp add: GetCoin_def)
next
  case (OpAdd p coin overwrite)
  with assms add [OF assms(1), of coin overwrite p] show ?thesis by auto
next
  case (OpSpend p)
  obtain r c1 where f: "SpendCoin V p c = (r, c1)" by fastforce
  with spend [OF assms(1) f] OpSpend show ?thesis by simp
next
  case OpBest
  obtain h c1 where f: "GetBestBlock V c = (h, c1)" by fastforce
  with best_block [OF assms(1) f] OpBest show ?thesis by simp
qed (use assms uncache in \<open>auto simp: SetBestBlock_def cache_inv_def cache_utxo_def\<close>)

lemma run_ops_refines:
  assumes "cache_inv utxo vok c" and "legal_ops ops (cache_utxo utxo c)"
  shows "\<exists>c'. run_ops V ops c = Some c' \<and> cache_inv utxo vok c' \<and> cache_utxo utxo c' = fold utxo_op ops (cache_utxo utxo c)"
  using assms
proof (induction ops arbitrary: c)
  case (Cons oper ops)
  obtain c1 where c1: "run_op V oper c = Some c1" "cache_inv utxo vok c1" "cache_utxo utxo c1 = utxo_op oper (cache_utxo utxo c)"
    using run_op_refines [OF Cons.prems(1), of oper] Cons.prems(2) by auto
  with Cons.IH [OF c1(2)] Cons.prems(2) show ?case by simp
qed simp

end

subsection \<open>Property\<close>

text \<open>
  C4. The layered caches refine one map of unspent outputs. In a cache over \<open>pcoinsTip\<close> over the database, every
  sequence of operations that respects the contract of \<open>AddCoin\<close> runs without exception or failed assertion;
  \<open>HaveCoin\<close> then answers from the map the operations describe; and flushing the cache into \<open>pcoinsTip\<close> and
  \<open>pcoinsTip\<close> into the database succeeds and leaves exactly that map in the database.
\<close>

theorem coins_layers_refine:
  assumes "cache_inv tip_utxo tip_inv c" and "legal_ops ops (cache_utxo tip_utxo c)"
  shows "\<exists>c1 c2 t. run_ops tip_view ops c = Some c1 \<and>
    (fst (HaveCoin tip_view p c1) \<longleftrightarrow> fold utxo_op ops (cache_utxo tip_utxo c) p \<noteq> None) \<and>
    Flush tip_view c1 = Some (True, c2) \<and> Flush db_view (cc_base c2) = Some (True, t) \<and>
    db_coins (cc_base t) = fold utxo_op ops (cache_utxo tip_utxo c)"
proof -
  obtain c1 where c1: "run_ops tip_view ops c = Some c1" "cache_inv tip_utxo tip_inv c1"
      "cache_utxo tip_utxo c1 = fold utxo_op ops (cache_utxo tip_utxo c)"
    using tip.run_ops_refines [OF assms] by auto
  obtain c2 where c2: "Flush tip_view c1 = Some (True, c2)" "cache_inv tip_utxo tip_inv c2" "tip_utxo (cc_base c2) = cache_utxo tip_utxo c1"
    using tip.flush [OF c1(2)] by auto
  obtain t where t: "Flush db_view (cc_base c2) = Some (True, t)" "db_coins (cc_base t) = tip_utxo (cc_base c2)"
    using db.flush [of "cc_base c2"] c2(2) by (auto simp: cache_inv_def)
  have "fst (HaveCoin tip_view p c1) \<longleftrightarrow> cache_utxo tip_utxo c1 p \<noteq> None"
    using tip.have_coin [OF c1(2), of p] by (metis prod.collapse)
  then show ?thesis using c1 c2 t by simp
qed

abbreviation empty_caches :: "CCoinsViewDB CCoinsViewCache CCoinsViewCache" where
  "empty_caches \<equiv> CCoinsViewCache_init (CCoinsViewCache_init \<lparr>db_coins = Map.empty, db_best = None\<rparr>)"

lemma empty_caches_ok: "cache_inv tip_utxo tip_inv empty_caches" "cache_utxo tip_utxo empty_caches = Map.empty"
  by (simp_all add: cache_inv_def cc_ok_def CCoinsViewCache_init_def db_inv_def cache_utxo_def layered_def fun_eq_iff)

abbreviation sample_ops :: "coins_op list" where
  "sample_ops \<equiv> [OpAdd \<lparr>op_hash = [1], op_n = 0\<rparr> (Coin_init \<lparr>nValue = 5, scriptPubKey = [], nRounds = - 10\<rparr> 7 False) False,
    OpSpend \<lparr>op_hash = [1], op_n = 0\<rparr>, OpAdd \<lparr>op_hash = [2], op_n = 1\<rparr> (Coin_init \<lparr>nValue = 3, scriptPubKey = [], nRounds = - 10\<rparr> 8 True) True]"

theorem coins_layers_refine_witness:
  "\<exists>c1 c2 t. run_ops tip_view sample_ops empty_caches = Some c1 \<and>
    (fst (HaveCoin tip_view \<lparr>op_hash = [2], op_n = 1\<rparr> c1) \<longleftrightarrow>
      fold utxo_op sample_ops (cache_utxo tip_utxo empty_caches) \<lparr>op_hash = [2], op_n = 1\<rparr> \<noteq> None) \<and>
    Flush tip_view c1 = Some (True, c2) \<and> Flush db_view (cc_base c2) = Some (True, t) \<and>
    db_coins (cc_base t) = fold utxo_op sample_ops (cache_utxo tip_utxo empty_caches)"
  by (rule coins_layers_refine [OF empty_caches_ok(1)])
    (simp add: empty_caches_ok(2) IsSpent_def Coin_init_def CTxOut_IsNull_def)

end
