(* ===== verification/Signature_Hash.thy ===== *)
theory Signature_Hash
  imports Transaction
begin

text \<open>
  What a signature signs, the rest of \<^verbatim>\<open>script/interpreter.cpp\<close>: the in-place serializer of the legacy
  signature hash, the segregated-witness signature hash with its precomputed parts, and the checker that ties the
  script interpreter to a transaction. ECDSA verification and the low-S test of \<^verbatim>\<open>pubkey.cpp\<close> are parameters of
  the checker. The old signature hash that the unit tests keep in \<^verbatim>\<open>test/sighash_tests.cpp\<close> is the reference.
\<close>

unbundle bit_operations_syntax

subsection \<open>The legacy serializer\<close>

function count_separators :: "bytes \<Rightarrow> nat \<Rightarrow> nat" where
  "count_separators it nCodeSeparators =
     (case GetOp2 it of (ret, it', opcode, _) \<Rightarrow>
        if ret then count_separators it' (if opcode = OP_CODESEPARATOR then nCodeSeparators + 1 else nCodeSeparators)
        else nCodeSeparators)"
  by pat_completeness auto
termination by (relation "measure (\<lambda>(it, n). length it)") (auto dest: GetOp2_True_shorter)

declare count_separators.simps [simp del]

text \<open>Iterators are the bytes that are left; the loop writes the bytes up to each separator and ends with the rest.\<close>

function write_code :: "bytes \<Rightarrow> bytes \<Rightarrow> bytes" where
  "write_code it itBegin =
     (case GetOp2 it of (ret, it', opcode, _) \<Rightarrow>
        if ret then
          (if opcode = OP_CODESEPARATOR then take (length itBegin - length it' - 1) itBegin @ write_code it' it'
           else write_code it' itBegin)
        else if itBegin \<noteq> [] then take (length itBegin - length it') itBegin else [])"
  by pat_completeness auto
termination by (relation "measure (\<lambda>(it, b). length it)") (auto dest: GetOp2_True_shorter)

declare write_code.simps [simp del]

definition SerializeScriptCode :: "CScript \<Rightarrow> bytes" where
  "SerializeScriptCode scriptCode =
     WriteCompactSize (of_nat (length scriptCode - count_separators scriptCode 0)) @ write_code scriptCode scriptCode"

record CTransactionSignatureSerializer =
  ss_txTo :: CTransaction
  ss_scriptCode :: CScript
  ss_nIn :: nat
  fAnyoneCanPay :: bool
  fHashSingle :: bool
  fHashNone :: bool

definition hash_mode :: "u32 \<Rightarrow> int" where
  "hash_mode nHashType = uint (nHashType AND 0x1f)"

definition anyone_can_pay :: "u32 \<Rightarrow> bool" where
  "anyone_can_pay nHashType \<longleftrightarrow> nHashType AND of_int SIGHASH_ANYONECANPAY \<noteq> 0"

definition CTransactionSignatureSerializer_init ::
  "CTransaction \<Rightarrow> CScript \<Rightarrow> nat \<Rightarrow> u32 \<Rightarrow> CTransactionSignatureSerializer" where
  "CTransactionSignatureSerializer_init txTo scriptCode nIn nHashType =
     \<lparr>ss_txTo = txTo, ss_scriptCode = scriptCode, ss_nIn = nIn, fAnyoneCanPay = anyone_can_pay nHashType,
      fHashSingle = (hash_mode nHashType = SIGHASH_SINGLE), fHashNone = (hash_mode nHashType = SIGHASH_NONE)\<rparr>"

definition SerializeInput :: "CTransactionSignatureSerializer \<Rightarrow> nat \<Rightarrow> bytes" where
  "SerializeInput w nInput =
     (let nInput = (if fAnyoneCanPay w then ss_nIn w else nInput);
          i = vin (ss_txTo w) ! nInput
      in COutPoint_Serialize (prevout i) @
         (if nInput \<noteq> ss_nIn w then Serialize_blob [] else SerializeScriptCode (ss_scriptCode w)) @
         (if nInput \<noteq> ss_nIn w \<and> (fHashSingle w \<or> fHashNone w) then ser_writedata32 0 else ser_writedata32 (nSequence i)))"

definition SerializeOutput :: "CTransactionSignatureSerializer \<Rightarrow> nat \<Rightarrow> bytes" where
  "SerializeOutput w nOutput =
     (if fHashSingle w \<and> nOutput \<noteq> ss_nIn w then CTxOut_Serialize CTxOut_null
      else CTxOut_Serialize (vout (ss_txTo w) ! nOutput))"

definition signature_Serialize :: "CTransactionSignatureSerializer \<Rightarrow> bytes" where
  "signature_Serialize w =
     (let txTo = ss_txTo w;
          nInputs = (if fAnyoneCanPay w then 1 else length (vin txTo));
          nOutputs = (if fHashNone w then 0 else if fHashSingle w then ss_nIn w + 1 else length (vout txTo))
      in ser_writedata32 (n32bitVersion txTo) @
         WriteCompactSize (of_nat nInputs) @ concat (map (SerializeInput w) [0..<nInputs]) @
         WriteCompactSize (of_nat nOutputs) @ concat (map (SerializeOutput w) [0..<nOutputs]) @
         ser_writedata32 (nLockTime txTo) @
         (if has_payload (tx_nVersion txTo) (tx_nType txTo) then Serialize_blob (vExtraPayload txTo) else []))"

subsection \<open>Signature hashes\<close>

definition GetPrevoutHash :: "CTransaction \<Rightarrow> bytes" where
  "GetPrevoutHash txTo = hash_of (map (\<lambda>i. COutPoint_Serialize (prevout i)) (vin txTo))"

definition GetSequenceHash :: "CTransaction \<Rightarrow> bytes" where
  "GetSequenceHash txTo = hash_of (map (\<lambda>i. ser_writedata32 (nSequence i)) (vin txTo))"

definition GetOutputsHash :: "CTransaction \<Rightarrow> bytes" where
  "GetOutputsHash txTo = hash_of (map CTxOut_Serialize (vout txTo))"

record PrecomputedTransactionData =
  hashPrevouts :: bytes
  hashSequence :: bytes
  hashOutputs :: bytes

definition PrecomputedTransactionData_init :: "CTransaction \<Rightarrow> PrecomputedTransactionData" where
  "PrecomputedTransactionData_init txTo =
     \<lparr>hashPrevouts = GetPrevoutHash txTo, hashSequence = GetSequenceHash txTo, hashOutputs = GetOutputsHash txTo\<rparr>"

definition witness_hashPrevouts :: "CTransaction \<Rightarrow> u32 \<Rightarrow> PrecomputedTransactionData option \<Rightarrow> bytes" where
  "witness_hashPrevouts txTo nHashType cache =
     (if \<not> anyone_can_pay nHashType then (case cache of Some c \<Rightarrow> hashPrevouts c | None \<Rightarrow> GetPrevoutHash txTo)
      else replicate 32 0)"

definition witness_hashSequence :: "CTransaction \<Rightarrow> u32 \<Rightarrow> PrecomputedTransactionData option \<Rightarrow> bytes" where
  "witness_hashSequence txTo nHashType cache =
     (if \<not> anyone_can_pay nHashType \<and> hash_mode nHashType \<noteq> SIGHASH_SINGLE \<and> hash_mode nHashType \<noteq> SIGHASH_NONE
      then (case cache of Some c \<Rightarrow> hashSequence c | None \<Rightarrow> GetSequenceHash txTo)
      else replicate 32 0)"

definition witness_hashOutputs :: "CTransaction \<Rightarrow> nat \<Rightarrow> u32 \<Rightarrow> PrecomputedTransactionData option \<Rightarrow> bytes" where
  "witness_hashOutputs txTo nIn nHashType cache =
     (if hash_mode nHashType \<noteq> SIGHASH_SINGLE \<and> hash_mode nHashType \<noteq> SIGHASH_NONE
      then (case cache of Some c \<Rightarrow> hashOutputs c | None \<Rightarrow> GetOutputsHash txTo)
      else if hash_mode nHashType = SIGHASH_SINGLE \<and> nIn < length (vout txTo)
      then hash_of [CTxOut_Serialize (vout txTo ! nIn)]
      else replicate 32 0)"

definition uint256_one :: bytes where
  "uint256_one = 1 # replicate 31 0"

text \<open>\<open>None\<close> is an access past the inputs, which the segregated-witness branch does not check.\<close>

definition SignatureHash ::
  "CScript \<Rightarrow> CTransaction \<Rightarrow> nat \<Rightarrow> u32 \<Rightarrow> CAmount \<Rightarrow> SigVersion \<Rightarrow> PrecomputedTransactionData option \<Rightarrow> bytes option" where
  "SignatureHash scriptCode txTo nIn nHashType amount sigversion cache =
     (if sigversion = SIGVERSION_WITNESS_V0 then
        (if nIn \<ge> length (vin txTo) then None
         else Some (hash_of
           [ser_writedata32 (tx_nVersion txTo),
            witness_hashPrevouts txTo nHashType cache,
            witness_hashSequence txTo nHashType cache,
            COutPoint_Serialize (prevout (vin txTo ! nIn)),
            Serialize_blob scriptCode,
            ser_writedata64 (word_of_int amount),
            ser_writedata32 (nSequence (vin txTo ! nIn)),
            witness_hashOutputs txTo nIn nHashType cache,
            ser_writedata32 (nLockTime txTo),
            ser_writedata32 nHashType]))
      else if nIn \<ge> length (vin txTo) then Some uint256_one
      else if hash_mode nHashType = SIGHASH_SINGLE \<and> nIn \<ge> length (vout txTo) then Some uint256_one
      else Some (hash_of
        [signature_Serialize (CTransactionSignatureSerializer_init txTo scriptCode nIn nHashType),
         ser_writedata32 nHashType]))"

subsection \<open>The old signature hash of the unit tests\<close>

definition let_others_update :: "nat \<Rightarrow> CTxIn list \<Rightarrow> CTxIn list" where
  "let_others_update nIn is = map (\<lambda>k. if k \<noteq> nIn then (is ! k)\<lparr>nSequence := 0\<rparr> else is ! k) [0..<length is]"

definition SignatureHashOld :: "CScript \<Rightarrow> CTransaction \<Rightarrow> nat \<Rightarrow> u32 \<Rightarrow> bytes" where
  "SignatureHashOld scriptCode txTo nIn nHashType =
     (if nIn \<ge> length (vin txTo) then uint256_one
      else
        let scriptCode = fst (FindAndDelete scriptCode (push_opcode [] OP_CODESEPARATOR));
            is = map (\<lambda>i. i\<lparr>scriptSig := []\<rparr>) (vin txTo);
            is = is[nIn := (is ! nIn)\<lparr>scriptSig := scriptCode\<rparr>]
        in if hash_mode nHashType = SIGHASH_SINGLE \<and> nIn \<ge> length (vout txTo) then uint256_one
           else
             let (is, os) =
                   (if hash_mode nHashType = SIGHASH_NONE then (let_others_update nIn is, [])
                    else if hash_mode nHashType = SIGHASH_SINGLE
                    then (let_others_update nIn is, map (\<lambda>k. if k < nIn then CTxOut_null else vout txTo ! k) [0..<nIn + 1])
                    else (is, vout txTo));
                 is = (if anyone_can_pay nHashType then [is ! nIn] else is)
             in hash_of
                  [SerializeTransaction SERIALIZE_TRANSACTION_NO_WITNESS (txTo\<lparr>vin := is, vout := os\<rparr>),
                   ser_writedata32 nHashType])"

subsection \<open>Checking signatures and lock times against a transaction\<close>

definition GetLen :: "u8 \<Rightarrow> nat" where
  "GetLen chHeader =
     (if chHeader = 2 \<or> chHeader = 3 then 33 else if chHeader = 4 \<or> chHeader = 6 \<or> chHeader = 7 then 65 else 0)"

text \<open>\<open>CPubKey::Set\<close>; an invalid key has length 0.\<close>

definition CPubKey :: "bytes \<Rightarrow> bytes" where
  "CPubKey v = (let len = (if v = [] then 0 else GetLen (v ! 0)) in if len \<noteq> 0 \<and> len = length v then v else [])"

definition tx_CheckSig ::
  "(bytes \<Rightarrow> bytes \<Rightarrow> bytes \<Rightarrow> bool) \<Rightarrow> CTransaction \<Rightarrow> nat \<Rightarrow> CAmount \<Rightarrow> PrecomputedTransactionData option \<Rightarrow>
   bytes \<Rightarrow> bytes \<Rightarrow> CScript \<Rightarrow> SigVersion \<Rightarrow> bool" where
  "tx_CheckSig Verify txTo nIn amount txdata vchSigIn vchPubKey scriptCode sigversion =
     (let pubkey = CPubKey vchPubKey
      in if pubkey = [] then False
         else if vchSigIn = [] then False
         else let nHashType = ucast (last vchSigIn); vchSig = butlast vchSigIn
              in case SignatureHash scriptCode txTo nIn nHashType amount sigversion txdata of
                   None \<Rightarrow> False
                 | Some sighash \<Rightarrow> Verify pubkey sighash vchSig)"

definition tx_CheckLockTime :: "CTransaction \<Rightarrow> nat \<Rightarrow> int \<Rightarrow> bool" where
  "tx_CheckLockTime txTo nIn n =
     (if \<not> (uint (nLockTime txTo) < LOCKTIME_THRESHOLD \<and> n < LOCKTIME_THRESHOLD \<or>
            uint (nLockTime txTo) \<ge> LOCKTIME_THRESHOLD \<and> n \<ge> LOCKTIME_THRESHOLD) then False
      else if n > uint (nLockTime txTo) then False
      else if SEQUENCE_FINAL = nSequence (vin txTo ! nIn) then False
      else True)"

definition tx_CheckSequence :: "CTransaction \<Rightarrow> nat \<Rightarrow> int \<Rightarrow> bool" where
  "tx_CheckSequence txTo nIn n =
     (let txToSequence = uint (nSequence (vin txTo ! nIn))
      in if tx_nVersion txTo < 2 then False
         else if txToSequence AND SEQUENCE_LOCKTIME_DISABLE_FLAG \<noteq> 0 then False
         else
           let nLockTimeMask = uint (SEQUENCE_LOCKTIME_TYPE_FLAG OR SEQUENCE_LOCKTIME_MASK);
               txToSequenceMasked = txToSequence AND nLockTimeMask;
               nSequenceMasked = n AND nLockTimeMask;
               T = uint SEQUENCE_LOCKTIME_TYPE_FLAG
           in if \<not> (txToSequenceMasked < T \<and> nSequenceMasked < T \<or> txToSequenceMasked \<ge> T \<and> nSequenceMasked \<ge> T) then False
              else if nSequenceMasked > txToSequenceMasked then False
              else True)"

definition TransactionSignatureChecker ::
  "(bytes \<Rightarrow> bytes \<Rightarrow> bytes \<Rightarrow> bool) \<Rightarrow> (bytes \<Rightarrow> bool) \<Rightarrow> CTransaction \<Rightarrow> nat \<Rightarrow> CAmount \<Rightarrow>
   PrecomputedTransactionData option \<Rightarrow> BaseSignatureChecker" where
  "TransactionSignatureChecker Verify LowS txTo nIn amount txdata =
     \<lparr>CheckSig = tx_CheckSig Verify txTo nIn amount txdata, CheckLockTime = tx_CheckLockTime txTo nIn,
      CheckSequence = tx_CheckSequence txTo nIn, CheckLowS = LowS\<rparr>"

subsection \<open>Code separators\<close>

lemma GetOp2_first: "GetOp2 (x # xs) = (True, pc', opcode, vch) \<Longrightarrow> opcode = x \<and> (x = OP_CODESEPARATOR \<longrightarrow> pc' = xs)"
  by (auto simp: sigma_rest_def split: if_splits option.splits)

lemma delete_separator [simp]:
  "delete_ops [OP_CODESEPARATOR] (OP_CODESEPARATOR # pc) = delete_ops [OP_CODESEPARATOR] pc"
  by (subst delete_ops.simps) simp

lemma separator_op:
  assumes "GetOp2 pc = (True, pc', opcode, vch)"
  shows "opcode = OP_CODESEPARATOR \<Longrightarrow> pc = OP_CODESEPARATOR # pc' \<and> delete_ops [OP_CODESEPARATOR] pc = delete_ops [OP_CODESEPARATOR] pc'"
    and "opcode \<noteq> OP_CODESEPARATOR \<Longrightarrow>
      \<exists>w. pc = w @ pc' \<and> delete_ops [OP_CODESEPARATOR] pc = w @ delete_ops [OP_CODESEPARATOR] pc'"
proof -
  obtain x xs where pc: "pc = x # xs" using assms by (cases pc) auto
  note f = GetOp2_first [OF assms [unfolded pc]]
  show "opcode = OP_CODESEPARATOR \<Longrightarrow> pc = OP_CODESEPARATOR # pc' \<and> delete_ops [OP_CODESEPARATOR] pc = delete_ops [OP_CODESEPARATOR] pc'"
    using f by (subst delete_ops.simps) (simp add: pc)
  assume "opcode \<noteq> OP_CODESEPARATOR"
  then have "delete_ops [OP_CODESEPARATOR] pc = take (length pc - length pc') pc @ delete_ops [OP_CODESEPARATOR] pc'"
    using f assms by (subst delete_ops.simps) (auto simp: pc)
  with GetOp2_suffix [OF assms] show "\<exists>w. pc = w @ pc' \<and> delete_ops [OP_CODESEPARATOR] pc = w @ delete_ops [OP_CODESEPARATOR] pc'"
    by metis
qed

lemma write_code_deletes: "snd (script_ops it) \<Longrightarrow> write_code it (w @ it) = w @ delete_ops [OP_CODESEPARATOR] it"
proof (induction it arbitrary: w rule: script_induct)
  case Nil
  then show ?case by (subst write_code.simps, subst delete_ops.simps) simp
next
  case (Op pc pc' opcode vch)
  have ok: "snd (script_ops pc')" using Op.prems by (simp add: script_ops_simps(2) [OF Op(1,2)])
  show ?case
  proof (cases "opcode = OP_CODESEPARATOR")
    case True
    with separator_op(1) [OF Op(2)] Op(2) Op(3) [OF ok, of "[]"] show ?thesis
      by (subst write_code.simps) simp
  next
    case False
    then obtain u where u: "pc = u @ pc'" "delete_ops [OP_CODESEPARATOR] pc = u @ delete_ops [OP_CODESEPARATOR] pc'"
      using separator_op(2) [OF Op(2)] by blast
    with False Op(2) Op(3) [OF ok, of "w @ u"] show ?thesis
      by (subst write_code.simps) simp
  qed
qed (simp add: script_ops_simps)

lemma count_separators_deletes:
  "length it + n = length (delete_ops [OP_CODESEPARATOR] it) + count_separators it n" if "snd (script_ops it)"
  using that
proof (induction it arbitrary: n rule: script_induct)
  case Nil
  then show ?case by (subst count_separators.simps, subst delete_ops.simps) simp
next
  case (Op pc pc' opcode vch)
  have ok: "snd (script_ops pc')" using Op.prems by (simp add: script_ops_simps(2) [OF Op(1,2)])
  show ?case
  proof (cases "opcode = OP_CODESEPARATOR")
    case True
    with separator_op(1) [OF Op(2)] Op(2) Op(3) [OF ok, of "n + 1"] show ?thesis
      by (subst count_separators.simps) simp
  next
    case False
    then obtain u where u: "pc = u @ pc'" "delete_ops [OP_CODESEPARATOR] pc = u @ delete_ops [OP_CODESEPARATOR] pc'"
      using separator_op(2) [OF Op(2)] by blast
    with False Op(2) Op(3) [OF ok, of n] show ?thesis
      by (subst count_separators.simps) simp
  qed
qed (simp add: script_ops_simps)

lemma SerializeScriptCode_eq:
  assumes "snd (script_ops code)"
  shows "SerializeScriptCode code = Serialize_blob (fst (FindAndDelete code (push_opcode [] OP_CODESEPARATOR)))"
proof -
  have "fst (FindAndDelete code (push_opcode [] OP_CODESEPARATOR)) = delete_ops [OP_CODESEPARATOR] code"
    using FindAndDelete_ops(1) [OF surjective_pairing, of code "[OP_CODESEPARATOR]"] by (simp add: push_opcode_def)
  moreover have "length code - count_separators code 0 = length (delete_ops [OP_CODESEPARATOR] code)"
    using count_separators_deletes [OF assms, of 0] by simp
  ultimately show ?thesis
    using write_code_deletes [OF assms, of "[]"] by (simp add: SerializeScriptCode_def Serialize_blob_def)
qed

subsection \<open>The serializer writes the modified copy\<close>

lemma length_let_others [simp]: "length (let_others_update nIn is) = length is"
  by (simp add: let_others_update_def)

lemma nth_let_others: "k < length is \<Longrightarrow> let_others_update nIn is ! k = (if k \<noteq> nIn then (is ! k)\<lparr>nSequence := 0\<rparr> else is ! k)"
  by (simp add: let_others_update_def)

definition blanked :: "CScript \<Rightarrow> CTransaction \<Rightarrow> nat \<Rightarrow> u32 \<Rightarrow> CTxIn list" where
  "blanked code txTo nIn nHashType =
     (let is = (map (\<lambda>i. i\<lparr>scriptSig := []\<rparr>) (vin txTo))[nIn := (vin txTo ! nIn)\<lparr>scriptSig := code\<rparr>]
      in if hash_mode nHashType = SIGHASH_NONE \<or> hash_mode nHashType = SIGHASH_SINGLE then let_others_update nIn is else is)"

lemma length_blanked [simp]: "length (blanked code txTo nIn nHashType) = length (vin txTo)"
  by (simp add: blanked_def Let_def)

lemma blanked_input:
  assumes "snd (script_ops code)" and "nIn < length (vin txTo)" and "k < length (vin txTo)"
    and "anyone_can_pay nHashType \<Longrightarrow> k = nIn"
  shows "SerializeInput (CTransactionSignatureSerializer_init txTo code nIn nHashType) k =
    CTxIn_Serialize (blanked (fst (FindAndDelete code (push_opcode [] OP_CODESEPARATOR))) txTo nIn nHashType ! k)"
  using assms
  by (auto simp: SerializeInput_def CTransactionSignatureSerializer_init_def CTxIn_Serialize_def blanked_def Let_def
    nth_let_others nth_list_update SerializeScriptCode_eq)

lemma blanked_inputs:
  assumes "snd (script_ops code)" and "nIn < length (vin txTo)"
  shows "WriteCompactSize (of_nat (if anyone_can_pay nHashType then 1 else length (vin txTo))) @
      concat (map (SerializeInput (CTransactionSignatureSerializer_init txTo code nIn nHashType))
        [0..<if anyone_can_pay nHashType then 1 else length (vin txTo)]) =
    Serialize_vector CTxIn_Serialize
      (let is = blanked (fst (FindAndDelete code (push_opcode [] OP_CODESEPARATOR))) txTo nIn nHashType
       in if anyone_can_pay nHashType then [is ! nIn] else is)"
proof (cases "anyone_can_pay nHashType")
  case True
  have "SerializeInput (CTransactionSignatureSerializer_init txTo code nIn nHashType) 0 =
      SerializeInput (CTransactionSignatureSerializer_init txTo code nIn nHashType) nIn"
    by (simp add: SerializeInput_def CTransactionSignatureSerializer_init_def True)
  with True blanked_input [OF assms assms(2)] show ?thesis
    by (simp add: Serialize_vector_def Let_def)
next
  case False
  have "SerializeInput (CTransactionSignatureSerializer_init txTo code nIn nHashType) k =
      CTxIn_Serialize (blanked (fst (FindAndDelete code (push_opcode [] OP_CODESEPARATOR))) txTo nIn nHashType ! k)"
    if "k < length (vin txTo)" for k
    using blanked_input [OF assms that] False by blast
  then have "map (SerializeInput (CTransactionSignatureSerializer_init txTo code nIn nHashType)) [0..<length (vin txTo)] =
      map CTxIn_Serialize (blanked (fst (FindAndDelete code (push_opcode [] OP_CODESEPARATOR))) txTo nIn nHashType)"
    by (intro nth_equalityI [where ?xs = "map _ [0..<length (vin txTo)]"]) simp_all
  with False show ?thesis
    by (simp add: Serialize_vector_def Let_def)
qed

definition kept_outputs :: "CTransaction \<Rightarrow> nat \<Rightarrow> u32 \<Rightarrow> CTxOut list" where
  "kept_outputs txTo nIn nHashType =
     (if hash_mode nHashType = SIGHASH_NONE then []
      else if hash_mode nHashType = SIGHASH_SINGLE
      then map (\<lambda>k. if k < nIn then CTxOut_null else vout txTo ! k) [0..<nIn + 1]
      else vout txTo)"

lemma blanked_outputs:
  "map (SerializeOutput (CTransactionSignatureSerializer_init txTo code nIn nHashType)) [0..<length (kept_outputs txTo nIn nHashType)] =
    map CTxOut_Serialize (kept_outputs txTo nIn nHashType)"
  by (intro nth_equalityI)
    (auto simp: kept_outputs_def SerializeOutput_def CTransactionSignatureSerializer_init_def SIGHASH_NONE_def SIGHASH_SINGLE_def
      simp del: upt_Suc)

lemma signature_Serialize_eq:
  assumes "snd (script_ops code)" and "nIn < length (vin txTo)"
  shows "signature_Serialize (CTransactionSignatureSerializer_init txTo code nIn nHashType) =
    SerializeTransaction SERIALIZE_TRANSACTION_NO_WITNESS
      (txTo\<lparr>vin := (let is = blanked (fst (FindAndDelete code (push_opcode [] OP_CODESEPARATOR))) txTo nIn nHashType
                  in if anyone_can_pay nHashType then [is ! nIn] else is), vout := kept_outputs txTo nIn nHashType\<rparr>)"
proof -
  let ?w = "CTransactionSignatureSerializer_init txTo code nIn nHashType"
  have f: "ss_txTo ?w = txTo" "ss_nIn ?w = nIn" "fAnyoneCanPay ?w = anyone_can_pay nHashType"
    "fHashSingle ?w = (hash_mode nHashType = SIGHASH_SINGLE)" "fHashNone ?w = (hash_mode nHashType = SIGHASH_NONE)"
    by (simp_all add: CTransactionSignatureSerializer_init_def)
  have n: "(if fHashNone ?w then 0 else if fHashSingle ?w then ss_nIn ?w + 1 else length (vout (ss_txTo ?w))) =
      length (kept_outputs txTo nIn nHashType)"
    by (simp add: f kept_outputs_def)
  show ?thesis
    unfolding signature_Serialize_def n Let_def blanked_outputs unfolding f
    by (simp add: SerializeTransaction_def n32bitVersion_def Serialize_vector_def [of CTxOut_Serialize]
      append_assoc [symmetric] del: append_assoc add: blanked_inputs [OF assms, unfolded Let_def])
qed

lemma SignatureHashOld_eq:
  "SignatureHashOld code txTo nIn nHashType =
     (if nIn \<ge> length (vin txTo) then uint256_one
      else if hash_mode nHashType = SIGHASH_SINGLE \<and> nIn \<ge> length (vout txTo) then uint256_one
      else hash_of
        [SerializeTransaction SERIALIZE_TRANSACTION_NO_WITNESS
           (txTo\<lparr>vin := (let is = blanked (fst (FindAndDelete code (push_opcode [] OP_CODESEPARATOR))) txTo nIn nHashType
                       in if anyone_can_pay nHashType then [is ! nIn] else is), vout := kept_outputs txTo nIn nHashType\<rparr>),
         ser_writedata32 nHashType])"
  by (simp add: SignatureHashOld_def blanked_def kept_outputs_def Let_def SIGHASH_NONE_def SIGHASH_SINGLE_def)

lemma SignatureHash_cache:
  "SignatureHash code txTo nIn nHashType amount sigversion (Some (PrecomputedTransactionData_init txTo)) =
   SignatureHash code txTo nIn nHashType amount sigversion None"
  by (simp add: SignatureHash_def witness_hashPrevouts_def witness_hashSequence_def witness_hashOutputs_def
    PrecomputedTransactionData_init_def)

subsection \<open>Relative lock times\<close>

lemma single_bit:
  fixes x :: int
  shows "x AND push_bit k 1 = push_bit k (of_bool (bit x k))"
  by (rule bit_eqI, simp only: bit_simps bit_1_iff bit_of_bool_iff) auto

lemma masked_sequence:
  fixes x :: int
  shows "x AND uint (SEQUENCE_LOCKTIME_TYPE_FLAG OR SEQUENCE_LOCKTIME_MASK) = of_bool (bit x 22) * 2 ^ 22 + x mod 2 ^ 16"
proof -
  have m: "uint (SEQUENCE_LOCKTIME_TYPE_FLAG OR SEQUENCE_LOCKTIME_MASK) = push_bit 22 1 OR mask 16"
    by (simp add: SEQUENCE_LOCKTIME_TYPE_FLAG_def SEQUENCE_LOCKTIME_MASK_def mask_eq_exp_minus_1)
  have "x AND (push_bit 22 1 OR mask 16) = push_bit 22 (of_bool (bit x 22)) OR take_bit 16 x"
    by (simp only: bit.conj_disj_distrib single_bit take_bit_eq_mask)
  also have "\<dots> = push_bit 22 (of_bool (bit x 22)) + take_bit 16 x"
    by (rule disjunctive_add [symmetric]) (auto simp only: bit_simps)
  finally show ?thesis unfolding m by (simp only: push_bit_eq_mult take_bit_eq_mod)
qed

lemma sequence_disabled: "uint (x :: u32) AND SEQUENCE_LOCKTIME_DISABLE_FLAG \<noteq> 0 \<longleftrightarrow> bit x 31"
proof -
  have f: "SEQUENCE_LOCKTIME_DISABLE_FLAG = push_bit 31 1"
    by (simp add: SEQUENCE_LOCKTIME_DISABLE_FLAG_def)
  have "uint x AND SEQUENCE_LOCKTIME_DISABLE_FLAG = push_bit 31 (of_bool (bit (uint x) 31))"
    unfolding f by (rule single_bit)
  then show ?thesis by (simp add: bit_uint_iff)
qed

lemma tx_CheckSequence_iff:
  "tx_CheckSequence txTo nIn n \<longleftrightarrow>
     tx_nVersion txTo \<ge> 2 \<and> \<not> bit (nSequence (vin txTo ! nIn)) 31 \<and>
     (bit n 22 \<longleftrightarrow> bit (nSequence (vin txTo ! nIn)) 22) \<and> n mod 2 ^ 16 \<le> uint (nSequence (vin txTo ! nIn)) mod 2 ^ 16"
proof -
  have T: "uint SEQUENCE_LOCKTIME_TYPE_FLAG = 2 ^ 22"
    by (simp add: SEQUENCE_LOCKTIME_TYPE_FLAG_def)
  have "0 \<le> y mod 2 ^ 16" "y mod 2 ^ 16 < 2 ^ 22" for y :: int
    using pos_mod_bound [of "2 ^ 16" y] by simp_all
  then show ?thesis
    unfolding tx_CheckSequence_def masked_sequence Let_def sequence_disabled T bit_uint_iff
    by (auto simp: not_less not_le)
qed

section \<open>Properties\<close>

text \<open>
  C11. The signature hash: for a script code that decodes, the legacy hash computed in place is the hash of the
  modified copy of the transaction that the old implementation built, for every hash type and index; and the
  precomputed parts never change a hash of either version.
\<close>

theorem SignatureHash_correct:
  assumes "snd (script_ops scriptCode)"
  shows "SignatureHash scriptCode txTo nIn nHashType amount SIGVERSION_BASE cache = Some (SignatureHashOld scriptCode txTo nIn nHashType) \<and>
    SignatureHash scriptCode txTo nIn nHashType amount sigversion (Some (PrecomputedTransactionData_init txTo)) =
    SignatureHash scriptCode txTo nIn nHashType amount sigversion None"
proof -
  have "SignatureHash scriptCode txTo nIn nHashType amount SIGVERSION_BASE cache = Some (SignatureHashOld scriptCode txTo nIn nHashType)"
    unfolding SignatureHashOld_eq by (auto simp: SignatureHash_def signature_Serialize_eq [OF assms])
  then show ?thesis by (simp add: SignatureHash_cache)
qed

theorem SignatureHash_correct_witness:
  "SignatureHash [OP_CODESEPARATOR] CMutableTransaction_init 0 1 0 SIGVERSION_BASE None =
   Some (SignatureHashOld [OP_CODESEPARATOR] CMutableTransaction_init 0 1)"
proof -
  have "snd (script_ops [OP_CODESEPARATOR])"
    by (subst script_ops.simps) (simp add: sigma_rest_def script_ops_simps)
  from SignatureHash_correct [OF this] show ?thesis by blast
qed

text \<open>
  C25. A segregated-witness signature does not cover the type and the payload of a special transaction: a
  signature that is valid for one transaction is valid for every other one that differs only in them, although
  the transactions are distinct on the wire.
\<close>

theorem witness_signature_omits_payload:
  assumes "tx_ok tx" and "tx_ok (tx\<lparr>tx_nType := t, vExtraPayload := p\<rparr>)" and "tx_nType tx \<noteq> t \<or> vExtraPayload tx \<noteq> p"
  shows "tx_CheckSig Verify (tx\<lparr>tx_nType := t, vExtraPayload := p\<rparr>) nIn amount None vchSig vchPubKey code SIGVERSION_WITNESS_V0 =
      tx_CheckSig Verify tx nIn amount None vchSig vchPubKey code SIGVERSION_WITNESS_V0 \<and>
    SerializeTransaction SERIALIZE_TRANSACTION_NO_WITNESS (tx\<lparr>tx_nType := t, vExtraPayload := p\<rparr>) \<noteq>
      SerializeTransaction SERIALIZE_TRANSACTION_NO_WITNESS tx"
proof -
  have "strip (tx\<lparr>tx_nType := t, vExtraPayload := p\<rparr>) \<noteq> strip tx"
  proof
    assume "strip (tx\<lparr>tx_nType := t, vExtraPayload := p\<rparr>) = strip tx"
    then have "tx_nType (strip (tx\<lparr>tx_nType := t, vExtraPayload := p\<rparr>)) = tx_nType (strip tx)"
      "vExtraPayload (strip (tx\<lparr>tx_nType := t, vExtraPayload := p\<rparr>)) = vExtraPayload (strip tx)"
      by simp_all
    with assms(3) show False by (auto simp: strip_def)
  qed
  then show ?thesis
    using serialize_no_witness_inject [OF assms(2,1)]
    by (simp add: tx_CheckSig_def SignatureHash_def witness_hashPrevouts_def witness_hashSequence_def witness_hashOutputs_def
      GetPrevoutHash_def GetSequenceHash_def GetOutputsHash_def)
qed

theorem witness_signature_omits_payload_witness:
  "SerializeTransaction SERIALIZE_TRANSACTION_NO_WITNESS (CMutableTransaction_init\<lparr>tx_nVersion := 3, tx_nType := 1, vExtraPayload := [7]\<rparr>) \<noteq>
   SerializeTransaction SERIALIZE_TRANSACTION_NO_WITNESS (CMutableTransaction_init\<lparr>tx_nVersion := 3, tx_nType := 0\<rparr>)"
  using witness_signature_omits_payload [where tx = "CMutableTransaction_init\<lparr>tx_nVersion := 3, tx_nType := 0\<rparr>" and t = 1 and p = "[7]"]
  by (simp add: tx_ok_def int16_def has_payload_def CMutableTransaction_init_def TRANSACTION_NORMAL_def)

text \<open>
  C24. Lock times are enforced: an executed \<^verbatim>\<open>OP_CHECKLOCKTIMEVERIFY\<close> succeeds against a transaction only if its
  operand is a non-negative number of the same kind as, and not above, the transaction's lock time and the input
  is not final; \<^verbatim>\<open>OP_CHECKSEQUENCEVERIFY\<close> only if the operand is disabled or the input carries a relative lock of
  the same kind at least as long. Neither changes the stack.
\<close>

theorem lock_times_enforced:
  assumes "flag flags SCRIPT_VERIFY_CHECKLOCKTIMEVERIFY" and "flag flags SCRIPT_VERIFY_CHECKSEQUENCEVERIFY"
    and "checker = TransactionSignatureChecker Verify LowS txTo nIn amount txdata"
  shows "(op_CHECKLOCKTIMEVERIFY flags checker st = Inr st' \<longrightarrow> st' = st \<and>
      (\<exists>n. script_num flags (stacktop (main_stack st) 1) 5 = Inr n \<and> 0 \<le> n \<and> n \<le> uint (nLockTime txTo) \<and>
         (n < LOCKTIME_THRESHOLD \<longleftrightarrow> uint (nLockTime txTo) < LOCKTIME_THRESHOLD) \<and> nSequence (vin txTo ! nIn) \<noteq> SEQUENCE_FINAL)) \<and>
    (op_CHECKSEQUENCEVERIFY flags checker st = Inr st' \<longrightarrow> st' = st \<and>
      (\<exists>n. script_num flags (stacktop (main_stack st) 1) 5 = Inr n \<and> 0 \<le> n \<and>
         (bit n 31 \<or> tx_nVersion txTo \<ge> 2 \<and> \<not> bit (nSequence (vin txTo ! nIn)) 31 \<and>
            (bit n 22 \<longleftrightarrow> bit (nSequence (vin txTo ! nIn)) 22) \<and> n mod 2 ^ 16 \<le> uint (nSequence (vin txTo ! nIn)) mod 2 ^ 16)))"
proof -
  have d: "n AND SEQUENCE_LOCKTIME_DISABLE_FLAG \<noteq> 0 \<longleftrightarrow> bit n 31" for n
    using single_bit [of n 31] by (simp add: SEQUENCE_LOCKTIME_DISABLE_FLAG_def)
  show ?thesis
    using assms(1,2) unfolding assms(3)
    by (auto simp: op_CHECKLOCKTIMEVERIFY_def op_CHECKSEQUENCEVERIFY_def TransactionSignatureChecker_def tx_CheckLockTime_def
      tx_CheckSequence_iff d split: if_splits sum.splits)
qed

theorem lock_times_enforced_witness:
  "op_CHECKLOCKTIMEVERIFY (SCRIPT_VERIFY_CHECKLOCKTIMEVERIFY OR SCRIPT_VERIFY_CHECKSEQUENCEVERIFY)
     (TransactionSignatureChecker (\<lambda>_ _ _. True) (\<lambda>_. True) (CMutableTransaction_init\<lparr>nLockTime := 4\<rparr>) 0 0 None)
     \<lparr>main_stack = [[5]], altstack = [], vfExec = [], nOpCount = 0, pbegincodehash = []\<rparr> \<noteq>
   Inr \<lparr>main_stack = [[5]], altstack = [], vfExec = [], nOpCount = 0, pbegincodehash = []\<rparr>"
proof -
  have num: "script_num f [5] 5 = Inr 5" for f
    by (simp add: script_num_def CScriptNum_def set_vch_def)
  have fl: "flag (SCRIPT_VERIFY_CHECKLOCKTIMEVERIFY OR SCRIPT_VERIFY_CHECKSEQUENCEVERIFY) SCRIPT_VERIFY_CHECKLOCKTIMEVERIFY"
    "flag (SCRIPT_VERIFY_CHECKLOCKTIMEVERIFY OR SCRIPT_VERIFY_CHECKSEQUENCEVERIFY) SCRIPT_VERIFY_CHECKSEQUENCEVERIFY"
    by (simp_all add: flag_def SCRIPT_VERIFY_CHECKLOCKTIMEVERIFY_def SCRIPT_VERIFY_CHECKSEQUENCEVERIFY_def)
  show ?thesis
    using lock_times_enforced [OF fl refl] num by (fastforce simp: stacktop_def CMutableTransaction_init_def)
qed

end
