(* ===== verification/Tx_Checks.thy ===== *)
theory Tx_Checks
  imports Coins Signature_Hash Active_Chain
begin

text \<open>
  The checks \<^verbatim>\<open>validation.cpp\<close> makes on a single transaction: finality, relative lock times (BIP 68), signature
  operation counts, and the context-free and version checks. The zerocoin and sigma checks are arguments that
  return a reject reason or nothing. Counts of signature operations stay far below \<open>2\<^sup>3\<^sup>2\<close> and are natural numbers.
\<close>

unbundle bit_operations_syntax

subsection \<open>Definitions\<close>

datatype check = Accepted | Refused string

definition MAX_BLOCK_BASE_SIZE :: nat where "MAX_BLOCK_BASE_SIZE = 2000000"
definition MAX_TX_EXTRA_PAYLOAD :: nat where "MAX_TX_EXTRA_PAYLOAD = 10000"
definition LOCKTIME_VERIFY_SEQUENCE :: u32 where "LOCKTIME_VERIFY_SEQUENCE = push_bit 0 1"
definition SEQUENCE_LOCKTIME_GRANULARITY :: nat where "SEQUENCE_LOCKTIME_GRANULARITY = 9"

definition TRANSACTION_PROVIDER_TYPES :: "u32 list" where "TRANSACTION_PROVIDER_TYPES = [1, 2, 3, 4]"
definition TRANSACTION_COINBASE :: u32 where "TRANSACTION_COINBASE = 5"
definition TRANSACTION_QUORUM_COMMITMENT :: u32 where "TRANSACTION_QUORUM_COMMITMENT = 6"

definition spends_coins :: "CTransaction \<Rightarrow> bool" where
  "spends_coins tx \<longleftrightarrow> \<not> IsCoinBase tx \<and> \<not> tx_IsZerocoinSpend tx \<and> \<not> tx_IsSigmaSpend tx \<and> \<not> tx_IsZerocoinRemint tx"

definition IsFinalTx :: "CTransaction \<Rightarrow> int \<Rightarrow> int \<Rightarrow> bool" where
  "IsFinalTx tx nBlockHeight nBlockTime =
     (if nLockTime tx = 0 then True
      else if uint (nLockTime tx) < (if uint (nLockTime tx) < LOCKTIME_THRESHOLD then nBlockHeight else nBlockTime) then True
      else list_all (\<lambda>i. nSequence i = SEQUENCE_FINAL) (vin tx))"

text \<open>
  The loop of \<open>CalculateSequenceLocks\<close> over the inputs and the heights of their coins. It returns the heights with
  the irrelevant ones cleared, and the least height and time that are still invalid.
\<close>

fun sequence_locks_loop :: "index_heap \<Rightarrow> ptr \<Rightarrow> CTxIn list \<Rightarrow> int list \<Rightarrow> int \<Rightarrow> int \<Rightarrow> (int list \<times> int \<times> int) option" where
  "sequence_locks_loop H block (txin # ins) (nCoinHeight # prevHeights) nMinHeight nMinTime =
     (if uint (nSequence txin) AND SEQUENCE_LOCKTIME_DISABLE_FLAG \<noteq> 0 then do {
        (hs, r) \<leftarrow> sequence_locks_loop H block ins prevHeights nMinHeight nMinTime;
        Some (0 # hs, r)
      }
      else if nSequence txin AND SEQUENCE_LOCKTIME_TYPE_FLAG \<noteq> 0 then do {
        a \<leftarrow> GetAncestor H block (max (nCoinHeight - 1) 0);
        q \<leftarrow> a;
        nCoinTime \<leftarrow> GetMedianTimePast H q;
        (hs, r) \<leftarrow> sequence_locks_loop H block ins prevHeights nMinHeight
          (max nMinTime (nCoinTime + uint (push_bit SEQUENCE_LOCKTIME_GRANULARITY (nSequence txin AND SEQUENCE_LOCKTIME_MASK)) - 1));
        Some (nCoinHeight # hs, r)
      }
      else do {
        (hs, r) \<leftarrow> sequence_locks_loop H block ins prevHeights
          (max nMinHeight (nCoinHeight + uint (nSequence txin AND SEQUENCE_LOCKTIME_MASK) - 1)) nMinTime;
        Some (nCoinHeight # hs, r)
      })"
| "sequence_locks_loop H block ins prevHeights nMinHeight nMinTime = Some ([], nMinHeight, nMinTime)"

definition CalculateSequenceLocks :: "CTransaction \<Rightarrow> u32 \<Rightarrow> int list \<Rightarrow> index_heap \<Rightarrow> ptr \<Rightarrow> (int list \<times> int \<times> int) option" where
  "CalculateSequenceLocks tx flags prevHeights H block =
     (if length prevHeights \<noteq> length (vin tx) then None
      else if \<not> (tx_nVersion tx \<ge> 2 \<and> flags AND LOCKTIME_VERIFY_SEQUENCE \<noteq> 0) then Some (prevHeights, - 1, - 1)
      else sequence_locks_loop H block (vin tx) prevHeights (- 1) (- 1))"

definition EvaluateSequenceLocks :: "index_heap \<Rightarrow> ptr \<Rightarrow> int \<times> int \<Rightarrow> bool option" where
  "EvaluateSequenceLocks H block lockPair = do {
     b \<leftarrow> H block;
     q \<leftarrow> pprev b;
     nBlockTime \<leftarrow> GetMedianTimePast H q;
     Some (\<not> (fst lockPair \<ge> nHeight b \<or> snd lockPair \<ge> nBlockTime))
   }"

definition SequenceLocks :: "CTransaction \<Rightarrow> u32 \<Rightarrow> int list \<Rightarrow> index_heap \<Rightarrow> ptr \<Rightarrow> bool option" where
  "SequenceLocks tx flags prevHeights H block = do {
     (hs, lockPair) \<leftarrow> CalculateSequenceLocks tx flags prevHeights H block;
     EvaluateSequenceLocks H block lockPair
   }"

definition GetLegacySigOpCount :: "CTransaction \<Rightarrow> nat" where
  "GetLegacySigOpCount tx =
     foldl (\<lambda>n t. n + GetSigOpCount (scriptPubKey t) False) (foldl (\<lambda>n i. n + GetSigOpCount (scriptSig i) False) 0 (vin tx)) (vout tx)"

fun p2sh_sigops_loop :: "'v CCoinsView \<Rightarrow> CTxIn list \<Rightarrow> nat \<Rightarrow> 'v CCoinsViewCache \<Rightarrow> (nat \<times> 'v CCoinsViewCache) option" where
  "p2sh_sigops_loop V [] nSigOps c = Some (nSigOps, c)"
| "p2sh_sigops_loop V (i # is) nSigOps c =
     (case AccessCoin V (prevout i) c of (coin, c) \<Rightarrow>
        if IsSpent coin then None
        else p2sh_sigops_loop V is
          (if IsPayToScriptHash (scriptPubKey (out coin))
           then nSigOps + GetSigOpCount_scriptSig (scriptPubKey (out coin)) (scriptSig i) else nSigOps) c)"

definition GetP2SHSigOpCount :: "'v CCoinsView \<Rightarrow> CTransaction \<Rightarrow> 'v CCoinsViewCache \<Rightarrow> (nat \<times> 'v CCoinsViewCache) option" where
  "GetP2SHSigOpCount V tx c =
     (if IsCoinBase tx \<or> tx_IsZerocoinSpend tx \<or> tx_IsSigmaSpend tx then Some (0, c) else p2sh_sigops_loop V (vin tx) 0 c)"

fun witness_sigops_loop :: "'v CCoinsView \<Rightarrow> u32 \<Rightarrow> CTxIn list \<Rightarrow> nat \<Rightarrow> 'v CCoinsViewCache \<Rightarrow> (nat \<times> 'v CCoinsViewCache) option" where
  "witness_sigops_loop V flags [] nSigOps c = Some (nSigOps, c)"
| "witness_sigops_loop V flags (i # is) nSigOps c =
     (case AccessCoin V (prevout i) c of (coin, c) \<Rightarrow>
      case CountWitnessSigOps (scriptSig i) (scriptPubKey (out coin)) (Some (scriptWitness i)) flags of
        Accept n \<Rightarrow> witness_sigops_loop V flags is (nSigOps + n) c
      | _ \<Rightarrow> None)"

definition GetTransactionSigOpCost ::
  "'v CCoinsView \<Rightarrow> CTransaction \<Rightarrow> u32 \<Rightarrow> 'v CCoinsViewCache \<Rightarrow> (nat \<times> 'v CCoinsViewCache) option" where
  "GetTransactionSigOpCost V tx flags c =
     (let nSigOps = GetLegacySigOpCount tx * WITNESS_SCALE_FACTOR
      in if \<not> spends_coins tx then Some (nSigOps, c)
         else do {
           (nSigOps, c) \<leftarrow> (if flag flags SCRIPT_VERIFY_P2SH
              then map_option (\<lambda>(n, c). (nSigOps + n * WITNESS_SCALE_FACTOR, c)) (GetP2SHSigOpCount V tx c)
              else Some (nSigOps, c));
           witness_sigops_loop V flags (vin tx) nSigOps c
         })"

text \<open>The context-free checks. The value loop returns the reject reason, if any.\<close>

fun check_outputs_loop :: "CTxOut list \<Rightarrow> CAmount \<Rightarrow> string option" where
  "check_outputs_loop [] nValueOut = None"
| "check_outputs_loop (t # ts) nValueOut =
     (if nValue t < 0 then Some ''bad-txns-vout-negative''
      else if nValue t > MAX_MONEY then Some ''bad-txns-vout-toolarge''
      else let nValueOut = sint (word_of_int (nValueOut + nValue t) :: u64)
           in if \<not> MoneyRange nValueOut then Some ''bad-txns-txouttotal-toolarge'' else check_outputs_loop ts nValueOut)"

definition check_duplicates :: "bool \<Rightarrow> CTransaction \<Rightarrow> string option" where
  "check_duplicates fRejectSigma tx =
     (if tx_IsZerocoinSpend tx \<or> tx_IsSigmaSpend tx \<or> tx_IsZerocoinRemint tx
      then (if fRejectSigma then Some ''bad-sigma''
            else if \<not> distinct (map scriptSig (vin tx)) then Some ''bad-txns-spend-inputs-duplicate'' else None)
      else if \<not> distinct (map prevout (vin tx)) then Some ''bad-txns-inputs-duplicate'' else None)"

definition check_input_form ::
  "(CTransaction \<Rightarrow> string option) \<Rightarrow> (CTransaction \<Rightarrow> string option) \<Rightarrow> bool \<Rightarrow> CTransaction \<Rightarrow> string option" where
  "check_input_form CheckSigma CheckZerocoin fRejectSigma tx =
     (if IsCoinBase tx then
        (let minCbSize = (if tx_nType tx = TRANSACTION_COINBASE then 1 else 2); n = length (scriptSig (vin tx ! 0))
         in if n < minCbSize \<or> n > 100 then Some ''bad-cb-length'' else None)
      else if list_ex (\<lambda>i. COutPoint_IsNull (prevout i) \<and> \<not> (IsZerocoinSpend (scriptSig i) \<or> CTxIn_IsZerocoinRemint i)) (vin tx)
      then Some ''bad-txns-prevout-null''
      else case (if IsZerocoinV3SigmaTransaction tx then (if fRejectSigma then Some '''' else CheckSigma tx) else None) of
        Some reason \<Rightarrow> Some reason
      | None \<Rightarrow> CheckZerocoin tx)"

definition CheckTransaction ::
  "(CTransaction \<Rightarrow> string option) \<Rightarrow> (CTransaction \<Rightarrow> string option) \<Rightarrow> int \<Rightarrow> CTransaction \<Rightarrow> bool \<Rightarrow> int \<Rightarrow> check" where
  "CheckTransaction CheckSigma CheckZerocoin DIP0003Height tx fCheckDuplicateInputs height =
     (let allowEmptyTxInOut = (tx_nType tx = TRANSACTION_QUORUM_COMMITMENT); fRejectSigma = (height > DIP0003Height)
      in if \<not> allowEmptyTxInOut \<and> vin tx = [] then Refused ''bad-txns-vin-empty''
         else if \<not> allowEmptyTxInOut \<and> vout tx = [] then Refused ''bad-txns-vout-empty''
         else if length (SerializeTransaction (PROTOCOL_VERSION OR SERIALIZE_TRANSACTION_NO_WITNESS) tx) > MAX_BLOCK_BASE_SIZE
         then Refused ''bad-txns-oversize''
         else if length (vExtraPayload tx) > MAX_TX_EXTRA_PAYLOAD then Refused ''bad-txns-payload-oversize''
         else case check_outputs_loop (vout tx) 0 of
           Some reason \<Rightarrow> Refused reason
         | None \<Rightarrow>
             (case (if fCheckDuplicateInputs then check_duplicates fRejectSigma tx else None) of
                Some reason \<Rightarrow> Refused reason
              | None \<Rightarrow>
                  (case check_input_form CheckSigma CheckZerocoin fRejectSigma tx of
                     Some reason \<Rightarrow> Refused reason
                   | None \<Rightarrow> Accepted)))"

definition ContextualCheckTransaction :: "CTransaction \<Rightarrow> int \<Rightarrow> int option \<Rightarrow> check" where
  "ContextualCheckTransaction tx DIP0003Height prevHeight =
     (let height = (case prevHeight of None \<Rightarrow> 0 | Some h \<Rightarrow> h + 1)
      in if height \<ge> DIP0003Height then
           (if sint (tx_nVersion tx) \<ge> 3 then
              (if tx_nType tx \<notin> set (TRANSACTION_NORMAL # TRANSACTION_PROVIDER_TYPES @ [TRANSACTION_COINBASE, TRANSACTION_QUORUM_COMMITMENT])
               then Refused ''bad-txns-type''
               else if IsCoinBase tx \<and> tx_nType tx \<noteq> TRANSACTION_COINBASE then Refused ''bad-txns-cb-type''
               else Accepted)
            else if tx_nType tx \<noteq> TRANSACTION_NORMAL then Refused ''bad-txns-type''
            else Accepted)
         else if sint (tx_nVersion tx) \<ge> 3 then Refused ''bad-txns-type''
         else Accepted)"

subsection \<open>Relative lock times\<close>

text \<open>
  BIP 68 as a condition on one input of a transaction in the block \<open>b\<close> at \<open>p\<close>, with predecessor \<open>q\<close>: its coin
  was created \<open>n\<close> blocks ago, or the median time has advanced by \<open>512 n\<close> seconds since the block before it.
\<close>

definition time_before :: "index_heap \<Rightarrow> ptr \<Rightarrow> CBlockIndex \<Rightarrow> int \<Rightarrow> int" where
  "time_before H p b h = the (Option.bind (walk H (nat (nHeight b - max (h - 1) 0)) p) (GetMedianTimePast H))"

definition input_unlocked :: "index_heap \<Rightarrow> ptr \<Rightarrow> CBlockIndex \<Rightarrow> int \<Rightarrow> CTxIn \<Rightarrow> int \<Rightarrow> bool" where
  "input_unlocked H p b nBlockTime i h \<longleftrightarrow>
     bit (nSequence i) 31 \<or>
     (if bit (nSequence i) 22 then time_before H p b h + 512 * (uint (nSequence i) mod 2 ^ 16) \<le> nBlockTime
      else h + uint (nSequence i) mod 2 ^ 16 \<le> nHeight b)"

lemma uint_take_bit_16: "uint (take_bit 16 x :: u32) = uint x mod 2 ^ 16"
  by (simp only: unsigned_take_bit_eq) (simp only: take_bit_eq_mod)

lemma sequence_value:
  fixes x :: u32
  shows "uint (x AND SEQUENCE_LOCKTIME_MASK) = uint x mod 2 ^ 16"
    and "uint (push_bit SEQUENCE_LOCKTIME_GRANULARITY (x AND SEQUENCE_LOCKTIME_MASK)) = 512 * (uint x mod 2 ^ 16)"
    and "x AND SEQUENCE_LOCKTIME_TYPE_FLAG \<noteq> 0 \<longleftrightarrow> bit x 22"
proof -
  have m: "SEQUENCE_LOCKTIME_MASK = mask 16"
    by (simp add: SEQUENCE_LOCKTIME_MASK_def mask_eq_exp_minus_1)
  show v: "uint (x AND SEQUENCE_LOCKTIME_MASK) = uint x mod 2 ^ 16"
    unfolding m take_bit_eq_mask [symmetric] by (rule uint_take_bit_16)
  have "uint (push_bit 9 y) = 512 * uint y" if "uint y < 2 ^ 16" for y :: u32
    using that by (simp only: unsigned_push_bit_eq) (simp add: push_bit_eq_mult take_bit_int_eq_self)
  from this [of "x AND SEQUENCE_LOCKTIME_MASK"]
  show "uint (push_bit SEQUENCE_LOCKTIME_GRANULARITY (x AND SEQUENCE_LOCKTIME_MASK)) = 512 * (uint x mod 2 ^ 16)"
    by (simp add: v SEQUENCE_LOCKTIME_GRANULARITY_def)
  show "x AND SEQUENCE_LOCKTIME_TYPE_FLAG \<noteq> 0 \<longleftrightarrow> bit x 22"
    unfolding SEQUENCE_LOCKTIME_TYPE_FLAG_def by (simp only: bit_iff_and_push_bit_not_eq_0)
qed

lemma past_times_nonneg: "past_times H n x = Some ts \<Longrightarrow> \<forall>t\<in>set ts. 0 \<le> t"
  by (induction H n x arbitrary: ts rule: past_times.induct) (auto simp: GetBlockTime_def split: bind_splits)

lemma GetMedianTimePast_nonneg:
  assumes "GetMedianTimePast H p = Some m"
  shows "0 \<le> m"
proof -
  obtain n where n: "nMedianTimeSpan = Suc n" by (simp add: nMedianTimeSpan_def)
  obtain ts where ts: "past_times H (Suc n) (Some p) = Some ts" "m = sort ts ! (length ts div 2)"
    using assms by (auto simp: GetMedianTimePast_def n Let_def simp del: past_times.simps split: bind_splits)
  have "length ts div 2 < length ts" using past_times_nonempty [OF ts(1)] by simp
  then have "m \<in> set ts" using ts(2) nth_mem [of "length ts div 2" "sort ts"] by simp
  then show ?thesis using past_times_nonneg [OF ts(1)] by blast
qed

lemma sequence_locks_loop_correct:
  assumes "wf_index H" and "H p = Some b" and "length is = length ks" and "list_all (\<lambda>h. h \<le> nHeight b) ks"
  shows "\<exists>ks' mh' mt'. sequence_locks_loop H p is ks mh mt = Some (ks', mh', mt') \<and>
    (mh' < nHeight b \<and> mt' < T \<longleftrightarrow> mh < nHeight b \<and> mt < T \<and> list_all2 (input_unlocked H p b T) is ks)"
  using assms(3,4)
proof (induction "is" ks arbitrary: mh mt rule: list_induct2)
  case (Cons i "is" h ks)
  have IH: "\<exists>ks' mh' mt'. sequence_locks_loop H p is ks mh mt = Some (ks', mh', mt') \<and>
      (mh' < nHeight b \<and> mt' < T \<longleftrightarrow> mh < nHeight b \<and> mt < T \<and> list_all2 (input_unlocked H p b T) is ks)" for mh mt
    using Cons by simp
  note head = input_unlocked_def [of H p b T i h]
  consider "bit (nSequence i) 31" | "\<not> bit (nSequence i) 31" "bit (nSequence i) 22" | "\<not> bit (nSequence i) 31" "\<not> bit (nSequence i) 22"
    by blast
  then show ?case
  proof cases
    case 1
    with IH [of mh mt] show ?thesis by (auto simp: sequence_disabled head)
  next
    case 2
    let ?k = "max (h - 1) 0"
    have "0 \<le> nHeight b" using wf_indexD [OF assms(1,2)] by (auto simp: wf_entry_def split: option.splits)
    then have "0 \<le> ?k" "?k \<le> nHeight b" using Cons.prems by auto
    then obtain q c where q: "GetAncestor H p ?k = Some (Some q)" "walk H (nat (nHeight b - ?k)) p = Some q" "H q = Some c"
      by (rule GetAncestor_Some [OF assms(1,2)])
    obtain t where t: "GetMedianTimePast H q = Some t" using GetMedianTimePast_defined [OF assms(1) q(3)] by blast
    with q(2) have before: "time_before H p b h = t" by (simp add: time_before_def)
    let ?mt = "max mt (t + 512 * (uint (nSequence i) mod 2 ^ 16) - 1)"
    obtain ks' x y where r: "sequence_locks_loop H p is ks mh ?mt = Some (ks', x, y)"
        "x < nHeight b \<and> y < T \<longleftrightarrow> mh < nHeight b \<and> ?mt < T \<and> list_all2 (input_unlocked H p b T) is ks"
      using IH by blast
    have step: "sequence_locks_loop H p (i # is) (h # ks) mh mt = Some (h # ks', x, y)"
      using 2 q(1) t r(1) by (simp add: sequence_disabled sequence_value del: push_bit_and)
    have u: "?mt < T \<longleftrightarrow> mt < T \<and> input_unlocked H p b T i h"
      using 2 by (auto simp: head before)
    show ?thesis unfolding step using r(2) unfolding u list_all2_Cons conj_assoc
      by (intro exI conjI) (rule refl, simp only: conj_left_commute)
  next
    case 3
    let ?mh = "max mh (h + uint (nSequence i) mod 2 ^ 16 - 1)"
    obtain ks' x y where r: "sequence_locks_loop H p is ks ?mh mt = Some (ks', x, y)"
        "x < nHeight b \<and> y < T \<longleftrightarrow> ?mh < nHeight b \<and> mt < T \<and> list_all2 (input_unlocked H p b T) is ks"
      using IH by blast
    have step: "sequence_locks_loop H p (i # is) (h # ks) mh mt = Some (h # ks', x, y)"
      using 3 r(1) by (simp add: sequence_disabled sequence_value)
    have u: "?mh < nHeight b \<longleftrightarrow> mh < nHeight b \<and> input_unlocked H p b T i h"
      using 3 by (auto simp: head)
    show ?thesis unfolding step using r(2) unfolding u list_all2_Cons conj_assoc
      by (intro exI conjI) (rule refl, simp only: conj_left_commute)
  qed
qed simp

lemma SequenceLocks_value:
  assumes "wf_index H" and "H p = Some b" and "pprev b = Some q" and "GetMedianTimePast H q = Some T"
    and "length ks = length (vin tx)" and "list_all (\<lambda>h. h \<le> nHeight b) ks"
  shows "SequenceLocks tx flags ks H p =
    Some (tx_nVersion tx \<ge> 2 \<and> bit flags 0 \<longrightarrow> list_all2 (input_unlocked H p b T) (vin tx) ks)"
proof -
  have fl: "flags AND LOCKTIME_VERIFY_SEQUENCE \<noteq> 0 \<longleftrightarrow> bit flags 0"
    unfolding LOCKTIME_VERIFY_SEQUENCE_def by (simp only: bit_iff_and_push_bit_not_eq_0)
  have start: "- 1 < nHeight b" "- 1 < T"
    using wf_indexD [OF assms(1,2)] GetMedianTimePast_nonneg [OF assms(4)] by (auto simp: wf_entry_def split: option.splits)
  obtain ks' mh mt where "sequence_locks_loop H p (vin tx) ks (- 1) (- 1) = Some (ks', mh, mt)"
      "mh < nHeight b \<and> mt < T \<longleftrightarrow> list_all2 (input_unlocked H p b T) (vin tx) ks"
    using sequence_locks_loop_correct [OF assms(1,2) assms(5) [symmetric] assms(6), of "- 1" "- 1" T] start by blast
  then show ?thesis
    using start assms(2-5)
    by (auto simp: SequenceLocks_def CalculateSequenceLocks_def EvaluateSequenceLocks_def fl not_le)
qed

subsection \<open>Context-free checks\<close>

lemma check_outputs_value: "check_outputs_loop ts v = None \<longleftrightarrow> GetValueOut_loop ts v \<noteq> None"
  by (induction ts arbitrary: v) (auto simp: Let_def MoneyRange_def)

lemma serialized_outputs: "length (vout tx) \<le> length (SerializeTransaction sv tx)"
proof -
  have "length ts \<le> length (concat (map CTxOut_Serialize ts))" for ts
    by (induction ts) (simp_all add: CTxOut_Serialize_def ser_writedata64_def)
  then have "length (vout tx) \<le> length (Serialize_vector CTxOut_Serialize (vout tx))"
    by (simp add: Serialize_vector_def trans_le_add2)
  then show ?thesis by (simp add: SerializeTransaction_def Let_def)
qed

lemma CheckTransaction_sound:
  assumes "CheckTransaction CheckSigma CheckZerocoin D tx True height = Accepted"
  shows "GetValueOut tx \<noteq> None" and "length (vout tx) \<le> MAX_BLOCK_BASE_SIZE"
    and "spends_coins tx \<Longrightarrow> distinct (map prevout (vin tx))"
proof -
  have ok: "check_outputs_loop (vout tx) 0 = None" "check_duplicates (height > D) tx = None"
      "length (SerializeTransaction (PROTOCOL_VERSION OR SERIALIZE_TRANSACTION_NO_WITNESS) tx) \<le> MAX_BLOCK_BASE_SIZE"
    using assms by (auto simp: CheckTransaction_def Let_def split: if_splits option.splits)
  show "GetValueOut tx \<noteq> None" using ok(1) by (simp add: GetValueOut_def check_outputs_value)
  show "length (vout tx) \<le> MAX_BLOCK_BASE_SIZE" using ok(3) serialized_outputs order_trans by blast
  show "distinct (map prevout (vin tx))" if "spends_coins tx"
    using ok(2) that by (auto simp: check_duplicates_def spends_coins_def split: if_splits)
qed

subsection \<open>Properties\<close>

text \<open>
  C10. Relative lock times. On a well-formed tree \<open>SequenceLocks\<close> never fails an assertion and, for a version-2
  transaction under the flag, accepts a block exactly when every input meets BIP 68: its lock is disabled, or the coin
  has the required number of confirmations, or 512 seconds per unit have passed, in median time, since the block
  before the coin. Other transactions are accepted.
\<close>

theorem SequenceLocks_correct:
  assumes "wf_index H" and "H p = Some b" and "pprev b = Some q" and "GetMedianTimePast H q = Some T"
    and "length ks = length (vin tx)" and "list_all (\<lambda>h. h \<le> nHeight b) ks"
  shows "SequenceLocks tx flags ks H p =
    Some (tx_nVersion tx \<ge> 2 \<and> bit flags 0 \<longrightarrow> list_all2 (input_unlocked H p b T) (vin tx) ks)"
  by (rule SequenceLocks_value [OF assms])

text \<open>Block 8 of a line of blocks, and an input with a lock of five blocks on a coin of height 3.\<close>

abbreviation sequence_tx :: CTransaction where
  "sequence_tx \<equiv> CMutableTransaction_init\<lparr>tx_nVersion := 2, vin := [\<lparr>prevout = \<lparr>op_hash = [1], op_n = 7\<rparr>, scriptSig = [],
     nSequence = 5, prevPubKey = [], scriptWitness = []\<rparr>]\<rparr>"

theorem SequenceLocks_correct_witness:
  "SequenceLocks sequence_tx 1 [3] (line_heap 10 (\<lambda>_. 0) 0) 8 = Some True \<and>
   SequenceLocks sequence_tx 1 [4] (line_heap 10 (\<lambda>_. 0) 0) 8 = Some False"
proof -
  let ?H = "line_heap 10 (\<lambda>_. 0) 0"
  obtain b c where b: "?H 8 = Some b" "pprev b = Some 7" "nHeight b = 8" "?H 7 = Some c"
    by (simp add: line_heap_def)
  obtain T where "GetMedianTimePast ?H 7 = Some T" using GetMedianTimePast_defined [OF wf_line_heap b(4)] by blast
  note use = SequenceLocks_correct [OF wf_line_heap b(1,2) this, where tx = sequence_tx and flags = 1]
  show ?thesis
    using use [of "[3]"] use [of "[4]"] by (simp add: b(3) CMutableTransaction_init_def input_unlocked_def bit_numeral_rec)
qed

text \<open>
  C14. Which ordinary transactions pass the context-free check. For a transaction that spends coins, has no zerocoin
  or sigma part and is not a quorum commitment, \<open>CheckTransaction\<close> accepts exactly if there are inputs and outputs,
  the size limits hold, the output values and their total are in the money range, and no input is repeated or null.
\<close>

theorem CheckTransaction_correct:
  assumes "spends_coins tx" and "\<not> IsZerocoinV3SigmaTransaction tx" and "CheckZerocoin tx = None"
    and "tx_nType tx \<noteq> TRANSACTION_QUORUM_COMMITMENT"
  shows "CheckTransaction CheckSigma CheckZerocoin D tx True height = Accepted \<longleftrightarrow>
    vin tx \<noteq> [] \<and> vout tx \<noteq> [] \<and>
    length (SerializeTransaction (PROTOCOL_VERSION OR SERIALIZE_TRANSACTION_NO_WITNESS) tx) \<le> MAX_BLOCK_BASE_SIZE \<and>
    length (vExtraPayload tx) \<le> MAX_TX_EXTRA_PAYLOAD \<and>
    list_all (\<lambda>t. MoneyRange (nValue t)) (vout tx) \<and> MoneyRange (\<Sum>t\<leftarrow>vout tx. nValue t) \<and>
    distinct (map prevout (vin tx)) \<and> list_all (\<lambda>i. \<not> COutPoint_IsNull (prevout i)) (vin tx)"
proof -
  have "MoneyRange 0" by (simp add: MoneyRange_def MAX_MONEY_def COIN_def)
  then have out: "check_outputs_loop (vout tx) 0 = None \<longleftrightarrow>
      list_all (\<lambda>t. MoneyRange (nValue t)) (vout tx) \<and> MoneyRange (\<Sum>t\<leftarrow>vout tx. nValue t)"
    unfolding check_outputs_value by (subst GetValueOut_loop_value) (auto simp: list_all_iff)
  have null: "list_ex (\<lambda>i. COutPoint_IsNull (prevout i) \<and> \<not> (IsZerocoinSpend (scriptSig i) \<or> CTxIn_IsZerocoinRemint i)) (vin tx) \<longleftrightarrow>
      \<not> list_all (\<lambda>i. \<not> COutPoint_IsNull (prevout i)) (vin tx)"
    using assms(1) by (auto simp: spends_coins_def tx_IsZerocoinSpend_def tx_IsZerocoinRemint_def list_ex_iff list_all_iff
      CTxIn_IsZerocoinSpend_def IsZerocoinSpend_def starts_with_def)
  have form: "check_input_form CheckSigma CheckZerocoin (height > D) tx = None \<longleftrightarrow> list_all (\<lambda>i. \<not> COutPoint_IsNull (prevout i)) (vin tx)"
    unfolding check_input_form_def null using assms(1-3) by (simp add: spends_coins_def)
  have dup: "check_duplicates (height > D) tx = None \<longleftrightarrow> distinct (map prevout (vin tx))"
    using assms(1) by (simp add: check_duplicates_def spends_coins_def)
  show ?thesis
    using assms(4) out unfolding form [symmetric] dup [symmetric]
    by (auto simp: CheckTransaction_def Let_def split: if_splits option.splits)
qed

abbreviation plain_tx :: CTransaction where
  "plain_tx \<equiv> CMutableTransaction_init\<lparr>
     vin := [\<lparr>prevout = \<lparr>op_hash = [1], op_n = 7\<rparr>, scriptSig = [], nSequence = 0, prevPubKey = [], scriptWitness = []\<rparr>],
     vout := [\<lparr>nValue = 5, scriptPubKey = [], nRounds = - 10\<rparr>]\<rparr>"

lemma plain_tx_ok: "spends_coins plain_tx" "\<not> IsZerocoinV3SigmaTransaction plain_tx" "tx_nType plain_tx \<noteq> TRANSACTION_QUORUM_COMMITMENT"
  by (simp_all add: spends_coins_def IsCoinBase_def CMutableTransaction_init_def COutPoint_IsNull_def
    tx_IsZerocoinSpend_def tx_IsSigmaSpend_def tx_IsZerocoinRemint_def CTxIn_IsZerocoinSpend_def CTxIn_IsSigmaSpend_def
    CTxIn_IsZerocoinRemint_def IsSigmaMintGroup_def IsZerocoinV3SigmaTransaction_def tx_IsSigmaMint_def IsSigmaMint_def
    TRANSACTION_NORMAL_def TRANSACTION_QUORUM_COMMITMENT_def)

theorem CheckTransaction_correct_witness:
  "CheckTransaction (\<lambda>_. None) (\<lambda>_. None) 9 plain_tx True 8 = Accepted"
  by (subst CheckTransaction_correct)
    (simp_all only: plain_tx_ok, simp_all add: CMutableTransaction_init_def MAX_BLOCK_BASE_SIZE_def SerializeTransaction_def Let_def
      allow_witness_def HasWitness_def Serialize_vector_def WriteCompactSize_length CTxIn_Serialize_def CTxOut_Serialize_def
      COutPoint_Serialize_def Serialize_blob_def ser_writedata32_def ser_writedata64_def GetSizeOfCompactSize_def has_payload_def
      MoneyRange_def MAX_MONEY_def COIN_def COutPoint_IsNull_def)

end
