(* ===== verification/Connect_Coins.thy ===== *)
theory Connect_Coins
  imports Tx_Checks
begin

text \<open>
  Transactions acting on the unspent outputs, from \<^verbatim>\<open>coins.cpp\<close> and \<^verbatim>\<open>validation.cpp\<close>: the input checks, the
  update of the coins with its undo record, and the undo step of \<^verbatim>\<open>DisconnectBlock\<close>. The address index and the
  special-transaction database that \<^verbatim>\<open>DisconnectBlock\<close> also updates are not modelled.
\<close>

unbundle bit_operations_syntax

subsection \<open>Definitions\<close>

definition COINBASE_MATURITY :: int where "COINBASE_MATURITY = 400"

definition MAX_OUTPUTS_PER_BLOCK :: nat where
  "MAX_OUTPUTS_PER_BLOCK = MAX_BLOCK_BASE_SIZE div length (CTxOut_Serialize CTxOut_null)"

fun value_in_loop :: "'v CCoinsView \<Rightarrow> CTxIn list \<Rightarrow> CAmount \<Rightarrow> 'v CCoinsViewCache \<Rightarrow> CAmount \<times> 'v CCoinsViewCache" where
  "value_in_loop V [] nResult c = (nResult, c)"
| "value_in_loop V (i # is) nResult c =
     (case AccessCoin V (prevout i) c of (coin, c) \<Rightarrow> value_in_loop V is (sint (word_of_int (nResult + nValue (out coin)) :: u64)) c)"

definition GetValueIn :: "'v CCoinsView \<Rightarrow> CTransaction \<Rightarrow> 'v CCoinsViewCache \<Rightarrow> CAmount \<times> 'v CCoinsViewCache" where
  "GetValueIn V tx c = (if \<not> spends_coins tx then (0, c) else value_in_loop V (vin tx) 0 c)"

fun have_inputs_loop :: "'v CCoinsView \<Rightarrow> CTxIn list \<Rightarrow> 'v CCoinsViewCache \<Rightarrow> bool \<times> 'v CCoinsViewCache" where
  "have_inputs_loop V [] c = (True, c)"
| "have_inputs_loop V (i # is) c =
     (case HaveCoin V (prevout i) c of (have, c) \<Rightarrow> if \<not> have then (False, c) else have_inputs_loop V is c)"

definition HaveInputs :: "'v CCoinsView \<Rightarrow> CTransaction \<Rightarrow> 'v CCoinsViewCache \<Rightarrow> bool \<times> 'v CCoinsViewCache" where
  "HaveInputs V tx c = (if spends_coins tx then have_inputs_loop V (vin tx) c else (True, c))"

text \<open>
  \<open>CheckTxInputs\<close>: \<open>Accepted\<close> or \<open>Refused\<close> with the reject reason. \<open>None\<close> is the failed assertion or the exception
  of \<open>GetValueOut\<close>; the running sum wraps at 64 bits.
\<close>

fun check_inputs_loop ::
  "'v CCoinsView \<Rightarrow> int \<Rightarrow> CTxIn list \<Rightarrow> CAmount \<Rightarrow> 'v CCoinsViewCache \<Rightarrow> ((string + CAmount) \<times> 'v CCoinsViewCache) option" where
  "check_inputs_loop V nSpendHeight [] nValueIn c = Some (Inr nValueIn, c)"
| "check_inputs_loop V nSpendHeight (i # is) nValueIn c =
     (case AccessCoin V (prevout i) c of (coin, c) \<Rightarrow>
        if IsSpent coin then None
        else if fCoinBase coin \<and> nSpendHeight - int (coin_nHeight coin) < COINBASE_MATURITY
        then Some (Inl ''bad-txns-premature-spend-of-coinbase'', c)
        else
          let nValueIn = sint (word_of_int (nValueIn + nValue (out coin)) :: u64)
          in if \<not> MoneyRange (nValue (out coin)) \<or> \<not> MoneyRange nValueIn
             then Some (Inl ''bad-txns-inputvalues-outofrange'', c)
             else check_inputs_loop V nSpendHeight is nValueIn c)"

definition CheckTxInputs :: "'v CCoinsView \<Rightarrow> CTransaction \<Rightarrow> int \<Rightarrow> 'v CCoinsViewCache \<Rightarrow> (check \<times> 'v CCoinsViewCache) option" where
  "CheckTxInputs V tx nSpendHeight c =
     (case HaveInputs V tx c of (have, c) \<Rightarrow>
        if \<not> have then Some (Refused '''', c)
        else case check_inputs_loop V nSpendHeight (vin tx) 0 c of
          None \<Rightarrow> None
        | Some (Inl reason, c) \<Rightarrow> Some (Refused reason, c)
        | Some (Inr nValueIn, c) \<Rightarrow>
            (case GetValueOut tx of
               None \<Rightarrow> None
             | Some nValueOut \<Rightarrow>
                 Some (if nValueIn < nValueOut then Refused ''bad-txns-in-belowout''
                       else let nTxFee = nValueIn - nValueOut
                            in if nTxFee < 0 then Refused ''bad-txns-fee-negative''
                               else if \<not> MoneyRange nTxFee then Refused ''bad-txns-fee-outofrange''
                               else Accepted, c)))"

text \<open>\<open>UpdateCoins\<close>; the undo record holds the coins of the inputs.\<close>

type_synonym CTxUndo = "Coin list"

fun spend_inputs :: "'v CCoinsView \<Rightarrow> CTxIn list \<Rightarrow> 'v CCoinsViewCache \<Rightarrow> CTxUndo \<times> 'v CCoinsViewCache" where
  "spend_inputs V [] c = ([], c)"
| "spend_inputs V (i # is) c =
     (case SpendCoin V (prevout i) c of (r, c) \<Rightarrow>
      case spend_inputs V is c of (undo, c) \<Rightarrow> ((case r of None \<Rightarrow> coinEmpty | Some coin \<Rightarrow> coin) # undo, c))"

definition UpdateCoins :: "'v CCoinsView \<Rightarrow> CTransaction \<Rightarrow> int \<Rightarrow> 'v CCoinsViewCache \<Rightarrow> (CTxUndo \<times> 'v CCoinsViewCache) option" where
  "UpdateCoins V tx height c =
     (case (if spends_coins tx then spend_inputs V (vin tx) c else ([], c)) of (undo, c) \<Rightarrow>
        map_option (\<lambda>c. (undo, c)) (AddCoins tx height c))"

text \<open>\<open>AccessByTxid\<close>.\<close>

function access_by_txid :: "'v CCoinsView \<Rightarrow> bytes \<Rightarrow> nat \<Rightarrow> 'v CCoinsViewCache \<Rightarrow> Coin \<times> 'v CCoinsViewCache" where
  "access_by_txid V txid n c =
     (if n < MAX_OUTPUTS_PER_BLOCK then
        (case AccessCoin V \<lparr>op_hash = txid, op_n = of_nat n\<rparr> c of (alternate, c) \<Rightarrow>
           if \<not> IsSpent alternate then (alternate, c) else access_by_txid V txid (n + 1) c)
      else (coinEmpty, c))"
  by pat_completeness auto
termination by (relation "measure (\<lambda>(V, txid, n, c). MAX_OUTPUTS_PER_BLOCK - n)") auto

declare access_by_txid.simps [simp del]

datatype DisconnectResult = DISCONNECT_OK | DISCONNECT_UNCLEAN | DISCONNECT_FAILED

definition ApplyTxInUndo :: "'v CCoinsView \<Rightarrow> Coin \<Rightarrow> COutPoint \<Rightarrow> 'v CCoinsViewCache \<Rightarrow> (DisconnectResult \<times> 'v CCoinsViewCache) option" where
  "ApplyTxInUndo V undo p c =
     (case HaveCoin V p c of (have, c) \<Rightarrow>
      let fClean = \<not> have in
      case (if coin_nHeight undo = 0
            then (case access_by_txid V (op_hash p) 0 c of (alternate, c) \<Rightarrow>
                    if \<not> IsSpent alternate
                    then (Some (undo\<lparr>coin_nHeight := coin_nHeight alternate, fCoinBase := fCoinBase alternate\<rparr>), c)
                    else (None, c))
            else (Some undo, c)) of
        (None, c) \<Rightarrow> Some (DISCONNECT_FAILED, c)
      | (Some undo, c) \<Rightarrow>
          map_option (\<lambda>c. (if fClean then DISCONNECT_OK else DISCONNECT_UNCLEAN, c)) (AddCoin p undo (fCoinBase undo) c))"

text \<open>Undoing a transaction: its outputs in order, then its inputs in reverse order. The flag is \<^verbatim>\<open>fClean\<close>.\<close>

definition same_output :: "CTxOut \<Rightarrow> CTxOut \<Rightarrow> bool" where
  "same_output a b \<longleftrightarrow> nValue a = nValue b \<and> scriptPubKey a = scriptPubKey b"

fun undo_outputs :: "'v CCoinsView \<Rightarrow> bytes \<Rightarrow> nat \<Rightarrow> CTxOut list \<Rightarrow> bool \<Rightarrow> 'v CCoinsViewCache \<Rightarrow> bool \<times> 'v CCoinsViewCache" where
  "undo_outputs V txid k [] fClean c = (fClean, c)"
| "undo_outputs V txid k (t # ts) fClean c =
     (if \<not> IsUnspendable (scriptPubKey t) then
        (case SpendCoin V \<lparr>op_hash = txid, op_n = of_nat k\<rparr> c of (r, c) \<Rightarrow>
           undo_outputs V txid (Suc k) ts
             (if \<not> same_output t (out (case r of None \<Rightarrow> coinEmpty | Some coin \<Rightarrow> coin)) then False else fClean) c)
      else undo_outputs V txid (Suc k) ts fClean c)"

fun undo_inputs :: "'v CCoinsView \<Rightarrow> (COutPoint \<times> Coin) list \<Rightarrow> bool \<Rightarrow> 'v CCoinsViewCache \<Rightarrow> (bool option \<times> 'v CCoinsViewCache) option" where
  "undo_inputs V [] fClean c = Some (Some fClean, c)"
| "undo_inputs V ((p, coin) # ps) fClean c =
     (case ApplyTxInUndo V coin p c of
        None \<Rightarrow> None
      | Some (res, c) \<Rightarrow>
          if res = DISCONNECT_FAILED then Some (None, c)
          else undo_inputs V ps (fClean \<and> res \<noteq> DISCONNECT_UNCLEAN) c)"

definition undo_transaction ::
  "'v CCoinsView \<Rightarrow> CTransaction \<Rightarrow> CTxUndo option \<Rightarrow> bool \<Rightarrow> 'v CCoinsViewCache \<Rightarrow> (bool option \<times> 'v CCoinsViewCache) option" where
  "undo_transaction V tx undo fClean c =
     (case undo_outputs V (tx_GetHash tx) 0 (vout tx) fClean c of (fClean, c) \<Rightarrow>
        if spends_coins tx then
          (case undo of
             None \<Rightarrow> None
           | Some vprevout \<Rightarrow>
               if length vprevout \<noteq> length (vin tx) then Some (None, c)
               else undo_inputs V (rev (zip (map prevout (vin tx)) vprevout)) fClean c)
        else Some (Some fClean, c))"

text \<open>The loop of \<^verbatim>\<open>DisconnectBlock\<close> from index \<open>i - 1\<close> down to 0; there is no undo record for the first transaction.\<close>

fun disconnect_loop ::
  "'v CCoinsView \<Rightarrow> CTransaction list \<Rightarrow> CTxUndo list \<Rightarrow> nat \<Rightarrow> bool \<Rightarrow> 'v CCoinsViewCache \<Rightarrow> (DisconnectResult \<times> 'v CCoinsViewCache) option" where
  "disconnect_loop V vtx vtxundo 0 fClean c = Some (if fClean then DISCONNECT_OK else DISCONNECT_UNCLEAN, c)"
| "disconnect_loop V vtx vtxundo (Suc i) fClean c =
     (case undo_transaction V (vtx ! i) (if i = 0 then None else Some (vtxundo ! (i - 1))) fClean c of
        None \<Rightarrow> None
      | Some (None, c) \<Rightarrow> Some (DISCONNECT_FAILED, c)
      | Some (Some fClean, c) \<Rightarrow> disconnect_loop V vtx vtxundo i fClean c)"

definition disconnect_coins ::
  "'v CCoinsView \<Rightarrow> CTransaction list \<Rightarrow> CTxUndo list \<Rightarrow> bytes \<Rightarrow> 'v CCoinsViewCache \<Rightarrow> (DisconnectResult \<times> 'v CCoinsViewCache) option" where
  "disconnect_coins V vtx vtxundo hashPrev c =
     (if length vtxundo + 1 \<noteq> length vtx then Some (DISCONNECT_FAILED, c)
      else case disconnect_loop V vtx vtxundo (length vtx) True c of
        Some (res, c) \<Rightarrow> Some (if res = DISCONNECT_FAILED then (res, c) else (res, SetBestBlock hashPrev c))
      | None \<Rightarrow> None)"

subsection \<open>Abstract effect of a transaction\<close>

definition spent_set :: "CTransaction \<Rightarrow> COutPoint set" where
  "spent_set tx = (if spends_coins tx then prevout ` set (vin tx) else {})"

definition new_coins :: "bytes \<Rightarrow> int \<Rightarrow> bool \<Rightarrow> nat \<Rightarrow> CTxOut list \<Rightarrow> utxo_set" where
  "new_coins txid height cb i ts p =
     (let k = unat (op_n p) in
      if op_hash p = txid \<and> i \<le> k \<and> k < i + length ts \<and> \<not> IsUnspendable (scriptPubKey (ts ! (k - i)))
      then Some (Coin_init (ts ! (k - i)) height cb) else None)"

definition utxo_connect :: "int \<Rightarrow> CTransaction \<Rightarrow> utxo_set \<Rightarrow> utxo_set" where
  "utxo_connect height tx u = (u |` (- spent_set tx)) ++ new_coins (tx_GetHash tx) height (IsCoinBase tx) 0 (vout tx)"

definition undo_of :: "CTransaction \<Rightarrow> utxo_set \<Rightarrow> CTxUndo" where
  "undo_of tx u = (if spends_coins tx then map (\<lambda>i. the (u (prevout i))) (vin tx) else [])"

text \<open>
  A transaction that can be connected and taken back: its inputs are distinct and unspent, with a known height,
  its outputs have values and their outpoints are free.
\<close>

definition connectable :: "CTransaction \<Rightarrow> utxo_set \<Rightarrow> bool" where
  "connectable tx u \<longleftrightarrow>
     (spends_coins tx \<longrightarrow> distinct (map prevout (vin tx)) \<and>
        (\<forall>i\<in>set (vin tx). case u (prevout i) of None \<Rightarrow> False
           | Some coin \<Rightarrow> coin_nHeight coin \<noteq> 0 \<and> \<not> IsSpent coin \<and> \<not> IsUnspendable (scriptPubKey (out coin)))) \<and>
     (\<forall>t\<in>set (vout tx). nValue t \<noteq> - 1) \<and> length (vout tx) \<le> 2 ^ 32 \<and>
     (\<forall>k<length (vout tx). u \<lparr>op_hash = tx_GetHash tx, op_n = of_nat k\<rparr> = None)"

lemma unat_of_nat_32: "n < 2 ^ 32 \<Longrightarrow> unat (of_nat n :: u32) = n"
  by (simp add: unsigned_of_nat take_bit_nat_eq_self)

lemma outpoint_eq: "i < 2 ^ 32 \<Longrightarrow> p = \<lparr>op_hash = h, op_n = of_nat i\<rparr> \<longleftrightarrow> op_hash p = h \<and> unat (op_n p) = i"
  by (cases p) (auto simp: unat_of_nat_32 word_unat_eq_iff)

lemma new_coins_Nil [simp]: "new_coins txid height cb i [] = Map.empty"
  by (simp add: new_coins_def fun_eq_iff Let_def)

lemma new_coins_Cons:
  assumes "i < 2 ^ 32"
  shows "new_coins txid height cb i (t # ts) =
    (if IsUnspendable (scriptPubKey t) then new_coins txid height cb (Suc i) ts
     else (new_coins txid height cb (Suc i) ts)(\<lparr>op_hash = txid, op_n = of_nat i\<rparr> \<mapsto> Coin_init t height cb))"
    and "new_coins txid height cb (Suc i) ts \<lparr>op_hash = txid, op_n = of_nat i\<rparr> = None"
proof -
  show "new_coins txid height cb (Suc i) ts \<lparr>op_hash = txid, op_n = of_nat i\<rparr> = None"
    using assms by (simp add: new_coins_def Let_def unat_of_nat_32)
  show "new_coins txid height cb i (t # ts) =
    (if IsUnspendable (scriptPubKey t) then new_coins txid height cb (Suc i) ts
     else (new_coins txid height cb (Suc i) ts)(\<lparr>op_hash = txid, op_n = of_nat i\<rparr> \<mapsto> Coin_init t height cb))"
  proof (rule ext)
    fix p :: COutPoint
    consider "op_hash p \<noteq> txid \<or> unat (op_n p) < i" | "op_hash p = txid" "unat (op_n p) = i" | "op_hash p = txid" "unat (op_n p) > i"
      by linarith
    then show "new_coins txid height cb i (t # ts) p =
      (if IsUnspendable (scriptPubKey t) then new_coins txid height cb (Suc i) ts
       else (new_coins txid height cb (Suc i) ts)(\<lparr>op_hash = txid, op_n = of_nat i\<rparr> \<mapsto> Coin_init t height cb)) p"
      by cases (auto simp: new_coins_def Let_def outpoint_eq [OF assms] nth_Cons' Suc_diff_Suc)
  qed
qed

context coins_view begin

lemma spend_inputs:
  assumes "cache_inv utxo vok c" and "distinct (map prevout is)" and "\<forall>i\<in>set is. cache_utxo utxo c (prevout i) \<noteq> None"
  shows "\<exists>c'. spend_inputs V is c = (map (\<lambda>i. the (cache_utxo utxo c (prevout i))) is, c') \<and> cache_inv utxo vok c' \<and>
    cache_utxo utxo c' = cache_utxo utxo c |` (- prevout ` set is)"
  using assms
proof (induction "is" arbitrary: c)
  case (Cons i "is")
  obtain r c1 where f: "SpendCoin V (prevout i) c = (r, c1)" by fastforce
  note law = spend [OF Cons.prems(1) f]
  obtain coin where r: "r = Some coin" "cache_utxo utxo c (prevout i) = Some coin"
    using law(3) Cons.prems(3) by (cases r) (auto simp: unspent_def split: if_splits)
  have other: "cache_utxo utxo c1 (prevout j) = cache_utxo utxo c (prevout j)" if "j \<in> set is" for j
    using that Cons.prems(2) by (auto simp: law(2) image_iff)
  then have present: "\<forall>j\<in>set is. cache_utxo utxo c1 (prevout j) \<noteq> None"
    using Cons.prems(3) by simp
  obtain c2 where c2: "spend_inputs V is c1 = (map (\<lambda>i. the (cache_utxo utxo c1 (prevout i))) is, c2)" "cache_inv utxo vok c2"
    "cache_utxo utxo c2 = cache_utxo utxo c1 |` (- prevout ` set is)"
    using Cons.IH [OF law(1) _ present] Cons.prems(2) by auto
  have m: "map (\<lambda>i. the (cache_utxo utxo c1 (prevout i))) is = map (\<lambda>i. the (cache_utxo utxo c (prevout i))) is"
    using other by (intro map_cong) simp_all
  have "cache_utxo utxo c2 = cache_utxo utxo c |` (- prevout ` set (i # is))"
    by (auto simp: c2(3) law(2) restrict_map_def fun_eq_iff)
  with c2(1,2) r f show ?case by (simp add: m)
qed (simp add: restrict_map_def fun_eq_iff)

lemma add_outputs:
  assumes "cache_inv utxo vok c" and "\<forall>t\<in>set ts. nValue t \<noteq> - 1" and "i + length ts \<le> 2 ^ 32"
    and "\<forall>k<length ts. cache_utxo utxo c \<lparr>op_hash = txid, op_n = of_nat (i + k)\<rparr> = None"
  shows "\<exists>c'. AddCoins_loop txid height cb i ts c = Some c' \<and> cache_inv utxo vok c' \<and>
    cache_utxo utxo c' = cache_utxo utxo c ++ new_coins txid height cb i ts"
  using assms
proof (induction ts arbitrary: i c)
  case (Cons t ts)
  let ?p = "\<lparr>op_hash = txid, op_n = of_nat i\<rparr>"
  have i: "i < 2 ^ 32" using Cons.prems(3) by simp
  have "\<not> IsSpent (Coin_init t height cb)" "cache_utxo utxo c ?p = None"
    using Cons.prems(2) Cons.prems(4) [rule_format, of 0] by (simp_all add: IsSpent_def CTxOut_IsNull_def Coin_init_def)
  then obtain c1 where c1: "AddCoin ?p (Coin_init t height cb) cb c = Some c1" "cache_inv utxo vok c1"
    "cache_utxo utxo c1 = (if IsUnspendable (scriptPubKey t) then cache_utxo utxo c else (cache_utxo utxo c)(?p \<mapsto> Coin_init t height cb))"
    using add [OF Cons.prems(1), of "Coin_init t height cb" cb ?p] by (auto simp: Coin_init_def)
  have free: "cache_utxo utxo c1 \<lparr>op_hash = txid, op_n = of_nat (Suc i + k)\<rparr> = None" if "k < length ts" for k
  proof -
    have "(\<lparr>op_hash = txid, op_n = of_nat (Suc i + k)\<rparr> :: COutPoint) \<noteq> ?p"
      using that Cons.prems(3) by (simp add: outpoint_eq [OF i] unat_of_nat_32 del: of_nat_Suc of_nat_add)
    then show ?thesis
      using Cons.prems(4) [rule_format, of "Suc k"] that by (simp add: c1(3) del: of_nat_Suc of_nat_add)
  qed
  obtain c2 where c2: "AddCoins_loop txid height cb (Suc i) ts c1 = Some c2" "cache_inv utxo vok c2"
    "cache_utxo utxo c2 = cache_utxo utxo c1 ++ new_coins txid height cb (Suc i) ts"
    using Cons.IH [OF c1(2), of "Suc i"] Cons.prems(2,3) free by auto
  have "cache_utxo utxo c2 = cache_utxo utxo c ++ new_coins txid height cb i (t # ts)"
    using new_coins_Cons(2) [OF i, of txid height cb ts]
    by (auto simp: c2(3) c1(3) new_coins_Cons(1) [OF i] map_add_def fun_eq_iff split: option.splits)
  with c1(1) c2(1,2) show ?case by simp
qed simp

text \<open>\<open>UpdateCoins\<close> refines the abstract effect and records the spent coins.\<close>

lemma update_coins:
  assumes "cache_inv utxo vok c" and "connectable tx (cache_utxo utxo c)"
  shows "\<exists>c'. UpdateCoins V tx height c = Some (undo_of tx (cache_utxo utxo c), c') \<and> cache_inv utxo vok c' \<and>
    cache_utxo utxo c' = utxo_connect height tx (cache_utxo utxo c)"
proof -
  have "\<exists>c1. (if spends_coins tx then spend_inputs V (vin tx) c else ([], c)) = (undo_of tx (cache_utxo utxo c), c1) \<and>
      cache_inv utxo vok c1 \<and> cache_utxo utxo c1 = cache_utxo utxo c |` (- spent_set tx)"
    using assms spend_inputs [OF assms(1), of "vin tx"]
    by (fastforce simp: connectable_def undo_of_def spent_set_def split: option.splits)
  then obtain c1 where c1: "(if spends_coins tx then spend_inputs V (vin tx) c else ([], c)) = (undo_of tx (cache_utxo utxo c), c1)"
      "cache_inv utxo vok c1" "cache_utxo utxo c1 = cache_utxo utxo c |` (- spent_set tx)"
    by blast
  have "\<exists>c2. AddCoins tx height c1 = Some c2 \<and> cache_inv utxo vok c2 \<and> cache_utxo utxo c2 = utxo_connect height tx (cache_utxo utxo c)"
    using add_outputs [OF c1(2), of "vout tx" 0 "tx_GetHash tx" height "IsCoinBase tx"] assms(2)
    by (auto simp: AddCoins_def utxo_connect_def connectable_def c1(3) restrict_map_def)
  with c1 show ?thesis by (auto simp: UpdateCoins_def)
qed

end

subsection \<open>Taking a transaction back\<close>

context coins_view begin

lemma undo_outputs:
  assumes "cache_inv utxo vok c" and "i + length ts \<le> 2 ^ 32"
    and "cache_utxo utxo c = u ++ new_coins txid height cb i ts"
    and "\<forall>k<length ts. u \<lparr>op_hash = txid, op_n = of_nat (i + k)\<rparr> = None" and "\<forall>t\<in>set ts. nValue t \<noteq> - 1"
  shows "\<exists>c'. undo_outputs V txid i ts fClean c = (fClean, c') \<and> cache_inv utxo vok c' \<and> cache_utxo utxo c' = u"
  using assms
proof (induction ts arbitrary: i c)
  case (Cons t ts)
  let ?p = "\<lparr>op_hash = txid, op_n = of_nat i\<rparr>"
  have i: "i < 2 ^ 32" using Cons.prems(2) by simp
  have free: "\<forall>k<length ts. u \<lparr>op_hash = txid, op_n = of_nat (Suc i + k)\<rparr> = None" "u ?p = None"
    using Cons.prems(4) [rule_format, of "Suc _"] Cons.prems(4) [rule_format, of 0] by simp_all
  note IH = Cons.IH [OF _ _ _ free(1)]
  show ?case
  proof (cases "IsUnspendable (scriptPubKey t)")
    case True
    then show ?thesis
      using IH [OF Cons.prems(1)] Cons.prems(2,3,5) by (simp add: new_coins_Cons(1) [OF i])
  next
    case False
    obtain r c1 where f: "SpendCoin V ?p c = (r, c1)" by fastforce
    note law = spend [OF Cons.prems(1) f]
    have "cache_utxo utxo c ?p = Some (Coin_init t height cb)"
      using False by (simp add: Cons.prems(3) new_coins_Cons(1) [OF i])
    then have r: "r = Some (Coin_init t height cb)"
      using law(3) by (cases r) (auto simp: unspent_Some)
    have "cache_utxo utxo c1 = u ++ new_coins txid height cb (Suc i) ts"
      using False free(2) new_coins_Cons(2) [OF i, of txid height cb ts]
      by (auto simp: law(2) Cons.prems(3) new_coins_Cons(1) [OF i] map_add_def fun_eq_iff split: option.splits)
    then show ?thesis
      using IH [OF law(1)] Cons.prems(2,5) False f r by (simp add: same_output_def Coin_init_def)
  qed
qed simp

lemma apply_undo:
  assumes "cache_inv utxo vok c" and "cache_utxo utxo c p = None"
    and "coin_nHeight coin \<noteq> 0" and "\<not> IsSpent coin" and "\<not> IsUnspendable (scriptPubKey (out coin))"
  shows "\<exists>c'. ApplyTxInUndo V coin p c = Some (DISCONNECT_OK, c') \<and> cache_inv utxo vok c' \<and>
    cache_utxo utxo c' = (cache_utxo utxo c)(p \<mapsto> coin)"
proof -
  obtain b c1 where f: "HaveCoin V p c = (b, c1)" by fastforce
  note law = have_coin [OF assms(1) f]
  from add [of c1 coin "fCoinBase coin" p] law assms show ?thesis
    by (auto simp: ApplyTxInUndo_def f Let_def)
qed

lemma apply_undo_existing:
  assumes "cache_inv utxo vok c" and "cache_utxo utxo c p = Some other"
    and "coin_nHeight coin \<noteq> 0" and "\<not> IsSpent coin" and "\<not> IsUnspendable (scriptPubKey (out coin))"
  shows "if fCoinBase coin
    then \<exists>c'. ApplyTxInUndo V coin p c = Some (DISCONNECT_UNCLEAN, c') \<and> cache_utxo utxo c' = (cache_utxo utxo c)(p \<mapsto> coin)
    else ApplyTxInUndo V coin p c = None"
proof -
  obtain b c1 where f: "HaveCoin V p c = (b, c1)" by fastforce
  note law = have_coin [OF assms(1) f]
  obtain e where e: "map_of (cacheCoins c1) p = Some e" "\<not> IsSpent (ce_coin e)"
    using f law assms(2) fetch(3) [OF assms(1)]
    by (auto simp: HaveCoin_def split: prod.splits option.splits)
  show ?thesis
  proof (cases "fCoinBase coin")
    case True
    with add [of c1 coin True p] law assms show ?thesis
      by (auto simp: ApplyTxInUndo_def f Let_def)
  next
    case False
    with e assms(3-5) show ?thesis by (simp add: ApplyTxInUndo_def f Let_def AddCoin_def)
  qed
qed

lemma undo_inputs:
  assumes "cache_inv utxo vok c" and "distinct (map fst ps)"
    and "\<forall>(p, coin)\<in>set ps. cache_utxo utxo c p = None \<and> coin_nHeight coin \<noteq> 0 \<and> \<not> IsSpent coin \<and>
      \<not> IsUnspendable (scriptPubKey (out coin))"
  shows "\<exists>c'. undo_inputs V ps fClean c = Some (Some fClean, c') \<and> cache_inv utxo vok c' \<and>
    cache_utxo utxo c' = cache_utxo utxo c ++ map_of ps"
  using assms
proof (induction ps arbitrary: c)
  case (Cons x ps)
  obtain p coin where x: "x = (p, coin)" by (cases x)
  obtain c1 where c1: "ApplyTxInUndo V coin p c = Some (DISCONNECT_OK, c1)" "cache_inv utxo vok c1"
      "cache_utxo utxo c1 = (cache_utxo utxo c)(p \<mapsto> coin)"
    using apply_undo [OF Cons.prems(1), of p coin] Cons.prems(3) x by auto
  have p: "map_of ps p = None"
    using Cons.prems(2) by (auto simp: x map_of_eq_None_iff)
  have free: "\<forall>(q, d)\<in>set ps. cache_utxo utxo c1 q = None \<and> coin_nHeight d \<noteq> 0 \<and> \<not> IsSpent d \<and>
      \<not> IsUnspendable (scriptPubKey (out d))"
    using Cons.prems(2,3) by (force simp: x c1(3))
  from Cons.prems(2) have "distinct (map fst ps)" by simp
  from Cons.IH [OF c1(2) this free] obtain c2 where c2: "undo_inputs V ps fClean c1 = Some (Some fClean, c2)"
      "cache_inv utxo vok c2" "cache_utxo utxo c2 = cache_utxo utxo c1 ++ map_of ps"
    by blast
  have "undo_inputs V (x # ps) fClean c = Some (Some fClean, c2)"
    by (simp add: x c1(1) c2(1))
  moreover have "cache_utxo utxo c2 = cache_utxo utxo c ++ map_of (x # ps)"
    using p by (auto simp: c2(3) c1(3) x map_add_def fun_eq_iff split: option.splits)
  ultimately show ?case using c2(2) by blast
qed simp

text \<open>The undo record of a transaction puts back exactly what it spent.\<close>

lemma zip_pairs: "set (zip (map f xs) (map g xs)) = (\<lambda>x. (f x, g x)) ` set xs"
  by (induction xs) auto

lemma restore_spent:
  assumes "distinct (map prevout is)" and "\<forall>i\<in>set is. u (prevout i) \<noteq> None"
  shows "(u |` (- prevout ` set is)) ++ map_of (rev (zip (map prevout is) (map (\<lambda>i. the (u (prevout i))) is))) = u"
proof
  fix p
  let ?z = "zip (map prevout is) (map (\<lambda>i. the (u (prevout i))) is)"
  have d: "distinct (map fst (rev ?z))" using assms(1) by (simp add: rev_map [symmetric])
  have z: "set ?z = (\<lambda>i. (prevout i, the (u (prevout i)))) ` set is"
    by (rule zip_pairs)
  show "((u |` (- prevout ` set is)) ++ map_of (rev ?z)) p = u p"
  proof (cases "p \<in> prevout ` set is")
    case True
    then obtain i where i: "i \<in> set is" "p = prevout i" by blast
    then have "(p, the (u p)) \<in> set (rev ?z)" by (auto simp: z)
    then have "map_of (rev ?z) p = Some (the (u p))" by (rule map_of_is_SomeI [OF d])
    then show ?thesis using assms(2) i by auto
  next
    case False
    then have "map_of (rev ?z) p = None" by (auto simp: map_of_eq_None_iff image_iff z)
    then show ?thesis using False by (simp add: map_add_def restrict_map_def)
  qed
qed

lemma undo_transaction:
  assumes "cache_inv utxo vok c" and "cache_utxo utxo c = utxo_connect height tx u" and "connectable tx u"
    and "spends_coins tx \<Longrightarrow> undo = Some (undo_of tx u)"
  shows "\<exists>c'. undo_transaction V tx undo fClean c = Some (Some fClean, c') \<and> cache_inv utxo vok c' \<and> cache_utxo utxo c' = u"
proof -
  let ?u1 = "u |` (- spent_set tx)"
  have "\<forall>k<length (vout tx). ?u1 \<lparr>op_hash = tx_GetHash tx, op_n = of_nat (0 + k)\<rparr> = None"
    using assms(3) by (auto simp: connectable_def restrict_map_def)
  then obtain c1 where c1: "undo_outputs V (tx_GetHash tx) 0 (vout tx) fClean c = (fClean, c1)" "cache_inv utxo vok c1"
      "cache_utxo utxo c1 = ?u1"
    using undo_outputs [OF assms(1), of 0 "vout tx" ?u1 "tx_GetHash tx" height "IsCoinBase tx" fClean] assms(2,3)
    by (auto simp: utxo_connect_def connectable_def)
  show ?thesis
  proof (cases "spends_coins tx")
    case True
    let ?ps = "rev (zip (map prevout (vin tx)) (undo_of tx u))"
    have in_u: "distinct (map prevout (vin tx))" "\<forall>i\<in>set (vin tx). u (prevout i) \<noteq> None"
      using assms(3) True by (auto simp: connectable_def split: option.splits)
    have "distinct (map fst ?ps)" using in_u(1) True by (simp add: rev_map [symmetric] undo_of_def)
    moreover have "\<forall>(p, coin)\<in>set ?ps. cache_utxo utxo c1 p = None \<and> coin_nHeight coin \<noteq> 0 \<and> \<not> IsSpent coin \<and>
        \<not> IsUnspendable (scriptPubKey (out coin))"
    proof -
      have "cache_utxo utxo c1 (prevout i) = None \<and> coin_nHeight (the (u (prevout i))) \<noteq> 0 \<and> \<not> IsSpent (the (u (prevout i))) \<and>
          \<not> IsUnspendable (scriptPubKey (out (the (u (prevout i)))))" if "i \<in> set (vin tx)" for i
        using that assms(3) True by (auto simp: c1(3) spent_set_def connectable_def split: option.splits)
      then show ?thesis
        using True by (auto simp: undo_of_def zip_pairs)
    qed
    ultimately show ?thesis
      using undo_inputs [OF c1(2), of ?ps fClean] restore_spent [OF in_u] c1 assms(4) True
      by (auto simp: undo_transaction_def undo_of_def spent_set_def)
  next
    case False
    then show ?thesis using c1 by (simp add: undo_transaction_def spent_set_def restrict_map_def)
  qed
qed

end

end
