(* ===== verification/Coin_Value.thy ===== *)
theory Coin_Value
  imports Connect_Coins
begin

text \<open>
  What the input checks and the coin updates of \<^verbatim>\<open>Connect_Coins\<close> promise: the accepted spends, conservation of
  value, and that disconnecting a transaction or a block restores the unspent outputs.
\<close>

subsection \<open>Values\<close>

definition total_value :: "utxo_set \<Rightarrow> int" where
  "total_value u = (\<Sum>p\<in>dom u. nValue (out (the (u p))))"

definition value_in :: "CTransaction \<Rightarrow> utxo_set \<Rightarrow> int" where
  "value_in tx u = (\<Sum>i\<leftarrow>vin tx. nValue (out (the (u (prevout i)))))"

definition value_out :: "CTransaction \<Rightarrow> int" where
  "value_out tx = (\<Sum>t\<leftarrow>vout tx. nValue t)"

definition burnt :: "CTransaction \<Rightarrow> int" where
  "burnt tx = (\<Sum>t\<leftarrow>filter (\<lambda>t. IsUnspendable (scriptPubKey t)) (vout tx). nValue t)"

definition mature :: "int \<Rightarrow> Coin \<Rightarrow> bool" where
  "mature nSpendHeight coin \<longleftrightarrow> (fCoinBase coin \<longrightarrow> nSpendHeight - int (coin_nHeight coin) \<ge> COINBASE_MATURITY)"

definition input_ok :: "int \<Rightarrow> utxo_set \<Rightarrow> CTxIn \<Rightarrow> bool" where
  "input_ok nSpendHeight u i \<longleftrightarrow>
     (case u (prevout i) of None \<Rightarrow> False | Some coin \<Rightarrow> mature nSpendHeight coin \<and> MoneyRange (nValue (out coin)))"

definition inputs_ok :: "int \<Rightarrow> CTransaction \<Rightarrow> utxo_set \<Rightarrow> bool" where
  "inputs_ok nSpendHeight tx u \<longleftrightarrow>
     list_all (input_ok nSpendHeight u) (vin tx) \<and> MoneyRange (value_in tx u) \<and> value_out tx \<le> value_in tx u"

lemma total_value_upd: "finite (dom u) \<Longrightarrow> u p = None \<Longrightarrow> total_value (u(p \<mapsto> coin)) = nValue (out coin) + total_value u"
  by (auto simp: total_value_def domIff intro!: sum.cong)

lemma total_value_add:
  assumes "finite (dom u)" and "finite (dom v)" and "dom u \<inter> dom v = {}"
  shows "total_value (u ++ v) = total_value u + total_value v"
proof -
  have "total_value (u ++ v) = (\<Sum>p\<in>dom u. nValue (out (the ((u ++ v) p)))) + (\<Sum>p\<in>dom v. nValue (out (the ((u ++ v) p))))"
    using assms by (simp add: total_value_def sum.union_disjoint Un_commute)
  also have "(\<Sum>p\<in>dom u. nValue (out (the ((u ++ v) p)))) = total_value u"
    using assms(3) by (auto simp: total_value_def map_add_dom_app_simps(3) disjoint_iff domIff intro!: sum.cong)
  also have "(\<Sum>p\<in>dom v. nValue (out (the ((u ++ v) p)))) = total_value v"
    by (auto simp: total_value_def intro!: sum.cong)
  finally show ?thesis .
qed

lemma total_value_restrict:
  assumes "finite (dom u)" and "distinct ps" and "set ps \<subseteq> dom u"
  shows "total_value (u |` (- set ps)) + (\<Sum>p\<leftarrow>ps. nValue (out (the (u p)))) = total_value u"
proof -
  have "total_value (u |` (- set ps)) = (\<Sum>p\<in>dom u - set ps. nValue (out (the (u p))))"
    by (auto simp: total_value_def intro!: sum.cong)
  moreover have "(\<Sum>p\<leftarrow>ps. nValue (out (the (u p)))) = (\<Sum>p\<in>set ps. nValue (out (the (u p))))"
    by (rule sum_list_distinct_conv_sum_set [OF assms(2)])
  ultimately show ?thesis
    using sum.subset_diff [OF assms(3,1), of "\<lambda>p. nValue (out (the (u p)))"] by (simp add: total_value_def)
qed

lemma new_coins_value:
  assumes "i + length ts \<le> 2 ^ 32"
  shows "finite (dom (new_coins txid height cb i ts)) \<and>
    total_value (new_coins txid height cb i ts) = (\<Sum>t\<leftarrow>filter (\<lambda>t. \<not> IsUnspendable (scriptPubKey t)) ts. nValue t)"
  using assms
proof (induction ts arbitrary: i)
  case (Cons t ts)
  have i: "i < 2 ^ 32" using Cons.prems by simp
  show ?case
    using Cons.IH [of "Suc i"] Cons.prems new_coins_Cons(2) [OF i, of txid height cb ts]
    by (simp add: new_coins_Cons(1) [OF i] total_value_upd Coin_init_def del: fun_upd_apply)
qed (simp add: total_value_def)

lemma value_out_split: "value_out tx = (\<Sum>t\<leftarrow>filter (\<lambda>t. \<not> IsUnspendable (scriptPubKey t)) (vout tx). nValue t) + burnt tx"
proof -
  have "(\<Sum>t\<leftarrow>ts. nValue t) = (\<Sum>t\<leftarrow>filter (\<lambda>t. \<not> P t) ts. nValue t) + (\<Sum>t\<leftarrow>filter P ts. nValue t)" for P and ts :: "CTxOut list"
    by (induction ts) simp_all
  then show ?thesis by (simp add: value_out_def burnt_def)
qed

lemma connect_value:
  assumes "finite (dom u)" and "connectable tx u" and "spends_coins tx"
  shows "total_value (utxo_connect height tx u) + (value_in tx u - value_out tx) + burnt tx = total_value u"
proof -
  let ?n = "new_coins (tx_GetHash tx) height (IsCoinBase tx) 0 (vout tx)"
  have n: "finite (dom ?n)" "total_value ?n + burnt tx = value_out tx"
    using new_coins_value [of 0 "vout tx" "tx_GetHash tx" height "IsCoinBase tx"] assms(2)
    by (simp_all add: connectable_def value_out_split)
  have u: "distinct (map prevout (vin tx))" "set (map prevout (vin tx)) \<subseteq> dom u"
    using assms(2,3) by (auto simp: connectable_def split: option.splits)
  have "dom u \<inter> dom ?n = {}"
  proof -
    have "u p = None" if "?n p \<noteq> None" for p
    proof -
      have "op_hash p = tx_GetHash tx" "unat (op_n p) < length (vout tx)"
        using that by (auto simp: new_coins_def Let_def split: if_splits)
      moreover have "p = \<lparr>op_hash = op_hash p, op_n = of_nat (unat (op_n p))\<rparr>" by (cases p) simp
      ultimately show ?thesis using assms(2) unfolding connectable_def by metis
    qed
    then show ?thesis by auto
  qed
  then have "total_value (utxo_connect height tx u) = total_value (u |` (- set (map prevout (vin tx)))) + total_value ?n"
    using assms(1,3) n(1) unfolding utxo_connect_def spent_set_def
    by (subst total_value_add) auto
  with n(2) total_value_restrict [OF assms(1) u] show ?thesis
    by (simp add: value_in_def o_def)
qed

subsection \<open>The input checks\<close>

context coins_view begin

lemma have_inputs:
  assumes "cache_inv utxo vok c" and "have_inputs_loop V is c = (b, c')"
  shows "cache_inv utxo vok c' \<and> cache_utxo utxo c' = cache_utxo utxo c \<and> b = (\<forall>i\<in>set is. cache_utxo utxo c (prevout i) \<noteq> None)"
  using assms
proof (induction "is" arbitrary: c)
  case (Cons i "is")
  obtain h c1 where f: "HaveCoin V (prevout i) c = (h, c1)" by fastforce
  note law = have_coin [OF Cons.prems(1) f]
  show ?case
  proof (cases h)
    case True
    with Cons.prems(2) f law have "have_inputs_loop V is c1 = (b, c')" by (auto split: if_splits)
    with True law Cons.IH [of c1] show ?thesis by simp
  qed (use Cons.prems(2) f law in auto)
qed simp

lemma check_inputs:
  assumes "cache_inv utxo vok c" and "cache_utxo utxo c = u" and "\<forall>i\<in>set is. u (prevout i) \<noteq> None" and "MoneyRange n"
  shows "\<exists>r c'. check_inputs_loop V nSpendHeight is n c = Some (r, c') \<and> cache_inv utxo vok c' \<and> cache_utxo utxo c' = u \<and>
    (if list_all (input_ok nSpendHeight u) is \<and> MoneyRange (n + (\<Sum>i\<leftarrow>is. nValue (out (the (u (prevout i))))))
     then r = Inr (n + (\<Sum>i\<leftarrow>is. nValue (out (the (u (prevout i)))))) else \<exists>reason. r = Inl reason)"
  using assms
proof (induction "is" arbitrary: c n)
  case (Cons i "is")
  obtain coin c1 where f: "AccessCoin V (prevout i) c = (coin, c1)" by fastforce
  have law: "cache_inv utxo vok c1" "cache_utxo utxo c1 = u" "u (prevout i) = unspent coin"
    using access [OF Cons.prems(1) f] Cons.prems(2) by auto
  have coin: "u (prevout i) = Some coin" "\<not> IsSpent coin"
    using law(3) Cons.prems(3) by (auto simp: unspent_def split: if_splits)
  have head: "input_ok nSpendHeight u i \<longleftrightarrow> mature nSpendHeight coin \<and> MoneyRange (nValue (out coin))"
    by (simp add: input_ok_def coin(1))
  show ?case
  proof (cases "mature nSpendHeight coin \<and> MoneyRange (nValue (out coin))")
    case True
    then have w: "sint (word_of_int (n + nValue (out coin)) :: u64) = n + nValue (out coin)"
      using Cons.prems(4) by (intro sint_word_of_int) (simp_all add: MoneyRange_def MAX_MONEY_def COIN_def)
    have pos: "0 \<le> (\<Sum>i\<leftarrow>is. nValue (out (the (u (prevout i)))))" if "list_all (input_ok nSpendHeight u) is"
      using that by (intro sum_list_nonneg) (auto simp: list_all_iff input_ok_def MoneyRange_def split: option.splits)
    show ?thesis
    proof (cases "MoneyRange (n + nValue (out coin))")
      case range: True
      have step: "check_inputs_loop V nSpendHeight (i # is) n c = check_inputs_loop V nSpendHeight is (n + nValue (out coin)) c1"
        using True range w f coin(2) by (auto simp: Let_def mature_def not_less)
      have sum: "n + (\<Sum>i\<leftarrow>i # is. nValue (out (the (u (prevout i))))) = n + nValue (out coin) + (\<Sum>i\<leftarrow>is. nValue (out (the (u (prevout i)))))"
        using coin(1) by simp
      have all: "list_all (input_ok nSpendHeight u) (i # is) \<longleftrightarrow> list_all (input_ok nSpendHeight u) is"
        using True head by simp
      show ?thesis
        unfolding step sum all using Cons.prems(3) by (intro Cons.IH [OF law(1,2) _ range]) simp
    next
      case False
      then have "\<not> (list_all (input_ok nSpendHeight u) is \<and> MoneyRange (n + (nValue (out coin) + (\<Sum>i\<leftarrow>is. nValue (out (the (u (prevout i))))))))"
        using pos True Cons.prems(4) by (auto simp: MoneyRange_def)
      with False w f law(1,2) coin True show ?thesis
        by (auto simp: Let_def mature_def not_less)
    qed
  qed (use f law coin in \<open>auto simp: Let_def head mature_def not_less\<close>)
qed simp

lemma check_tx_inputs:
  assumes "cache_inv utxo vok c" and "spends_coins tx" and "GetValueOut tx \<noteq> None"
  shows "\<exists>r c'. CheckTxInputs V tx nSpendHeight c = Some (r, c') \<and> cache_inv utxo vok c' \<and> cache_utxo utxo c' = cache_utxo utxo c \<and>
    (r = Accepted \<longleftrightarrow> inputs_ok nSpendHeight tx (cache_utxo utxo c))"
proof -
  let ?u = "cache_utxo utxo c"
  obtain b c1 where h: "have_inputs_loop V (vin tx) c = (b, c1)" by fastforce
  note law = have_inputs [OF assms(1) h]
  have out: "GetValueOut tx = Some (value_out tx)" "0 \<le> value_out tx"
    using assms(3) GetValueOut_loop_value [of 0 "vout tx"]
    by (auto simp: GetValueOut_def value_out_def MoneyRange_def MAX_MONEY_def COIN_def split: if_splits)
  show ?thesis
  proof (cases b)
    case True
    have "MoneyRange 0" by (simp add: MoneyRange_def MAX_MONEY_def COIN_def)
    then obtain r c2 where r: "check_inputs_loop V nSpendHeight (vin tx) 0 c1 = Some (r, c2)" "cache_inv utxo vok c2" "cache_utxo utxo c2 = ?u"
        "if list_all (input_ok nSpendHeight ?u) (vin tx) \<and> MoneyRange (value_in tx ?u) then r = Inr (value_in tx ?u) else \<exists>reason. r = Inl reason"
      using check_inputs [of c1 ?u "vin tx" 0 nSpendHeight] law True by (auto simp: value_in_def)
    then show ?thesis
      using h True assms(2) out
      by (auto simp: CheckTxInputs_def HaveInputs_def inputs_ok_def MoneyRange_def Let_def split: if_splits)
  next
    case False
    then have "\<not> list_all (input_ok nSpendHeight ?u) (vin tx)"
      using law by (force simp: list_all_iff input_ok_def split: option.splits)
    with False h law assms(2) show ?thesis
      by (auto simp: CheckTxInputs_def HaveInputs_def inputs_ok_def)
  qed
qed

end

subsection \<open>Properties\<close>

text \<open>
  C9. Which spends \<open>CheckTxInputs\<close> accepts. For a transaction that spends coins and whose outputs have a legal
  total, the check never fails an assertion, leaves the unspent outputs as they are, and accepts exactly when every
  input is unspent, of legal value and, if it comes from a coinbase, 400 blocks old, the total of the inputs is in
  the money range, and the outputs do not exceed it. The 64-bit sums do not wrap.
\<close>

theorem CheckTxInputs_correct:
  assumes "cache_inv tip_utxo tip_inv c" and "spends_coins tx" and "GetValueOut tx \<noteq> None"
  shows "\<exists>r c'. CheckTxInputs tip_view tx nSpendHeight c = Some (r, c') \<and> cache_utxo tip_utxo c' = cache_utxo tip_utxo c \<and>
    (r = Accepted \<longleftrightarrow> inputs_ok nSpendHeight tx (cache_utxo tip_utxo c))"
  using tip.check_tx_inputs [OF assms] by blast

text \<open>A node whose database holds one coin of value 9, and a transaction that spends it and pays 5.\<close>

definition sample_coin :: Coin where
  "sample_coin = Coin_init \<lparr>nValue = 9, scriptPubKey = [OP_1], nRounds = - 10\<rparr> 3 False"

lemma sample_coin_simps [simp]:
  "out sample_coin = \<lparr>nValue = 9, scriptPubKey = [OP_1], nRounds = - 10\<rparr>" "\<not> fCoinBase sample_coin" "coin_nHeight sample_coin = 3"
  "\<not> IsSpent sample_coin" "\<not> IsUnspendable [OP_1]"
  by (simp_all add: sample_coin_def Coin_init_def IsSpent_def CTxOut_IsNull_def IsUnspendable_def MAX_SCRIPT_SIZE_def)

abbreviation sample_db :: CCoinsViewDB where
  "sample_db \<equiv> \<lparr>db_coins = [\<lparr>op_hash = [1], op_n = 7\<rparr> \<mapsto> sample_coin], db_best = None\<rparr>"

abbreviation sample_caches :: "CCoinsViewDB CCoinsViewCache CCoinsViewCache" where
  "sample_caches \<equiv> CCoinsViewCache_init (CCoinsViewCache_init sample_db)"

abbreviation sample_tx :: CTransaction where
  "sample_tx \<equiv> CMutableTransaction_init\<lparr>
     vin := [\<lparr>prevout = \<lparr>op_hash = [1], op_n = 7\<rparr>, scriptSig = [], nSequence = 0, prevPubKey = [], scriptWitness = []\<rparr>],
     vout := [\<lparr>nValue = 5, scriptPubKey = [], nRounds = - 10\<rparr>]\<rparr>"

lemma sample_caches_ok: "cache_inv tip_utxo tip_inv sample_caches" "cache_utxo tip_utxo sample_caches = db_coins sample_db"
  by (auto simp: cache_inv_def cc_ok_def CCoinsViewCache_init_def db_inv_def cache_utxo_def layered_def fun_eq_iff
    IsSpent_def CTxOut_IsNull_def Coin_init_def)

lemma sample_tx_ok: "spends_coins sample_tx" "GetValueOut sample_tx = Some 5" "connectable sample_tx (db_coins sample_db)"
  by (auto simp: spends_coins_def IsCoinBase_def CMutableTransaction_init_def COutPoint_IsNull_def
    tx_IsZerocoinSpend_def tx_IsSigmaSpend_def tx_IsZerocoinRemint_def CTxIn_IsZerocoinSpend_def CTxIn_IsSigmaSpend_def
    CTxIn_IsZerocoinRemint_def IsSigmaMintGroup_def GetValueOut_def MoneyRange_def MAX_MONEY_def COIN_def
    connectable_def IsSpent_def CTxOut_IsNull_def Coin_init_def IsUnspendable_def MAX_SCRIPT_SIZE_def)

lemma sample_tx_connectable: "connectable sample_tx (cache_utxo tip_utxo sample_caches)"
  unfolding sample_caches_ok(2) by (rule sample_tx_ok(3))

theorem CheckTxInputs_correct_witness:
  "\<exists>r c'. CheckTxInputs tip_view sample_tx 8 sample_caches = Some (r, c') \<and>
    cache_utxo tip_utxo c' = cache_utxo tip_utxo sample_caches \<and>
    (r = Accepted \<longleftrightarrow> inputs_ok 8 sample_tx (cache_utxo tip_utxo sample_caches))"
  by (rule CheckTxInputs_correct [OF sample_caches_ok(1) sample_tx_ok(1)]) (simp add: sample_tx_ok)

text \<open>
  C13. A spend creates no money. When \<open>CheckTxInputs\<close> accepts a transaction with distinct inputs and free output
  positions, \<open>UpdateCoins\<close> succeeds on the cache it leaves, the fee lies in the money range, and the total value of
  the unspent outputs falls by exactly the fee and the value sent to unspendable scripts.
\<close>

theorem UpdateCoins_conserves_value:
  assumes "cache_inv tip_utxo tip_inv c" and "finite (dom (cache_utxo tip_utxo c))"
    and "spends_coins tx" and "connectable tx (cache_utxo tip_utxo c)"
    and "CheckTxInputs tip_view tx height c = Some (Accepted, c1)"
  shows "\<exists>c2. UpdateCoins tip_view tx height c1 = Some (undo_of tx (cache_utxo tip_utxo c), c2) \<and>
    MoneyRange (value_in tx (cache_utxo tip_utxo c) - value_out tx) \<and>
    total_value (cache_utxo tip_utxo c2) + (value_in tx (cache_utxo tip_utxo c) - value_out tx) + burnt tx =
      total_value (cache_utxo tip_utxo c)"
proof -
  have out: "GetValueOut tx \<noteq> None"
    using assms(5) by (auto simp: CheckTxInputs_def split: prod.splits option.splits if_splits sum.splits)
  then have "0 \<le> value_out tx"
    using GetValueOut_loop_value [of 0 "vout tx"]
    by (auto simp: GetValueOut_def value_out_def MoneyRange_def MAX_MONEY_def COIN_def split: if_splits)
  moreover have c1: "cache_inv tip_utxo tip_inv c1" "cache_utxo tip_utxo c1 = cache_utxo tip_utxo c" "inputs_ok height tx (cache_utxo tip_utxo c)"
    using tip.check_tx_inputs [OF assms(1,3) out, of height] assms(5) by auto
  ultimately have "MoneyRange (value_in tx (cache_utxo tip_utxo c) - value_out tx)"
    by (auto simp: inputs_ok_def MoneyRange_def)
  moreover obtain c2 where "UpdateCoins tip_view tx height c1 = Some (undo_of tx (cache_utxo tip_utxo c), c2)"
      "cache_utxo tip_utxo c2 = utxo_connect height tx (cache_utxo tip_utxo c)"
    using tip.update_coins [OF c1(1), of tx height] assms(4) by (auto simp: c1(2))
  ultimately show ?thesis using connect_value [OF assms(2,4,3), of height] by auto
qed

lemma sample_tx_accepted: "\<exists>c1. CheckTxInputs tip_view sample_tx 8 sample_caches = Some (Accepted, c1)"
proof -
  have "inputs_ok 8 sample_tx (db_coins sample_db)"
    by (simp add: inputs_ok_def input_ok_def mature_def value_in_def value_out_def MoneyRange_def MAX_MONEY_def COIN_def
      CMutableTransaction_init_def Coin_init_def)
  then show ?thesis
    using tip.check_tx_inputs [OF sample_caches_ok(1) sample_tx_ok(1), of 8] by (auto simp: sample_tx_ok(2) sample_caches_ok(2))
qed

theorem UpdateCoins_conserves_value_witness:
  "\<exists>c1 c2. CheckTxInputs tip_view sample_tx 8 sample_caches = Some (Accepted, c1) \<and>
    UpdateCoins tip_view sample_tx 8 c1 = Some (undo_of sample_tx (cache_utxo tip_utxo sample_caches), c2) \<and>
    total_value (cache_utxo tip_utxo c2) + (value_in sample_tx (cache_utxo tip_utxo sample_caches) - value_out sample_tx) + burnt sample_tx =
      total_value (cache_utxo tip_utxo sample_caches)"
proof -
  obtain c1 where c1: "CheckTxInputs tip_view sample_tx 8 sample_caches = Some (Accepted, c1)"
    using sample_tx_accepted by blast
  have "finite (dom (cache_utxo tip_utxo sample_caches))" by (simp add: sample_caches_ok(2))
  from UpdateCoins_conserves_value [OF sample_caches_ok(1) this sample_tx_ok(1) sample_tx_connectable c1] c1 show ?thesis
    by blast
qed

text \<open>
  Undoing a spend restores the spent coins. After \<open>UpdateCoins\<close> has connected a transaction, the undo step of
  \<open>DisconnectBlock\<close> with the record it produced removes the outputs, finds them unchanged, and puts every spent
  coin back with its height and coinbase flag.
\<close>

theorem UpdateCoins_undone:
  assumes "cache_inv tip_utxo tip_inv c" and "connectable tx (cache_utxo tip_utxo c)"
  shows "\<exists>undo c1 c2. UpdateCoins tip_view tx height c = Some (undo, c1) \<and>
    undo_transaction tip_view tx (Some undo) True c1 = Some (Some True, c2) \<and> cache_utxo tip_utxo c2 = cache_utxo tip_utxo c"
proof -
  obtain c1 where c1: "UpdateCoins tip_view tx height c = Some (undo_of tx (cache_utxo tip_utxo c), c1)" "cache_inv tip_utxo tip_inv c1"
      "cache_utxo tip_utxo c1 = utxo_connect height tx (cache_utxo tip_utxo c)"
    using tip.update_coins [OF assms] by blast
  with tip.undo_transaction [OF c1(2,3) assms(2)] show ?thesis by auto
qed

theorem UpdateCoins_undone_witness:
  "\<exists>undo c1 c2. UpdateCoins tip_view sample_tx 8 sample_caches = Some (undo, c1) \<and>
    undo_transaction tip_view sample_tx (Some undo) True c1 = Some (Some True, c2) \<and>
    cache_utxo tip_utxo c2 = cache_utxo tip_utxo sample_caches"
  by (rule UpdateCoins_undone [OF sample_caches_ok(1) sample_tx_connectable])

text \<open>
  C17. What \<open>ApplyTxInUndo\<close> does when the coin it restores already exists. A coinbase coin is overwritten and
  \<open>DISCONNECT_UNCLEAN\<close> is reported; for any other coin \<open>AddCoin\<close> throws, so the report the caller handles is not made.
\<close>

theorem ApplyTxInUndo_overwrite:
  assumes "cache_inv tip_utxo tip_inv c" and "cache_utxo tip_utxo c p = Some other"
    and "coin_nHeight undo \<noteq> 0" and "\<not> IsSpent undo" and "\<not> IsUnspendable (scriptPubKey (out undo))"
  shows "if fCoinBase undo
    then \<exists>c'. ApplyTxInUndo tip_view undo p c = Some (DISCONNECT_UNCLEAN, c') \<and>
      cache_utxo tip_utxo c' = (cache_utxo tip_utxo c)(p \<mapsto> undo)
    else ApplyTxInUndo tip_view undo p c = None"
  by (rule tip.apply_undo_existing [OF assms])

theorem ApplyTxInUndo_overwrite_witness:
  "ApplyTxInUndo tip_view sample_coin \<lparr>op_hash = [1], op_n = 7\<rparr> sample_caches = None"
proof -
  let ?p = "\<lparr>op_hash = [1], op_n = 7\<rparr>"
  have "cache_utxo tip_utxo sample_caches ?p = Some sample_coin"
    unfolding sample_caches_ok(2) by simp
  from ApplyTxInUndo_overwrite [OF sample_caches_ok(1) this, of sample_coin] show ?thesis by simp
qed

end
