(* ===== verification/Connect_Block.thy ===== *)
theory Connect_Block
  imports Coin_Value
begin

text \<open>
  Connecting a block, from \<^verbatim>\<open>ConnectBlock\<close> of \<^verbatim>\<open>validation.cpp\<close>: the overwrite check of BIP 30, the loop over the
  transactions with its checks, fees, signature-operation count and coin updates, and the limit on the coinbase. The
  zerocoin check against its state and the sigma input sum are fields of the environment. The payee checks, the
  special transactions, the indexes and the writing of undo data after the loop are not modelled; they can only
  refuse the block or act outside the coins. The environment also holds what is fixed during the call.
\<close>

unbundle bit_operations_syntax

subsection \<open>Definitions\<close>

definition MAX_BLOCK_SIGOPS_COST :: nat where "MAX_BLOCK_SIGOPS_COST = 400000"
definition HF_TNODE_HEIGHT :: int where "HF_TNODE_HEIGHT = 0"

record ConnectEnv =
  env_heap :: index_heap
  env_pindex :: ptr
  env_height :: int
  env_isMainNet :: bool
  env_flags :: u32
  env_nLockTimeFlags :: u32
  env_fScriptChecks :: bool
  env_Verify :: "bytes \<Rightarrow> bytes \<Rightarrow> bytes \<Rightarrow> bool"
  env_LowS :: "bytes \<Rightarrow> bool"
  env_zerocoin_check :: "CTransaction \<Rightarrow> bool"
  env_GetSigmaSpendInput :: "CTransaction \<Rightarrow> CAmount"

fun bip30_outputs :: "'v CCoinsView \<Rightarrow> bytes \<Rightarrow> nat \<Rightarrow> CTxOut list \<Rightarrow> 'v CCoinsViewCache \<Rightarrow> bool \<times> 'v CCoinsViewCache" where
  "bip30_outputs V txid k [] c = (False, c)"
| "bip30_outputs V txid k (t # ts) c =
     (case HaveCoin V \<lparr>op_hash = txid, op_n = of_nat k\<rparr> c of (have, c) \<Rightarrow>
        if have then (True, c) else bip30_outputs V txid (Suc k) ts c)"

fun bip30_loop :: "'v CCoinsView \<Rightarrow> CTransaction list \<Rightarrow> 'v CCoinsViewCache \<Rightarrow> bool \<times> 'v CCoinsViewCache" where
  "bip30_loop V [] c = (False, c)"
| "bip30_loop V (tx # vtx) c =
     (case bip30_outputs V (tx_GetHash tx) 0 (vout tx) c of (have, c) \<Rightarrow> if have then (True, c) else bip30_loop V vtx c)"

fun prev_heights :: "'v CCoinsView \<Rightarrow> CTxIn list \<Rightarrow> 'v CCoinsViewCache \<Rightarrow> int list \<times> 'v CCoinsViewCache" where
  "prev_heights V [] c = ([], c)"
| "prev_heights V (i # is) c =
     (case AccessCoin V (prevout i) c of (coin, c) \<Rightarrow>
      case prev_heights V is c of (ks, c) \<Rightarrow> (int (coin_nHeight coin) # ks, c))"

text \<open>The first checks of an input-spending transaction: the reject reason, if any.\<close>

definition connect_locks :: "'v CCoinsView \<Rightarrow> ConnectEnv \<Rightarrow> CTransaction \<Rightarrow> 'v CCoinsViewCache \<Rightarrow> (string option \<times> 'v CCoinsViewCache) option" where
  "connect_locks V env tx c =
     (if spends_coins tx then
        (case HaveInputs V tx c of (have, c) \<Rightarrow>
           if \<not> have then Some (Some ''bad-txns-inputs-missingorspent'', c)
           else case prev_heights V (vin tx) c of (prevheights, c) \<Rightarrow> do {
             ok \<leftarrow> SequenceLocks tx (env_nLockTimeFlags env) prevheights (env_heap env) (env_pindex env);
             Some (if \<not> ok then Some ''bad-txns-nonfinal'' else None, c)
           })
      else Some (None, c))"

text \<open>
  \<open>CheckInputs\<close>, which is only called for a transaction that spends coins. \<^verbatim>\<open>CScriptCheck\<close> runs the script of one
  input; the checks are made at once here and by a queue of threads in the node. Whatever the reason, a failed
  script refuses the block. The spend height is the height of the block.
\<close>

definition CScriptCheck_run :: "ConnectEnv \<Rightarrow> CTransaction \<Rightarrow> nat \<Rightarrow> Coin \<Rightarrow> bool" where
  "CScriptCheck_run env tx n coin \<longleftrightarrow>
     VerifyScript (scriptSig (vin tx ! n)) (scriptPubKey (out coin)) (Some (scriptWitness (vin tx ! n))) (env_flags env)
       (TransactionSignatureChecker (env_Verify env) (env_LowS env) tx n (nValue (out coin)) (Some (PrecomputedTransactionData_init tx)))
     = Accept ()"

fun script_checks_loop :: "'v CCoinsView \<Rightarrow> ConnectEnv \<Rightarrow> CTransaction \<Rightarrow> nat \<Rightarrow> CTxIn list \<Rightarrow> 'v CCoinsViewCache \<Rightarrow> (bool \<times> 'v CCoinsViewCache) option" where
  "script_checks_loop V env tx n [] c = Some (True, c)"
| "script_checks_loop V env tx n (i # is) c =
     (case AccessCoin V (prevout i) c of (coin, c) \<Rightarrow>
        if IsSpent coin then None
        else if \<not> CScriptCheck_run env tx n coin then Some (False, c)
        else script_checks_loop V env tx (Suc n) is c)"

definition CheckInputs :: "'v CCoinsView \<Rightarrow> ConnectEnv \<Rightarrow> CTransaction \<Rightarrow> 'v CCoinsViewCache \<Rightarrow> (check \<times> 'v CCoinsViewCache) option" where
  "CheckInputs V env tx c =
     (case CheckTxInputs V tx (env_height env) c of
        None \<Rightarrow> None
      | Some (Refused reason, c) \<Rightarrow> Some (Refused reason, c)
      | Some (Accepted, c) \<Rightarrow>
          if env_fScriptChecks env
          then map_option (\<lambda>(ok, c). (if ok then Accepted else Refused ''mandatory-script-verify-flag-failed'', c))
                 (script_checks_loop V env tx 0 (vin tx) c)
          else Some (Accepted, c))"

text \<open>Fees and inputs of an input-spending transaction; 64-bit sums wrap.\<close>

definition connect_inputs ::
  "'v CCoinsView \<Rightarrow> ConnectEnv \<Rightarrow> CTransaction \<Rightarrow> CAmount \<Rightarrow> 'v CCoinsViewCache \<Rightarrow> ((string + CAmount) \<times> 'v CCoinsViewCache) option" where
  "connect_inputs V env tx nFees c =
     (if spends_coins tx then
        (case GetValueIn V tx c of (nValueIn, c) \<Rightarrow> do {
           nValueOut \<leftarrow> GetValueOut tx;
           (r, c) \<leftarrow> CheckInputs V env tx c;
           Some (case r of Accepted \<Rightarrow> Inr (sint (word_of_int (nFees + (nValueIn - nValueOut)) :: u64)) | Refused reason \<Rightarrow> Inl reason, c)
         })
      else Some (Inr nFees, c))"

text \<open>The zerocoin step: \<open>None\<close> is the exception of \<open>GetValueOut\<close>, and \<open>Inl\<close> the refusal.\<close>

definition connect_zerocoin :: "ConnectEnv \<Rightarrow> CTransaction \<Rightarrow> CAmount \<Rightarrow> (string + CAmount) option" where
  "connect_zerocoin env tx nFees =
     (if tx_IsZerocoinSpend tx \<or> tx_IsZerocoinMint tx \<or> tx_IsSigmaSpend tx \<or> tx_IsSigmaMint tx \<or> tx_IsZerocoinRemint tx then do {
        nFees \<leftarrow> (if tx_IsSigmaSpend tx
           then map_option (\<lambda>v. sint (word_of_int (nFees + (env_GetSigmaSpendInput env tx - v)) :: u64)) (GetValueOut tx)
           else Some nFees);
        Some (if \<not> env_zerocoin_check env tx then Inl ''bad-txns-zerocoin'' else Inr nFees)
      }
      else Some (Inr nFees))"

text \<open>One round of the loop, after the duplicate test: new fees, operation count, undo record and coins, or a refusal.\<close>

definition connect_tx ::
  "'v CCoinsView \<Rightarrow> ConnectEnv \<Rightarrow> bool \<Rightarrow> CTransaction \<Rightarrow> CAmount \<Rightarrow> nat \<Rightarrow> 'v CCoinsViewCache \<Rightarrow>
   (string + CAmount \<times> nat \<times> CTxUndo \<times> 'v CCoinsViewCache) option" where
  "connect_tx V env hasDuplicate tx nFees nSigOpsCost c = do {
     (refused, c) \<leftarrow> connect_locks V env tx c;
     case refused of Some reason \<Rightarrow> Some (Inl reason) | None \<Rightarrow> do {
       z \<leftarrow> connect_zerocoin env tx nFees;
       case z of Inl reason \<Rightarrow> Some (Inl reason) | Inr nFees \<Rightarrow> do {
         (n, c) \<leftarrow> GetTransactionSigOpCost V tx (env_flags env) c;
         let nSigOpsCost = nSigOpsCost + n;
         if nSigOpsCost > MAX_BLOCK_SIGOPS_COST then Some (Inl ''bad-blk-sigops'')
         else do {
           (r, c) \<leftarrow> connect_inputs V env tx nFees c;
           case r of Inl reason \<Rightarrow> Some (Inl reason) | Inr nFees \<Rightarrow> do {
             (undo, c) \<leftarrow> (if \<not> hasDuplicate then UpdateCoins V tx (env_height env) c else Some ([], c));
             Some (Inr (nFees, nSigOpsCost, undo, c))
           }
         }
       }
     }
   }"

fun connect_loop ::
  "'v CCoinsView \<Rightarrow> ConnectEnv \<Rightarrow> nat \<Rightarrow> bytes set \<Rightarrow> CTransaction list \<Rightarrow> CAmount \<Rightarrow> nat \<Rightarrow> 'v CCoinsViewCache \<Rightarrow>
   (string + CAmount \<times> CTxUndo list \<times> 'v CCoinsViewCache) option" where
  "connect_loop V env i txIds [] nFees nSigOpsCost c = Some (Inr (nFees, [], c))"
| "connect_loop V env i txIds (tx # vtx) nFees nSigOpsCost c =
     (let hasDuplicate = tx_GetHash tx \<in> txIds
      in if hasDuplicate \<and> (\<not> env_isMainNet env \<or> env_height env \<ge> HF_TNODE_HEIGHT) then Some (Inl ''bad-txns-duplicatetxid'')
         else case connect_tx V env hasDuplicate tx nFees nSigOpsCost c of
           None \<Rightarrow> None
         | Some (Inl reason) \<Rightarrow> Some (Inl reason)
         | Some (Inr (nFees, nSigOpsCost, undo, c)) \<Rightarrow>
             (case connect_loop V env (Suc i) (insert (tx_GetHash tx) txIds) vtx nFees nSigOpsCost c of
                Some (Inr (nFees, undos, c)) \<Rightarrow> Some (Inr (nFees, if i > 0 then undo # undos else undos, c))
              | r \<Rightarrow> r))"

definition connect_coins ::
  "'v CCoinsView \<Rightarrow> ConnectEnv \<Rightarrow> RewardParams \<Rightarrow> bytes \<Rightarrow> CTransaction list \<Rightarrow> 'v CCoinsViewCache \<Rightarrow>
   (string + CTxUndo list \<times> 'v CCoinsViewCache) option" where
  "connect_coins V env params blockHash vtx c =
     (case bip30_loop V vtx c of (have, c) \<Rightarrow>
        if have then Some (Inl ''bad-txns-BIP30'')
        else case connect_loop V env 0 {} vtx 0 0 c of
          None \<Rightarrow> None
        | Some (Inl reason) \<Rightarrow> Some (Inl reason)
        | Some (Inr (nFees, undos, c)) \<Rightarrow>
            (case vtx of
               [] \<Rightarrow> None
             | tx # _ \<Rightarrow>
                 (case GetValueOut tx of
                    None \<Rightarrow> None
                  | Some nValueOut \<Rightarrow>
                      let blockReward = sint (word_of_int (nFees + GetBlockSubsidy (env_height env) params) :: u64)
                      in if nValueOut > blockReward then Some (Inl ''bad-cb-amount'')
                         else Some (Inr (undos, SetBestBlock blockHash c)))))"

subsection \<open>The checks leave the coins alone\<close>

lemma cache_utxo_SetBestBlock [simp]: "cache_utxo utxo (SetBestBlock h c) = cache_utxo utxo c"
  by (simp add: SetBestBlock_def cache_utxo_def)

definition same_coins :: "('v \<Rightarrow> utxo_set) \<Rightarrow> ('v \<Rightarrow> bool) \<Rightarrow> 'v CCoinsViewCache \<Rightarrow> 'v CCoinsViewCache \<Rightarrow> bool" where
  "same_coins utxo vok c c' \<longleftrightarrow> cache_inv utxo vok c' \<and> cache_utxo utxo c' = cache_utxo utxo c"

lemma same_coins_refl: "cache_inv utxo vok c \<Longrightarrow> same_coins utxo vok c c"
  by (simp add: same_coins_def)

lemma same_coins_trans: "same_coins utxo vok c c' \<Longrightarrow> same_coins utxo vok c' c'' \<Longrightarrow> same_coins utxo vok c c''"
  by (simp add: same_coins_def)

definition outputs_free :: "CTransaction \<Rightarrow> utxo_set \<Rightarrow> bool" where
  "outputs_free tx u \<longleftrightarrow> (\<forall>k<length (vout tx). u \<lparr>op_hash = tx_GetHash tx, op_n = of_nat k\<rparr> = None)"

context coins_view begin

lemma access_same:
  assumes "cache_inv utxo vok c" and "AccessCoin V p c = (coin, c')"
  shows "same_coins utxo vok c c'" and "cache_utxo utxo c p = unspent coin" and "cache_inv utxo vok c'" and "cache_utxo utxo c' = cache_utxo utxo c"
  using access [OF assms] by (auto simp: same_coins_def)

lemma bip30_outputs:
  assumes "cache_inv utxo vok c" and "bip30_outputs V txid k ts c = (b, c')"
  shows "same_coins utxo vok c c' \<and> (\<not> b \<longrightarrow> (\<forall>j<length ts. cache_utxo utxo c \<lparr>op_hash = txid, op_n = of_nat (k + j)\<rparr> = None))"
  using assms
proof (induction ts arbitrary: k c)
  case (Cons t ts)
  obtain h c1 where f: "HaveCoin V \<lparr>op_hash = txid, op_n = of_nat k\<rparr> c = (h, c1)" by fastforce
  have law: "cache_inv utxo vok c1" "cache_utxo utxo c1 = cache_utxo utxo c"
      "h \<longleftrightarrow> cache_utxo utxo c \<lparr>op_hash = txid, op_n = of_nat k\<rparr> \<noteq> None"
    using have_coin [OF Cons.prems(1) f] by auto
  show ?case
  proof (cases h)
    case False
    with Cons.prems(2) f have "bip30_outputs V txid (Suc k) ts c1 = (b, c')" by simp
    note IH = Cons.IH [OF law(1) this]
    have "cache_utxo utxo c \<lparr>op_hash = txid, op_n = of_nat (k + j)\<rparr> = None" if "\<not> b" "j < Suc (length ts)" for j
      using that IH False law by (cases j) (auto simp: same_coins_def simp del: of_nat_add of_nat_Suc)
    with IH law show ?thesis by (auto simp: same_coins_def simp del: of_nat_add)
  qed (use Cons.prems(2) f law in \<open>auto simp: same_coins_def\<close>)
qed (simp add: same_coins_def)

lemma bip30:
  assumes "cache_inv utxo vok c" and "bip30_loop V vtx c = (b, c')"
  shows "same_coins utxo vok c c' \<and> (\<not> b \<longrightarrow> list_all (\<lambda>tx. outputs_free tx (cache_utxo utxo c)) vtx)"
  using assms
proof (induction vtx arbitrary: c)
  case (Cons tx vtx)
  obtain h c1 where f: "bip30_outputs V (tx_GetHash tx) 0 (vout tx) c = (h, c1)" by fastforce
  note law = bip30_outputs [OF Cons.prems(1) f]
  show ?case
  proof (cases h)
    case False
    with Cons.prems(2) f have "bip30_loop V vtx c1 = (b, c')" by simp
    with Cons.IH [of c1] law False show ?thesis by (auto simp: same_coins_def outputs_free_def)
  qed (use Cons.prems(2) f law in auto)
qed (simp add: same_coins_def)

lemma prev_heights_same:
  assumes "cache_inv utxo vok c" and "prev_heights V is c = (ks, c')"
  shows "same_coins utxo vok c c'"
  using assms
proof (induction "is" arbitrary: c ks)
  case (Cons i "is")
  obtain coin c1 where f: "AccessCoin V (prevout i) c = (coin, c1)" by fastforce
  obtain ks1 where g: "prev_heights V is c1 = (ks1, c')"
    using Cons.prems(2) f by (auto split: prod.splits)
  with Cons.IH [OF access_same(3) [OF Cons.prems(1) f] g] Cons.prems(2) f access_same(1) [OF Cons.prems(1) f]
  show ?case by (auto intro: same_coins_trans)
qed (simp add: same_coins_def)

lemma p2sh_sigops_same:
  assumes "cache_inv utxo vok c" and "p2sh_sigops_loop V is n c = Some (n', c')"
  shows "same_coins utxo vok c c'"
  using assms
proof (induction "is" arbitrary: c n)
  case (Cons i "is")
  obtain coin c1 where f: "AccessCoin V (prevout i) c = (coin, c1)" by fastforce
  with Cons.IH [OF access_same(3) [OF Cons.prems(1) f]] Cons.prems(2) access_same(1) [OF Cons.prems(1) f]
  show ?case by (auto intro: same_coins_trans split: if_splits)
qed (simp add: same_coins_def)

lemma witness_sigops_same:
  assumes "cache_inv utxo vok c" and "witness_sigops_loop V flags is n c = Some (n', c')"
  shows "same_coins utxo vok c c'"
  using assms
proof (induction "is" arbitrary: c n)
  case (Cons i "is")
  obtain coin c1 where f: "AccessCoin V (prevout i) c = (coin, c1)" by fastforce
  with Cons.IH [OF access_same(3) [OF Cons.prems(1) f]] Cons.prems(2) access_same(1) [OF Cons.prems(1) f]
  show ?case by (auto intro: same_coins_trans split: verdict.splits)
qed (simp add: same_coins_def)

lemma sigop_cost_same:
  assumes "cache_inv utxo vok c" and "GetTransactionSigOpCost V tx flags c = Some (n, c')"
  shows "same_coins utxo vok c c'"
proof (cases "spends_coins tx")
  case True
  then obtain m c1 where g: "(if flag flags SCRIPT_VERIFY_P2SH
        then map_option (\<lambda>(n, c). (GetLegacySigOpCount tx * WITNESS_SCALE_FACTOR + n * WITNESS_SCALE_FACTOR, c)) (GetP2SHSigOpCount V tx c)
        else Some (GetLegacySigOpCount tx * WITNESS_SCALE_FACTOR, c)) = Some (m, c1)"
      "witness_sigops_loop V flags (vin tx) m c1 = Some (n, c')"
    using assms(2) by (auto simp: GetTransactionSigOpCost_def Let_def split: bind_splits)
  then have "same_coins utxo vok c c1"
    using assms(1) p2sh_sigops_same by (auto simp: GetP2SHSigOpCount_def same_coins_refl split: if_splits)
  moreover from this have "same_coins utxo vok c1 c'"
    using witness_sigops_same [OF _ g(2)] by (simp add: same_coins_def)
  ultimately show ?thesis by (rule same_coins_trans)
qed (use assms in \<open>auto simp: GetTransactionSigOpCost_def Let_def same_coins_def\<close>)

lemma value_in_same:
  assumes "cache_inv utxo vok c" and "value_in_loop V is n c = (v, c')"
  shows "same_coins utxo vok c c'"
    and "list_all (input_ok h (cache_utxo utxo c)) is \<Longrightarrow> 0 \<le> n \<Longrightarrow>
      n + (\<Sum>i\<leftarrow>is. nValue (out (the (cache_utxo utxo c (prevout i))))) < 2 ^ 63 \<Longrightarrow>
      v = n + (\<Sum>i\<leftarrow>is. nValue (out (the (cache_utxo utxo c (prevout i)))))"
proof -
  let ?sum = "\<lambda>c is. \<Sum>i\<leftarrow>is. nValue (out (the (cache_utxo utxo c (prevout i))))"
  have "same_coins utxo vok c c' \<and>
    (list_all (input_ok h (cache_utxo utxo c)) is \<longrightarrow> 0 \<le> n \<longrightarrow> n + ?sum c is < 2 ^ 63 \<longrightarrow> v = n + ?sum c is)"
    using assms
  proof (induction "is" arbitrary: c n)
    case (Cons i "is")
    obtain coin c1 where f: "AccessCoin V (prevout i) c = (coin, c1)" by fastforce
    note law = access_same [OF Cons.prems(1) f]
    have IH: "same_coins utxo vok c1 c' \<and> (list_all (input_ok h (cache_utxo utxo c)) is \<longrightarrow> 0 \<le> sint (word_of_int (n + nValue (out coin)) :: u64) \<longrightarrow>
        sint (word_of_int (n + nValue (out coin)) :: u64) + ?sum c is < 2 ^ 63 \<longrightarrow> v = sint (word_of_int (n + nValue (out coin)) :: u64) + ?sum c is)"
      using Cons.IH [OF law(3)] Cons.prems(2) f by (simp add: law(4))
    have "v = n + ?sum c (i # is)"
      if ok: "list_all (input_ok h (cache_utxo utxo c)) (i # is)" "0 \<le> n" "n + ?sum c (i # is) < 2 ^ 63"
    proof -
      have coin: "cache_utxo utxo c (prevout i) = Some coin" "0 \<le> nValue (out coin)"
        using ok(1) law(2) by (auto simp: input_ok_def MoneyRange_def unspent_def split: option.splits if_splits)
      have "0 \<le> ?sum c is"
        using ok(1) by (intro sum_list_nonneg) (auto simp: list_all_iff input_ok_def MoneyRange_def split: option.splits)
      then have "sint (word_of_int (n + nValue (out coin)) :: u64) = n + nValue (out coin)"
        using ok(2,3) coin by (intro sint_word_of_int) auto
      with IH ok coin show ?thesis by simp
    qed
    with IH law(1) show ?case by (blast intro: same_coins_trans)
  qed (simp add: same_coins_def)
  then show "same_coins utxo vok c c'"
    "list_all (input_ok h (cache_utxo utxo c)) is \<Longrightarrow> 0 \<le> n \<Longrightarrow> n + ?sum c is < 2 ^ 63 \<Longrightarrow> v = n + ?sum c is" by auto
qed

end

subsection \<open>What a connected transaction has passed\<close>

definition scripts_ok :: "ConnectEnv \<Rightarrow> CTransaction \<Rightarrow> utxo_set \<Rightarrow> bool" where
  "scripts_ok env tx u \<longleftrightarrow> list_all (\<lambda>n. case u (prevout (vin tx ! n)) of None \<Rightarrow> False | Some coin \<Rightarrow> CScriptCheck_run env tx n coin) [0..<length (vin tx)]"

definition coin_ok :: "Coin \<Rightarrow> bool" where
  "coin_ok coin \<longleftrightarrow> coin_nHeight coin \<noteq> 0 \<and> \<not> IsUnspendable (scriptPubKey (out coin)) \<and> MoneyRange (nValue (out coin))"

definition coins_ok :: "utxo_set \<Rightarrow> bool" where
  "coins_ok u \<longleftrightarrow> finite (dom u) \<and> (\<forall>p coin. u p = Some coin \<longrightarrow> coin_ok coin)"

definition tx_checked :: "CTransaction \<Rightarrow> bool" where
  "tx_checked tx \<longleftrightarrow> GetValueOut tx \<noteq> None \<and> length (vout tx) \<le> 2 ^ 32 \<and> (spends_coins tx \<longrightarrow> distinct (map prevout (vin tx)))"

lemma CheckTransaction_checked:
  "CheckTransaction CheckSigma CheckZerocoin D tx True h = Accepted \<Longrightarrow> tx_checked tx"
  using CheckTransaction_sound [of CheckSigma CheckZerocoin D tx h] by (auto simp: tx_checked_def MAX_BLOCK_BASE_SIZE_def)

lemma coin_ok_unspent: "coin_ok coin \<Longrightarrow> \<not> IsSpent coin"
  by (auto simp: coin_ok_def IsSpent_def CTxOut_IsNull_def MoneyRange_def)

lemma GetValueOut_values: "GetValueOut tx \<noteq> None \<Longrightarrow> t \<in> set (vout tx) \<Longrightarrow> MoneyRange (nValue t)"
  using GetValueOut_loop_value [of 0 "vout tx"] by (auto simp: GetValueOut_def MoneyRange_def MAX_MONEY_def COIN_def split: if_splits)

lemma new_coins_dom:
  "new_coins txid h cb i ts p = Some coin \<Longrightarrow>
    op_hash p = txid \<and> unat (op_n p) < i + length ts \<and> (\<exists>t\<in>set ts. \<not> IsUnspendable (scriptPubKey t) \<and> coin = Coin_init t h cb)"
  by (fastforce simp: new_coins_def Let_def split: if_splits)

lemma connect_keeps_coins_ok:
  assumes "coins_ok u" and "tx_checked tx" and "0 < h" and "h < 2 ^ 31"
  shows "coins_ok (utxo_connect h tx u)"
proof -
  have "finite (dom (new_coins (tx_GetHash tx) h (IsCoinBase tx) 0 (vout tx)))"
    using new_coins_value [of 0 "vout tx"] assms(2) by (simp add: tx_checked_def)
  then have "finite (dom (utxo_connect h tx u))"
    using assms(1) by (simp add: utxo_connect_def coins_ok_def)
  moreover have "coin_ok coin" if "utxo_connect h tx u p = Some coin" for p coin
  proof (cases "new_coins (tx_GetHash tx) h (IsCoinBase tx) 0 (vout tx) p")
    case None
    with that assms(1) show ?thesis by (auto simp: utxo_connect_def coins_ok_def map_add_def restrict_map_def split: if_splits)
  next
    case (Some c)
    with that have "c = coin" by (simp add: utxo_connect_def)
    with new_coins_dom [OF Some] GetValueOut_values [of tx] assms(2-4) show ?thesis
      by (auto simp: coin_ok_def Coin_init_def tx_checked_def)
  qed
  ultimately show ?thesis by (simp add: coins_ok_def)
qed

lemma checked_connectable:
  assumes "coins_ok u" and "tx_checked tx" and "outputs_free tx u"
    and "spends_coins tx \<Longrightarrow> list_all (input_ok h u) (vin tx)"
  shows "connectable tx u"
proof -
  have "\<forall>t\<in>set (vout tx). nValue t \<noteq> - 1"
    using GetValueOut_values [of tx] assms(2) by (fastforce simp: tx_checked_def MoneyRange_def)
  moreover have "case u (prevout i) of None \<Rightarrow> False
      | Some coin \<Rightarrow> coin_nHeight coin \<noteq> 0 \<and> \<not> IsSpent coin \<and> \<not> IsUnspendable (scriptPubKey (out coin))"
    if sp: "spends_coins tx" and i: "i \<in> set (vin tx)" for i
  proof -
    obtain coin where coin: "u (prevout i) = Some coin"
      using assms(4) [OF sp] i by (auto simp: list_all_iff input_ok_def split: option.splits)
    with assms(1) have "coin_ok coin" by (auto simp: coins_ok_def)
    with coin coin_ok_unspent show ?thesis by (simp add: coin_ok_def)
  qed
  ultimately show ?thesis
    using assms(2,3) by (auto simp: connectable_def tx_checked_def outputs_free_def)
qed

context coins_view begin

lemma script_checks:
  assumes "cache_inv utxo vok c" and "script_checks_loop V env tx n (drop n (vin tx)) c = Some (b, c')" and "n \<le> length (vin tx)"
  shows "same_coins utxo vok c c' \<and> (b \<longrightarrow> list_all (\<lambda>n. case cache_utxo utxo c (prevout (vin tx ! n)) of
      None \<Rightarrow> False | Some coin \<Rightarrow> CScriptCheck_run env tx n coin) [n..<length (vin tx)])"
  using assms
proof (induction "length (vin tx) - n" arbitrary: n c)
  case (Suc k)
  then have n: "n < length (vin tx)" by simp
  then have d: "drop n (vin tx) = vin tx ! n # drop (Suc n) (vin tx)" by (simp add: Cons_nth_drop_Suc)
  obtain coin c1 where f: "AccessCoin V (prevout (vin tx ! n)) c = (coin, c1)" by fastforce
  note law = access_same [OF Suc.prems(1) f]
  have coin: "cache_utxo utxo c (prevout (vin tx ! n)) = Some coin"
    using Suc.prems(2) f law(2) by (auto simp: d unspent_def split: if_splits)
  show ?case
  proof (cases "CScriptCheck_run env tx n coin")
    case True
    then have "script_checks_loop V env tx (Suc n) (drop (Suc n) (vin tx)) c1 = Some (b, c')"
      using Suc.prems(2) f by (auto simp: d split: if_splits)
    with Suc.hyps(1) [of "Suc n" c1] Suc.hyps(2) law(1,3,4) n True coin show ?thesis
      by (auto simp: upt_conv_Cons same_coins_def)
  qed (use Suc.prems(2) f law in \<open>auto simp: d split: if_splits\<close>)
qed (simp add: same_coins_def)

lemma check_inputs_accepted:
  assumes "cache_inv utxo vok c" and "spends_coins tx" and "GetValueOut tx \<noteq> None" and "CheckInputs V env tx c = Some (r, c')"
  shows "same_coins utxo vok c c'"
    and "r = Accepted \<Longrightarrow> inputs_ok (env_height env) tx (cache_utxo utxo c)"
    and "r = Accepted \<Longrightarrow> env_fScriptChecks env \<Longrightarrow> scripts_ok env tx (cache_utxo utxo c)"
proof -
  obtain r1 c1 where c1: "CheckTxInputs V tx (env_height env) c = Some (r1, c1)" "same_coins utxo vok c c1"
      "r1 = Accepted \<longleftrightarrow> inputs_ok (env_height env) tx (cache_utxo utxo c)"
    using check_tx_inputs [OF assms(1-3), of "env_height env"] by (auto simp: same_coins_def)
  have inv: "cache_inv utxo vok c1" and u: "cache_utxo utxo c1 = cache_utxo utxo c" using c1(2) by (simp_all add: same_coins_def)
  have "same_coins utxo vok c c' \<and> (r = Accepted \<longrightarrow> inputs_ok (env_height env) tx (cache_utxo utxo c) \<and>
      (env_fScriptChecks env \<longrightarrow> scripts_ok env tx (cache_utxo utxo c)))"
  proof (cases "r1 = Accepted \<and> env_fScriptChecks env")
    case True
    then obtain ok where ok: "script_checks_loop V env tx 0 (drop 0 (vin tx)) c1 = Some (ok, c')"
        "r = (if ok then Accepted else Refused ''mandatory-script-verify-flag-failed'')"
      using assms(4) c1(1) by (auto simp: CheckInputs_def)
    with script_checks [OF inv ok(1)] c1 True u show ?thesis
      by (auto simp: scripts_ok_def intro: same_coins_trans)
  next
    case False
    with assms(4) c1 show ?thesis by (cases r1) (auto simp: CheckInputs_def)
  qed
  then show "same_coins utxo vok c c'" "r = Accepted \<Longrightarrow> inputs_ok (env_height env) tx (cache_utxo utxo c)"
    "r = Accepted \<Longrightarrow> env_fScriptChecks env \<Longrightarrow> scripts_ok env tx (cache_utxo utxo c)" by auto
qed

lemma connect_locks_same:
  assumes "cache_inv utxo vok c" and "connect_locks V env tx c = Some (r, c')"
  shows "same_coins utxo vok c c'"
proof (cases "spends_coins tx")
  case True
  obtain b c1 where h: "have_inputs_loop V (vin tx) c = (b, c1)" by fastforce
  have c1: "same_coins utxo vok c c1" "cache_inv utxo vok c1" using have_inputs [OF assms(1) h] by (auto simp: same_coins_def)
  obtain ks c2 where k: "prev_heights V (vin tx) c1 = (ks, c2)" by fastforce
  with assms(2) True h c1 prev_heights_same [OF c1(2) k] show ?thesis
    by (auto simp: connect_locks_def HaveInputs_def intro: same_coins_trans split: if_splits bind_splits)
qed (use assms in \<open>simp add: connect_locks_def same_coins_def\<close>)

lemma connect_inputs_accepted:
  assumes "cache_inv utxo vok c" and "tx_checked tx" and "connect_inputs V env tx f c = Some (Inr f', c')"
  shows "same_coins utxo vok c c'" and "\<not> spends_coins tx \<Longrightarrow> f' = f"
    and "spends_coins tx \<Longrightarrow> inputs_ok (env_height env) tx (cache_utxo utxo c) \<and>
      (env_fScriptChecks env \<longrightarrow> scripts_ok env tx (cache_utxo utxo c)) \<and>
      f' = sint (word_of_int (f + (value_in tx (cache_utxo utxo c) - value_out tx)) :: u64)"
proof -
  let ?u = "cache_utxo utxo c"
  have out: "GetValueOut tx = Some (value_out tx)" "GetValueOut tx \<noteq> None"
    using assms(2) GetValueOut_loop_value [of 0 "vout tx"]
    by (auto simp: tx_checked_def GetValueOut_def value_out_def MoneyRange_def MAX_MONEY_def COIN_def split: if_splits)
  have "same_coins utxo vok c c' \<and> inputs_ok (env_height env) tx ?u \<and> (env_fScriptChecks env \<longrightarrow> scripts_ok env tx ?u) \<and>
      f' = sint (word_of_int (f + (value_in tx ?u - value_out tx)) :: u64)" if sp: "spends_coins tx"
  proof -
    obtain v c1 where v: "value_in_loop V (vin tx) 0 c = (v, c1)" by fastforce
    note same = value_in_same [OF assms(1) v]
    have c1: "cache_inv utxo vok c1" "cache_utxo utxo c1 = ?u" using same(1) by (simp_all add: same_coins_def)
    have r: "CheckInputs V env tx c1 = Some (Accepted, c')" "f' = sint (word_of_int (f + (v - value_out tx)) :: u64)"
      using assms(3) sp v out by (auto simp: connect_inputs_def GetValueIn_def split: bind_splits check.splits)
    note ok = check_inputs_accepted [OF c1(1) sp out(2) r(1)]
    have "v = value_in tx ?u"
      using same(2) [of "env_height env"] ok(2) by (simp add: c1(2) inputs_ok_def MoneyRange_def MAX_MONEY_def COIN_def value_in_def)
    with ok r(2) same(1) show ?thesis by (auto simp: c1(2) intro: same_coins_trans)
  qed
  moreover have "same_coins utxo vok c c' \<and> f' = f" if "\<not> spends_coins tx"
    using that assms by (simp add: connect_inputs_def same_coins_def)
  ultimately show "same_coins utxo vok c c'" "\<not> spends_coins tx \<Longrightarrow> f' = f"
    "spends_coins tx \<Longrightarrow> inputs_ok (env_height env) tx ?u \<and> (env_fScriptChecks env \<longrightarrow> scripts_ok env tx ?u) \<and>
      f' = sint (word_of_int (f + (value_in tx ?u - value_out tx)) :: u64)" by blast+
qed

lemma connect_tx_accepted:
  assumes "cache_inv utxo vok c" and "cache_utxo utxo c = u" and "tx_checked tx" and "coins_ok u" and "outputs_free tx u"
    and "connect_tx V env False tx f n c = Some (Inr (f', n', undo, c'))"
  shows "cache_inv utxo vok c'" and "cache_utxo utxo c' = utxo_connect (env_height env) tx u" and "undo = undo_of tx u" and "connectable tx u"
    and "\<not> spends_coins tx \<Longrightarrow> \<not> tx_IsSigmaSpend tx \<Longrightarrow> f' = f"
    and "spends_coins tx \<Longrightarrow> inputs_ok (env_height env) tx u \<and> (env_fScriptChecks env \<longrightarrow> scripts_ok env tx u) \<and>
      f' = sint (word_of_int (f + (value_in tx u - value_out tx)) :: u64)"
proof -
  obtain c1 f2 m c3 c4 where s: "connect_locks V env tx c = Some (None, c1)" "connect_zerocoin env tx f = Some (Inr f2)"
      "GetTransactionSigOpCost V tx (env_flags env) c1 = Some (m, c3)" "connect_inputs V env tx f2 c3 = Some (Inr f', c4)"
      "UpdateCoins V tx (env_height env) c4 = Some (undo, c')"
    using assms(6) by (auto simp: connect_tx_def Let_def split: bind_splits option.splits sum.splits if_splits)
  have c3: "same_coins utxo vok c c3"
    using connect_locks_same [OF assms(1) s(1)] sigop_cost_same [OF _ s(3)] by (auto simp: same_coins_def)
  then have inv3: "cache_inv utxo vok c3" and u3: "cache_utxo utxo c3 = u" using assms(2) by (simp_all add: same_coins_def)
  note inputs = connect_inputs_accepted [OF inv3 assms(3) s(4), unfolded u3]
  have f2: "f2 = f" if "\<not> tx_IsSigmaSpend tx"
    using s(2) that by (auto simp: connect_zerocoin_def split: if_splits)
  have c4: "cache_inv utxo vok c4" "cache_utxo utxo c4 = u" using inputs(1) u3 by (simp_all add: same_coins_def)
  have "connectable tx u"
    using checked_connectable [OF assms(4,3,5), of "env_height env"] inputs(3) by (auto simp: inputs_ok_def)
  with update_coins [OF c4(1), of tx "env_height env"] s(5)
  show "cache_inv utxo vok c'" "cache_utxo utxo c' = utxo_connect (env_height env) tx u" "undo = undo_of tx u" "connectable tx u"
    by (auto simp: c4(2))
  show "f' = f" if "\<not> spends_coins tx" "\<not> tx_IsSigmaSpend tx" using inputs(2) f2 that by simp
  show "inputs_ok (env_height env) tx u \<and> (env_fScriptChecks env \<longrightarrow> scripts_ok env tx u) \<and>
      f' = sint (word_of_int (f + (value_in tx u - value_out tx)) :: u64)" if "spends_coins tx"
    using inputs(3) f2 that by (simp add: spends_coins_def)
qed

end

subsection \<open>Blocks\<close>

fun connectable_block :: "int \<Rightarrow> CTransaction list \<Rightarrow> utxo_set \<Rightarrow> bool" where
  "connectable_block height [] u \<longleftrightarrow> True"
| "connectable_block height (tx # vtx) u \<longleftrightarrow> connectable tx u \<and> connectable_block height vtx (utxo_connect height tx u)"

fun undos_of :: "int \<Rightarrow> CTransaction list \<Rightarrow> utxo_set \<Rightarrow> CTxUndo list" where
  "undos_of height [] u = []"
| "undos_of height (tx # vtx) u = undo_of tx u # undos_of height vtx (utxo_connect height tx u)"

lemma length_undos_of [simp]: "length (undos_of height vtx u) = length vtx"
  by (induction vtx arbitrary: u) simp_all

lemma block_nth:
  assumes "connectable_block height vtx u" and "k < length vtx"
  shows "connectable (vtx ! k) (fold (utxo_connect height) (take k vtx) u)"
    and "undos_of height vtx u ! k = undo_of (vtx ! k) (fold (utxo_connect height) (take k vtx) u)"
proof -
  have "connectable (vtx ! k) (fold (utxo_connect height) (take k vtx) u) \<and>
      undos_of height vtx u ! k = undo_of (vtx ! k) (fold (utxo_connect height) (take k vtx) u)"
    using assms
  proof (induction vtx arbitrary: u k)
    case (Cons tx vtx)
    then show ?case by (cases k) simp_all
  qed simp
  then show "connectable (vtx ! k) (fold (utxo_connect height) (take k vtx) u)"
    "undos_of height vtx u ! k = undo_of (vtx ! k) (fold (utxo_connect height) (take k vtx) u)" by simp_all
qed

fun block_scripts :: "ConnectEnv \<Rightarrow> CTransaction list \<Rightarrow> utxo_set \<Rightarrow> bool" where
  "block_scripts env [] u \<longleftrightarrow> True"
| "block_scripts env (tx # vtx) u \<longleftrightarrow>
     (spends_coins tx \<longrightarrow> scripts_ok env tx u) \<and> block_scripts env vtx (utxo_connect (env_height env) tx u)"

lemma outputs_free_connect: "outputs_free tx u \<Longrightarrow> tx_GetHash tx \<noteq> tx_GetHash tx' \<Longrightarrow> outputs_free tx (utxo_connect h tx' u)"
  using new_coins_dom by (fastforce simp: outputs_free_def utxo_connect_def map_add_def restrict_map_def split: option.splits)

lemma connect_loop_distinct:
  assumes "connect_loop V env i txIds vtx f n c = Some (Inr r)" and "0 \<le> env_height env"
  shows "distinct (map tx_GetHash vtx) \<and> tx_GetHash ` set vtx \<inter> txIds = {}"
  using assms(1)
proof (induction vtx arbitrary: i txIds f n c r)
  case (Cons tx vtx)
  then show ?case
    using assms(2) by (fastforce simp: HF_TNODE_HEIGHT_def Let_def split: if_splits option.splits sum.splits)
qed simp

lemma total_value_nonneg: "coins_ok u \<Longrightarrow> 0 \<le> total_value u"
  unfolding total_value_def by (intro sum_nonneg) (auto simp: coins_ok_def coin_ok_def MoneyRange_def)

lemma burnt_nonneg: "tx_checked tx \<Longrightarrow> 0 \<le> burnt tx"
  unfolding burnt_def using GetValueOut_values [of tx]
  by (intro sum_list_nonneg) (auto simp: tx_checked_def MoneyRange_def)

lemma connect_fee:
  assumes "coins_ok u" and "tx_checked tx" and "connectable tx u" and "spends_coins tx" and "inputs_ok h tx u"
    and "0 < h" and "h < 2 ^ 31" and "0 \<le> f" and "f + total_value u < 2 ^ 63"
  defines "f' \<equiv> sint (word_of_int (f + (value_in tx u - value_out tx)) :: u64)"
  shows "0 \<le> f' \<and> total_value (utxo_connect h tx u) + f' \<le> total_value u + f"
proof -
  let ?fee = "value_in tx u - value_out tx"
  have "total_value (utxo_connect h tx u) + ?fee + burnt tx = total_value u"
    using connect_value [OF _ assms(3,4)] assms(1) by (simp add: coins_ok_def)
  moreover have "0 \<le> total_value (utxo_connect h tx u)"
    by (rule total_value_nonneg [OF connect_keeps_coins_ok [OF assms(1,2,6,7)]])
  moreover have "0 \<le> ?fee" using assms(5) by (simp add: inputs_ok_def)
  moreover note burnt_nonneg [OF assms(2)]
  ultimately have "0 \<le> f + ?fee" "f + ?fee < 2 ^ 63" "total_value (utxo_connect h tx u) + ?fee \<le> total_value u"
    using assms(8,9) by auto
  moreover from this have "f' = f + ?fee" unfolding f'_def by (intro sint_word_of_int) auto
  ultimately show ?thesis by simp
qed

lemma coinbase_value:
  assumes "coins_ok u" and "tx_checked tx" and "outputs_free tx u" and "\<not> spends_coins tx"
  shows "total_value (utxo_connect h tx u) \<le> total_value u + value_out tx" and "value_out tx \<le> MAX_MONEY"
proof -
  let ?n = "new_coins (tx_GetHash tx) h (IsCoinBase tx) 0 (vout tx)"
  have n: "finite (dom ?n)" "total_value ?n + burnt tx = value_out tx"
    using new_coins_value [of 0 "vout tx" "tx_GetHash tx" h "IsCoinBase tx"] assms(2)
    by (simp_all add: tx_checked_def value_out_split)
  have "u |` UNIV = u" by (simp add: restrict_map_def)
  moreover have "dom u \<inter> dom ?n = {}"
  proof -
    have "u p = None" if "?n p \<noteq> None" for p
      using that new_coins_dom [of _ h _ 0 _ p] assms(3) by (cases p) (fastforce simp: outputs_free_def dest: spec [of _ "unat (op_n p)"])
    then show ?thesis by auto
  qed
  ultimately have "total_value (utxo_connect h tx u) = total_value u + total_value ?n"
    using assms(1,4) n(1) by (simp add: utxo_connect_def spent_set_def total_value_add coins_ok_def)
  with n(2) burnt_nonneg [OF assms(2)] show "total_value (utxo_connect h tx u) \<le> total_value u + value_out tx" by simp
  show "value_out tx \<le> MAX_MONEY"
    using assms(2) GetValueOut_loop_value [of 0 "vout tx"]
    by (auto simp: tx_checked_def GetValueOut_def value_out_def MoneyRange_def MAX_MONEY_def COIN_def split: if_splits)
qed

lemma block_keeps_coins_ok:
  "coins_ok u \<Longrightarrow> list_all tx_checked vtx \<Longrightarrow> 0 < h \<Longrightarrow> h < 2 ^ 31 \<Longrightarrow> coins_ok (fold (utxo_connect h) vtx u)"
  by (induction vtx arbitrary: u) (simp_all add: connect_keeps_coins_ok)

context coins_view begin

lemma connect_loop_run:
  assumes "cache_inv utxo vok c" and "cache_utxo utxo c = u" and "coins_ok u" and "list_all tx_checked vtx"
    and "list_all (\<lambda>tx. outputs_free tx u) vtx" and "distinct (map tx_GetHash vtx)" and "tx_GetHash ` set vtx \<inter> txIds = {}"
    and "connect_loop V env i txIds vtx f n c = Some (Inr (f', undos, c'))" and "0 < env_height env" and "env_height env < 2 ^ 31"
  shows "cache_inv utxo vok c' \<and> cache_utxo utxo c' = fold (utxo_connect (env_height env)) vtx u \<and>
    undos = (if i > 0 then undos_of (env_height env) vtx u else tl (undos_of (env_height env) vtx u)) \<and>
    connectable_block (env_height env) vtx u \<and> (env_fScriptChecks env \<longrightarrow> block_scripts env vtx u) \<and>
    (list_all spends_coins vtx \<longrightarrow> 0 \<le> f \<longrightarrow> f + total_value u < 2 ^ 63 \<longrightarrow>
      0 \<le> f' \<and> total_value (fold (utxo_connect (env_height env)) vtx u) + f' \<le> total_value u + f)"
  using assms(1-8)
proof (induction vtx arbitrary: c u i txIds f n undos)
  case (Cons tx vtx)
  let ?u = "utxo_connect (env_height env) tx u"
  have "tx_GetHash tx \<notin> txIds" using Cons.prems(7) by simp
  then obtain f1 n1 undo c1 undos1 where s: "connect_tx V env False tx f n c = Some (Inr (f1, n1, undo, c1))"
      "connect_loop V env (Suc i) (insert (tx_GetHash tx) txIds) vtx f1 n1 c1 = Some (Inr (f', undos1, c'))"
      "undos = (if i > 0 then undo # undos1 else undos1)"
    using Cons.prems(8) by (auto simp: Let_def split: option.splits sum.splits)
  have checked: "tx_checked tx" "outputs_free tx u" using Cons.prems(4,5) by simp_all
  note step = connect_tx_accepted [OF Cons.prems(1,2) checked(1) Cons.prems(3) checked(2) s(1)]
  have ok: "coins_ok ?u" by (rule connect_keeps_coins_ok [OF Cons.prems(3) checked(1) assms(9,10)])
  have free: "list_all (\<lambda>tx. outputs_free tx ?u) vtx"
    using Cons.prems(5,6) outputs_free_connect by (fastforce simp: list_all_iff image_iff)
  have rest: "list_all tx_checked vtx" "distinct (map tx_GetHash vtx)" "tx_GetHash ` set vtx \<inter> insert (tx_GetHash tx) txIds = {}"
    using Cons.prems(4,6,7) by auto
  note IH = Cons.IH [OF step(1,2) ok rest(1) free rest(2,3) s(2)]
  have "0 \<le> f' \<and> total_value (fold (utxo_connect (env_height env)) vtx ?u) + f' \<le> total_value u + f"
    if all: "list_all spends_coins (tx # vtx)" "0 \<le> f" "f + total_value u < 2 ^ 63"
  proof -
    have "0 \<le> f1 \<and> total_value ?u + f1 \<le> total_value u + f"
      using connect_fee [OF Cons.prems(3) checked(1) step(4) _ _ assms(9,10) all(2,3)] step(6) all(1) by simp
    with IH all show ?thesis by auto
  qed
  with IH step(3,4,6) s(3) show ?case by simp
qed auto

lemma disconnect_block:
  assumes "connectable_block height vtx u" and "vtx \<noteq> []" and "\<not> spends_coins (hd vtx)"
    and "k \<le> length vtx" and "cache_inv utxo vok c" and "cache_utxo utxo c = fold (utxo_connect height) (take k vtx) u"
  shows "\<exists>c'. disconnect_loop V vtx (tl (undos_of height vtx u)) k fClean c =
      Some (if fClean then DISCONNECT_OK else DISCONNECT_UNCLEAN, c') \<and> cache_inv utxo vok c' \<and> cache_utxo utxo c' = u"
  using assms(4-6)
proof (induction k arbitrary: c)
  case (Suc k)
  let ?u = "fold (utxo_connect height) (take k vtx) u"
  let ?undo = "if k = 0 then None else Some (tl (undos_of height vtx u) ! (k - 1))"
  note nth = block_nth [OF assms(1), of k]
  have "cache_utxo utxo c = utxo_connect height (vtx ! k) ?u"
    using Suc.prems(1,3) by (simp add: take_Suc_conv_app_nth)
  moreover have "?undo = Some (undo_of (vtx ! k) ?u)" if "spends_coins (vtx ! k)"
  proof -
    have "k \<noteq> 0" using that assms(3) by (metis assms(2) hd_conv_nth)
    then show ?thesis using nth(2) Suc.prems(1) by (simp add: nth_tl)
  qed
  ultimately obtain c1 where c1: "undo_transaction V (vtx ! k) ?undo fClean c = Some (Some fClean, c1)"
      "cache_inv utxo vok c1" "cache_utxo utxo c1 = ?u"
    using undo_transaction [OF Suc.prems(2), of height "vtx ! k" ?u ?undo fClean] nth(1) Suc.prems(1) by auto
  with Suc.IH [OF _ c1(2,3)] Suc.prems(1) show ?case by simp
qed simp


lemma connect_coins_accepted:
  assumes "cache_inv utxo vok c" and "connect_coins V env params hashBlock vtx c = Some (Inr (undos, c'))"
  obtains f c0 c1 where "same_coins utxo vok c c0" and "list_all (\<lambda>tx. outputs_free tx (cache_utxo utxo c)) vtx"
    and "connect_loop V env 0 {} vtx 0 0 c0 = Some (Inr (f, undos, c1))" and "c' = SetBestBlock hashBlock c1" and "vtx \<noteq> []"
    and "value_out (hd vtx) \<le> sint (word_of_int (f + GetBlockSubsidy (env_height env) params) :: u64)"
proof -
  obtain hv c0 where b: "bip30_loop V vtx c = (hv, c0)" by fastforce
  note free = bip30 [OF assms(1) b]
  have r: "\<not> hv" using assms(2) b by (auto simp: connect_coins_def split: if_splits)
  then obtain f undos1 c1 where l: "connect_loop V env 0 {} vtx 0 0 c0 = Some (Inr (f, undos1, c1))"
    using assms(2) b by (auto simp: connect_coins_def split: option.splits sum.splits)
  have v: "GetValueOut tx = Some v \<Longrightarrow> v = value_out tx" for tx v
    using GetValueOut_loop_value [of 0 "vout tx"]
    by (auto simp: GetValueOut_def value_out_def MoneyRange_def MAX_MONEY_def COIN_def split: if_splits)
  show thesis
    using assms(2) b l r v free
    by (auto simp: connect_coins_def Let_def not_less split: list.splits option.splits if_splits intro!: that [of c0 f c1])
qed

lemma connect_coins_run:
  assumes "cache_inv utxo vok c" and "coins_ok (cache_utxo utxo c)" and "list_all tx_checked vtx"
    and "connect_coins V env params hashBlock vtx c = Some (Inr (undos, c'))" and "0 < env_height env" and "env_height env < 2 ^ 31"
  shows "cache_inv utxo vok c' \<and> cache_utxo utxo c' = fold (utxo_connect (env_height env)) vtx (cache_utxo utxo c) \<and>
    undos = tl (undos_of (env_height env) vtx (cache_utxo utxo c)) \<and> connectable_block (env_height env) vtx (cache_utxo utxo c) \<and>
    (env_fScriptChecks env \<longrightarrow> block_scripts env vtx (cache_utxo utxo c)) \<and> vtx \<noteq> []"
proof -
  obtain f c0 c1 where r: "same_coins utxo vok c c0" "list_all (\<lambda>tx. outputs_free tx (cache_utxo utxo c)) vtx"
      "connect_loop V env 0 {} vtx 0 0 c0 = Some (Inr (f, undos, c1))" "c' = SetBestBlock hashBlock c1" "vtx \<noteq> []"
    using connect_coins_accepted [OF assms(1,4)] by metis
  have c0: "cache_inv utxo vok c0" "cache_utxo utxo c0 = cache_utxo utxo c" using r(1) by (simp_all add: same_coins_def)
  have d: "distinct (map tx_GetHash vtx)" using connect_loop_distinct [OF r(3)] assms(5) by simp
  show ?thesis
    using connect_loop_run [OF c0 assms(2,3) r(2) d _ r(3) assms(5,6)] r(4,5)
    by (simp add: SetBestBlock_def cache_inv_def cache_utxo_def)
qed

lemma block_supply:
  assumes "cache_inv utxo vok c" and "coins_ok (cache_utxo utxo c)" and "list_all tx_checked (cb # vtx)"
    and "connect_coins V env params hashBlock (cb # vtx) c = Some (Inr (undos, c'))" and "0 < env_height env" and "env_height env < 2 ^ 31"
    and "\<not> spends_coins cb" and "\<not> tx_IsSigmaSpend cb" and "list_all spends_coins vtx"
    and "MoneyRange (total_value (cache_utxo utxo c))" and "MoneyRange (GetBlockSubsidy (env_height env) params)"
  shows "total_value (cache_utxo utxo c') \<le> total_value (cache_utxo utxo c) + GetBlockSubsidy (env_height env) params"
proof -
  let ?h = "env_height env" and ?u = "cache_utxo utxo c"
  let ?u1 = "utxo_connect ?h cb ?u"
  obtain f c0 c1 where r: "same_coins utxo vok c c0" "list_all (\<lambda>tx. outputs_free tx ?u) (cb # vtx)"
      "connect_loop V env 0 {} (cb # vtx) 0 0 c0 = Some (Inr (f, undos, c1))" "c' = SetBestBlock hashBlock c1"
      "value_out cb \<le> sint (word_of_int (f + GetBlockSubsidy ?h params) :: u64)"
    using connect_coins_accepted [OF assms(1,4)] by (metis list.sel(1))
  have c0: "cache_inv utxo vok c0" "cache_utxo utxo c0 = ?u" using r(1) by (simp_all add: same_coins_def)
  obtain f1 n1 undo c2 where s: "connect_tx V env False cb 0 0 c0 = Some (Inr (f1, n1, undo, c2))"
      "connect_loop V env 1 {tx_GetHash cb} vtx f1 n1 c2 = Some (Inr (f, undos, c1))"
    using r(3) by (auto simp: Let_def split: option.splits sum.splits)
  have cb: "tx_checked cb" "outputs_free cb ?u" using assms(3) r(2) by simp_all
  note step = connect_tx_accepted [OF c0 cb(1) assms(2) cb(2) s(1)]
  have d: "distinct (map tx_GetHash (cb # vtx))" using connect_loop_distinct [OF r(3)] assms(5) by simp
  then have free: "list_all (\<lambda>tx. outputs_free tx ?u1) vtx"
    using r(2) outputs_free_connect by (fastforce simp: list_all_iff image_iff)
  have ok: "coins_ok ?u1" by (rule connect_keeps_coins_ok [OF assms(2) cb(1) assms(5,6)])
  have v1: "total_value ?u1 \<le> total_value ?u + value_out cb" "0 \<le> total_value ?u1" "value_out cb \<le> MAX_MONEY"
    using coinbase_value [OF assms(2) cb assms(7)] total_value_nonneg [OF ok] by simp_all
  have "f1 = 0" using step(5) assms(7,8) by simp
  then have run: "cache_utxo utxo c1 = fold (utxo_connect ?h) vtx ?u1" "0 \<le> f"
      "total_value (fold (utxo_connect ?h) vtx ?u1) + f \<le> total_value ?u1"
    using connect_loop_run [OF step(1,2) ok _ free _ _ s(2) assms(5,6)] d assms(3,9,10) v1
    by (auto simp: MoneyRange_def MAX_MONEY_def COIN_def)
  have "0 \<le> total_value (fold (utxo_connect ?h) vtx ?u1)"
    using total_value_nonneg [OF block_keeps_coins_ok [OF ok _ assms(5,6)]] assms(3) by simp
  then have "sint (word_of_int (f + GetBlockSubsidy ?h params) :: u64) = f + GetBlockSubsidy ?h params"
    using run(2,3) v1 assms(10,11) by (intro sint_word_of_int) (auto simp: MoneyRange_def MAX_MONEY_def COIN_def)
  with r(5) run v1 show ?thesis by (simp add: r(4))
qed

end

subsection \<open>A sample block\<close>

text \<open>
  Block 8 of a line of blocks, over the sample coins: a coinbase alone, and a transaction that spends the coin of
  value 9 whose script is \<open>OP_1\<close>.
\<close>

abbreviation block_env :: ConnectEnv where
  "block_env \<equiv> \<lparr>env_heap = line_heap 10 (\<lambda>_. 0) 0, env_pindex = 8, env_height = 8, env_isMainNet = True, env_flags = 0,
     env_nLockTimeFlags = 0, env_fScriptChecks = True, env_Verify = (\<lambda>_ _ _. False), env_LowS = (\<lambda>_. True),
     env_zerocoin_check = (\<lambda>_. True), env_GetSigmaSpendInput = (\<lambda>_. 0)\<rparr>"

abbreviation block_coinbase :: CTransaction where
  "block_coinbase \<equiv> CMutableTransaction_init\<lparr>
     vin := [\<lparr>prevout = COutPoint_null, scriptSig = [OP_1, OP_1], nSequence = 0, prevPubKey = [], scriptWitness = []\<rparr>],
     vout := [\<lparr>nValue = 5, scriptPubKey = [], nRounds = - 10\<rparr>, \<lparr>nValue = 2, scriptPubKey = [], nRounds = - 10\<rparr>]\<rparr>"

lemma coinbase_sigops: "GetSigOpCount [OP_1, OP_1] False = 0" "GetSigOpCount [] False = 0"
  by (simp_all add: GetSigOpCount_ops script_ops.simps sigma_rest_def)

lemma coinbase_form: "IsCoinBase block_coinbase" "\<not> spends_coins block_coinbase" "\<not> tx_IsSigmaSpend block_coinbase" "\<not> tx_IsZerocoinSpend block_coinbase"
   "\<not> tx_IsZerocoinRemint block_coinbase" "\<not> tx_IsZerocoinMint block_coinbase" "\<not> tx_IsSigmaMint block_coinbase"
  by (simp_all add: spends_coins_def IsCoinBase_def CMutableTransaction_init_def COutPoint_IsNull_def COutPoint_null_def list_all_iff 
 tx_IsSigmaSpend_def tx_IsZerocoinSpend_def tx_IsZerocoinMint_def tx_IsSigmaMint_def tx_IsZerocoinRemint_def
 CTxIn_IsSigmaSpend_def CTxIn_IsZerocoinSpend_def CTxIn_IsZerocoinRemint_def starts_with_def IsZerocoinMint_def IsSigmaMint_def)

lemma sample_miss: "op_n p \<noteq> 7 \<Longrightarrow> HaveCoin tip_view p sample_caches = (False, sample_caches)"
  by (auto simp: HaveCoin_def FetchCoin_def cache_view_def GetCoin_def CCoinsViewCache_init_def db_view_def db_GetCoin_def)

lemma coinbase_checked:
  "connectable block_coinbase (cache_utxo tip_utxo sample_caches)"
  "CheckTransaction (\<lambda>_. None) (\<lambda>_. None) 9 block_coinbase True 8 = Accepted" "GetValueOut block_coinbase = Some 7"
proof -
  show "connectable block_coinbase (cache_utxo tip_utxo sample_caches)"
    unfolding sample_caches_ok(2) using coinbase_form(2) by (auto simp: connectable_def CMutableTransaction_init_def less_Suc_eq)
  show "GetValueOut block_coinbase = Some 7"
    by (simp add: GetValueOut_def CMutableTransaction_init_def MoneyRange_def MAX_MONEY_def COIN_def)
  show "CheckTransaction (\<lambda>_. None) (\<lambda>_. None) 9 block_coinbase True 8 = Accepted"
    using coinbase_form
    by (simp add: CheckTransaction_def check_duplicates_def check_input_form_def Let_def
      CMutableTransaction_init_def MAX_BLOCK_BASE_SIZE_def SerializeTransaction_def
      allow_witness_def HasWitness_def Serialize_vector_def WriteCompactSize_length CTxIn_Serialize_def CTxOut_Serialize_def
      COutPoint_Serialize_def COutPoint_null_def Serialize_blob_def ser_writedata32_def ser_writedata64_def GetSizeOfCompactSize_def has_payload_def
      MoneyRange_def MAX_MONEY_def COIN_def TRANSACTION_NORMAL_def)
qed

lemma coinbase_connects:
  "\<exists>undos c. connect_coins tip_view block_env (mainnet_rewards 0) [4] [block_coinbase] sample_caches = Some (Inr (undos, c))"
proof -
  have bip30: "bip30_loop tip_view [block_coinbase] sample_caches = (False, sample_caches)"
    by (simp add: CMutableTransaction_init_def sample_miss)
  obtain undo c where u: "UpdateCoins tip_view block_coinbase 8 sample_caches = Some (undo, c)"
    using tip.update_coins [OF sample_caches_ok(1) coinbase_checked(1)] by blast
  have cost: "GetTransactionSigOpCost tip_view block_coinbase 0 sample_caches = Some (0, sample_caches)"
    using coinbase_form(2) by (simp add: GetTransactionSigOpCost_def GetLegacySigOpCount_def CMutableTransaction_init_def coinbase_sigops)
  have "connect_tx tip_view block_env False block_coinbase 0 0 sample_caches = Some (Inr (0, 0, undo, c))"
    using coinbase_form u by (simp add: connect_tx_def connect_locks_def connect_zerocoin_def connect_inputs_def cost MAX_BLOCK_SIGOPS_COST_def)
  moreover have "GetBlockSubsidy 8 (mainnet_rewards 0) = 11250000000"
    by (simp add: GetBlockSubsidy_def mainnet_rewards_def)
  ultimately show ?thesis
    unfolding connect_coins_def bip30 by (simp add: coinbase_checked(3) Let_def)
qed

lemma eval_true: "EvalScript [] [] 0 checker SIGVERSION_BASE = Inr []" "EvalScript [] [OP_1] 0 checker SIGVERSION_BASE = Inr [[1]]"
  by (simp_all add: EvalScript_def eval_loop.simps eval_step_def sigma_rest_def script_limits disabled_opcode_def
    exec_opcode_def exec_control_def op_push_value_def set_stack_def CScriptNum_serialize_def abs_bytes.simps Let_def)

lemma verify_true: "VerifyScript [] [OP_1] (Some []) 0 checker = Accept ()"
  by (simp add: VerifyScript_def eval_true verify_witness_def verify_p2sh_def verify_clean_def Let_def flag_def)

definition sample_fetched :: "CCoinsViewDB CCoinsViewCache CCoinsViewCache" where
  "sample_fetched = sample_caches\<lparr>
     cc_base := (cc_base sample_caches)\<lparr>cacheCoins := [(\<lparr>op_hash = [1], op_n = 7\<rparr>, \<lparr>ce_coin = sample_coin, ce_flags = 0\<rparr>)]\<rparr>,
     cacheCoins := [(\<lparr>op_hash = [1], op_n = 7\<rparr>, \<lparr>ce_coin = sample_coin, ce_flags = 0\<rparr>)]\<rparr>"

lemma sample_reads:
  "FetchCoin tip_view \<lparr>op_hash = [1], op_n = 7\<rparr> sample_caches = (Some \<lparr>ce_coin = sample_coin, ce_flags = 0\<rparr>, sample_fetched)"
  "FetchCoin tip_view \<lparr>op_hash = [1], op_n = 7\<rparr> sample_fetched = (Some \<lparr>ce_coin = sample_coin, ce_flags = 0\<rparr>, sample_fetched)"
  by (auto simp: FetchCoin_def cache_view_def GetCoin_def CCoinsViewCache_init_def db_view_def db_GetCoin_def sample_fetched_def Let_def)

lemma sample_access:
  "HaveCoin tip_view \<lparr>op_hash = [1], op_n = 7\<rparr> sample_caches = (True, sample_fetched)"
  "HaveCoin tip_view \<lparr>op_hash = [1], op_n = 7\<rparr> sample_fetched = (True, sample_fetched)"
  "AccessCoin tip_view \<lparr>op_hash = [1], op_n = 7\<rparr> sample_fetched = (sample_coin, sample_fetched)"
  by (simp_all add: HaveCoin_def AccessCoin_def sample_reads)

lemma spend_locks: "connect_locks tip_view block_env sample_tx sample_caches = Some (None, sample_fetched)"
proof -
  obtain b c where b: "line_heap 10 (\<lambda>_. 0) 0 8 = Some b" "pprev b = Some 7" "nHeight b = 8" "line_heap 10 (\<lambda>_. 0) 0 7 = Some c"
    by (simp add: line_heap_def)
  obtain T where "GetMedianTimePast (line_heap 10 (\<lambda>_. 0) 0) 7 = Some T" using GetMedianTimePast_defined [OF wf_line_heap b(4)] by blast
  from SequenceLocks_value [OF wf_line_heap b(1,2) this, of "[3]" sample_tx 0]
  have "SequenceLocks sample_tx 0 [3] (line_heap 10 (\<lambda>_. 0) 0) 8 = Some True"
    by (simp add: b(3) CMutableTransaction_init_def)
  then show ?thesis
    using sample_tx_ok(1) by (simp add: connect_locks_def HaveInputs_def CMutableTransaction_init_def sample_access)
qed

lemma spend_inputs_accepted: "connect_inputs tip_view block_env sample_tx 0 sample_fetched = Some (Inr 4, sample_fetched)"
proof -
  have v: "vin sample_tx = [\<lparr>prevout = \<lparr>op_hash = [1], op_n = 7\<rparr>, scriptSig = [], nSequence = 0, prevPubKey = [], scriptWitness = []\<rparr>]"
    by (simp add: CMutableTransaction_init_def)
  have "CheckTxInputs tip_view sample_tx 8 sample_fetched = Some (Accepted, sample_fetched)"
    unfolding CheckTxInputs_def HaveInputs_def v sample_tx_ok(2) using sample_tx_ok(1)
    by (simp add: sample_access MoneyRange_def MAX_MONEY_def COIN_def Let_def)
  moreover have "CScriptCheck_run block_env sample_tx 0 sample_coin"
    unfolding CScriptCheck_run_def v by (simp add: verify_true)
  ultimately have "CheckInputs tip_view block_env sample_tx sample_fetched = Some (Accepted, sample_fetched)"
    unfolding CheckInputs_def v by (simp add: sample_access)
  then show ?thesis
    unfolding connect_inputs_def GetValueIn_def v sample_tx_ok(2) using sample_tx_ok(1) by (simp add: sample_access)
qed

lemma spend_connects:
  "\<exists>undos c. connect_coins tip_view block_env (mainnet_rewards 0) [4] [sample_tx] sample_caches = Some (Inr (undos, c))"
proof -
  have bip30: "bip30_loop tip_view [sample_tx] sample_caches = (False, sample_caches)"
    by (simp add: CMutableTransaction_init_def sample_miss)
  have f: "cache_inv tip_utxo tip_inv sample_fetched" "cache_utxo tip_utxo sample_fetched = cache_utxo tip_utxo sample_caches"
    using tip.have_coin [OF sample_caches_ok(1) sample_access(1)] by auto
  obtain undo c where u: "UpdateCoins tip_view sample_tx 8 sample_fetched = Some (undo, c)"
    using tip.update_coins [OF f(1), of sample_tx 8] sample_tx_connectable unfolding f(2) by blast
  have cost: "GetTransactionSigOpCost tip_view sample_tx 0 sample_fetched = Some (0, sample_fetched)"
    using sample_tx_ok(1) by (simp add: GetTransactionSigOpCost_def GetLegacySigOpCount_def CMutableTransaction_init_def coinbase_sigops
      flag_def CountWitnessSigOps_def sample_access)
  have zc: "connect_zerocoin block_env sample_tx 0 = Some (Inr 0)"
    using sample_tx_ok(1) by (simp add: connect_zerocoin_def spends_coins_def tx_IsZerocoinMint_def tx_IsSigmaMint_def IsZerocoinMint_def
      IsSigmaMint_def CMutableTransaction_init_def)
  have "connect_tx tip_view block_env False sample_tx 0 0 sample_caches = Some (Inr (4, 0, undo, c))"
    unfolding connect_tx_def spend_locks by (simp add: zc cost spend_inputs_accepted u MAX_BLOCK_SIGOPS_COST_def)
  moreover have "GetBlockSubsidy 8 (mainnet_rewards 0) = 11250000000"
    by (simp add: GetBlockSubsidy_def mainnet_rewards_def)
  ultimately show ?thesis
    unfolding connect_coins_def bip30 by (simp add: sample_tx_ok(2) Let_def)
qed

lemma sample_tx_passes: "CheckTransaction (\<lambda>_. None) (\<lambda>_. None) 9 sample_tx True 8 = Accepted"
  using sample_tx_ok(1) plain_tx_ok(2)
  by (simp add: CheckTransaction_def check_duplicates_def check_input_form_def spends_coins_def Let_def
    CMutableTransaction_init_def MAX_BLOCK_BASE_SIZE_def SerializeTransaction_def
    allow_witness_def HasWitness_def Serialize_vector_def WriteCompactSize_length CTxIn_Serialize_def CTxOut_Serialize_def
    COutPoint_Serialize_def COutPoint_IsNull_def Serialize_blob_def ser_writedata32_def ser_writedata64_def GetSizeOfCompactSize_def
    has_payload_def MoneyRange_def MAX_MONEY_def COIN_def TRANSACTION_NORMAL_def)

lemma sample_coins_ok: "coins_ok (cache_utxo tip_utxo sample_caches)" "total_value (cache_utxo tip_utxo sample_caches) = 9"
  unfolding sample_caches_ok(2) by (simp_all add: coins_ok_def coin_ok_def total_value_def MoneyRange_def MAX_MONEY_def COIN_def)

subsection \<open>Properties\<close>

text \<open>
  C1. The money supply grows by at most the block subsidy. When a block is connected whose transactions have passed
  \<open>CheckTransaction\<close>, the first of which spends no coins and the others do, the total value of all unspent outputs
  grows by no more than \<open>GetBlockSubsidy\<close>.
\<close>

theorem block_supply_bounded:
  assumes "cache_inv tip_utxo tip_inv c" and "coins_ok (cache_utxo tip_utxo c)"
    and "list_all (\<lambda>tx. CheckTransaction CheckSigma CheckZerocoin D tx True (env_height env) = Accepted) (cb # vtx)"
    and "connect_coins tip_view env params hashBlock (cb # vtx) c = Some (Inr (undos, c'))"
    and "0 < env_height env" and "env_height env < 2 ^ 31"
    and "\<not> spends_coins cb" and "\<not> tx_IsSigmaSpend cb" and "list_all spends_coins vtx"
    and "MoneyRange (total_value (cache_utxo tip_utxo c))" and "MoneyRange (GetBlockSubsidy (env_height env) params)"
  shows "total_value (cache_utxo tip_utxo c') \<le> total_value (cache_utxo tip_utxo c) + GetBlockSubsidy (env_height env) params"
proof -
  have "list_all tx_checked (cb # vtx)" using assms(3) CheckTransaction_checked by (fastforce simp: list_all_iff)
  then show ?thesis by (rule tip.block_supply [OF assms(1,2) _ assms(4-11)])
qed

theorem block_supply_bounded_witness:
  "\<exists>undos c'. connect_coins tip_view block_env (mainnet_rewards 0) [4] [block_coinbase] sample_caches = Some (Inr (undos, c')) \<and>
    total_value (cache_utxo tip_utxo c') \<le> total_value (cache_utxo tip_utxo sample_caches) + GetBlockSubsidy 8 (mainnet_rewards 0)"
proof -
  obtain undos c' where c: "connect_coins tip_view block_env (mainnet_rewards 0) [4] [block_coinbase] sample_caches = Some (Inr (undos, c'))"
    using coinbase_connects by blast
  have "GetBlockSubsidy 8 (mainnet_rewards 0) = 11250000000" by (simp add: GetBlockSubsidy_def mainnet_rewards_def)
  then have "total_value (cache_utxo tip_utxo c') \<le> total_value (cache_utxo tip_utxo sample_caches) + GetBlockSubsidy (env_height block_env) (mainnet_rewards 0)"
    using block_supply_bounded [OF sample_caches_ok(1) sample_coins_ok(1) _ c, of "\<lambda>_. None" "\<lambda>_. None" 9]
      coinbase_checked(2) coinbase_form(2,3)
    by (simp add: sample_coins_ok(2) MoneyRange_def MAX_MONEY_def COIN_def)
  with c show ?thesis by auto
qed

text \<open>
  C2. Disconnecting a block takes back what connecting it did. When a block whose transactions have passed
  \<open>CheckTransaction\<close> and whose first transaction spends no coins is connected, \<open>DisconnectBlock\<close> with the undo records
  that were produced reports \<open>DISCONNECT_OK\<close> and restores the unspent outputs, through both cache layers. Repeated
  transactions and overwritten outputs cannot occur, because they are refused.
\<close>

theorem connect_disconnect_block:
  assumes "cache_inv tip_utxo tip_inv c" and "coins_ok (cache_utxo tip_utxo c)"
    and "list_all (\<lambda>tx. CheckTransaction CheckSigma CheckZerocoin D tx True (env_height env) = Accepted) vtx"
    and "connect_coins tip_view env params hashBlock vtx c = Some (Inr (undos, c1))"
    and "0 < env_height env" and "env_height env < 2 ^ 31" and "\<not> spends_coins (hd vtx)"
  shows "\<exists>c2. disconnect_coins tip_view vtx undos hashPrev c1 = Some (DISCONNECT_OK, c2) \<and> cache_utxo tip_utxo c2 = cache_utxo tip_utxo c"
proof -
  let ?u = "cache_utxo tip_utxo c"
  have "list_all tx_checked vtx" using assms(3) CheckTransaction_checked by (fastforce simp: list_all_iff)
  note run = tip.connect_coins_run [OF assms(1,2) this assms(4-6)]
  obtain c2 where "disconnect_loop tip_view vtx undos (length vtx) True c1 = Some (DISCONNECT_OK, c2)" "cache_utxo tip_utxo c2 = ?u"
    using tip.disconnect_block [of "env_height env" vtx ?u "length vtx" c1 True] run assms(7) by auto
  moreover have "length undos + 1 = length vtx" using run by (cases vtx) auto
  ultimately show ?thesis by (auto simp: disconnect_coins_def)
qed

theorem connect_disconnect_block_witness:
  "\<exists>undos c1 c2. connect_coins tip_view block_env (mainnet_rewards 0) [4] [block_coinbase] sample_caches = Some (Inr (undos, c1)) \<and>
    disconnect_coins tip_view [block_coinbase] undos [3] c1 = Some (DISCONNECT_OK, c2) \<and>
    cache_utxo tip_utxo c2 = cache_utxo tip_utxo sample_caches"
proof -
  obtain undos c1 where c: "connect_coins tip_view block_env (mainnet_rewards 0) [4] [block_coinbase] sample_caches = Some (Inr (undos, c1))"
    using coinbase_connects by blast
  from connect_disconnect_block [OF sample_caches_ok(1) sample_coins_ok(1) _ c, of "\<lambda>_. None" "\<lambda>_. None" 9 "[3]"]
  show ?thesis using c coinbase_checked(2) coinbase_form(2) by (simp del: connect_loop.simps)
qed

text \<open>
  C3. Every spend of a connected block was authorised. With script checks on, each input of each coin-spending
  transaction was run by \<open>VerifyScript\<close> against the script and the value of the very coin it spends, in the state
  reached before that transaction, and accepted.
\<close>

theorem block_scripts_verified:
  assumes "cache_inv tip_utxo tip_inv c" and "coins_ok (cache_utxo tip_utxo c)"
    and "list_all (\<lambda>tx. CheckTransaction CheckSigma CheckZerocoin D tx True (env_height env) = Accepted) vtx"
    and "connect_coins tip_view env params hashBlock vtx c = Some (Inr (undos, c1))"
    and "0 < env_height env" and "env_height env < 2 ^ 31" and "env_fScriptChecks env"
  shows "block_scripts env vtx (cache_utxo tip_utxo c) \<and>
    cache_utxo tip_utxo c1 = fold (utxo_connect (env_height env)) vtx (cache_utxo tip_utxo c)"
proof -
  have "list_all tx_checked vtx" using assms(3) CheckTransaction_checked by (fastforce simp: list_all_iff)
  with tip.connect_coins_run [OF assms(1,2) this assms(4-6)] assms(7) show ?thesis by simp
qed

theorem block_scripts_verified_witness:
  "CScriptCheck_run block_env sample_tx 0 sample_coin"
proof -
  obtain undos c1 where c: "connect_coins tip_view block_env (mainnet_rewards 0) [4] [sample_tx] sample_caches = Some (Inr (undos, c1))"
    using spend_connects by blast
  have "block_scripts block_env [sample_tx] (cache_utxo tip_utxo sample_caches)"
    using block_scripts_verified [OF sample_caches_ok(1) sample_coins_ok(1) _ c, of "\<lambda>_. None" "\<lambda>_. None" 9] sample_tx_passes by simp
  then have "scripts_ok block_env sample_tx (cache_utxo tip_utxo sample_caches)" using sample_tx_ok(1) by simp
  then show ?thesis unfolding sample_caches_ok(2) by (simp add: scripts_ok_def CMutableTransaction_init_def)
qed

end
