(* ===== verification/Merkle.thy ===== *)
theory Merkle
  imports Transaction
begin

text \<open>
  Merkle trees, from \<^verbatim>\<open>consensus/merkle.cpp\<close>. The root and a branch are computed in constant space, by a loop that
  works like a binary counter; the reference builds the tree level by level. The 32-bit counter does not wrap for
  up to \<open>2\<^sup>3\<^sup>1\<close> leaves, and is a natural number. \<open>fBranch\<close> tells whether the caller asked for a branch.
  \<open>BlockWitnessMerkleRoot\<close> writes the first leaf, so it is called with a nonempty block. The main results are
  that the counter computes the tree, that every branch leads to the root, and that the root commits to the leaves.
\<close>

subsection \<open>Definitions\<close>

abbreviation hash_pair :: "bytes \<Rightarrow> bytes \<Rightarrow> bytes" where
  "hash_pair a b \<equiv> Hash_ranges [a, b]"

text \<open>One step up: the branch and the match flag, then the hash of the two subtrees.\<close>

definition merkle_step ::
  "bool \<Rightarrow> bytes list \<Rightarrow> int \<Rightarrow> nat \<Rightarrow> bytes \<Rightarrow> bool \<Rightarrow> bytes list \<Rightarrow> bytes \<times> bool \<times> bytes list" where
  "merkle_step fBranch inn matchlevel level h matchh branch =
     (let (matchh, branch) =
        (if fBranch then
           (if matchh then (matchh, branch @ [inn ! level])
            else if matchlevel = int level then (True, branch @ [h])
            else (matchh, branch))
         else (matchh, branch))
      in (hash_pair (inn ! level) h, matchh, branch))"

text \<open>
  The loop over the trailing zero bits of \<open>count\<close>. The first two tests only serve termination: a positive
  \<open>count\<close> has a bit set at or below its leading bit.
\<close>

function carry_loop ::
  "bool \<Rightarrow> nat \<Rightarrow> bytes list \<Rightarrow> int \<Rightarrow> nat \<Rightarrow> bytes \<Rightarrow> bool \<Rightarrow> bool \<Rightarrow> bytes list \<Rightarrow> nat \<times> bytes \<times> bool \<times> bool \<times> bytes list" where
  "carry_loop fBranch count inn matchlevel level h matchh mutated branch =
     (if count = 0 \<or> count < 2 ^ level \<or> bit count level then (level, h, matchh, mutated, branch)
      else case merkle_step fBranch inn matchlevel level h matchh branch of (h', matchh, branch) \<Rightarrow>
        carry_loop fBranch count inn matchlevel (level + 1) h' matchh (mutated \<or> inn ! level = h) branch)"
  by pat_completeness auto
termination
proof (relation "measure (\<lambda>(fBranch, count, inn, matchlevel, level, h, matchh, mutated, branch). count - level)", goal_cases)
  case (2 fBranch count inn matchlevel level h matchh mutated branch)
  then have "2 ^ level \<le> count" by (simp add: not_less)
  with less_exp [of level] have "level < count" by (rule less_le_trans)
  then show ?case by simp
qed simp

fun leaves_loop ::
  "bool \<Rightarrow> nat \<Rightarrow> bytes list \<Rightarrow> nat \<Rightarrow> bytes list \<Rightarrow> int \<Rightarrow> bool \<Rightarrow> bytes list \<Rightarrow> nat \<times> bytes list \<times> int \<times> bool \<times> bytes list" where
  "leaves_loop fBranch branchpos [] count inn matchlevel mutated branch = (count, inn, matchlevel, mutated, branch)"
| "leaves_loop fBranch branchpos (h # leaves) count inn matchlevel mutated branch =
     (case carry_loop fBranch (count + 1) inn matchlevel 0 h (count = branchpos) mutated branch of
        (level, h, matchh, mutated, branch) \<Rightarrow>
          leaves_loop fBranch branchpos leaves (count + 1) (inn[level := h]) (if matchh then int level else matchlevel) mutated branch)"

function skip_loop :: "nat \<Rightarrow> nat \<Rightarrow> nat" where
  "skip_loop count level = (if count = 0 \<or> count < 2 ^ level \<or> bit count level then level else skip_loop count (level + 1))"
  by pat_completeness auto
termination
proof (relation "measure (\<lambda>(count, level). count - level)", goal_cases)
  case (2 count level)
  then have "2 ^ level \<le> count" by (simp add: not_less)
  with less_exp [of level] have "level < count" by (rule less_le_trans)
  then show ?case by simp
qed simp

lemma div_up: "n div 2 ^ (k + 1) = n div 2 ^ k div 2" for n :: nat
  by (simp add: div_mult2_eq [symmetric] mult.commute)

text \<open>
  The final sweep: one round of its inner loop while the bit at \<open>level\<close> is clear, and otherwise one of the outer
  loop. The second test of the outer loop only serves termination.
\<close>

function sweep_loop ::
  "bool \<Rightarrow> bytes list \<Rightarrow> int \<Rightarrow> nat \<Rightarrow> nat \<Rightarrow> bytes \<Rightarrow> bool \<Rightarrow> bytes list \<Rightarrow> bytes \<times> bytes list" where
  "sweep_loop fBranch inn matchlevel count level h matchh branch =
     (if count = 2 ^ level \<or> count div 2 ^ level \<le> 1 then (h, branch)
      else if \<not> bit count level then
        (case merkle_step fBranch inn matchlevel level h matchh branch of (h, matchh, branch) \<Rightarrow>
           sweep_loop fBranch inn matchlevel count (level + 1) h matchh branch)
      else sweep_loop fBranch inn matchlevel (count + 2 ^ level) (level + 1) (hash_pair h h) matchh
             (if fBranch \<and> matchh then branch @ [h] else branch))"
  by pat_completeness auto
termination
proof (relation "measure (\<lambda>(fBranch, inn, matchlevel, count, level, h, matchh, branch). count div 2 ^ level)", goal_cases)
  case (2 fBranch inn matchlevel count level h matchh branch)
  then show ?case by (simp add: div_up del: One_nat_def add_Suc_right)
next
  case (3 fBranch inn matchlevel count level h matchh branch)
  have "(count + 2 ^ level) div 2 ^ (level + 1) = (count div 2 ^ level + 1) div 2"
    unfolding div_up by (subst div_add_self2) simp_all
  moreover have "(x + 1) div 2 < x" if "1 < x" for x :: nat using that by arith
  ultimately show ?case using 3 by (simp del: One_nat_def add_Suc_right power_Suc)
qed simp

declare carry_loop.simps [simp del] skip_loop.simps [simp del] sweep_loop.simps [simp del]

definition MerkleComputation :: "bytes list \<Rightarrow> nat \<Rightarrow> bool \<Rightarrow> bytes \<times> bool \<times> bytes list" where
  "MerkleComputation leaves branchpos fBranch =
     (if leaves = [] then (replicate 32 0, False, [])
      else case leaves_loop fBranch branchpos leaves 0 (replicate 32 (replicate 32 0)) (- 1) False [] of
        (count, inn, matchlevel, mutated, branch) \<Rightarrow>
          let level = skip_loop count 0
          in case sweep_loop fBranch inn matchlevel count level (inn ! level) (matchlevel = int level) branch of
               (h, branch) \<Rightarrow> (h, mutated, branch))"

definition ComputeMerkleRoot :: "bytes list \<Rightarrow> bytes \<times> bool" where
  "ComputeMerkleRoot leaves =
     (case MerkleComputation leaves (2 ^ 32 - 1) False of (h, mutated, branch) \<Rightarrow> (h, mutated))"

definition ComputeMerkleBranch :: "bytes list \<Rightarrow> nat \<Rightarrow> bytes list" where
  "ComputeMerkleBranch leaves position = (case MerkleComputation leaves position True of (h, mutated, branch) \<Rightarrow> branch)"

fun ComputeMerkleRootFromBranch :: "bytes \<Rightarrow> bytes list \<Rightarrow> nat \<Rightarrow> bytes" where
  "ComputeMerkleRootFromBranch hash [] nIndex = hash"
| "ComputeMerkleRootFromBranch hash (it # vMerkleBranch) nIndex =
     ComputeMerkleRootFromBranch (if odd nIndex then hash_pair it hash else hash_pair hash it) vMerkleBranch (nIndex div 2)"

definition BlockMerkleRoot :: "CTransaction list \<Rightarrow> bytes \<times> bool" where
  "BlockMerkleRoot vtx = ComputeMerkleRoot (map tx_GetHash vtx)"

definition BlockWitnessMerkleRoot :: "CTransaction list \<Rightarrow> bytes \<times> bool" where
  "BlockWitnessMerkleRoot vtx = ComputeMerkleRoot (replicate 32 0 # map GetWitnessHash (tl vtx))"

definition BlockMerkleBranch :: "CTransaction list \<Rightarrow> nat \<Rightarrow> bytes list" where
  "BlockMerkleBranch vtx position = ComputeMerkleBranch (map tx_GetHash vtx) position"

subsection \<open>The tree, level by level\<close>

fun level_up :: "bytes list \<Rightarrow> bytes list" where
  "level_up [] = []"
| "level_up [a] = [hash_pair a a]"
| "level_up (a # b # xs) = hash_pair a b # level_up xs"

lemma length_level_up: "length (level_up xs) = (length xs + 1) div 2"
  by (induction xs rule: level_up.induct) simp_all

function merkle_root :: "bytes list \<Rightarrow> bytes" where
  "merkle_root xs = (if xs = [] then replicate 32 0 else if length xs = 1 then hd xs else merkle_root (level_up xs))"
  by pat_completeness auto
termination
proof (relation "measure length", goal_cases)
  case (2 xs)
  then have "1 < length xs" by (cases xs) auto
  then show ?case by (simp add: length_level_up)
qed simp

declare merkle_root.simps [simp del]

definition node :: "bytes list \<Rightarrow> nat \<Rightarrow> nat \<Rightarrow> bytes" where
  "node xs k j = (level_up ^^ k) xs ! j"

definition width :: "bytes list \<Rightarrow> nat \<Rightarrow> nat" where
  "width xs k = length ((level_up ^^ k) xs)"

lemma width_Suc: "width xs (Suc k) = (width xs k + 1) div 2"
  by (simp add: width_def length_level_up)

lemma width_ge: "n div 2 ^ k \<le> width xs k" if "n \<le> length xs"
proof (induction k)
  case (Suc k)
  have "n div 2 ^ Suc k = n div 2 ^ k div 2" using div_up [of n k] by simp
  with Suc show ?case unfolding width_Suc by linarith
qed (use that in \<open>simp add: width_def\<close>)

lemma index_width: "pos < length xs \<Longrightarrow> pos div 2 ^ k < width xs k"
proof (induction k)
  case (Suc k)
  have "pos div 2 ^ Suc k = pos div 2 ^ k div 2" using div_up [of pos k] by simp
  with Suc show ?case unfolding width_Suc by linarith
qed (simp add: width_def)

lemma level_up_nth:
  "2 * j < length xs \<Longrightarrow> level_up xs ! j = hash_pair (xs ! (2 * j)) (if 2 * j + 1 < length xs then xs ! (2 * j + 1) else xs ! (2 * j))"
proof (induction xs arbitrary: j rule: level_up.induct)
  case (3 a b xs)
  then show ?case by (cases j) simp_all
qed simp_all

lemma node_up:
  assumes "2 * j < width xs k"
  shows "node xs (Suc k) j = hash_pair (node xs k (2 * j)) (if 2 * j + 1 < width xs k then node xs k (2 * j + 1) else node xs k (2 * j))"
  using level_up_nth [of j "(level_up ^^ k) xs"] assms by (simp add: node_def width_def)

lemma merkle_root_up: "1 < width xs k \<Longrightarrow> merkle_root ((level_up ^^ Suc k) xs) = merkle_root ((level_up ^^ k) xs)"
  using merkle_root.simps [of "(level_up ^^ k) xs"] by (auto simp: width_def)

lemma merkle_root_top: "width xs k = 1 \<Longrightarrow> merkle_root ((level_up ^^ k) xs) = node xs k 0"
  using merkle_root.simps [of "(level_up ^^ k) xs"] by (auto simp: width_def node_def hd_conv_nth)

text \<open>The sibling of the node above leaf \<open>pos\<close>, and the branch below level \<open>k\<close>.\<close>

definition sibling :: "bytes list \<Rightarrow> nat \<Rightarrow> nat \<Rightarrow> bytes" where
  "sibling xs pos k =
     (let j = pos div 2 ^ k in node xs k (if odd j then j - 1 else if j + 1 < width xs k then j + 1 else j))"

definition siblings :: "bytes list \<Rightarrow> nat \<Rightarrow> nat \<Rightarrow> bytes list" where
  "siblings xs pos k = map (sibling xs pos) [0..<k]"

lemma siblings_Suc: "siblings xs pos (Suc k) = siblings xs pos k @ [sibling xs pos k]" "siblings xs pos 0 = []"
  by (simp_all add: siblings_def)

lemma root_from_branch_append:
  "ComputeMerkleRootFromBranch h (as @ bs) n = ComputeMerkleRootFromBranch (ComputeMerkleRootFromBranch h as n) bs (n div 2 ^ length as)"
proof (induction as arbitrary: h n)
  case (Cons a as)
  then show ?case by (simp add: div_mult2_eq)
qed simp

lemma root_from_siblings:
  assumes "pos < length xs"
  shows "ComputeMerkleRootFromBranch (xs ! pos) (siblings xs pos k) pos = node xs k (pos div 2 ^ k)"
proof (induction k)
  case 0
  then show ?case by (simp add: siblings_def node_def)
next
  case (Suc k)
  let ?j = "pos div 2 ^ k"
  have w: "?j < width xs k" by (rule index_width [OF assms])
  have half: "pos div 2 ^ Suc k = ?j div 2" using div_up [of pos k] by simp
  have "node xs (Suc k) (?j div 2) = hash_pair (node xs k (2 * (?j div 2)))
      (if 2 * (?j div 2) + 1 < width xs k then node xs k (2 * (?j div 2) + 1) else node xs k (2 * (?j div 2)))"
    by (rule node_up) (use w in linarith)
  also have "\<dots> = ComputeMerkleRootFromBranch (node xs k ?j) [sibling xs pos k] ?j"
    using w by (cases "even ?j") (auto simp: sibling_def Let_def elim!: evenE oddE)
  finally show ?case
    unfolding siblings_Suc root_from_branch_append Suc.IH half by (simp add: siblings_def)
qed

subsection \<open>The counter\<close>

text \<open>
  A state of the loops: at level \<open>L\<close>, \<open>h\<close> is the node with \<open>m\<close> complete nodes to its left, and for every bit of \<open>m\<close>
  the array holds the last complete node of that level. If the leaf \<open>pos\<close> has been passed, its branch is known up to
  \<open>h\<close> or up to the array entry named by the match level.
\<close>

definition left_ok :: "bytes list \<Rightarrow> bytes list \<Rightarrow> nat \<Rightarrow> nat \<Rightarrow> bool" where
  "left_ok xs inn L m \<longleftrightarrow> (\<forall>i. bit m i \<longrightarrow> inn ! (L + i) = node xs (L + i) (m div 2 ^ i - 1))"

definition match_ok :: "bytes list \<Rightarrow> nat \<Rightarrow> nat \<Rightarrow> nat \<Rightarrow> bool \<Rightarrow> int \<Rightarrow> bytes list \<Rightarrow> bool" where
  "match_ok xs pos L m matchh ml branch \<longleftrightarrow>
     (if (m + 1) * 2 ^ L \<le> pos then \<not> matchh \<and> ml = - 1 \<and> branch = []
      else if pos div 2 ^ L = m then matchh \<and> branch = siblings xs pos L
      else \<not> matchh \<and> (\<exists>i. bit m i \<and> ml = int (L + i) \<and> pos div 2 ^ (L + i) = m div 2 ^ i - 1 \<and> branch = siblings xs pos (L + i)))"

definition cell :: "bytes list \<Rightarrow> bool \<Rightarrow> nat \<Rightarrow> bytes list \<Rightarrow> int \<Rightarrow> nat \<Rightarrow> nat \<Rightarrow> bytes \<Rightarrow> bool \<Rightarrow> bytes list \<Rightarrow> bool" where
  "cell xs fBranch pos inn ml L m h matchh branch \<longleftrightarrow>
     left_ok xs inn L m \<and> h = node xs L m \<and> (fBranch \<longrightarrow> match_ok xs pos L m matchh ml branch)"

lemma div_split: "n div 2 ^ (a + b) = n div 2 ^ a div 2 ^ b" for n :: nat
  by (simp add: power_add div_mult2_eq)

lemma bit_positive: "bit m i \<Longrightarrow> 0 < m div 2 ^ i" for m :: nat
  by (cases "m div 2 ^ i = 0") (simp_all add: bit_iff_odd)

lemma left_up: "left_ok xs inn L m \<Longrightarrow> left_ok xs inn (Suc L) (m div 2)"
  unfolding left_ok_def
proof (intro allI impI)
  fix i
  assume "\<forall>i. bit m i \<longrightarrow> inn ! (L + i) = node xs (L + i) (m div 2 ^ i - 1)" and "bit (m div 2) i"
  moreover from this(2) have "bit m (Suc i)" by (simp add: bit_Suc)
  ultimately show "inn ! (Suc L + i) = node xs (Suc L + i) (m div 2 div 2 ^ i - 1)"
    by (auto simp: div_mult2_eq dest: spec [of _ "Suc i"])
qed

text \<open>The match information one level up: unchanged below another node, extended by the sibling at the leaf's own node.\<close>

lemma match_above:
  assumes "match_ok xs pos L m matchh ml branch" and "pos < (m + 1) * 2 ^ L" and "bit m (Suc i)" and "ml = int (L + Suc i)"
    and "pos div 2 ^ (L + Suc i) = m div 2 ^ Suc i - 1" and "branch = siblings xs pos (L + Suc i)"
  shows "match_ok xs pos (Suc L) (m div 2) False ml branch"
proof -
  have d: "pos div 2 ^ Suc L div 2 ^ i = m div 2 div 2 ^ i - 1" "bit (m div 2) i"
    using assms(3,5) by (simp_all add: div_mult2_eq [symmetric] power_add mult_ac bit_Suc)
  have "pos < (m div 2 + 1) * 2 ^ Suc L"
  proof -
    have "m + 1 \<le> 2 * (m div 2 + 1)" by arith
    then have "(m + 1) * 2 ^ L \<le> 2 * (m div 2 + 1) * 2 ^ L" by (rule mult_right_mono) simp
    with assms(2) show ?thesis by (simp add: mult_ac)
  qed
  moreover have "pos div 2 ^ Suc L \<noteq> m div 2"
    using d bit_positive [OF d(2)] by auto
  moreover have "\<exists>k. bit (m div 2) k \<and> ml = int (Suc L + k) \<and> pos div 2 ^ (Suc L + k) = m div 2 div 2 ^ k - 1 \<and>
      branch = siblings xs pos (Suc L + k)"
    using d assms(4,6) unfolding div_split [of pos "Suc L"] by (intro exI [of _ i]) (simp del: power_Suc)
  ultimately show ?thesis unfolding match_ok_def by (metis not_le)
qed

lemma match_here:
  assumes "pos div 2 ^ Suc L = m div 2" and "pos < (m div 2 + 1) * 2 ^ Suc L" and "branch = siblings xs pos (Suc L)"
  shows "match_ok xs pos (Suc L) (m div 2) True ml branch"
  using assms by (simp add: match_ok_def not_le)

lemma sibling_cases:
  assumes "pos div 2 ^ L = j"
  shows "odd j \<Longrightarrow> sibling xs pos L = node xs L (j - 1)"
    and "even j \<Longrightarrow> j + 1 < width xs L \<Longrightarrow> sibling xs pos L = node xs L (j + 1)"
    and "even j \<Longrightarrow> j + 1 = width xs L \<Longrightarrow> sibling xs pos L = node xs L j"
  using assms by (simp_all add: sibling_def)

lemma odd_up: "odd m \<Longrightarrow> (m div 2 + 1) * 2 ^ Suc L = (m + 1) * 2 ^ L" for m :: nat
  by (auto elim!: oddE)

lemma even_up: "even m \<Longrightarrow> (m div 2 + 1) * 2 ^ Suc L = (m + 1) * 2 ^ L + 2 ^ L" for m :: nat
  by (auto elim!: evenE simp: algebra_simps)

lemma match_cases:
  assumes "match_ok xs pos L m matchh ml branch"
  obtains (ahead) "(m + 1) * 2 ^ L \<le> pos" "\<not> matchh" "ml = - 1" "branch = []"
  | (here) "pos < (m + 1) * 2 ^ L" "pos div 2 ^ L = m" "matchh" "branch = siblings xs pos L"
  | (left) i where "pos < (m + 1) * 2 ^ L" "pos div 2 ^ L \<noteq> m" "\<not> matchh" "bit m i" "ml = int (L + i)"
      "pos div 2 ^ (L + i) = m div 2 ^ i - 1" "branch = siblings xs pos (L + i)"
  using assms unfolding match_ok_def by (auto split: if_splits simp: not_le)

lemma match_join:
  assumes "match_ok xs pos L m matchh ml branch" and "odd m" and "m < width xs L"
    and "inn ! L = node xs L (m - 1)" and "merkle_step True inn ml L (node xs L m) matchh branch = (h', matchh', branch')"
  shows "match_ok xs pos (Suc L) (m div 2) matchh' ml branch'"
  using assms(1)
proof (cases rule: match_cases)
  case ahead
  then show ?thesis
    using assms(5) odd_up [OF assms(2), of L] by (auto simp: merkle_step_def match_ok_def Let_def simp del: power_Suc)
next
  case here
  then have "matchh'" "branch' = siblings xs pos (Suc L)"
    using assms(2,4,5) sibling_cases(1) [OF here(2)] by (auto simp: merkle_step_def Let_def siblings_Suc)
  moreover have "pos div 2 ^ Suc L = m div 2" using here(2) div_up [of pos L] by simp
  moreover have "pos < (m div 2 + 1) * 2 ^ Suc L" using here(1) unfolding odd_up [OF assms(2)] .
  ultimately show ?thesis using match_here by simp
next
  case (left i)
  show ?thesis
  proof (cases i)
    case 0
    have d: "pos div 2 ^ L = m - 1" "even (m - 1)" "m - 1 + 1 = m" using left(6) 0 assms(2) by (auto elim!: oddE)
    then have "matchh'" "branch' = siblings xs pos (Suc L)"
      using assms(3,5) left 0 sibling_cases(2) [OF d(1), of xs] by (auto simp: merkle_step_def Let_def siblings_Suc)
    moreover have "pos div 2 ^ Suc L = m div 2" using d div_up [of pos L] assms(2) by (auto elim!: oddE)
    moreover have "pos < (m div 2 + 1) * 2 ^ Suc L" using left(1) unfolding odd_up [OF assms(2)] .
    ultimately show ?thesis using match_here by simp
  next
    case (Suc k)
    then have "\<not> matchh'" "branch' = branch" using assms(5) left by (auto simp: merkle_step_def Let_def)
    then show ?thesis using match_above [OF assms(1) left(1), of k] left Suc by simp
  qed
qed

lemma match_dup:
  assumes "match_ok xs pos L m matchh ml branch" and "even m" and "m + 1 = width xs L" and "pos < (m + 1) * 2 ^ L"
  shows "match_ok xs pos (Suc L) (m div 2) matchh ml (if matchh then branch @ [node xs L m] else branch)"
  using assms(1)
proof (cases rule: match_cases)
  case ahead
  then show ?thesis using assms(4) by simp
next
  case here
  have "pos div 2 ^ Suc L = m div 2" using here(2) div_up [of pos L] by simp
  moreover have "pos < (m div 2 + 1) * 2 ^ Suc L" using here(1) unfolding even_up [OF assms(2)] by simp
  moreover have "branch @ [node xs L m] = siblings xs pos (Suc L)"
    using here(4) sibling_cases(3) [OF here(2) assms(2,3)] by (simp add: siblings_Suc)
  ultimately show ?thesis using match_here here(3) by simp
next
  case (left i)
  with assms(2) obtain k where "i = Suc k" by (cases i) (auto simp: bit_0)
  then show ?thesis using match_above [OF assms(1) left(1), of k] left by simp
qed

lemma cell_join:
  assumes "cell xs fBranch pos inn ml L m h matchh branch" and "odd m" and "m < width xs L"
    and "merkle_step fBranch inn ml L h matchh branch = (h', matchh', branch')"
  shows "inn ! L = node xs L (m - 1)" and "cell xs fBranch pos inn ml (Suc L) (m div 2) h' matchh' branch'"
proof -
  from assms(1) have c: "left_ok xs inn L m" "h = node xs L m" "fBranch \<Longrightarrow> match_ok xs pos L m matchh ml branch"
    by (auto simp: cell_def)
  from c(1) assms(2) show inn: "inn ! L = node xs L (m - 1)"
    unfolding left_ok_def by (auto simp: bit_0 dest: spec [of _ 0])
  have "h' = hash_pair (inn ! L) h" using assms(4) by (auto simp: merkle_step_def Let_def split: if_splits prod.splits)
  moreover have "node xs (Suc L) (m div 2) = hash_pair (node xs L (m - 1)) (node xs L m)"
    using node_up [of "m div 2" xs L] assms(2,3) by (auto elim!: oddE)
  moreover have "match_ok xs pos (Suc L) (m div 2) matchh' ml branch'" if fBranch
    using match_join [OF c(3) assms(2,3) inn] assms(4) that c(2) by simp
  ultimately show "cell xs fBranch pos inn ml (Suc L) (m div 2) h' matchh' branch'"
    using left_up [OF c(1)] c(2) inn unfolding cell_def by simp
qed

lemma cell_dup:
  assumes "cell xs fBranch pos inn ml L m h matchh branch" and "even m" and "m + 1 = width xs L"
    and "fBranch \<Longrightarrow> pos < (m + 1) * 2 ^ L"
  shows "cell xs fBranch pos inn ml (Suc L) (m div 2) (hash_pair h h) matchh (if fBranch \<and> matchh then branch @ [h] else branch)"
  using assms match_dup [of xs pos L m matchh ml branch] node_up [of "m div 2" xs L] left_up [of xs inn L m]
  by (auto simp: cell_def)

subsection \<open>The loops\<close>

text \<open>The last node of a level, counted in leaves: the bits of \<open>(m + 1) * 2 ^ L\<close> for an even \<open>m\<close>.\<close>

lemma count_bit: "bit ((m + 1) * 2 ^ L) L \<longleftrightarrow> even m" for m :: nat
  by (simp add: bit_iff_odd)

lemma count_bits:
  fixes m :: nat
  assumes "even m" and "c = (m + 1) * 2 ^ L"
  shows "bit c i \<longleftrightarrow> i = L \<or> (\<exists>k. i = L + Suc k \<and> bit m (Suc k))" and "c div 2 ^ L = m + 1"
    and "c div 2 ^ (L + Suc k) = m div 2 ^ Suc k"
proof -
  show d: "c div 2 ^ L = m + 1" using assms(2) by simp
  have s: "(m + 1) div 2 ^ Suc k = m div 2 ^ Suc k" for k
    using assms(1) by (auto elim!: evenE simp: div_mult2_eq)
  show u: "c div 2 ^ (L + Suc k) = m div 2 ^ Suc k" for k
    unfolding div_split [of c L "Suc k"] d by (rule s)
  consider "i < L" | "i = L" | k where "i = L + Suc k"
    by (metis less_iff_Suc_add linorder_neqE_nat add_Suc_right)
  then show "bit c i \<longleftrightarrow> i = L \<or> (\<exists>k. i = L + Suc k \<and> bit m (Suc k))"
  proof cases
    case 1
    then obtain d where "L = i + Suc d" by (metis less_iff_Suc_add add_Suc_right)
    then have "c = (m + 1) * 2 * 2 ^ d * 2 ^ i" using assms(2) by (simp add: power_add algebra_simps)
    then show ?thesis using 1 by (simp add: bit_iff_odd del: mult_Suc)
  next
    case 2
    then show ?thesis using assms by (simp add: bit_iff_odd)
  next
    case 3
    then show ?thesis using u [of k] by (simp add: bit_iff_odd del: power_Suc)
  qed
qed

text \<open>Two equal neighbouring complete subtrees, joined when leaf number \<open>n\<close> was added.\<close>

definition twins :: "bytes list \<Rightarrow> nat \<Rightarrow> nat \<Rightarrow> bool" where
  "twins xs L n \<longleftrightarrow> (\<exists>k j. L \<le> k \<and> (2 * j + 2) * 2 ^ k = n \<and> node xs k (2 * j) = node xs k (2 * j + 1))"

lemma twins_stop: "even m \<Longrightarrow> \<not> twins xs L ((m + 1) * 2 ^ L)"
proof
  assume "even m" "twins xs L ((m + 1) * 2 ^ L)"
  then obtain k j where k: "L \<le> k" "(2 * j + 2) * 2 ^ k = (m + 1) * 2 ^ L" by (auto simp: twins_def)
  then obtain d where "k = L + d" by (metis le_iff_add)
  with k(2) have "(2 * j + 2) * 2 ^ d * 2 ^ L = (m + 1) * 2 ^ L" by (simp add: power_add algebra_simps)
  then have "(2 * j + 2) * 2 ^ d = m + 1" by (metis mult_right_cancel power_not_zero zero_neq_numeral)
  then have "even (m + 1)" by (metis dvd_mult2 dvd_add dvd_triv_left dvd_refl)
  with \<open>even m\<close> show False by simp
qed

lemma twins_up:
  assumes "odd m"
  shows "twins xs L ((m + 1) * 2 ^ L) \<longleftrightarrow> node xs L (m - 1) = node xs L m \<or> twins xs (Suc L) ((m + 1) * 2 ^ L)"
proof -
  have "(2 * j + 2) * 2 ^ L = (m + 1) * 2 ^ L \<longleftrightarrow> j = m div 2" for j
    using assms by (auto elim!: oddE)
  moreover have "2 * (m div 2) = m - 1" "2 * (m div 2) + 1 = m" using assms by (auto elim!: oddE)
  ultimately show ?thesis
    unfolding twins_def by (metis le_eq_less_or_eq Suc_le_eq order_refl Suc_leD)
qed

lemma carry_loop_cell:
  assumes "cell xs fBranch pos inn ml L m h matchh branch" and "count = (m + 1) * 2 ^ L" and "m < width xs L"
    and "carry_loop fBranch count inn ml L h matchh mutated branch = (L', h', matchh', mutated', branch')"
  shows "\<exists>m'. even m' \<and> count = (m' + 1) * 2 ^ L' \<and> cell xs fBranch pos inn ml L' m' h' matchh' branch'"
    and "mutated' \<longleftrightarrow> mutated \<or> twins xs L count"
proof -
  have "(\<exists>m'. even m' \<and> count = (m' + 1) * 2 ^ L' \<and> cell xs fBranch pos inn ml L' m' h' matchh' branch') \<and>
      (mutated' \<longleftrightarrow> mutated \<or> twins xs L count)"
    using assms
  proof (induction fBranch count inn ml L h matchh mutated branch arbitrary: m rule: carry_loop.induct)
    case (1 fBranch count inn ml L h matchh mutated branch)
    show ?case
    proof (cases "even m")
      case True
      then have "bit count L" using 1(3) count_bit [of m L] by simp
      then have "(L', h', matchh', mutated', branch') = (L, h, matchh, mutated, branch)"
        using 1(5) by (simp add: carry_loop.simps)
      then show ?thesis using True 1(2,3) twins_stop [OF True, of xs L] by auto
    next
      case False
      obtain h2 matchh2 branch2 where st: "merkle_step fBranch inn ml L h matchh branch = (h2, matchh2, branch2)"
        by (metis prod_cases3)
      have go: "\<not> (count = 0 \<or> count < 2 ^ L \<or> bit count L)" using 1(3) False count_bit [of m L] by simp
      note join = cell_join [OF 1(2) False 1(4) st]
      have r: "carry_loop fBranch count inn ml (L + 1) h2 matchh2 (mutated \<or> inn ! L = h) branch2 = (L', h', matchh', mutated', branch')"
        using 1(5) go st by (simp add: carry_loop.simps [of _ count _ _ L])
      have "m div 2 < width xs (L + 1)" using 1(4) width_Suc [of xs L] by simp
      moreover have "count = (m div 2 + 1) * 2 ^ (L + 1)" using 1(3) odd_up [OF False, of L] by simp
      moreover have "h = node xs L m" using 1(2) by (simp add: cell_def)
      ultimately show ?thesis
        using 1(1) [OF go st [symmetric] refl, of "m div 2"] join r twins_up [OF False, of xs L] 1(3) by auto
    qed
  qed
  then show "\<exists>m'. even m' \<and> count = (m' + 1) * 2 ^ L' \<and> cell xs fBranch pos inn ml L' m' h' matchh' branch'"
    and "mutated' \<longleftrightarrow> mutated \<or> twins xs L count" by auto
qed

text \<open>Storing the result of the carry in the array, and reading it back at the start of the sweep.\<close>

lemma left_store:
  assumes "left_ok xs inn L m" and "even m" and "c = (m + 1) * 2 ^ L" and "L < length inn"
  shows "left_ok xs (inn[L := node xs L m]) 0 c"
  unfolding left_ok_def
proof (intro allI impI)
  fix i
  assume "bit c i"
  then consider "i = L" | k where "i = L + Suc k" "bit m (Suc k)" using count_bits(1) [OF assms(2,3)] by blast
  then show "inn[L := node xs L m] ! (0 + i) = node xs (0 + i) (c div 2 ^ i - 1)"
  proof cases
    case 1
    then show ?thesis using assms(4) count_bits(2) [OF assms(2,3)] by simp
  next
    case 2
    then show ?thesis using assms(1) count_bits(3) [OF assms(2,3), of k] by (auto simp: left_ok_def simp del: power_Suc dest: spec [of _ "Suc k"])
  qed
qed

lemma match_store:
  assumes "match_ok xs pos L m matchh ml branch" and "even m" and "c = (m + 1) * 2 ^ L"
  shows "match_ok xs pos 0 c (c = pos) (if matchh then int L else ml) branch"
  using assms(1)
proof (cases rule: match_cases)
  case ahead
  then show ?thesis using assms(3) by (auto simp: match_ok_def siblings_def)
next
  case here
  have "bit c L" "pos div 2 ^ L = c div 2 ^ L - 1" "pos < c" using here count_bits [OF assms(2,3)] assms(3) by auto
  then show ?thesis using here by (auto simp: match_ok_def intro!: exI [of _ L])
next
  case (left i)
  with assms(2) obtain k where "i = Suc k" by (cases i) (auto simp: bit_0)
  with left have "bit c (L + i)" "pos div 2 ^ (L + i) = c div 2 ^ (L + i) - 1" "pos < c"
    using count_bits(1) [OF assms(2,3)] count_bits(3) [OF assms(2,3), of k] assms(3) by (auto simp del: power_Suc)
  then show ?thesis using left by (auto simp: match_ok_def intro!: exI [of _ "L + i"])
qed

lemma cell_store:
  assumes "cell xs fBranch pos inn ml L m h matchh branch" and "even m" and "c = (m + 1) * 2 ^ L" and "L < length inn"
  shows "cell xs fBranch pos (inn[L := h]) (if matchh then int L else ml) 0 c (node xs 0 c) (c = pos) branch"
  using assms left_store [of xs inn L m c] match_store [of xs pos L m matchh ml branch c] by (auto simp: cell_def)

lemma left_load:
  assumes "left_ok xs inn 0 c" and "even m" and "c = (m + 1) * 2 ^ L"
  shows "left_ok xs inn L m" and "inn ! L = node xs L m"
proof -
  from assms(1) have all: "bit c i \<Longrightarrow> inn ! i = node xs i (c div 2 ^ i - 1)" for i by (auto simp: left_ok_def)
  show "inn ! L = node xs L m" using all [of L] count_bits [OF assms(2,3)] by simp
  show "left_ok xs inn L m"
    unfolding left_ok_def
  proof (intro allI impI)
    fix i
    assume b: "bit m i"
    with assms(2) obtain k where "i = Suc k" by (cases i) (auto simp: bit_0)
    with b show "inn ! (L + i) = node xs (L + i) (m div 2 ^ i - 1)"
      using all [of "L + i"] count_bits(1) [OF assms(2,3)] count_bits(3) [OF assms(2,3), of k] by (auto simp del: power_Suc)
  qed
qed

lemma match_load:
  assumes "match_ok xs pos 0 c matchh ml branch" and "pos < c" and "even m" and "c = (m + 1) * 2 ^ L"
  shows "match_ok xs pos L m (ml = int L) ml branch"
proof -
  from assms(1,2) obtain i where i: "bit c i" "ml = int i" "pos div 2 ^ i = c div 2 ^ i - 1" "branch = siblings xs pos i"
    by (auto simp: match_ok_def)
  have p: "\<not> (m + 1) * 2 ^ L \<le> pos" using assms(2,4) by simp
  from i(1) consider "i = L" | k where "i = L + Suc k" "bit m (Suc k)" using count_bits(1) [OF assms(3,4)] by blast
  then show ?thesis
  proof cases
    case 1
    then show ?thesis using i p count_bits(2) [OF assms(3,4)] by (simp add: match_ok_def)
  next
    case 2
    then have d: "pos div 2 ^ (L + Suc k) = m div 2 ^ Suc k - 1" using i(3) count_bits(3) [OF assms(3,4), of k] by simp
    then have "pos div 2 ^ L \<noteq> m"
      using bit_positive [OF 2(2)] unfolding div_split by auto
    then show ?thesis using 2 i d p unfolding match_ok_def by auto
  qed
qed

lemma cell_load:
  assumes "cell xs fBranch pos inn ml 0 c h matchh branch" and "fBranch \<Longrightarrow> pos < c" and "even m" and "c = (m + 1) * 2 ^ L"
  shows "cell xs fBranch pos inn ml L m (inn ! L) (ml = int L) branch"
  using assms left_load [of xs inn c m L] match_load [of xs pos c matchh ml branch m L] by (auto simp: cell_def)

lemma skip_loop_level:
  "c = n * 2 ^ L \<Longrightarrow> 0 < n \<Longrightarrow> \<exists>m. even m \<and> c = (m + 1) * 2 ^ skip_loop c L"
proof (induction c L arbitrary: n rule: skip_loop.induct)
  case (1 c L)
  from 1(3) obtain m where m: "n = m + 1" by (cases n) auto
  show ?case
  proof (cases "even m")
    case True
    then have "bit c L" using 1(2) m count_bit [of m L] by simp
    then have "skip_loop c L = L" by (simp add: skip_loop.simps)
    with True 1(2) m show ?thesis by auto
  next
    case False
    then have go: "\<not> (c = 0 \<or> c < 2 ^ L \<or> bit c L)" using 1(2) m count_bit [of m L] by simp
    have "c = (m div 2 + 1) * 2 ^ (L + 1)" using 1(2) m odd_up [OF False, of L] by simp
    from 1(1) [OF go this] go show ?thesis by (simp add: skip_loop.simps [of c L])
  qed
qed

lemma two_pow_le: "c = (m + 1) * 2 ^ L \<Longrightarrow> c \<le> 2 ^ n \<Longrightarrow> L \<le> n" for m :: nat
proof -
  assume "c = (m + 1) * 2 ^ L" "c \<le> 2 ^ n"
  then have "2 ^ L \<le> c" by simp
  from this \<open>c \<le> 2 ^ n\<close> have "(2 :: nat) ^ L \<le> 2 ^ n" by (rule le_trans)
  then show ?thesis by (rule power_le_imp_le_exp [rotated]) simp
qed

lemma leaves_loop_cell:
  assumes "cell xs fBranch pos inn ml 0 c (node xs 0 c) (c = pos) branch" and "length inn = 32" and "leaves = drop c xs"
    and "c \<le> length xs" and "length xs \<le> 2 ^ 31"
    and "leaves_loop fBranch pos leaves c inn ml mutated branch = (c', inn', ml', mutated', branch')"
  shows "c' = length xs \<and> cell xs fBranch pos inn' ml' 0 c' (node xs 0 c') (c' = pos) branch' \<and>
    (mutated' \<longleftrightarrow> mutated \<or> (\<exists>n. c < n \<and> n \<le> length xs \<and> twins xs 0 n))"
  using assms
proof (induction leaves arbitrary: c inn ml mutated branch)
  case Nil
  then show ?case by auto
next
  case (Cons h leaves)
  from Cons.prems(3) have c: "c < length xs" by (metis drop_all list.discI not_le)
  have "h # leaves = xs ! c # drop (Suc c) xs" unfolding Cons.prems(3) by (simp add: Cons_nth_drop_Suc c)
  then have h: "h = node xs 0 c" "leaves = drop (c + 1) xs" by (simp_all add: node_def)
  obtain L h2 matchh2 mutated2 branch2 where
    cl: "carry_loop fBranch (c + 1) inn ml 0 h (c = pos) mutated branch = (L, h2, matchh2, mutated2, branch2)"
    by (metis prod_cases5)
  have w: "c < width xs 0" using c by (simp add: width_def)
  have c1: "cell xs fBranch pos inn ml 0 c h (c = pos) branch" using Cons.prems(1) h(1) by simp
  note carry = carry_loop_cell [OF c1 _ w cl]
  obtain m where m: "even m" "c + 1 = (m + 1) * 2 ^ L" "cell xs fBranch pos inn ml L m h2 matchh2 branch2"
    using carry(1) by auto
  have "L < 32" using two_pow_le [OF m(2), of 31] c Cons.prems(5) by simp
  then have "cell xs fBranch pos (inn[L := h2]) (if matchh2 then int L else ml) 0 (c + 1) (node xs 0 (c + 1)) (c + 1 = pos) branch2"
    using cell_store [OF m(3,1,2)] Cons.prems(2) by simp
  moreover have "leaves_loop fBranch pos leaves (c + 1) (inn[L := h2]) (if matchh2 then int L else ml) mutated2 branch2
      = (c', inn', ml', mutated', branch')"
    using Cons.prems(6) cl by simp
  ultimately have IH: "c' = length xs \<and> cell xs fBranch pos inn' ml' 0 c' (node xs 0 c') (c' = pos) branch' \<and>
      (mutated' \<longleftrightarrow> mutated2 \<or> (\<exists>n. c + 1 < n \<and> n \<le> length xs \<and> twins xs 0 n))"
    by (intro Cons.IH [OF _ _ h(2) _ Cons.prems(5)]) (use Cons.prems(2) c in simp_all)
  moreover have "mutated2 \<longleftrightarrow> mutated \<or> twins xs 0 (c + 1)" using carry(2) by simp
  moreover have "(\<exists>n. c < n \<and> n \<le> length xs \<and> twins xs 0 n) \<longleftrightarrow>
      twins xs 0 (c + 1) \<or> (\<exists>n. c + 1 < n \<and> n \<le> length xs \<and> twins xs 0 n)"
    using c by (metis Suc_eq_plus1 Suc_leI Suc_lessI lessI less_trans)
  ultimately show ?case by blast
qed

lemma sweep_loop_cell:
  assumes "cell xs fBranch pos inn ml L m h matchh branch" and "count = (m + 1) * 2 ^ L" and "m + 1 = width xs L"
    and "fBranch \<Longrightarrow> pos < length xs"
  shows "\<exists>K branch'. sweep_loop fBranch inn ml count L h matchh branch = (merkle_root ((level_up ^^ L) xs), branch') \<and>
    (fBranch \<longrightarrow> width xs K = 1 \<and> branch' = siblings xs pos K \<and> merkle_root ((level_up ^^ L) xs) = node xs K 0)"
  using assms
proof (induction fBranch inn ml count L h matchh branch arbitrary: m rule: sweep_loop.induct)
  case (1 fBranch inn ml count L h matchh branch)
  have p: "pos < (m + 1) * 2 ^ L" if fBranch
    using index_width [OF 1(6) [OF that], of L] 1(5) by (simp add: div_less_iff_less_mult)
  show ?case
  proof (cases "m = 0")
    case True
    then have "width xs L = 1" "count = 2 ^ L" using 1(4,5) by auto
    moreover have "h = node xs L 0" using 1(3) True by (simp add: cell_def)
    moreover have "branch = siblings xs pos L" if fBranch
      using 1(3) True p [OF that] that by (auto simp: cell_def match_ok_def)
    moreover from calculation(2) have "sweep_loop fBranch inn ml count L h matchh branch = (h, branch)"
      by (simp add: sweep_loop.simps)
    ultimately show ?thesis using merkle_root_top [of xs L] by auto
  next
    case False
    have go: "\<not> (count = 2 ^ L \<or> count div 2 ^ L \<le> 1)" using 1(4) False by simp
    have up: "merkle_root ((level_up ^^ (L + 1)) xs) = merkle_root ((level_up ^^ L) xs)"
      using merkle_root_up [of xs L] False 1(5) by simp
    have w: "m div 2 + 1 = width xs (L + 1)" using 1(5) width_Suc [of xs L] by simp
    show ?thesis
    proof (cases "even m")
      case True
      then have b: "bit count L" using 1(4) count_bit [of m L] by simp
      have "count + 2 ^ L = (m div 2 + 1) * 2 ^ (L + 1)" using 1(4) even_up [OF True, of L] by simp
      from 1(2) [OF go _ _ this w 1(6)] cell_dup [OF 1(3) True 1(5) p] b go up show ?thesis
        by (simp add: sweep_loop.simps [of _ _ _ count L])
    next
      case odd: False
      then have b: "\<not> bit count L" using 1(4) count_bit [of m L] by simp
      obtain h2 matchh2 branch2 where st: "merkle_step fBranch inn ml L h matchh branch = (h2, matchh2, branch2)"
        by (metis prod_cases3)
      have "count = (m div 2 + 1) * 2 ^ (L + 1)" using 1(4) odd_up [OF odd, of L] by simp
      from 1(1) [OF go b st [symmetric] refl _ this w 1(6)] cell_join(2) [OF 1(3) odd _ st] 1(5) b go up st show ?thesis
        by (simp add: sweep_loop.simps [of _ _ _ count L])
    qed
  qed
qed

subsection \<open>The computation\<close>

lemma full_levels:
  "0 < n \<Longrightarrow> length xs = n * 2 ^ L \<Longrightarrow> width xs L = n \<and> merkle_root ((level_up ^^ L) xs) = merkle_root xs"
proof (induction L arbitrary: n)
  case (Suc L)
  then have "width xs L = 2 * n \<and> merkle_root ((level_up ^^ L) xs) = merkle_root xs" by simp
  then show ?case using width_Suc [of xs L] merkle_root_up [of xs L] Suc.prems(1) by simp
qed (simp add: width_def)

text \<open>Two neighbouring complete subtrees, covering \<open>2 ^ k\<close> leaves each and not the result of a duplication, have the same hash.\<close>

definition duplicated :: "bytes list \<Rightarrow> bool" where
  "duplicated xs \<longleftrightarrow> (\<exists>k j. (2 * j + 2) * 2 ^ k \<le> length xs \<and> node xs k (2 * j) = node xs k (2 * j + 1))"

lemma duplicated_twins: "duplicated xs \<longleftrightarrow> (\<exists>n. 0 < n \<and> n \<le> length xs \<and> twins xs 0 n)"
proof
  assume "duplicated xs"
  then obtain k j where "(2 * j + 2) * 2 ^ k \<le> length xs" "node xs k (2 * j) = node xs k (2 * j + 1)"
    by (auto simp: duplicated_def)
  then show "\<exists>n. 0 < n \<and> n \<le> length xs \<and> twins xs 0 n"
    unfolding twins_def by (intro exI [of _ "(2 * j + 2) * 2 ^ k"]) auto
next
  assume "\<exists>n. 0 < n \<and> n \<le> length xs \<and> twins xs 0 n"
  then show "duplicated xs" unfolding duplicated_def twins_def by blast
qed

lemma cell_start: "cell xs fBranch pos inn (- 1) 0 0 (node xs 0 0) (0 = pos) []"
  by (auto simp: cell_def left_ok_def match_ok_def siblings_def)

lemma MerkleComputation_tree:
  assumes "xs \<noteq> []" and "length xs \<le> 2 ^ 31" and "fBranch \<Longrightarrow> pos < length xs"
  shows "\<exists>K branch. MerkleComputation xs pos fBranch = (merkle_root xs, duplicated xs, branch) \<and>
    (fBranch \<longrightarrow> width xs K = 1 \<and> branch = siblings xs pos K \<and> merkle_root xs = node xs K 0)"
proof -
  obtain c inn ml mutated branch where
    ll: "leaves_loop fBranch pos xs 0 (replicate 32 (replicate 32 0)) (- 1) False [] = (c, inn, ml, mutated, branch)"
    by (metis prod_cases5)
  have "c = length xs \<and> cell xs fBranch pos inn ml 0 c (node xs 0 c) (c = pos) branch \<and>
      (mutated \<longleftrightarrow> False \<or> (\<exists>n. 0 < n \<and> n \<le> length xs \<and> twins xs 0 n))"
    by (rule leaves_loop_cell [OF cell_start _ _ _ assms(2) ll]) simp_all
  then have c: "c = length xs" "cell xs fBranch pos inn ml 0 c (node xs 0 c) (c = pos) branch" "mutated = duplicated xs"
    by (auto simp: duplicated_twins)
  define L where "L = skip_loop c 0"
  obtain m where m: "even m" "c = (m + 1) * 2 ^ L"
    using skip_loop_level [of c c 0] c(1) assms(1) unfolding L_def by auto
  have full: "width xs L = m + 1" "merkle_root ((level_up ^^ L) xs) = merkle_root xs"
    using full_levels [of "m + 1" xs L] m(2) c(1) by simp_all
  have "cell xs fBranch pos inn ml L m (inn ! L) (ml = int L) branch"
    by (rule cell_load [OF c(2) _ m]) (use assms(3) c(1) in simp)
  from sweep_loop_cell [OF this m(2)] full assms(3) ll c(3) assms(1) show ?thesis
    unfolding MerkleComputation_def L_def by (auto simp: Let_def)
qed

subsection \<open>The root commits to the leaves\<close>

text \<open>The pairs that are hashed in the tree.\<close>

definition right_child :: "bytes list \<Rightarrow> nat \<Rightarrow> nat \<Rightarrow> bytes" where
  "right_child xs k j = node xs k (if 2 * j + 1 < width xs k then 2 * j + 1 else 2 * j)"

definition hashed_pairs :: "bytes list \<Rightarrow> (bytes \<times> bytes) set" where
  "hashed_pairs xs = {(node xs k (2 * j), right_child xs k j) | k j. 2 * j < width xs k \<and> 1 < width xs k}"

definition collision :: "(bytes \<times> bytes) set \<Rightarrow> bool" where
  "collision S \<longleftrightarrow> (\<exists>(a, b) \<in> S. \<exists>(c, d) \<in> S. (a, b) \<noteq> (c, d) \<and> hash_pair a b = hash_pair c d)"

lemma children_eq:
  assumes "node xs (Suc k) i = node ys (Suc k) j" and "\<not> collision (hashed_pairs xs \<union> hashed_pairs ys)"
    and "2 * i < width xs k" and "1 < width xs k" and "2 * j < width ys k" and "1 < width ys k"
  shows "node xs k (2 * i) = node ys k (2 * j)" and "right_child xs k i = right_child ys k j"
proof -
  have "(node xs k (2 * i), right_child xs k i) \<in> hashed_pairs xs \<union> hashed_pairs ys"
    and "(node ys k (2 * j), right_child ys k j) \<in> hashed_pairs xs \<union> hashed_pairs ys"
    using assms(3-6) by (auto simp: hashed_pairs_def)
  moreover have "hash_pair (node xs k (2 * i)) (right_child xs k i) = hash_pair (node ys k (2 * j)) (right_child ys k j)"
    using assms(1) node_up [OF assms(3)] node_up [OF assms(5)] unfolding right_child_def by (simp only: if_distrib)
  ultimately have "(node xs k (2 * i), right_child xs k i) = (node ys k (2 * j), right_child ys k j)"
    using assms(2) unfolding collision_def by blast
  then show "node xs k (2 * i) = node ys k (2 * j)" and "right_child xs k i = right_child ys k j" by simp_all
qed

lemma width_leaves: "j < width xs k \<Longrightarrow> j * 2 ^ k < length xs"
proof (induction k arbitrary: j)
  case (Suc k)
  then have "2 * j < width xs k" by (simp add: width_Suc)
  from Suc.IH [OF this] show ?case by (simp add: mult_ac)
qed (simp add: width_def)

lemma width_bounds:
  assumes "length xs \<le> 2 ^ K" and "2 ^ K < 2 * length xs"
  shows "k \<le> K \<Longrightarrow> 0 < width xs k \<and> width xs k \<le> 2 ^ (K - k)" and "k < K \<Longrightarrow> 1 < width xs k"
proof -
  show "k \<le> K \<Longrightarrow> 0 < width xs k \<and> width xs k \<le> 2 ^ (K - k)"
  proof (induction k)
    case (Suc k)
    then have "(2 :: nat) ^ (K - k) = 2 * 2 ^ (K - Suc k)" by (metis Suc_diff_Suc Suc_le_lessD power_Suc)
    with Suc show ?case unfolding width_Suc by (simp, linarith)
  qed (use assms in \<open>auto simp: width_def\<close>)
  assume "k < K"
  then obtain d where "K = k + Suc d" by (metis less_iff_Suc_add add_Suc_right)
  then have "2 ^ d * 2 ^ k < length xs" using assms(2) by (simp add: power_add mult.commute)
  also have "length xs \<le> width xs k * 2 ^ k"
    using index_width [of "width xs k * 2 ^ k" xs k] by (rule_tac ccontr) simp
  finally have "2 ^ d < width xs k" by simp
  then show "1 < width xs k" by (metis One_nat_def less_le_trans less_one not_le one_le_numeral one_le_power)
qed

lemma root_node:
  assumes "length xs \<le> 2 ^ K" and "2 ^ K < 2 * length xs"
  shows "merkle_root xs = node xs K 0" and "width xs K = 1"
proof -
  have "k \<le> K \<Longrightarrow> merkle_root ((level_up ^^ k) xs) = merkle_root xs" for k
  proof (induction k)
    case (Suc k)
    then show ?case using merkle_root_up [OF width_bounds(2) [OF assms, of k]] by simp
  qed simp
  moreover show "width xs K = 1" using width_bounds(1) [OF assms, of K] by simp
  ultimately show "merkle_root xs = node xs K 0" using merkle_root_top [of xs K] by simp
qed

text \<open>An incomplete last node equals no other of its level, unless complete neighbours below are equal.\<close>

lemma incomplete_unique:
  assumes "\<not> collision (hashed_pairs xs)" and "\<not> duplicated xs"
  shows "a < b \<Longrightarrow> b < width xs k \<Longrightarrow> length xs < (b + 1) * 2 ^ k \<Longrightarrow> node xs k a \<noteq> node xs k b"
proof (induction k arbitrary: a b)
  case 0
  then show ?case by (simp add: width_def)
next
  case (Suc k)
  have w: "2 * b < width xs k" "2 * a + 1 < width xs k" using Suc.prems(1,2) by (auto simp: width_Suc)
  show ?case
  proof
    assume eq: "node xs (Suc k) a = node xs (Suc k) b"
    have ch: "node xs k (2 * a) = node xs k (2 * b)" "node xs k (2 * a + 1) = right_child xs k b"
      using children_eq [OF eq] assms(1) w by (auto simp: right_child_def)
    show False
    proof (cases "2 * b + 1 < width xs k")
      case True
      have "length xs < (2 * b + 1 + 1) * 2 ^ k" using Suc.prems(3) by (simp add: algebra_simps)
      from Suc.IH [OF _ True this, of "2 * a + 1"] ch(2) True Suc.prems(1) show False by (simp add: right_child_def)
    next
      case False
      have "(2 * a + 2) * 2 ^ k \<le> b * 2 ^ Suc k"
        using Suc.prems(1) mult_le_mono1 [of "2 * a + 2" "2 * b" "2 ^ k"] by (simp add: mult_ac)
      also have "\<dots> \<le> length xs" using width_leaves [OF Suc.prems(2)] by simp
      finally have "node xs k (2 * a) \<noteq> node xs k (2 * a + 1)" using assms(2) unfolding duplicated_def by blast
      with ch False show False by (simp add: right_child_def)
    qed
  qed
qed

lemma neighbours_differ:
  assumes "\<not> collision (hashed_pairs xs)" and "\<not> duplicated xs" and "2 * j + 1 < width xs k"
  shows "node xs k (2 * j) \<noteq> node xs k (2 * j + 1)"
proof (cases "(2 * j + 2) * 2 ^ k \<le> length xs")
  case True
  with assms(2) show ?thesis unfolding duplicated_def by blast
next
  case False
  then show ?thesis using incomplete_unique [OF assms(1,2) _ assms(3), of "2 * j"] by simp
qed

lemma collision_mono: "\<not> collision (S \<union> T) \<Longrightarrow> \<not> collision S" "\<not> collision (S \<union> T) \<Longrightarrow> \<not> collision T"
  by (auto simp: collision_def)

lemma width_not_less:
  assumes "(level_up ^^ Suc k) xs = (level_up ^^ Suc k) ys" and "\<not> collision (hashed_pairs xs \<union> hashed_pairs ys)"
    and "\<not> duplicated ys" and "1 < width xs k" and "1 < width ys k"
  shows "\<not> width xs k < width ys k"
proof
  assume lt: "width xs k < width ys k"
  have "width xs (Suc k) = width ys (Suc k)" using assms(1) unfolding width_def by simp
  with lt obtain j where j: "width xs k = 2 * j + 1" "width ys k = 2 * j + 2"
    unfolding width_Suc by (atomize_elim, intro exI [of _ "width xs k div 2"]) arith
  have "node xs (Suc k) j = node ys (Suc k) j" using assms(1) unfolding node_def by simp
  note ch = children_eq [OF this assms(2)]
  have "node ys k (2 * j) = node ys k (2 * j + 1)" using ch j assms(4) by (simp add: right_child_def)
  with neighbours_differ [OF collision_mono(2) [OF assms(2)] assms(3), of j k] j show False by simp
qed

lemma level_down:
  assumes "(level_up ^^ Suc k) xs = (level_up ^^ Suc k) ys" and "\<not> collision (hashed_pairs xs \<union> hashed_pairs ys)"
    and "\<not> duplicated xs" and "\<not> duplicated ys" and "1 < width xs k" and "1 < width ys k"
  shows "(level_up ^^ k) xs = (level_up ^^ k) ys"
proof (rule nth_equalityI)
  have w: "width xs k = width ys k"
    using width_not_less [OF assms(1,2,4-6)] width_not_less [OF assms(1) [symmetric] _ assms(3,6,5)] assms(2)
    by (simp add: Un_commute)
  then show "length ((level_up ^^ k) xs) = length ((level_up ^^ k) ys)" by (simp add: width_def)
  fix i
  assume "i < length ((level_up ^^ k) xs)"
  then have i: "i < width xs k" "2 * (i div 2) < width xs k" by (auto simp: width_def)
  have "node xs (Suc k) (i div 2) = node ys (Suc k) (i div 2)" using assms(1) unfolding node_def by simp
  note ch = children_eq [OF this assms(2) i(2) assms(5) _ assms(6)]
  show "(level_up ^^ k) xs ! i = (level_up ^^ k) ys ! i"
    using ch i w unfolding node_def [symmetric] by (cases "even i") (auto simp: right_child_def elim!: evenE oddE)
qed

lemma leaves_equal:
  assumes "merkle_root xs = merkle_root ys" and "\<not> collision (hashed_pairs xs \<union> hashed_pairs ys)"
    and "\<not> duplicated xs" and "\<not> duplicated ys"
    and xs: "length xs \<le> 2 ^ K" "2 ^ K < 2 * length xs" and ys: "length ys \<le> 2 ^ K" "2 ^ K < 2 * length ys"
  shows "xs = ys"
proof -
  have top: "(level_up ^^ K) xs = (level_up ^^ K) ys"
    using assms(1) root_node [OF xs] root_node [OF ys]
    by (auto simp: node_def width_def length_Suc_conv)
  have "k \<le> K \<Longrightarrow> (level_up ^^ (K - k)) xs = (level_up ^^ (K - k)) ys" for k
  proof (induction k)
    case (Suc k)
    then have "(level_up ^^ Suc (K - Suc k)) xs = (level_up ^^ Suc (K - Suc k)) ys" by (simp add: Suc_diff_Suc)
    then show ?case using level_down [OF _ assms(2-4)] width_bounds(2) [OF xs] width_bounds(2) [OF ys] Suc.prems by simp
  qed (use top in simp)
  from this [of K] show ?thesis by simp
qed

lemma root_computed:
  "xs \<noteq> [] \<Longrightarrow> length xs \<le> 2 ^ 31 \<Longrightarrow> ComputeMerkleRoot xs = (merkle_root xs, duplicated xs)"
  using MerkleComputation_tree [of xs False "2 ^ 32 - 1"] by (auto simp: ComputeMerkleRoot_def)

subsection \<open>Properties\<close>

text \<open>
  C15. The constant-space computation of the Merkle root is the level-by-level tree: for up to \<open>2\<^sup>3\<^sup>1\<close> leaves
  \<open>ComputeMerkleRoot\<close> returns the root of the tree in which an odd level repeats its last node, and reports a mutation
  exactly if two neighbouring complete subtrees of the same size have the same hash.
\<close>

theorem ComputeMerkleRoot_correct:
  assumes "length xs \<le> 2 ^ 31"
  shows "ComputeMerkleRoot xs = (merkle_root xs, duplicated xs)"
proof (cases "xs = []")
  case True
  then show ?thesis
    by (auto simp: ComputeMerkleRoot_def MerkleComputation_def merkle_root.simps duplicated_def)
next
  case False
  then show ?thesis using assms by (rule root_computed)
qed

theorem ComputeMerkleRoot_correct_witness:
  "ComputeMerkleRoot [[1], [2], [2]] = (hash_pair (hash_pair [1] [2]) (hash_pair [2] [2]), duplicated [[1], [2], [2]])"
  using ComputeMerkleRoot_correct [of "[[1], [2], [2]]"] by (simp add: merkle_root.simps)

text \<open>
  C16. Every branch proves its leaf: the branch that \<open>ComputeMerkleBranch\<close> returns for a position, folded over the leaf at
  that position by \<open>ComputeMerkleRootFromBranch\<close>, gives the root that \<open>ComputeMerkleRoot\<close> computes.
\<close>

theorem merkle_branch_roundtrip:
  assumes "pos < length xs" and "length xs \<le> 2 ^ 31"
  shows "ComputeMerkleRootFromBranch (xs ! pos) (ComputeMerkleBranch xs pos) pos = fst (ComputeMerkleRoot xs)"
proof -
  from assms(1) have ne: "xs \<noteq> []" by auto
  obtain K where K: "width xs K = 1" "ComputeMerkleBranch xs pos = siblings xs pos K" "merkle_root xs = node xs K 0"
    using MerkleComputation_tree [OF ne assms(2), of True pos] assms(1) by (auto simp: ComputeMerkleBranch_def)
  have "pos div 2 ^ K = 0" using index_width [OF assms(1), of K] K(1) by simp
  then show ?thesis using root_from_siblings [OF assms(1), of K] K root_computed [OF ne assms(2)] by simp
qed

theorem merkle_branch_roundtrip_witness:
  "ComputeMerkleRootFromBranch [3] (ComputeMerkleBranch [[1], [2], [3]] 2) 2 = fst (ComputeMerkleRoot [[1], [2], [3]])"
  using merkle_branch_roundtrip [of 2 "[[1], [2], [3]]"] by simp

text \<open>
  C5. The root commits to the leaves: two different lists of leaves whose trees have the same height have different roots,
  or one of them is reported as mutated, or the two trees contain a collision of the hash function. In particular no
  block can be changed by repeating transactions without the change of the root being seen or reported.
\<close>

theorem merkle_root_commits:
  assumes "xs \<noteq> ys" and "length xs \<le> 2 ^ K" "2 ^ K < 2 * length xs" and "length ys \<le> 2 ^ K" "2 ^ K < 2 * length ys" and "K \<le> 31"
  shows "fst (ComputeMerkleRoot xs) \<noteq> fst (ComputeMerkleRoot ys) \<or> snd (ComputeMerkleRoot xs) \<or> snd (ComputeMerkleRoot ys) \<or>
    collision (hashed_pairs xs \<union> hashed_pairs ys)"
proof -
  have le: "(2 :: nat) ^ K \<le> 2 ^ 31" using assms(6) by (intro power_increasing) simp_all
  have "ComputeMerkleRoot zs = (merkle_root zs, duplicated zs)" if "length zs \<le> 2 ^ K" "2 ^ K < 2 * length zs" for zs
    using that le_trans [OF that(1) le] by (intro root_computed) auto
  then show ?thesis using leaves_equal [of xs ys K] assms(1-5) by fastforce
qed

theorem merkle_root_commits_witness:
  "let xs = [[1], [2], [3]]; ys = [[1], [2], [3], [3]] in
     fst (ComputeMerkleRoot xs) \<noteq> fst (ComputeMerkleRoot ys) \<or> snd (ComputeMerkleRoot xs) \<or> snd (ComputeMerkleRoot ys) \<or>
     collision (hashed_pairs xs \<union> hashed_pairs ys)"
  using merkle_root_commits [of "[[1], [2], [3]]" "[[1], [2], [3], [3]]" 2] by (simp add: Let_def)

end
