(* ===== verification/Spec2Isabelle.thy ===== *)
theory Spec2Isabelle
  imports Pow Version_Bits Connect_Block Merkle
begin

text \<open>
  A verification development for the consensus core of the node, the C++ sources under \<^verbatim>\<open>src/src/\<close>. It models what
  decides whether a block is valid and what a valid block does: difficulty targets and the block tree, the hash
  functions and the wire formats, the script language, the set of unspent outputs with its caches, the checks of a
  transaction, and the transaction loop of \<open>ConnectBlock\<close> with its inverse in \<open>DisconnectBlock\<close>.

  \<^bold>\<open>Conventions.\<close> Fixed-width integers are machine words (\<open>u8\<close>, \<open>u32\<close>, \<open>u64\<close>) or integers with the bounds
  of the type written out; \<^verbatim>\<open>uint256\<close> blobs and \<^verbatim>\<open>std::vector<unsigned char>\<close> are byte lists. A pointer is an optional key
  into an explicit heap. Exceptions, failed assertions and early returns are values of a sum or option type. A loop
  whose end depends on the heap is a partial function, and the theorems about it show that it returns. All other
  loops are total recursive functions, so no fuel is used anywhere. Definitions keep the names of the sources.

  \<^bold>\<open>Words and targets.\<close>
  \<^descr> \<open>Prelude\<close>: types, rewrite collections and generic lemmas.
  \<^descr> \<open>Arith_Uint256\<close>: the limb arrays of \<^verbatim>\<open>arith_uint256.h/.cpp\<close>; every operator computes the number it should modulo
    the width.
  \<^descr> \<open>Compact_Target\<close>: \<open>SetCompact\<close> and \<open>GetCompact\<close> of the same file; encoding and decoding targets.

  \<^bold>\<open>Block tree and difficulty.\<close>
  \<^descr> \<open>Chain_Index\<close>: \<^verbatim>\<open>CBlockIndex\<close> of \<^verbatim>\<open>chain.h/.cpp\<close> with skip pointers and \<open>AddToBlockIndex\<close> of \<^verbatim>\<open>validation.cpp\<close>. The
    locale \<open>ancestor_tree\<close> is what clients need of a tree: ancestors as iterated parents. It is interpreted on the heap.
    Adding a header creates one entry, linked to its predecessor, with its height, skip pointer, work and largest time.
  \<^descr> \<open>Active_Chain\<close>: \<^verbatim>\<open>CChain\<close> (tip changes, forks, locators) and median time past.
  \<^descr> \<open>Pow\<close>: \<^verbatim>\<open>pow.cpp\<close> and the contextual header check. While the retarget product fits 256 bits the required
    target is the described one and can be met; near the limit of the main network the product wraps, even to target 0.
  \<^descr> \<open>Version_Bits\<close>: \<^verbatim>\<open>versionbits.cpp\<close>; the cached state machine is a period-by-period recursion, that of BIP9 when the
    start time is not after the timeout; active and failed are final, activation is earned, and the timeout decides.

  \<^bold>\<open>Bytes, hashes and formats.\<close>
  \<^descr> \<open>Byte_Order\<close>: \<^verbatim>\<open>crypto/common.h\<close>.
  \<^descr> \<open>Hash_Block\<close>, \<open>Hash_Rounds\<close>, \<open>Sha1\<close>, \<open>Sha256\<close>, \<open>Sha512\<close>, \<open>Ripemd160\<close>, \<open>Hashes\<close>: the hashers of \<^verbatim>\<open>crypto/\<close> and
    \<^verbatim>\<open>hash.h\<close>. The locale \<open>block_hash\<close> is the buffered writer over a compression function, interpreted for all four; the
    unrolled compression functions equal the standards' rounds.
  \<^descr> \<open>Serialize\<close>: \<^verbatim>\<open>serialize.h\<close>. The locale \<open>codec\<close> is a writer with a reader that inverts it in front of any stream;
    it is interpreted for the integers, compact sizes, variable-length integers and byte vectors, and in \<open>Transaction\<close>
    for outpoints, inputs and outputs.
  \<^descr> \<open>Merkle\<close>: \<^verbatim>\<open>consensus/merkle.cpp\<close>. The constant-space counter computes the level-by-level tree, branches lead to
    the root, and the root commits to the leaves up to reported duplications and hash collisions.

  \<^bold>\<open>Scripts.\<close>
  \<^descr> \<open>Script_Num\<close>, \<open>Script\<close>: \<^verbatim>\<open>script/script.h/.cpp\<close>; number encodings, decoding of opcodes and \<open>FindAndDelete\<close>.
  \<^descr> \<open>Interpreter\<close>: \<open>EvalScript\<close> of \<^verbatim>\<open>script/interpreter.cpp\<close>, every opcode. Signature, lock time and sequence checks are
    the fields of a checker record, as in the source.
  \<^descr> \<open>Script_Machine\<close>, \<open>Multisig\<close>: the invariants of the machine, what an accepted script looks like, and the greedy
    matching of \<^verbatim>\<open>OP_CHECKMULTISIG\<close>.
  \<^descr> \<open>Verify_Script\<close>: \<open>VerifyScript\<close> and \<open>VerifyWitnessProgram\<close>; when the standard forms are spent, and that
    unspendable outputs never are.
  \<^descr> \<open>Transaction\<close>: \<^verbatim>\<open>primitives/transaction.h/.cpp\<close>; formats, hashes and classification.
  \<^descr> \<open>Signature_Hash\<close>: both signature hashes and the transaction checker. ECDSA verification is a parameter.

  \<^bold>\<open>Coins and blocks.\<close>
  \<^descr> \<open>Money\<close>: \<^verbatim>\<open>amount.h/.cpp\<close> and the reward functions of \<^verbatim>\<open>validation.cpp\<close>.
  \<^descr> \<open>Coins\<close>: \<^verbatim>\<open>coins.h/.cpp\<close> and \<^verbatim>\<open>txdb.cpp\<close>. The locale \<open>coins_view\<close> is the contract of a backing store; it is
    interpreted for the database, for the cache over it, and for a cache over that cache. All layers together refine one
    map of unspent outputs.
  \<^descr> \<open>Tx_Checks\<close>: the checks \<^verbatim>\<open>validation.cpp\<close> makes on one transaction: form, finality, BIP 68 locks and
    signature-operation cost.
  \<^descr> \<open>Connect_Coins\<close>, \<open>Coin_Value\<close>: \<open>CheckTxInputs\<close>, \<open>UpdateCoins\<close>, \<open>ApplyTxInUndo\<close> and the coins part of
    \<open>DisconnectBlock\<close>; accepted spends, conservation of value, and undoing.
  \<^descr> \<open>Connect_Block\<close>: the transaction loop of \<open>ConnectBlock\<close>. A block creates at most its subsidy, every input was
    accepted by \<open>VerifyScript\<close>, and disconnecting restores the outputs.

  \<^bold>\<open>Bounds.\<close> Byte vectors have at most \<^verbatim>\<open>MAX_SIZE\<close> entries where a theorem reads them back, as the reader demands. Merkle
  trees have at most \<open>2\<^sup>3\<^sup>1\<close> leaves, beyond which the counter of the source wraps; a block has far fewer. Sums of amounts
  are kept in range by the money checks of the source, and the theorems show that they do not wrap.

  \<^bold>\<open>Parameters.\<close> ECDSA verification, the verification of the memory-hard proof of work, the hash of a block header, and the
  zerocoin and sigma checks are arguments of the definitions that call them. The database is the map that its batches
  write.

  \<^bold>\<open>Not modelled.\<close> Disk files, indexes and chain selection (\<open>ActivateBestChain\<close>), the memory pool, mining, the peer
  protocol with its filtered and compact blocks, wallets and keys, the zero-knowledge protocols, masternodes, quorums
  and the spork services, the asset layer, the user interfaces, and the bundled libraries. They are I/O around the
  modelled checks, local policy, or libraries that the modelled code only calls. Text output and floating-point
  priorities of the modelled classes are left out as well, as are the compressed form of coins in the database, failing
  database writes, the script-check queue and the signature cache: script checks run where they are queued.
\<close>

end
